(* ===== verification/Prelude.thy ===== *)
theory Prelude
  imports Main
begin

text \<open>
  Generic facts and collections the component theories share: the optional-field
  operators \<open>??\<close> and \<open>||=\<close>, facts about \<open>Array.prototype.find\<close> and about loops that
  return the first defined value, and the two fact collections \<open>gate_defs\<close> and
  \<open>decision_defs\<close> the component proofs unfold. A \<open>Result<T>\<close> of the code
  (\<open>{ ok: true, value }\<close> or \<open>{ ok: false, reason }\<close>) is a sum: \<open>Inr value\<close> or
  \<open>Inl reason\<close>.
\<close>

named_theorems gate_defs "definitions of the shape predicates of the session gates"
named_theorems decision_defs "definitions of the permission decision constructors"

subsection \<open>Optional values\<close>

text \<open>
  A field or a result that may be \<open>undefined\<close> is an \<open>option\<close>. \<open>a ?? b\<close> keeps
  \<open>a\<close> when it is defined.
\<close>

fun coalesce :: "'a option \<Rightarrow> 'a \<Rightarrow> 'a" where
  "coalesce (Some x) _ = x"
| "coalesce None d = d"

fun or_else :: "'a option \<Rightarrow> 'a option \<Rightarrow> 'a option" where
  "or_else (Some x) _ = Some x"
| "or_else None y = y"

lemma or_else_None [simp]: "or_else x None = x"
  by (cases x) auto

lemma or_else_eq_None [simp]: "or_else x y = None \<longleftrightarrow> x = None \<and> y = None"
  by (cases x) auto

lemma or_else_assoc: "or_else (or_else x y) z = or_else x (or_else y z)"
  by (cases x) auto

subsection \<open>First hit of a list\<close>

text \<open>
  Most of the decision code is "the first rule that matches": \<open>List.find\<close>, and
  \<open>first_some\<close> for a loop that returns the first defined value.
\<close>

fun first_some :: "('a \<Rightarrow> 'b option) \<Rightarrow> 'a list \<Rightarrow> 'b option" where
  "first_some f [] = None"
| "first_some f (x # xs) = (case f x of Some y \<Rightarrow> Some y | None \<Rightarrow> first_some f xs)"

lemma first_some_None_iff [simp]:
  "first_some f xs = None \<longleftrightarrow> (\<forall>x \<in> set xs. f x = None)"
  by (induction xs) (auto split: option.splits)

lemma first_some_SomeD:
  "first_some f xs = Some y \<Longrightarrow> \<exists>x \<in> set xs. f x = Some y"
  by (induction xs) (auto split: option.splits)

lemma find_is_Some_iff: "(\<exists>y. List.find P xs = Some y) \<longleftrightarrow> (\<exists>x \<in> set xs. P x)"
  by (metis find_None_iff not_None_eq)

lemma find_SomeD: "List.find P xs = Some x \<Longrightarrow> P x \<and> x \<in> set xs"
  by (induction xs) (auto split: if_splits)

lemma find_None_filter: "List.find P xs = None \<longleftrightarrow> filter P xs = []"
  by (induction xs) auto

lemma find_ne_NoneI: "x \<in> set xs \<Longrightarrow> P x \<Longrightarrow> List.find P xs \<noteq> None"
  by (auto simp: find_None_iff)

lemma find_eq_None_imp: "List.find P xs = None \<Longrightarrow> x \<in> set xs \<Longrightarrow> \<not> P x"
  by (auto simp: find_None_iff)

lemma find_filter: "List.find P (filter Q xs) = List.find (\<lambda>x. Q x \<and> P x) xs"
  by (induction xs) auto

subsection \<open>Sets\<close>

lemma disjoint_via_insert: "A \<subseteq> insert x B \<Longrightarrow> x \<notin> E \<Longrightarrow> B \<inter> E = {} \<Longrightarrow> A \<inter> E = {}"
  by blast

end
