(* ===== verification/JsValues.thy ===== *)
theory JsValues
  imports Prelude
begin

text \<open>
  The dynamic values (\<open>unknown\<close>) the session code receives and checks, and
  \<open>materializeJson\<close> of \<open>packages/core/session/src/snapshot.ts\<close>, which copies a value and
  refuses whatever JSON cannot carry.
\<close>

subsection \<open>Numbers\<close>

text \<open>
  A double is an integer, negative zero, a non-integral fraction \<open>NFrac m k\<close> (standing for
  \<open>m / 2 ^ k\<close> in lowest terms with \<open>k > 0\<close>), NaN, or an infinity (\<open>NInf True\<close> is positive).
\<close>

datatype jsnum = NInt int | NNegZero | NFrac int nat | NNaN | NInf bool

fun num_finite :: "jsnum \<Rightarrow> bool" where
  "num_finite NNaN = False"
| "num_finite (NInf _) = False"
| "num_finite _ = True"

definition max_safe :: int where
  "max_safe = 2 ^ 53 - 1"

fun num_safe_integer :: "jsnum \<Rightarrow> bool" where
  "num_safe_integer (NInt i) = (\<bar>i\<bar> \<le> max_safe)"
| "num_safe_integer NNegZero = True"
| "num_safe_integer _ = False"

fun num_negative :: "jsnum \<Rightarrow> bool" where
  \<comment> \<open>\<open>x < 0\<close>\<close>
  "num_negative (NInt i) = (i < 0)"
| "num_negative NNegZero = False"
| "num_negative (NFrac m _) = (m < 0)"
| "num_negative NNaN = False"
| "num_negative (NInf pos) = (\<not> pos)"

fun num_equals_int :: "jsnum \<Rightarrow> int \<Rightarrow> bool" where
  \<comment> \<open>\<open>x === i\<close>; negative zero equals zero\<close>
  "num_equals_int (NInt j) i = (j = i)"
| "num_equals_int NNegZero i = (i = 0)"
| "num_equals_int _ i = False"

subsection \<open>Values\<close>

text \<open>
  \<open>JObj\<close> is a plain object (its own enumerable string keys in order), \<open>JInst\<close> an object with
  another prototype or with symbol keys, \<open>JArr\<close> a dense array, \<open>JSparse\<close> an array whose
  number of own keys differs from its length, \<open>JFun\<close> a function and \<open>JPrim\<close> a symbol or a
  bigint.
\<close>

datatype jsval =
    JUndef
  | JNull
  | JBool bool
  | JNum jsnum
  | JStr string
  | JArr "jsval list"
  | JObj "(string \<times> jsval) list"
  | JSparse
  | JInst "(string \<times> jsval) list"
  | JFun
  | JPrim

fun own_fields :: "jsval \<Rightarrow> (string \<times> jsval) list" where
  "own_fields (JObj kvs) = kvs"
| "own_fields (JInst kvs) = kvs"
| "own_fields _ = []"

definition field :: "jsval \<Rightarrow> string \<Rightarrow> jsval" where
  "field v k = (case map_of (own_fields v) k of Some w \<Rightarrow> w | None \<Rightarrow> JUndef)"

definition has_own :: "jsval \<Rightarrow> string \<Rightarrow> bool" where
  "has_own v k = (map_of (own_fields v) k \<noteq> None)"

subsection \<open>materializeJson\<close>

text \<open>\<open>None\<close> is the exception \<open>not-json\<close>.\<close>

fun materializeJson :: "jsval \<Rightarrow> jsval option"
  and materialize_items :: "jsval list \<Rightarrow> jsval list option"
  and materialize_fields :: "(string \<times> jsval) list \<Rightarrow> (string \<times> jsval) list option" where
  "materializeJson JNull = Some JNull"
| "materializeJson (JStr s) = Some (JStr s)"
| "materializeJson (JBool b) = Some (JBool b)"
| "materializeJson (JNum n) = (if num_finite n \<and> n \<noteq> NNegZero then Some (JNum n) else None)"
| "materializeJson (JArr vs) = map_option JArr (materialize_items vs)"
| "materializeJson (JObj kvs) = map_option JObj (materialize_fields kvs)"
| "materializeJson _ = None"
| "materialize_items [] = Some []"
| "materialize_items (v # vs) =
     (case materializeJson v of
        None \<Rightarrow> None
      | Some w \<Rightarrow> map_option ((#) w) (materialize_items vs))"
| "materialize_fields [] = Some []"
| "materialize_fields ((k, v) # kvs) =
     (case materializeJson v of
        None \<Rightarrow> None
      | Some w \<Rightarrow> map_option ((#) (k, w)) (materialize_fields kvs))"

text \<open>The values JSON carries without loss.\<close>

fun json_safe :: "jsval \<Rightarrow> bool" where
  "json_safe JNull = True"
| "json_safe (JStr s) = True"
| "json_safe (JBool b) = True"
| "json_safe (JNum n) = (num_finite n \<and> n \<noteq> NNegZero)"
| "json_safe (JArr vs) = (\<forall>v \<in> set vs. json_safe v)"
| "json_safe (JObj kvs) = (\<forall>kv \<in> set kvs. json_safe (snd kv))"
| "json_safe _ = False"

lemma materialize_safe:
  "materializeJson v = (if json_safe v then Some v else None)"
  "materialize_items vs = (if \<forall>v \<in> set vs. json_safe v then Some vs else None)"
  "materialize_fields kvs = (if \<forall>kv \<in> set kvs. json_safe (snd kv) then Some kvs else None)"
  by (induction v and vs and kvs rule: materializeJson_materialize_items_materialize_fields.induct)
     auto

lemma materialize_SomeD: "materializeJson v = Some w \<Longrightarrow> w = v \<and> json_safe v"
  by (simp add: materialize_safe split: if_splits)

lemma json_safe_field: "json_safe v \<Longrightarrow> has_own v k \<Longrightarrow> json_safe (field v k)"
  by (cases v) (force simp: field_def has_own_def dest: map_of_SomeD)+

text \<open>
  In the theorem below, \<open>materializeJson\<close> is a projection onto the JSON values: it returns
  its argument unchanged or refuses it.
\<close>

lemma materialize_idem: "materializeJson v = Some w \<Longrightarrow> materializeJson w = Some w"
  by (metis materialize_SomeD materialize_safe(1))

end
