(* ===== verification/JsStrings.thy ===== *)
theory JsStrings
  imports Prelude
begin

text \<open>
  The JavaScript string operations the code calls, on \<open>string\<close> (a list of \<open>char\<close>).
  A \<open>char\<close> stands for one UTF-16 code unit below 256, so \<open>length\<close>, indices and
  \<open>slice\<close> count what JavaScript counts; code units from 256 on are outside the model.
  \<open>startsWith\<close>, \<open>indexOf\<close>, \<open>split\<close> and their kin are polymorphic because the path code
  also applies the same algorithms to lists of segments. The regular expressions of the
  code are translated into predicates here, the longer ones through the matcher of the
  theory \<open>JsRegex\<close>.
\<close>

subsection \<open>Prefixes, suffixes and substrings\<close>

fun startsWith :: "'a list \<Rightarrow> 'a list \<Rightarrow> bool" where
  "startsWith s [] = True"
| "startsWith [] (p # ps) = False"
| "startsWith (c # cs) (p # ps) = (c = p \<and> startsWith cs ps)"

definition endsWith :: "'a list \<Rightarrow> 'a list \<Rightarrow> bool" where
  "endsWith s p = startsWith (rev s) (rev p)"

lemma startsWith_iff: "startsWith s p \<longleftrightarrow> (\<exists>t. s = p @ t)"
  by (induction s p rule: startsWith.induct) auto

lemma startsWith_append [simp]: "startsWith (p @ t) p"
  by (auto simp: startsWith_iff)

lemma startsWith_refl [simp]: "startsWith p p"
  by (auto simp: startsWith_iff)

lemma startsWith_Nil [simp]: "startsWith [] p \<longleftrightarrow> p = []"
  by (cases p) auto

lemma startsWith_appendI: "startsWith s p \<Longrightarrow> startsWith (s @ t) p"
  by (auto simp: startsWith_iff)

lemma startsWith_take: "startsWith s p \<longleftrightarrow> take (length p) s = p"
  by (metis append_eq_conv_conj append_take_drop_id startsWith_iff)

lemma endsWith_iff: "endsWith s p \<longleftrightarrow> (\<exists>t. s = t @ p)"
  unfolding endsWith_def startsWith_iff
  by (metis rev_append rev_rev_ident)

lemma endsWith_Nil [simp]: "endsWith s []"
  by (simp add: endsWith_def)

lemma endsWith_length: "endsWith s p \<Longrightarrow> length p \<le> length s"
  by (auto simp: endsWith_iff)

text \<open>\<open>s.indexOf(p, at)\<close>: the least position at or after \<open>at\<close> where \<open>p\<close> occurs.\<close>

fun index_in :: "'a list \<Rightarrow> 'a list \<Rightarrow> nat option" where
  "index_in [] p = (if p = [] then Some 0 else None)"
| "index_in (c # cs) p =
     (if startsWith (c # cs) p then Some 0 else map_option Suc (index_in cs p))"

definition indexOf :: "'a list \<Rightarrow> 'a list \<Rightarrow> nat \<Rightarrow> nat option" where
  "indexOf s p at = map_option (\<lambda>k. k + at) (index_in (drop at s) p)"

lemma index_in_Some_iff:
  "index_in s p = Some k \<longleftrightarrow>
     k \<le> length s \<and> startsWith (drop k s) p \<and> (\<forall>j < k. \<not> startsWith (drop j s) p)"
proof (induction s arbitrary: k)
  case Nil
  then show ?case by auto
next
  case (Cons c cs)
  show ?case
  proof (cases "startsWith (c # cs) p")
    case True
    then show ?thesis by (cases k) auto
  next
    case False
    then show ?thesis
      using Cons.IH by (cases k) (auto simp: less_Suc_eq_0_disj)
  qed
qed

lemma index_in_None_iff:
  "index_in s p = None \<longleftrightarrow> (\<forall>k \<le> length s. \<not> startsWith (drop k s) p)"
proof (induction s)
  case Nil
  then show ?case by auto
next
  case (Cons c cs)
  have "(\<forall>k \<le> Suc (length cs). \<not> startsWith (drop k (c # cs)) p) \<longleftrightarrow>
        \<not> startsWith (c # cs) p \<and> (\<forall>k \<le> length cs. \<not> startsWith (drop k cs) p)"
    by (metis Suc_le_mono drop0 drop_Suc_Cons le0 not0_implies_Suc)
  with Cons.IH show ?case by auto
qed

definition str_includes :: "'a list \<Rightarrow> 'a list \<Rightarrow> bool" where
  "str_includes s p \<longleftrightarrow> index_in s p \<noteq> None"

lemma str_includes_iff: "str_includes s p \<longleftrightarrow> (\<exists>u v. s = u @ p @ v)"
proof
  assume "str_includes s p"
  then obtain k where "k \<le> length s" "startsWith (drop k s) p"
    by (auto simp: str_includes_def index_in_None_iff)
  then show "\<exists>u v. s = u @ p @ v"
    by (metis append_take_drop_id startsWith_iff)
next
  assume "\<exists>u v. s = u @ p @ v"
  then obtain u v where s: "s = u @ p @ v" by blast
  have "length u \<le> length s \<and> startsWith (drop (length u) s) p"
    by (simp add: s)
  then show "str_includes s p"
    by (auto simp: str_includes_def index_in_None_iff)
qed

lemma str_includes_single [simp]: "str_includes s [c] \<longleftrightarrow> c \<in> set s"
  by (auto simp: str_includes_iff in_set_conv_decomp)

text \<open>\<open>s.lastIndexOf(p)\<close>: the greatest position where \<open>p\<close> occurs.\<close>

fun lastIndexOf :: "'a list \<Rightarrow> 'a list \<Rightarrow> nat option" where
  "lastIndexOf [] p = (if p = [] then Some 0 else None)"
| "lastIndexOf (c # cs) p =
     (case lastIndexOf cs p of
        Some k \<Rightarrow> Some (Suc k)
      | None \<Rightarrow> if startsWith (c # cs) p then Some 0 else None)"

lemma lastIndexOf_Some_iff:
  "lastIndexOf s p = Some k \<longleftrightarrow>
     k \<le> length s \<and> startsWith (drop k s) p \<and>
     (\<forall>j. k < j \<longrightarrow> j \<le> length s \<longrightarrow> \<not> startsWith (drop j s) p)"
  and lastIndexOf_None_iff:
  "lastIndexOf s p = None \<longleftrightarrow> (\<forall>k \<le> length s. \<not> startsWith (drop k s) p)"
proof (induction s arbitrary: k)
  case Nil
  { case 1 then show ?case by auto }
  { case 2 then show ?case by auto }
next
  case (Cons c cs)
  have all: "(\<forall>k \<le> Suc (length cs). \<not> startsWith (drop k (c # cs)) p) \<longleftrightarrow>
        \<not> startsWith (c # cs) p \<and> (\<forall>k \<le> length cs. \<not> startsWith (drop k cs) p)"
    by (metis Suc_le_mono drop0 drop_Suc_Cons le0 not0_implies_Suc)
  { case 2 show ?case using Cons.IH(2) all by (auto split: option.splits) }
  { case 1
    show ?case
    proof (cases "lastIndexOf cs p")
      case None
      then have n: "\<forall>k \<le> length cs. \<not> startsWith (drop k cs) p"
        using Cons.IH(2) by simp
      show ?thesis using None n
        by (cases k) (auto simp: Suc_le_eq gr0_conv_Suc)
    next
      case (Some m)
      then have m: "m \<le> length cs" "startsWith (drop m cs) p"
        "\<forall>j. m < j \<longrightarrow> j \<le> length cs \<longrightarrow> \<not> startsWith (drop j cs) p"
        using Cons.IH(1) by auto
      show ?thesis
      proof (cases k)
        case 0
        then show ?thesis using Some m by (auto intro!: exI [of _ "Suc m"])
      next
        case (Suc k')
        then show ?thesis using Some Cons.IH(1) [of k']
          by (auto simp: less_Suc_eq_0_disj Suc_less_eq2)
      qed
    qed }
qed

subsection \<open>split and join\<close>

text \<open>
  \<open>split_by P\<close> cuts at every element that satisfies \<open>P\<close>: \<open>s.split(c)\<close> for a
  one-character separator is \<open>split_on c\<close>. The result is never the empty list.
\<close>

fun split_by :: "('a \<Rightarrow> bool) \<Rightarrow> 'a list \<Rightarrow> 'a list list" where
  "split_by P [] = [[]]"
| "split_by P (c # cs) =
     (if P c then [] # split_by P cs
      else case split_by P cs of
             [] \<Rightarrow> [[c]]
           | w # ws \<Rightarrow> (c # w) # ws)"

abbreviation split_on :: "'a \<Rightarrow> 'a list \<Rightarrow> 'a list list" where
  "split_on sep \<equiv> split_by (\<lambda>c. c = sep)"

fun join_with :: "'a list \<Rightarrow> 'a list list \<Rightarrow> 'a list" where
  "join_with sep [] = []"
| "join_with sep [w] = w"
| "join_with sep (w # v # ws) = w @ sep @ join_with sep (v # ws)"

lemma split_by_ne [simp]: "split_by P s \<noteq> []"
  by (induction s) (auto split: list.splits)

lemma split_by_cases: obtains w ws where "split_by P s = w # ws"
  by (cases "split_by P s") auto

lemma join_split [simp]: "join_with [sep] (split_on sep s) = s"
proof (induction s)
  case Nil
  then show ?case by simp
next
  case (Cons c cs)
  obtain w ws where w: "split_on sep cs = w # ws" by (rule split_by_cases)
  with Cons show ?case by (cases ws) auto
qed

lemma split_by_none: "\<forall>c \<in> set w. \<not> P c \<Longrightarrow> split_by P w = [w]"
  by (induction w) auto

lemma split_by_append:
  "\<forall>c \<in> set w. \<not> P c \<Longrightarrow> P d \<Longrightarrow> split_by P (w @ d # s) = w # split_by P s"
  by (induction w) auto

lemma split_by_append_sep: "P d \<Longrightarrow> split_by P (s @ d # t) = split_by P s @ split_by P t"
  by (induction s) (auto split: list.splits)

lemma split_by_parts: "w \<in> set (split_by P s) \<Longrightarrow> c \<in> set w \<Longrightarrow> \<not> P c"
proof (induction s arbitrary: w)
  case Nil
  then show ?case by simp
next
  case (Cons d cs)
  obtain v vs where v: "split_by P cs = v # vs" by (rule split_by_cases)
  from Cons.prems v consider (sep) "P d" "w = [] \<or> w \<in> set (v # vs)"
    | (head) "\<not> P d" "w = d # v" | (tail) "w \<in> set vs"
    by (auto split: if_splits)
  then show ?case
    by cases (use Cons.IH Cons.prems v in auto)
qed

lemma split_by_subset: "w \<in> set (split_by P s) \<Longrightarrow> c \<in> set w \<Longrightarrow> c \<in> set s"
proof (induction s arbitrary: w)
  case (Cons d s)
  obtain v vs where v: "split_by P s = v # vs" by (rule split_by_cases)
  have "w = [] \<or> w \<in> set (split_by P s) \<or> w = d # v"
    using Cons.prems(1) v by (auto split: if_splits)
  then show ?case using Cons.IH [of w] Cons.IH [of v] Cons.prems(2) v by auto
qed simp

lemma split_join:
  "ws \<noteq> [] \<Longrightarrow> \<forall>w \<in> set ws. \<forall>c \<in> set w. \<not> P c \<Longrightarrow> P d \<Longrightarrow>
     split_by P (join_with [d] ws) = ws"
  by (induction ws rule: induct_list012) (simp_all add: split_by_none split_by_append)

text \<open>\<open>s.split(sep).filter((p) => p !== "")\<close>: the non-empty segments.\<close>

definition segments_by :: "('a \<Rightarrow> bool) \<Rightarrow> 'a list \<Rightarrow> 'a list list" where
  "segments_by P s = filter (\<lambda>w. w \<noteq> []) (split_by P s)"

abbreviation segments :: "'a \<Rightarrow> 'a list \<Rightarrow> 'a list list" where
  "segments sep \<equiv> segments_by (\<lambda>c. c = sep)"

lemma segments_Nil [simp]: "segments_by P [] = []"
  by (simp add: segments_by_def)

lemma segments_sep [simp]: "P d \<Longrightarrow> segments_by P (d # s) = segments_by P s"
  by (simp add: segments_by_def)

lemma segments_single:
  "w \<noteq> [] \<Longrightarrow> \<forall>c \<in> set w. \<not> P c \<Longrightarrow> segments_by P w = [w]"
  by (simp add: segments_by_def split_by_none)

lemma segments_append_sep:
  "P d \<Longrightarrow> segments_by P (s @ d # t) = segments_by P s @ segments_by P t"
  by (simp add: segments_by_def split_by_append_sep)

lemma segments_cons:
  "w \<noteq> [] \<Longrightarrow> \<forall>c \<in> set w. \<not> P c \<Longrightarrow> P d \<Longrightarrow>
     segments_by P (w @ d # s) = w # segments_by P s"
  by (simp add: segments_by_def split_by_append)

lemma segments_join:
  "\<forall>w \<in> set ws. w \<noteq> [] \<and> (\<forall>c \<in> set w. \<not> P c) \<Longrightarrow> P d \<Longrightarrow>
     segments_by P (join_with [d] ws) = ws"
  by (cases "ws = []") (auto simp: segments_by_def split_join intro!: filter_True)

lemma segments_elem:
  "w \<in> set (segments_by P s) \<Longrightarrow> w \<noteq> [] \<and> (\<forall>c \<in> set w. \<not> P c)"
  by (auto simp: segments_by_def dest: split_by_parts)

subsection \<open>Character classes\<close>

definition is_space :: "char \<Rightarrow> bool" where
  \<comment> \<open>\<open>\s\<close> on code units below 256: tab to carriage return, space, no-break space\<close>
  "is_space c = (of_char c \<in> {9 :: nat, 10, 11, 12, 13, 32, 160})"

definition in_range :: "char \<Rightarrow> char \<Rightarrow> char \<Rightarrow> bool" where
  "in_range lo hi c = ((of_char lo :: nat) \<le> of_char c \<and> of_char c \<le> (of_char hi :: nat))"

definition is_digit :: "char \<Rightarrow> bool" where
  "is_digit c = in_range (CHR ''0'') (CHR ''9'') c"

definition is_lower :: "char \<Rightarrow> bool" where
  "is_lower c = in_range (CHR ''a'') (CHR ''z'') c"

definition is_alpha :: "char \<Rightarrow> bool" where
  "is_alpha c = (in_range (CHR ''a'') (CHR ''z'') c \<or> in_range (CHR ''A'') (CHR ''Z'') c)"

definition is_word :: "char \<Rightarrow> bool" where
  \<comment> \<open>\<open>\w\<close>\<close>
  "is_word c = (is_alpha c \<or> is_digit c \<or> c = CHR ''_'')"

definition lower_char :: "char \<Rightarrow> char" where
  \<comment> \<open>\<open>toLowerCase\<close> on code units below 256: ASCII and the Latin-1 capitals\<close>
  "lower_char c =
     (let n = of_char c :: nat
      in if (65 \<le> n \<and> n \<le> 90) \<or> (192 \<le> n \<and> n \<le> 222 \<and> n \<noteq> 215)
         then char_of (n + 32) else c)"

definition toLowerCase :: "string \<Rightarrow> string" where
  "toLowerCase s = map lower_char s"

subsection \<open>Whitespace\<close>

definition space_tokens :: "string \<Rightarrow> string list" where
  \<comment> \<open>\<open>s.split(/\s+/).filter((t) => t !== "")\<close>: the maximal runs without white space\<close>
  "space_tokens s = segments_by is_space s"

definition trim_start :: "string \<Rightarrow> string" where
  "trim_start s = dropWhile is_space s"

definition trim :: "string \<Rightarrow> string" where
  "trim s = rev (trim_start (rev (trim_start s)))"

subsection \<open>Base names\<close>

definition basenameOf :: "string \<Rightarrow> string" where
  \<comment> \<open>\<open>word.includes("/") ? word.split("/").filter(Boolean).pop() ?? word : word\<close>\<close>
  "basenameOf word =
     (if CHR ''/'' \<notin> set word then word
      else case segments (CHR ''/'') word of [] \<Rightarrow> word | segs \<Rightarrow> last segs)"

lemma basenameOf_no_slash: "CHR ''/'' \<notin> set w \<Longrightarrow> basenameOf w = w"
  by (simp add: basenameOf_def)

lemma basenameOf_cases:
  obtains "basenameOf w = w" "CHR ''/'' \<notin> set w \<or> segments (CHR ''/'') w = []"
  | "CHR ''/'' \<notin> set (basenameOf w)" "basenameOf w \<in> set (segments (CHR ''/'') w)"
proof (cases "CHR ''/'' \<in> set w \<and> segments (CHR ''/'') w \<noteq> []")
  case True
  then obtain v vs where v: "segments (CHR ''/'') w = v # vs"
    by (cases "segments (CHR ''/'') w") auto
  with True have b: "basenameOf w = last (v # vs)" by (simp add: basenameOf_def)
  then have "basenameOf w \<in> set (segments (CHR ''/'') w)"
    unfolding v by (simp only: last_in_set list.distinct not_False_eq_True)
  moreover from segments_elem [OF this] have "CHR ''/'' \<notin> set (basenameOf w)" by blast
  ultimately show ?thesis using that(2) by blast
next
  case False
  then have "basenameOf w = w" by (auto simp: basenameOf_def)
  with False that(1) show ?thesis by blast
qed

lemma basenameOf_idem: "basenameOf (basenameOf w) = basenameOf w"
  by (rule basenameOf_cases [of w]) (simp_all add: basenameOf_no_slash)

subsection \<open>Decimal numerals\<close>

fun show_nat :: "nat \<Rightarrow> string" where
  \<comment> \<open>\<open>String(n)\<close>\<close>
  "show_nat n =
     (if n < 10 then [char_of (48 + n)] else show_nat (n div 10) @ [char_of (48 + n mod 10)])"

declare show_nat.simps [simp del]

definition padStart :: "nat \<Rightarrow> char \<Rightarrow> string \<Rightarrow> string" where
  "padStart w c s = replicate (w - length s) c @ s"

lemma char_of_digit: "(d :: nat) < 10 \<Longrightarrow> is_digit (char_of (48 + d))"
  by (simp add: is_digit_def in_range_def)

lemma show_nat_digits: "c \<in> set (show_nat n) \<Longrightarrow> is_digit c"
proof (induction n arbitrary: c rule: show_nat.induct)
  case (1 n)
  then show ?case
    by (subst (asm) (2) show_nat.simps) (auto simp: char_of_digit split: if_splits)
qed

lemma show_nat_ne: "show_nat n \<noteq> []"
  by (subst show_nat.simps) simp

lemma show_nat_length: "n < 10 ^ Suc k \<Longrightarrow> length (show_nat n) \<le> Suc k"
proof (induction k arbitrary: n)
  case 0
  then show ?case by (simp add: show_nat.simps)
next
  case (Suc k)
  show ?case
  proof (cases "n < 10")
    case True
    then show ?thesis by (simp add: show_nat.simps)
  next
    case False
    have "n div 10 < 10 ^ Suc k" using Suc.prems by (simp add: less_mult_imp_div_less)
    then have "length (show_nat (n div 10)) \<le> Suc k" by (rule Suc.IH)
    with False show ?thesis by (simp add: show_nat.simps [of n])
  qed
qed

end
