(* ===== verification/SessionGates.thy ===== *)
theory SessionGates
  imports JsValues JsStrings
begin

text \<open>
  \<open>packages/core/session/src/gates.ts\<close> up to \<open>gateEvent\<close> and \<open>parseSurfaceOp\<close>: the shape
  predicates every event of a session log has passed. Each predicate of the source is a
  definition of the same name; the table \<open>shapeGates\<close> is an association list in the order
  of the source. A value is read through \<open>field\<close>, so an absent field is \<open>JUndef\<close>.
\<close>

subsection \<open>Session ids\<close>

definition id_head_char :: "char \<Rightarrow> bool" where
  "id_head_char c = (is_alpha c \<or> is_digit c)"

definition id_tail_char :: "char \<Rightarrow> bool" where
  "id_tail_char c = (is_alpha c \<or> is_digit c \<or> c \<in> {CHR ''.'', CHR ''_'', CHR ''-''})"

fun isSafeSessionId :: "string \<Rightarrow> bool" where
  \<comment> \<open>the pattern \<open>^[A-Za-z0-9][A-Za-z0-9._-]{0,127}$\<close>\<close>
  "isSafeSessionId [] = False"
| "isSafeSessionId (c # cs) = (id_head_char c \<and> list_all id_tail_char cs \<and> length cs \<le> 127)"

subsection \<open>Scalars\<close>

fun isObj :: "jsval \<Rightarrow> bool" where
  "isObj (JObj _) = True"
| "isObj (JInst _) = True"
| "isObj _ = False"

fun isStr :: "jsval \<Rightarrow> bool" where
  "isStr (JStr _) = True"
| "isStr _ = False"

fun isNonEmptyStr :: "jsval \<Rightarrow> bool" where
  \<comment> \<open>\<open>isStr(v) && v !== ""\<close>\<close>
  "isNonEmptyStr (JStr s) = (s \<noteq> [])"
| "isNonEmptyStr _ = False"

fun count_of :: "jsval \<Rightarrow> nat option" where
  "count_of (JNum (NInt i)) = (if 0 \<le> i \<and> i \<le> max_safe then Some (nat i) else None)"
| "count_of _ = None"

fun isCount :: "jsval \<Rightarrow> bool" where
  "isCount (JNum n) = (num_safe_integer n \<and> \<not> num_negative n \<and> n \<noteq> NNegZero)"
| "isCount _ = False"

definition isTrue :: "jsval \<Rightarrow> bool" where
  "isTrue v = (v = JBool True)"

definition opt_ok :: "(jsval \<Rightarrow> bool) \<Rightarrow> jsval \<Rightarrow> bool" where
  \<comment> \<open>\<open>v === undefined || p(v)\<close>\<close>
  "opt_ok p v = (v = JUndef \<or> p v)"

fun arr_all :: "(jsval \<Rightarrow> bool) \<Rightarrow> jsval \<Rightarrow> bool" where
  \<comment> \<open>\<open>Array.isArray(v) && v.every(p)\<close>\<close>
  "arr_all p (JArr vs) = list_all p vs"
| "arr_all p _ = False"

definition str_in :: "string list \<Rightarrow> jsval \<Rightarrow> bool" where
  \<comment> \<open>membership of a dynamic value in a table of strings\<close>
  "str_in table v = (case v of JStr s \<Rightarrow> s \<in> set table | _ \<Rightarrow> False)"

lemma isCount_iff: "isCount v \<longleftrightarrow> count_of v \<noteq> None"
  by (cases v rule: count_of.cases) auto

lemma count_ofE: "count_of v = Some n \<Longrightarrow> v = JNum (NInt (int n)) \<and> int n \<le> max_safe"
  by (cases v rule: count_of.cases) (auto split: if_splits)

subsection \<open>Content\<close>

fun object_like :: "jsval \<Rightarrow> bool" where
  \<comment> \<open>\<open>typeof v === "object" && v !== null\<close>: arrays included\<close>
  "object_like (JObj _) = True"
| "object_like (JInst _) = True"
| "object_like (JArr _) = True"
| "object_like JSparse = True"
| "object_like _ = False"

fun isBool :: "jsval \<Rightarrow> bool" where
  "isBool (JBool _) = True"
| "isBool _ = False"

definition isThinkingBlock :: "jsval \<Rightarrow> bool" where
  "isThinkingBlock block =
     (object_like block \<and>
      isNonEmptyStr (field block ''signature'') \<and>
      isBool (field block ''redacted'') \<and>
      object_like (field block ''origin'') \<and>
      isStr (field (field block ''origin'') ''provider'') \<and>
      isStr (field (field block ''origin'') ''model''))"

definition isThinkingBlocks :: "jsval \<Rightarrow> bool" where
  "isThinkingBlocks v = (v \<noteq> JArr [] \<and> arr_all isThinkingBlock v)"

definition isContentBlock :: "bool \<Rightarrow> jsval \<Rightarrow> bool" where
  "isContentBlock allowImage block =
     (isObj block \<and>
      (let t = field block ''type'' in
       if t = JStr ''text'' then isStr (field block ''text'')
       else if t = JStr ''tool_use'' then
         isStr (field block ''callId'') \<and> isStr (field block ''name'') \<and> isStr (field block ''input'')
       else if t = JStr ''image'' then
         allowImage \<and> isStr (field block ''data'') \<and> isStr (field block ''mediaType'')
       else False))"

definition isContentBlocks :: "jsval \<Rightarrow> bool \<Rightarrow> bool" where
  "isContentBlocks v allowImage = arr_all (isContentBlock allowImage) v"

definition isTextOnlyBlocks :: "jsval \<Rightarrow> bool" where
  "isTextOnlyBlocks v =
     arr_all (\<lambda>block. isObj block \<and> field block ''type'' = JStr ''text'' \<and> isStr (field block ''text'')) v"

definition isTurnEndReason :: "jsval \<Rightarrow> bool" where
  "isTurnEndReason v =
     (isObj v \<and>
      (let k = field v ''kind'' in
       if k = JStr ''completed'' \<or> k = JStr ''aborted'' then opt_ok isStr (field v ''cause'')
       else if k = JStr ''blocked'' then opt_ok isStr (field v ''reason'')
       else if k = JStr ''max-tokens'' \<or> k = JStr ''interrupted'' then True
       else if k = JStr ''error'' then isStr (field v ''message'') \<and> opt_ok isStr (field v ''code'')
       else False))"

definition isToolRefs :: "jsval \<Rightarrow> bool" where
  "isToolRefs v =
     arr_all (\<lambda>tool. isObj tool \<and> isStr (field tool ''name'') \<and> opt_ok isStr (field tool ''description'')) v"

subsection \<open>Inbox splices\<close>

definition INBOX_TARGET_VALUES :: "string list" where
  "INBOX_TARGET_VALUES = [''next-turn'', ''next-step'']"

definition AGENT_MESSAGE_KINDS :: "string list" where
  "AGENT_MESSAGE_KINDS = [''directive'', ''content'']"

definition THINKING_LEVELS :: "string list" where
  "THINKING_LEVELS = [''off'', ''low'', ''medium'', ''high'', ''max'']"

definition TODO_SNAPSHOT_STATUS_VALUES :: "string list" where
  "TODO_SNAPSHOT_STATUS_VALUES = [''pending'', ''in_progress'', ''completed'']"

definition isInboxTarget :: "jsval \<Rightarrow> bool" where
  "isInboxTarget v = str_in INBOX_TARGET_VALUES v"

definition isIdList :: "jsval \<Rightarrow> bool" where
  "isIdList v = arr_all isNonEmptyStr v"

definition isInboxClaim :: "jsval \<Rightarrow> bool" where
  "isInboxClaim d =
     (isInboxTarget (field d ''target'') \<and> isCount (field d ''turn'') \<and> isIdList (field d ''claimed''))"

definition isInboxDrop :: "jsval \<Rightarrow> bool" where
  "isInboxDrop d =
     (isInboxTarget (field d ''target'') \<and> isIdList (field d ''dropped'') \<and>
      isNonEmptyStr (field d ''reason''))"

definition isEntryOrigin :: "jsval \<Rightarrow> bool" where
  "isEntryOrigin v =
     (isObj v \<and> isNonEmptyStr (field v ''source'') \<and> str_in AGENT_MESSAGE_KINDS (field v ''kind''))"

definition isInboxEntry :: "jsval \<Rightarrow> bool" where
  "isInboxEntry entry =
     (isObj entry \<and> isNonEmptyStr (field entry ''id'') \<and>
      isContentBlocks (field entry ''content'') True \<and>
      opt_ok isTrue (field entry ''user'') \<and>
      (field entry ''origin'' = JUndef \<or>
       isEntryOrigin (field entry ''origin'') \<and> isTextOnlyBlocks (field entry ''content'')))"

definition isInboxEntries :: "jsval \<Rightarrow> bool" where
  "isInboxEntries v = arr_all isInboxEntry v"

definition isInboxSpliceData :: "jsval \<Rightarrow> bool" where
  "isInboxSpliceData d =
     (isObj d \<and>
      (let op = field d ''op'' in
       if op = JStr ''insert'' then
         isInboxTarget (field d ''target'') \<and> isInboxEntries (field d ''entries'')
       else if op = JStr ''claim'' then isInboxClaim d
       else if op = JStr ''clear'' then isNonEmptyStr (field d ''reason'')
       else if op = JStr ''drop'' then isInboxDrop d
       else if op = JStr ''retarget'' then
         isNonEmptyStr (field d ''id'') \<and> isInboxTarget (field d ''to'')
       else False))"

subsection \<open>Todo snapshots\<close>

fun todo_id_shape :: "string \<Rightarrow> bool" where
  \<comment> \<open>the pattern \<open>^[1-9][0-9]*$\<close>\<close>
  "todo_id_shape [] = False"
| "todo_id_shape (c # cs) = (is_digit c \<and> c \<noteq> CHR ''0'' \<and> list_all is_digit cs)"

definition dec_value :: "string \<Rightarrow> nat" where
  \<comment> \<open>\<open>Number(id)\<close> on a string of digits; where the double differs from this value both lie
     above every safe integer, so the comparison with \<open>seq\<close> is the same\<close>
  "dec_value s = foldl (\<lambda>n c. 10 * n + (of_char c - 48)) 0 s"

definition todoSnapshotTaskOk :: "jsval \<Rightarrow> string list \<Rightarrow> bool" where
  "todoSnapshotTaskOk task ids =
     (isObj task \<and>
      (case field task ''id'' of
         JStr i \<Rightarrow>
           todo_id_shape i \<and> i \<notin> set ids \<and>
           isNonEmptyStr (field task ''subject'') \<and>
           str_in TODO_SNAPSHOT_STATUS_VALUES (field task ''status'') \<and>
           list_all (\<lambda>key. opt_ok isStr (field task key)) [''description'', ''activeForm'', ''owner''] \<and>
           opt_ok isObj (field task ''metadata'')
       | _ \<Rightarrow> False))"

fun str_of :: "jsval \<Rightarrow> string" where
  "str_of (JStr s) = s"
| "str_of _ = []"

fun todo_ids_loop :: "jsval list \<Rightarrow> string list \<Rightarrow> nat \<Rightarrow> (string list \<times> nat) option" where
  "todo_ids_loop [] ids maxId = Some (ids, maxId)"
| "todo_ids_loop (task # tasks) ids maxId =
     (if todoSnapshotTaskOk task ids
      then let i = str_of (field task ''id'')
           in todo_ids_loop tasks (ids @ [i]) (max maxId (dec_value i))
      else None)"

definition todoSnapshotTaskIds :: "jsval \<Rightarrow> nat \<Rightarrow> string list option" where
  "todoSnapshotTaskIds v seq =
     (case v of
        JArr tasks \<Rightarrow>
          (case todo_ids_loop tasks [] 0 of
             None \<Rightarrow> None
           | Some (ids, maxId) \<Rightarrow> if maxId \<le> seq then Some ids else None)
      | _ \<Rightarrow> None)"

fun todo_edge_ok :: "string list \<Rightarrow> jsval \<Rightarrow> bool" where
  "todo_edge_ok ids (JArr [JStr blocker, JStr blocked]) =
     (blocker \<noteq> blocked \<and> blocker \<in> set ids \<and> blocked \<in> set ids)"
| "todo_edge_ok ids _ = False"

definition todoSnapshotEdges :: "jsval \<Rightarrow> string list \<Rightarrow> bool" where
  "todoSnapshotEdges v ids = arr_all (todo_edge_ok ids) v"

subsection \<open>One gate per event type\<close>

definition at_turn :: "jsval \<Rightarrow> bool" where
  "at_turn d = (isObj d \<and> isCount (field d ''turn''))"

definition at_step :: "jsval \<Rightarrow> bool" where
  "at_step d = (isObj d \<and> isCount (field d ''turn'') \<and> isCount (field d ''step''))"

definition gate_turn_end :: "jsval \<Rightarrow> bool" where
  "gate_turn_end d = (at_turn d \<and> isTurnEndReason (field d ''reason''))"

definition gate_system_message :: "jsval \<Rightarrow> bool" where
  "gate_system_message d = (at_step d \<and> isStr (field d ''text''))"

definition gate_user_message :: "jsval \<Rightarrow> bool" where
  "gate_user_message d =
     (at_step d \<and> isContentBlocks (field d ''content'') True \<and>
      opt_ok isIdList (field d ''claimedIds''))"

definition gate_assistant_message :: "jsval \<Rightarrow> bool" where
  "gate_assistant_message d =
     (at_step d \<and> isContentBlocks (field d ''content'') False \<and>
      opt_ok isStr (field d ''thinking'') \<and>
      opt_ok isThinkingBlocks (field d ''thinkingBlocks'') \<and>
      opt_ok isObj (field d ''usage'') \<and>
      opt_ok isStr (field d ''stopReason'') \<and>
      opt_ok isTrue (field d ''interrupted''))"

definition gate_assistant_attempt :: "jsval \<Rightarrow> bool" where
  "gate_assistant_attempt d =
     (at_step d \<and> isStr (field d ''error'') \<and>
      opt_ok (\<lambda>v. isContentBlocks v False) (field d ''content'') \<and>
      opt_ok isStr (field d ''thinking'') \<and>
      opt_ok isThinkingBlocks (field d ''thinkingBlocks'') \<and>
      opt_ok isObj (field d ''usage''))"

definition gate_tool_call :: "jsval \<Rightarrow> bool" where
  "gate_tool_call d =
     (at_step d \<and> isStr (field d ''callId'') \<and> isStr (field d ''name'') \<and>
      isStr (field d ''arguments''))"

definition gate_tool_result :: "jsval \<Rightarrow> bool" where
  "gate_tool_result d =
     (at_step d \<and> isStr (field d ''callId'') \<and> isStr (field d ''content'') \<and>
      opt_ok isTrue (field d ''isError'') \<and> opt_ok isTrue (field d ''synthetic''))"

fun isNumber :: "jsval \<Rightarrow> bool" where
  "isNumber (JNum _) = True"
| "isNumber _ = False"

definition gate_request_header :: "jsval \<Rightarrow> bool" where
  "gate_request_header d =
     (isObj d \<and> isStr (field d ''model'') \<and>
      opt_ok isStr (field d ''provider'') \<and>
      opt_ok isNumber (field d ''temperature'') \<and>
      opt_ok isCount (field d ''maxTokens'') \<and>
      opt_ok (str_in THINKING_LEVELS) (field d ''thinking'') \<and>
      isToolRefs (field d ''tools''))"

definition gate_request_context :: "jsval \<Rightarrow> bool" where
  "gate_request_context d =
     (isObj d \<and> isStr (field d ''provider'') \<and> isStr (field d ''model'') \<and>
      opt_ok isCount (field d ''contextWindow''))"

definition count_between :: "nat \<Rightarrow> nat \<Rightarrow> jsval \<Rightarrow> bool" where
  "count_between lo hi v = (case count_of v of None \<Rightarrow> False | Some n \<Rightarrow> lo \<le> n \<and> n \<le> hi)"

definition count_at_least :: "nat \<Rightarrow> jsval \<Rightarrow> bool" where
  "count_at_least lo v = (case count_of v of None \<Rightarrow> False | Some n \<Rightarrow> lo \<le> n)"

definition gate_llm_retry :: "jsval \<Rightarrow> bool" where
  "gate_llm_retry d =
     (at_step d \<and> isNonEmptyStr (field d ''provider'') \<and>
      count_at_least 1 (field d ''retry'') \<and>
      count_between 0 2147483647 (field d ''delayMs'') \<and>
      isObj (field d ''failure'') \<and>
      isNonEmptyStr (field (field d ''failure'') ''message'') \<and>
      opt_ok isStr (field (field d ''failure'') ''code''))"

definition gate_end_seed :: "jsval \<Rightarrow> bool" where
  "gate_end_seed d = (isObj d \<and> opt_ok isTrue (field d ''inherited''))"

definition gate_autocompact_checkpoint :: "jsval \<Rightarrow> bool" where
  "gate_autocompact_checkpoint d =
     (at_step d \<and> isNonEmptyStr (field d ''ledger'') \<and> isCount (field d ''coveredSeq'') \<and>
      opt_ok isTrue (field d ''stale''))"

definition gate_todo_snapshot :: "jsval \<Rightarrow> bool" where
  "gate_todo_snapshot d =
     (isObj d \<and>
      (case count_of (field d ''seq'') of
         None \<Rightarrow> False
       | Some seq \<Rightarrow>
           (case todoSnapshotTaskIds (field d ''tasks'') seq of
              None \<Rightarrow> False
            | Some ids \<Rightarrow> todoSnapshotEdges (field d ''edges'') ids)))"

definition gate_session_meta :: "jsval \<Rightarrow> bool" where
  "gate_session_meta d = (isObj d \<and> isNonEmptyStr (field d ''key''))"

definition gate_compaction_diagnostic :: "jsval \<Rightarrow> bool" where
  "gate_compaction_diagnostic d =
     (at_step d \<and> isNonEmptyStr (field d ''origin'') \<and> isNonEmptyStr (field d ''code'') \<and>
      opt_ok isObj (field d ''detail''))"

definition gate_compaction_exhausted :: "jsval \<Rightarrow> bool" where
  "gate_compaction_exhausted d = (at_step d \<and> count_at_least 1 (field d ''attempts''))"

definition gate_command_run :: "jsval \<Rightarrow> bool" where
  "gate_command_run d =
     (isObj d \<and> isNonEmptyStr (field d ''commandId'') \<and> isStr (field d ''name'') \<and>
      opt_ok isStr (field d ''args''))"

definition gate_command_done :: "jsval \<Rightarrow> bool" where
  "gate_command_done d =
     (isObj d \<and> isNonEmptyStr (field d ''commandId'') \<and>
      (field d ''kind'' = JStr ''success'' \<or> field d ''kind'' = JStr ''error'') \<and>
      opt_ok isStr (field d ''text''))"

definition gate_agent_message :: "jsval \<Rightarrow> bool" where
  "gate_agent_message d =
     (at_step d \<and> isNonEmptyStr (field d ''source'') \<and>
      str_in AGENT_MESSAGE_KINDS (field d ''kind'') \<and>
      isTextOnlyBlocks (field d ''content''))"

definition shapeGates :: "(string \<times> (jsval \<Rightarrow> bool)) list" where
  "shapeGates =
    [(''turn/start'', at_turn),
     (''turn/end'', gate_turn_end),
     (''step/start'', at_step),
     (''step/end'', at_step),
     (''system/message'', gate_system_message),
     (''user/message'', gate_user_message),
     (''assistant/message'', gate_assistant_message),
     (''assistant/attempt'', gate_assistant_attempt),
     (''tool/call'', gate_tool_call),
     (''tool/result'', gate_tool_result),
     (''request/header'', gate_request_header),
     (''request/context'', gate_request_context),
     (''llm/retry'', gate_llm_retry),
     (''session/end-seed'', gate_end_seed),
     (''autocompact/checkpoint'', gate_autocompact_checkpoint),
     (''agent/inbox/spliced'', isInboxSpliceData),
     (''todo/snapshot'', gate_todo_snapshot),
     (''session/meta'', gate_session_meta),
     (''compaction/diagnostic'', gate_compaction_diagnostic),
     (''compaction/exhausted'', gate_compaction_exhausted),
     (''command/run'', gate_command_run),
     (''command/done'', gate_command_done),
     (''agent/message'', gate_agent_message)]"

subsection \<open>gateEvent\<close>

text \<open>
  \<open>gateEvent\<close> reads the gate with \<open>shapeGates[type]\<close>, so a type that is no key of the table
  still finds the members of \<open>Object.prototype\<close>, and calls what it found with \<open>this\<close>
  undefined: \<open>constructor\<close> is \<open>Object\<close>, which returns an object; \<open>toString\<close> returns
  \<open>"[object Undefined]"\<close>; \<open>isPrototypeOf\<close> returns \<open>false\<close> on a non-object and needs
  \<open>this\<close> otherwise; the other members need \<open>this\<close>, or (\<open>__proto__\<close>) are no function.
\<close>

datatype gate_error = UnknownType string | Shape string

datatype gate_outcome = Accepted | Refused gate_error | GateThrows

fun is_object_value :: "jsval \<Rightarrow> bool" where
  "is_object_value (JArr _) = True"
| "is_object_value JSparse = True"
| "is_object_value (JObj _) = True"
| "is_object_value (JInst _) = True"
| "is_object_value JFun = True"
| "is_object_value _ = False"

definition object_prototype_members :: "string list" where
  "object_prototype_members =
     [''constructor'', ''toString'', ''isPrototypeOf'', ''toLocaleString'', ''valueOf'',
      ''hasOwnProperty'', ''propertyIsEnumerable'', ''__proto__'', ''__defineGetter__'',
      ''__defineSetter__'', ''__lookupGetter__'', ''__lookupSetter__'']"

definition gate_inherited :: "string \<Rightarrow> jsval \<Rightarrow> gate_outcome" where
  "gate_inherited ty data =
     (if ty = ''constructor'' \<or> ty = ''toString'' then Accepted
      else if ty = ''isPrototypeOf'' \<and> \<not> is_object_value data then Refused (Shape ty)
      else GateThrows)"

definition gateEvent :: "string \<Rightarrow> jsval \<Rightarrow> gate_outcome" where
  "gateEvent ty data =
     (case map_of shapeGates ty of
        Some gate \<Rightarrow> if gate data then Accepted else Refused (Shape ty)
      | None \<Rightarrow>
          if ty \<in> set object_prototype_members then gate_inherited ty data
          else Refused (UnknownType ty))"

definition known_type :: "string \<Rightarrow> bool" where
  "known_type ty \<longleftrightarrow> ty \<in> fst ` set shapeGates"

lemma gateEvent_known:
  "known_type ty \<Longrightarrow> gateEvent ty data = Accepted \<or> gateEvent ty data = Refused (Shape ty)"
  by (force simp: gateEvent_def known_type_def map_of_eq_None_iff split: option.splits)

subsection \<open>parseSurfaceOp\<close>

datatype surface_op = OpAppend | OpReplace nat nat

definition parseSurfaceOp :: "jsval \<Rightarrow> surface_op option" where
  "parseSurfaceOp v =
     (if v = JStr ''append'' then Some OpAppend
      else if isObj v \<and> field v ''op'' = JStr ''replace'' then
        (case (count_of (field v ''startSeq''), count_of (field v ''endSeq'')) of
           (Some a, Some b) \<Rightarrow> Some (OpReplace a b)
         | _ \<Rightarrow> None)
      else None)"

fun encode_op :: "surface_op \<Rightarrow> jsval" where
  "encode_op OpAppend = JStr ''append''"
| "encode_op (OpReplace a b) =
     JObj [(''op'', JStr ''replace''), (''startSeq'', JNum (NInt (int a))),
           (''endSeq'', JNum (NInt (int b)))]"

fun op_in_range :: "surface_op \<Rightarrow> bool" where
  "op_in_range OpAppend = True"
| "op_in_range (OpReplace a b) = (int a \<le> max_safe \<and> int b \<le> max_safe)"

lemma parse_encode_op: "op_in_range op \<Longrightarrow> parseSurfaceOp (encode_op op) = Some op"
  by (cases op) (auto simp: parseSurfaceOp_def field_def)

lemma parse_op_in_range: "parseSurfaceOp v = Some op \<Longrightarrow> op_in_range op"
  by (auto simp: parseSurfaceOp_def split: if_splits option.splits dest!: count_ofE)

end
