(* ===== verification/SessionSurface.thy ===== *)
theory SessionSurface
  imports SessionGates
begin

text \<open>
  \<open>packages/core/session/src/surface.ts\<close>: the surface of a session, the list of nodes the
  model sees, as a projection of the event log. An event either appends its node or
  replaces a contiguous range of nodes. The node keeps the event; its \<open>seq\<close> is the
  event's.
\<close>

record sevent =
  ev_type :: string
  ev_seq :: nat
  ev_time :: jsnum
  ev_data :: jsval
  ev_op :: "surface_op option"

definition SURFACE_TYPES :: "string list" where
  "SURFACE_TYPES =
     [''system/message'', ''user/message'', ''assistant/message'', ''tool/result'', ''agent/message'']"

definition isSurfaceEventType :: "string \<Rightarrow> bool" where
  "isSurfaceEventType ty = (ty \<in> set SURFACE_TYPES)"

type_synonym node = sevent  \<comment> \<open>\<open>SurfaceNode\<close>: \<open>seq\<close> is \<open>ev_seq\<close> of the event it carries\<close>

datatype surface_error = TargetMissing nat | BadRange nat nat

subsection \<open>applySurfaceEvent\<close>

text \<open>
  The loop of the source records the last node whose \<open>seq\<close> is the one it looks for.
\<close>

fun last_index :: "nat \<Rightarrow> nat \<Rightarrow> node list \<Rightarrow> nat option \<Rightarrow> nat option" where
  "last_index s i [] found = found"
| "last_index s i (n # ns) found = last_index s (Suc i) ns (if ev_seq n = s then Some i else found)"

definition applySurfaceEvent :: "node list \<Rightarrow> sevent \<Rightarrow> surface_op \<Rightarrow> surface_error + node list" where
  "applySurfaceEvent nodes ev op =
     (case op of
        OpAppend \<Rightarrow> Inr (nodes @ [ev])
      | OpReplace startSeq endSeq \<Rightarrow>
          (case last_index startSeq 0 nodes None of
             None \<Rightarrow> Inl (TargetMissing startSeq)
           | Some startIdx \<Rightarrow>
               (case last_index endSeq 0 nodes None of
                  None \<Rightarrow> Inl (TargetMissing endSeq)
                | Some endIdx \<Rightarrow>
                    if endIdx < startIdx then Inl (BadRange startSeq endSeq)
                    else Inr (take startIdx nodes @ [ev] @ drop (Suc endIdx) nodes))))"

text \<open>\<open>projectSurface\<close> throws on a step that fails: \<open>Inl\<close>.\<close>

fun project_from :: "node list \<Rightarrow> sevent list \<Rightarrow> (nat \<times> surface_error) + node list" where
  "project_from nodes [] = Inr nodes"
| "project_from nodes (ev # evs) =
     (if isSurfaceEventType (ev_type ev) then
        (case applySurfaceEvent nodes ev (case ev_op ev of Some op \<Rightarrow> op | None \<Rightarrow> OpAppend) of
           Inl e \<Rightarrow> Inl (ev_seq ev, e)
         | Inr nodes' \<Rightarrow> project_from nodes' evs)
      else project_from nodes evs)"

definition projectSurface :: "sevent list \<Rightarrow> (nat \<times> surface_error) + node list" where
  "projectSurface evs = project_from [] evs"

definition anchorIndexOf :: "node list \<Rightarrow> nat option" where
  \<comment> \<open>\<open>findIndex\<close> of the first node whose data has a \<open>text\<close>; \<open>None\<close> is \<open>-1\<close>\<close>
  "anchorIndexOf nodes =
     map_option fst (List.find (\<lambda>(i, n). field (ev_data n) ''text'' \<noteq> JUndef) (enumerate 0 nodes))"

subsection \<open>surfaceToMessages\<close>

datatype surface_message =
    MSystem jsval
  | MUser jsval
  | MAssistant jsval "jsval option" "jsval option" "jsval option"
  | MTool jsval jsval "jsval option"
  | MUndefined  \<comment> \<open>what the \<open>switch\<close> yields for a type that is not a surface type\<close>

definition present :: "jsval \<Rightarrow> jsval option" where
  \<comment> \<open>\<open>...(v !== undefined ? { key: v } : {})\<close>\<close>
  "present v = (if v = JUndef then None else Some v)"

definition node_message :: "node \<Rightarrow> surface_message option" where
  \<comment> \<open>\<open>None\<close> is the marker of a dormant node\<close>
  "node_message n =
     (let d = ev_data n; ty = ev_type n in
      if ty = ''system/message'' then
        (if field d ''text'' = JStr [] then None else Some (MSystem (field d ''text'')))
      else if ty = ''user/message'' then Some (MUser (field d ''content''))
      else if ty = ''assistant/message'' then
        Some (MAssistant (field d ''content'') (present (field d ''usage''))
               (present (field d ''stopReason'')) (present (field d ''thinkingBlocks'')))
      else if ty = ''tool/result'' then
        Some (MTool (field d ''callId'') (field d ''content'') (present (field d ''isError'')))
      else if ty = ''agent/message'' then Some (MUser (field d ''content''))
      else Some MUndefined)"

definition surfaceToMessages :: "node list \<Rightarrow> surface_message list" where
  "surfaceToMessages nodes = List.map_filter node_message nodes"

subsection \<open>Where a sequence number sits\<close>

lemma last_index_spec:
  "last_index s i ns found =
     (case List.find (\<lambda>k. ev_seq (ns ! k) = s) (rev [0..<length ns]) of
        Some k \<Rightarrow> Some (i + k) | None \<Rightarrow> found)"
proof (induction s i ns found rule: last_index.induct)
  case (1 s i found)
  then show ?case by simp
next
  case (2 s i n ns found)
  have shift: "rev [0..<length (n # ns)] = map Suc (rev [0..<length ns]) @ [0]"
    by (simp add: map_Suc_upt rev_map [symmetric] upt_conv_Cons del: upt_Suc)
  have find_append: "List.find P (xs @ ys) = (case List.find P xs of Some k \<Rightarrow> Some k | None \<Rightarrow> List.find P ys)"
    for P :: "nat \<Rightarrow> bool" and xs ys by (induction xs) auto
  have find_map: "List.find P (map Suc xs) = map_option Suc (List.find (\<lambda>k. P (Suc k)) xs)"
    for P :: "nat \<Rightarrow> bool" and xs by (induction xs) auto
  show ?case
    using "2.IH" unfolding shift find_append find_map
    by (auto split: option.splits)
qed

lemma last_index_SomeD:
  "last_index s 0 ns None = Some k \<Longrightarrow> k < length ns \<and> ev_seq (ns ! k) = s"
  by (auto simp: last_index_spec split: option.splits dest: find_SomeD)

lemma last_index_None_iff: "last_index s 0 ns None = None \<longleftrightarrow> s \<notin> ev_seq ` set ns"
proof -
  have "last_index s 0 ns None = None \<longleftrightarrow> List.find (\<lambda>k. ev_seq (ns ! k) = s) (rev [0..<length ns]) = None"
    by (auto simp: last_index_spec split: option.splits)
  also have "\<dots> \<longleftrightarrow> (\<forall>k < length ns. ev_seq (ns ! k) \<noteq> s)"
    by (auto simp: find_None_iff)
  also have "\<dots> \<longleftrightarrow> s \<notin> ev_seq ` set ns"
    by (metis image_iff in_set_conv_nth)
  finally show ?thesis .
qed

subsection \<open>Distinct sequence numbers\<close>

lemma replace_seqs:
  assumes "applySurfaceEvent nodes ev op = Inr nodes'"
  shows "set nodes' \<subseteq> insert ev (set nodes)" and "ev \<in> set nodes'"
  using assms
  by (auto simp: applySurfaceEvent_def split: surface_op.splits option.splits if_splits
      dest: in_set_takeD in_set_dropD)

lemma replace_seq_image:
  "applySurfaceEvent nodes ev op = Inr nodes' \<Longrightarrow>
     ev_seq ` set nodes' \<subseteq> insert (ev_seq ev) (ev_seq ` set nodes)"
  by (metis image_insert image_mono replace_seqs(1))

lemma apply_distinct:
  assumes "applySurfaceEvent nodes ev op = Inr nodes'"
    and "distinct (map ev_seq nodes)" and "ev_seq ev \<notin> ev_seq ` set nodes"
  shows "distinct (map ev_seq nodes')"
proof (cases op)
  case OpAppend
  then show ?thesis using assms by (auto simp: applySurfaceEvent_def)
next
  case (OpReplace a b)
  then obtain i j where ij: "i \<le> j" "nodes' = take i nodes @ [ev] @ drop (Suc j) nodes"
    using assms(1)
    by (auto simp: applySurfaceEvent_def not_less split: option.splits if_splits intro: that)
  have "set (take i (map ev_seq nodes)) \<inter> set (drop (Suc j) (map ev_seq nodes)) = {}"
    using assms(2) ij(1) by (intro set_take_disj_set_drop_if_distinct) auto
  moreover have "ev_seq ev \<notin> set (take i (map ev_seq nodes))"
    "ev_seq ev \<notin> set (drop (Suc j) (map ev_seq nodes))"
    using assms(3) by (metis in_set_takeD set_map, metis in_set_dropD set_map)
  ultimately show ?thesis
    using assms(2) ij(2) by (simp add: take_map drop_map) (metis distinct_drop distinct_take drop_map take_map)
qed

lemma project_from_append:
  "project_from nodes (evs @ evs') =
     (case project_from nodes evs of
        Inl e \<Rightarrow> Inl e | Inr nodes' \<Rightarrow> project_from nodes' evs')"
  by (induction nodes evs rule: project_from.induct) (auto split: sum.splits)

lemma projectSurface_snoc:
  "projectSurface (evs @ [ev]) =
     (case projectSurface evs of
        Inl e \<Rightarrow> Inl e | Inr nodes \<Rightarrow> project_from nodes [ev])"
  by (simp add: projectSurface_def project_from_append)

lemma surfaceToMessages_append:
  "surfaceToMessages (xs @ ys) = surfaceToMessages xs @ surfaceToMessages ys"
  by (simp add: surfaceToMessages_def map_filter_def)

end
