(* ===== verification/SessionValidate.thy ===== *)
theory SessionValidate
  imports SessionSurface
begin

text \<open>
  The rest of \<open>packages/core/session/src/gates.ts\<close>: the envelope of a stored event, the
  pairing of command events, and \<open>validateSessionEvents\<close>, the check a seed passes before a
  session is born from it. An error of the source is a string built from a template; here
  each template is a constructor with the interpolated values as arguments.
\<close>

datatype pairing_error = RunDuplicate string | DoneUnpaired string

datatype envelope_error =
    NotObject
  | ExtraKey string
  | BadType
  | Gate gate_error
  | BadSeq
  | BadTime
  | Pairing pairing_error
  | BadSurfaceOp
  | SurfaceOpNotAllowed

datatype validate_error =
    CorruptEnvelope nat envelope_error
  | CorruptSurface nat surface_error
  | GateException nat  \<comment> \<open>\<open>gateEvent\<close> threw\<close>

subsection \<open>CommandPairing\<close>

record pairing =
  pair_open :: "string set"
  pair_matched :: "string set"

definition pairing_init :: pairing where
  "pairing_init = \<lparr>pair_open = {}, pair_matched = {}\<rparr>"

definition pairing_check :: "pairing \<Rightarrow> jsval \<Rightarrow> pairing \<times> pairing_error option" where
  "pairing_check p raw =
     (let data = field raw ''data''; ty = field raw ''type'';
          commandId = if isObj data then field data ''commandId'' else JUndef
      in case commandId of
           JStr c \<Rightarrow>
             if c = [] then (p, None)
             else if ty = JStr ''command/run'' then
               (if c \<in> pair_open p \<or> c \<in> pair_matched p then (p, Some (RunDuplicate c))
                else (p\<lparr>pair_open := insert c (pair_open p)\<rparr>, None))
             else if ty = JStr ''command/done'' then
               (if c \<notin> pair_open p then (p, Some (DoneUnpaired c))
                else (p\<lparr>pair_open := pair_open p - {c},
                        pair_matched := insert c (pair_matched p)\<rparr>, None))
             else (p, None)
         | _ \<Rightarrow> (p, None))"

subsection \<open>The envelope\<close>

definition ENVELOPE_KEYS :: "string list" where
  "ENVELOPE_KEYS = [''type'', ''seq'', ''time'', ''data'', ''surfaceOp'']"

definition envelopeExtraKey :: "jsval \<Rightarrow> string option" where
  "envelopeExtraKey raw = List.find (\<lambda>k. k \<notin> set ENVELOPE_KEYS) (map fst (own_fields raw))"

fun time_ok :: "jsval \<Rightarrow> bool" where
  "time_ok (JNum n) = (num_finite n \<and> \<not> num_negative n \<and> n \<noteq> NNegZero)"
| "time_ok _ = False"

fun seq_is :: "jsval \<Rightarrow> nat \<Rightarrow> bool" where
  "seq_is (JNum n) i = num_equals_int n (int i)"
| "seq_is _ i = False"

definition envelopeError :: "jsval \<Rightarrow> nat \<Rightarrow> validate_error option" where
  "envelopeError raw i =
     (case envelopeExtraKey raw of
        Some k \<Rightarrow> Some (CorruptEnvelope i (ExtraKey k))
      | None \<Rightarrow>
          (case field raw ''type'' of
             JStr ty \<Rightarrow>
               (case gateEvent ty (field raw ''data'') of
                  GateThrows \<Rightarrow> Some (GateException i)
                | Refused e \<Rightarrow> Some (CorruptEnvelope i (Gate e))
                | Accepted \<Rightarrow>
                    if \<not> seq_is (field raw ''seq'') i then Some (CorruptEnvelope i BadSeq)
                    else if \<not> time_ok (field raw ''time'') then Some (CorruptEnvelope i BadTime)
                    else None)
           | _ \<Rightarrow> Some (CorruptEnvelope i BadType)))"

subsection \<open>validateSessionEvents\<close>

text \<open>
  One round of the loop: the pairing, the envelope, the surface. The event it hands to
  \<open>applySurfaceEvent\<close> is \<open>decode i raw op\<close>.
\<close>

fun time_of :: "jsval \<Rightarrow> jsnum" where
  "time_of (JNum n) = n"
| "time_of _ = NNaN"

definition decode :: "nat \<Rightarrow> jsval \<Rightarrow> sevent" where
  "decode i raw =
     \<lparr>ev_type = str_of (field raw ''type''), ev_seq = i, ev_time = time_of (field raw ''time''),
      ev_data = field raw ''data'',
      ev_op = (if isSurfaceEventType (str_of (field raw ''type''))
               then parseSurfaceOp (field raw ''surfaceOp'') else None)\<rparr>"

definition validate_event ::
  "node list \<Rightarrow> pairing \<Rightarrow> nat \<Rightarrow> jsval \<Rightarrow> validate_error + (node list \<times> pairing)" where
  "validate_event nodes p i raw =
     (if \<not> isObj raw then Inl (CorruptEnvelope i NotObject)
      else case pairing_check p raw of
        (p', Some e) \<Rightarrow> Inl (CorruptEnvelope i (Pairing e))
      | (p', None) \<Rightarrow>
          (case envelopeError raw i of
             Some e \<Rightarrow> Inl e
           | None \<Rightarrow>
               if isSurfaceEventType (str_of (field raw ''type'')) then
                 (case parseSurfaceOp (field raw ''surfaceOp'') of
                    None \<Rightarrow> Inl (CorruptEnvelope i BadSurfaceOp)
                  | Some op \<Rightarrow>
                      (case applySurfaceEvent nodes (decode i raw) op of
                         Inl e \<Rightarrow> Inl (CorruptSurface i e)
                       | Inr nodes' \<Rightarrow> Inr (nodes', p')))
               else if has_own raw ''surfaceOp'' then Inl (CorruptEnvelope i SurfaceOpNotAllowed)
               else Inr (nodes, p')))"

fun validate_from ::
  "node list \<Rightarrow> pairing \<Rightarrow> nat \<Rightarrow> jsval list \<Rightarrow> validate_error + (node list \<times> pairing)" where
  "validate_from nodes p i [] = Inr (nodes, p)"
| "validate_from nodes p i (raw # raws) =
     (case validate_event nodes p i raw of
        Inl e \<Rightarrow> Inl e
      | Inr (nodes', p') \<Rightarrow> validate_from nodes' p' (Suc i) raws)"

definition validateSessionEvents :: "jsval list \<Rightarrow> validate_error option" where
  "validateSessionEvents raws =
     (case validate_from [] pairing_init 0 raws of Inl e \<Rightarrow> Some e | Inr _ \<Rightarrow> None)"

text \<open>The events a validated list of envelopes stands for.\<close>

fun decode_from :: "nat \<Rightarrow> jsval list \<Rightarrow> sevent list" where
  "decode_from i [] = []"
| "decode_from i (raw # raws) = decode i raw # decode_from (Suc i) raws"

lemma length_decode_from [simp]: "length (decode_from i raws) = length raws"
  by (induction raws arbitrary: i) auto

lemma decode_from_append:
  "decode_from i (xs @ ys) = decode_from i xs @ decode_from (i + length xs) ys"
  by (induction xs arbitrary: i) auto

lemma validate_from_append:
  "validate_from nodes p i (xs @ ys) =
     (case validate_from nodes p i xs of
        Inl e \<Rightarrow> Inl e
      | Inr (nodes', p') \<Rightarrow> validate_from nodes' p' (i + length xs) ys)"
  by (induction nodes p i xs rule: validate_from.induct) (auto split: sum.splits)

lemma validate_event_surface:
  assumes "validate_event nodes p i raw = Inr (nodes', p')"
  shows "project_from nodes [decode i raw] = Inr nodes'"
  using assms
  by (auto simp: validate_event_def decode_def Let_def
      split: if_splits prod.splits option.splits sum.splits)

text \<open>What passes validation projects without an exception, to the nodes the check built.\<close>

lemma validate_from_project:
  "validate_from nodes p i raws = Inr (nodes', p') \<Longrightarrow>
     project_from nodes (decode_from i raws) = Inr nodes'"
proof (induction nodes p i raws rule: validate_from.induct)
  case (1 nodes p i)
  then show ?case by simp
next
  case (2 nodes p i raw raws)
  then obtain n1 p1 where v: "validate_event nodes p i raw = Inr (n1, p1)"
    "validate_from n1 p1 (Suc i) raws = Inr (nodes', p')"
    by (auto split: sum.splits)
  have "project_from n1 (decode_from (Suc i) raws) = Inr nodes'"
    using "2.IH" [OF v(1) refl v(2)] .
  moreover have "project_from nodes [decode i raw] = Inr n1"
    using v(1) by (rule validate_event_surface)
  ultimately show ?case
    using project_from_append [of nodes "[decode i raw]" "decode_from (Suc i) raws"] by simp
qed

end
