(* ===== verification/SessionLog.thy ===== *)
theory SessionLog
  imports SessionValidate "HOL-Library.Sublist"
begin

text \<open>
  \<open>packages/core/session/src/session.ts\<close>: a session is an append-only log of events with
  the surface kept beside it. \<open>createSession\<close> starts it from a seed, \<open>append\<close> adds one event
  after the checks of the gates, and notifies \<open>onAppend\<close> while the flag \<open>appending\<close> is
  set, so that a callback cannot append to the same session. The clock (\<open>Date.now()\<close>) and
  what the callback does are arguments.
\<close>

record session =
  sess_header :: jsval
  sess_log :: "sevent list"
  sess_nodes :: "node list"
  sess_sealed :: bool
  sess_appending :: bool

subsection \<open>Events as values\<close>

definition encode :: "sevent \<Rightarrow> jsval" where
  "encode ev =
     JObj ([(''type'', JStr (ev_type ev)), (''seq'', JNum (NInt (int (ev_seq ev)))),
            (''time'', JNum (ev_time ev))] @
           (if ev_data ev = JUndef then [] else [(''data'', ev_data ev)]) @
           (case ev_op ev of None \<Rightarrow> [] | Some op \<Rightarrow> [(''surfaceOp'', encode_op op)]))"

definition event_wf :: "sevent \<Rightarrow> bool" where
  "event_wf ev \<longleftrightarrow>
     (isSurfaceEventType (ev_type ev) \<longleftrightarrow> ev_op ev \<noteq> None) \<and>
     (\<forall>op. ev_op ev = Some op \<longrightarrow> op_in_range op)"

definition data_ok :: "sevent \<Rightarrow> bool" where
  \<comment> \<open>a stored event may lack its data; what a session appends never does\<close>
  "data_ok ev \<longleftrightarrow> ev_data ev = JUndef \<or> json_safe (ev_data ev)"

lemma op_json_safe [simp]: "json_safe (encode_op op)"
  by (cases op) auto

lemma encode_json_safe:
  "data_ok ev \<Longrightarrow> num_finite (ev_time ev) \<Longrightarrow> ev_time ev \<noteq> NNegZero \<Longrightarrow> json_safe (encode ev)"
  by (auto simp: encode_def data_ok_def split: option.splits)

subsection \<open>createSession\<close>

datatype create_failure = SeedNotJson | InvalidSurface nat surface_error

definition end_seed_event :: "nat \<Rightarrow> bool \<Rightarrow> jsnum \<Rightarrow> sevent" where
  "end_seed_event seq inherited now =
     \<lparr>ev_type = ''session/end-seed'', ev_seq = seq, ev_time = now,
      ev_data = JObj (if inherited then [(''inherited'', JBool True)] else []), ev_op = None\<rparr>"

definition seeded_log :: "sevent list \<Rightarrow> bool \<Rightarrow> jsnum \<Rightarrow> sevent list" where
  "seeded_log seed inherited now =
     (if seed = [] then [] else seed @ [end_seed_event (length seed) inherited now])"

definition createSession ::
  "jsval \<Rightarrow> sevent list \<Rightarrow> bool \<Rightarrow> jsnum \<Rightarrow> create_failure + session" where
  "createSession header seed inherited now =
     (if \<not> list_all (\<lambda>ev. materializeJson (encode ev) \<noteq> None) seed then Inl SeedNotJson
      else
        let log = seeded_log seed inherited now in
        case projectSurface log of
          Inl (seq, e) \<Rightarrow> Inl (InvalidSurface seq e)
        | Inr nodes \<Rightarrow>
            Inr \<lparr>sess_header = header, sess_log = log, sess_nodes = nodes,
                 sess_sealed = False, sess_appending = False\<rparr>)"

subsection \<open>append\<close>

datatype append_reason =
    SessionDisposed
  | AppendReentrant
  | SurfaceIntentRequired
  | SurfaceIntentNotAllowed
  | SurfaceOpInvalid
  | NotJsonSafe string
  | GateReason gate_error
  | SurfaceReason surface_error

datatype append_outcome = Appended sevent | AppendRefused append_reason | AppendThrew

text \<open>
  \<open>try_append\<close> is \<open>append\<close> up to the point where the log changes: the event to push and the
  nodes after it, or how the call ends before that. \<open>intent\<close> is \<open>JUndef\<close> when the caller
  passes none.
\<close>

definition try_append ::
  "session \<Rightarrow> jsnum \<Rightarrow> string \<Rightarrow> jsval \<Rightarrow> jsval \<Rightarrow> append_outcome + (sevent \<times> node list)" where
  "try_append s now ty data intent =
     (if sess_sealed s then Inl (AppendRefused SessionDisposed)
      else if sess_appending s then Inl (AppendRefused AppendReentrant)
      else
        let surface = isSurfaceEventType ty in
        if surface \<noteq> (intent \<noteq> JUndef) then
          Inl (AppendRefused (if surface then SurfaceIntentRequired else SurfaceIntentNotAllowed))
        else
          let parsedOp = (if surface then parseSurfaceOp (field intent ''surfaceOp'') else None) in
          if surface \<and> parsedOp = None then Inl (AppendRefused SurfaceOpInvalid)
          else
            case materializeJson data of
              None \<Rightarrow> Inl (AppendRefused (NotJsonSafe ty))
            | Some snapshot \<Rightarrow>
                (case gateEvent ty snapshot of
                   GateThrows \<Rightarrow> Inl AppendThrew
                 | Refused e \<Rightarrow> Inl (AppendRefused (GateReason e))
                 | Accepted \<Rightarrow>
                     let ev = \<lparr>ev_type = ty, ev_seq = length (sess_log s), ev_time = now,
                               ev_data = snapshot, ev_op = parsedOp\<rparr>
                     in (case parsedOp of
                           None \<Rightarrow> Inr (ev, sess_nodes s)
                         | Some op \<Rightarrow>
                             (case applySurfaceEvent (sess_nodes s) ev op of
                                Inl e \<Rightarrow> Inl (AppendRefused (SurfaceReason e))
                              | Inr nodes \<Rightarrow> Inr (ev, nodes)))))"

definition seal :: "session \<Rightarrow> session" where
  "seal s = s\<lparr>sess_sealed := True\<rparr>"

text \<open>
  What a callback can do to the session it is told about: try to append, or dispose it. The
  second component of a callback is whether it ends with an exception.
\<close>

datatype cb_op = CbAppend jsnum string jsval jsval | CbSeal

type_synonym callback = "cb_op list \<times> bool"

fun run_cb :: "session \<Rightarrow> cb_op \<Rightarrow> session" where
  "run_cb s (CbAppend now ty data intent) =
     (case try_append s now ty data intent of
        Inl _ \<Rightarrow> s
      | Inr (ev, nodes) \<Rightarrow> s\<lparr>sess_log := sess_log s @ [ev], sess_nodes := nodes\<rparr>)"
| "run_cb s CbSeal = seal s"

definition append ::
  "session \<Rightarrow> jsnum \<Rightarrow> string \<Rightarrow> jsval \<Rightarrow> jsval \<Rightarrow> callback \<Rightarrow> session \<times> append_outcome" where
  "append s now ty data intent cb =
     (case try_append s now ty data intent of
        Inl stop \<Rightarrow> (s, stop)
      | Inr (ev, nodes) \<Rightarrow>
          let s1 = s\<lparr>sess_log := sess_log s @ [ev], sess_nodes := nodes, sess_appending := True\<rparr>;
              s2 = foldl run_cb s1 (fst cb)
          in (s2\<lparr>sess_appending := False\<rparr>, if snd cb then AppendThrew else Appended ev))"

definition deriveMessages :: "session \<Rightarrow> surface_message list" where
  "deriveMessages s = surfaceToMessages (sess_nodes s)"

subsection \<open>What a callback leaves alone\<close>

lemma try_append_appending:
  "sess_appending s \<Longrightarrow> \<exists>r. try_append s now ty data intent = Inl (AppendRefused r)"
  by (auto simp: try_append_def)

lemma try_append_not_Inr [simp]: "sess_appending s \<Longrightarrow> try_append s now ty data intent \<noteq> Inr r"
  using try_append_appending [of s now ty data intent] by auto

lemma run_cb_appending:
  "sess_appending s \<Longrightarrow>
     sess_log (run_cb s op) = sess_log s \<and> sess_nodes (run_cb s op) = sess_nodes s \<and>
     sess_header (run_cb s op) = sess_header s \<and> sess_appending (run_cb s op)"
  by (cases op) (auto simp: seal_def split: sum.splits)

lemma run_cbs_appending:
  "sess_appending s \<Longrightarrow>
     sess_log (foldl run_cb s ops) = sess_log s \<and> sess_nodes (foldl run_cb s ops) = sess_nodes s \<and>
     sess_header (foldl run_cb s ops) = sess_header s \<and> sess_appending (foldl run_cb s ops)"
  by (induction ops arbitrary: s) (auto simp: run_cb_appending)

lemma append_fields:
  assumes "try_append s now ty data intent = Inr (ev, nodes)"
  shows "sess_log (fst (append s now ty data intent cb)) = sess_log s @ [ev]"
    and "sess_nodes (fst (append s now ty data intent cb)) = nodes"
    and "sess_header (fst (append s now ty data intent cb)) = sess_header s"
    and "\<not> sess_appending (fst (append s now ty data intent cb))"
  using assms by (simp_all add: append_def Let_def run_cbs_appending)

lemma append_stopped:
  "try_append s now ty data intent = Inl stop \<Longrightarrow> append s now ty data intent cb = (s, stop)"
  by (simp add: append_def)

lemma try_append_event:
  assumes "try_append s now ty data intent = Inr (ev, nodes)"
  shows "ev_type ev = ty" "ev_seq ev = length (sess_log s)" "ev_time ev = now"
    "json_safe (ev_data ev)" "gateEvent ty (ev_data ev) = Accepted" "event_wf ev"
    "project_from (sess_nodes s) [ev] = Inr nodes" "\<not> sess_sealed s" "\<not> sess_appending s"
  using assms
  by (auto simp: try_append_def Let_def event_wf_def
      split: if_splits option.splits gate_outcome.splits sum.splits
      dest: materialize_SomeD parse_op_in_range)

lemma try_append_stop:
  "try_append s now ty data intent = Inl stop \<Longrightarrow> \<nexists>ev. stop = Appended ev"
  by (auto simp: try_append_def Let_def
      split: if_splits option.splits gate_outcome.splits sum.splits)

subsection \<open>The contract of an append-only log\<close>

text \<open>
  Everything that reads a session relies on one law: a step only extends the log. The
  clients of the log (positions are stable, histories are prefixes of each other) are
  proved once from it.
\<close>

locale event_log =
  fixes step :: "'s \<Rightarrow> 'i \<Rightarrow> 's"
    and log :: "'s \<Rightarrow> 'e list"
  assumes extends: "prefix (log s) (log (step s i))"
begin

lemma run_extends: "prefix (log s) (log (foldl step s is))"
proof (induction "is" arbitrary: s)
  case Nil
  then show ?case by simp
next
  case (Cons i js)
  then show ?case using extends [of s i] by (auto intro: prefix_order.trans)
qed

lemma history_linear:
  "prefix (log (foldl step s is)) (log (foldl step s (is @ js)))"
  using run_extends [of "foldl step s is" js] by simp

lemma position_stable:
  "k < length (log s) \<Longrightarrow> log (foldl step s is) ! k = log s ! k"
  using run_extends [of s "is"] by (auto simp: prefix_def nth_append)

lemma length_mono: "length (log s) \<le> length (log (foldl step s is))"
  using run_extends [of s "is"] by (auto dest: prefix_length_le)

end

text \<open>One call on a session handle: an append with what its callback does, or the seal.\<close>

datatype session_call = CallAppend jsnum string jsval jsval callback | CallSeal

fun session_step :: "session \<Rightarrow> session_call \<Rightarrow> session" where
  "session_step s (CallAppend now ty data intent cb) = fst (append s now ty data intent cb)"
| "session_step s CallSeal = seal s"

lemma append_log_cases:
  obtains (stopped) stop where "try_append s now ty data intent = Inl stop"
    "append s now ty data intent cb = (s, stop)"
  | (pushed) ev nodes where "try_append s now ty data intent = Inr (ev, nodes)"
    "sess_log (fst (append s now ty data intent cb)) = sess_log s @ [ev]"
    "sess_nodes (fst (append s now ty data intent cb)) = nodes"
    "snd (append s now ty data intent cb) = (if snd cb then AppendThrew else Appended ev)"
proof (cases "try_append s now ty data intent")
  case (Inl stop)
  then show ?thesis using stopped append_stopped by blast
next
  case (Inr r)
  obtain ev nodes where r: "r = (ev, nodes)" by (cases r)
  show ?thesis
    by (rule pushed [of ev nodes])
      (use Inr r append_fields [of s now ty data intent ev nodes cb] in \<open>simp_all add: append_def Let_def\<close>)
qed

lemma session_step_extends: "prefix (sess_log s) (sess_log (session_step s c))"
proof (cases c)
  case (CallAppend now ty data intent cb)
  show ?thesis unfolding CallAppend session_step.simps
    by (rule append_log_cases [of s now ty data intent cb]) auto
qed (simp add: seal_def)

interpretation slog: event_log session_step sess_log
  by unfold_locales (rule session_step_extends)

subsection \<open>The session invariant\<close>

definition numbered :: "sevent list \<Rightarrow> bool" where
  "numbered evs \<longleftrightarrow> map ev_seq evs = [0..<length evs]"

definition session_inv :: "session \<Rightarrow> bool" where
  "session_inv s \<longleftrightarrow>
     numbered (sess_log s) \<and>
     (\<forall>ev \<in> set (sess_log s). event_wf ev \<and> data_ok ev) \<and>
     projectSurface (sess_log s) = Inr (sess_nodes s)"

lemma numbered_snoc: "numbered evs \<Longrightarrow> ev_seq ev = length evs \<Longrightarrow> numbered (evs @ [ev])"
  by (simp add: numbered_def)

lemma project_from_seqs:
  "project_from nodes evs = Inr nodes' \<Longrightarrow>
     ev_seq ` set nodes' \<subseteq> ev_seq ` set nodes \<union> ev_seq ` set evs"
proof (induction nodes evs rule: project_from.induct)
  case (1 nodes)
  then show ?case by simp
next
  case (2 nodes ev evs)
  show ?case
  proof (cases "isSurfaceEventType (ev_type ev)")
    case True
    with "2.prems" obtain n1 where a:
      "applySurfaceEvent nodes ev (case ev_op ev of Some op \<Rightarrow> op | None \<Rightarrow> OpAppend) = Inr n1"
      "project_from n1 evs = Inr nodes'"
      by (auto split: sum.splits)
    from "2.IH"(1) [OF True a] replace_seq_image [OF a(1)] show ?thesis by (simp, blast)
  next
    case False
    with 2 show ?thesis by auto
  qed
qed

lemma project_from_distinct:
  "project_from nodes evs = Inr nodes' \<Longrightarrow> distinct (map ev_seq nodes) \<Longrightarrow>
     distinct (map ev_seq evs) \<Longrightarrow> ev_seq ` set nodes \<inter> ev_seq ` set evs = {} \<Longrightarrow>
     distinct (map ev_seq nodes')"
proof (induction nodes evs rule: project_from.induct)
  case (1 nodes)
  then show ?case by simp
next
  case (2 nodes ev evs)
  show ?case
  proof (cases "isSurfaceEventType (ev_type ev)")
    case True
    with "2.prems"(1) obtain n1 where a:
      "applySurfaceEvent nodes ev (case ev_op ev of Some op \<Rightarrow> op | None \<Rightarrow> OpAppend) = Inr n1"
      "project_from n1 evs = Inr nodes'"
      by (auto split: sum.splits)
    have d1: "distinct (map ev_seq n1)"
      using "2.prems"(2,4) by (intro apply_distinct [OF a(1)]) (simp_all add: disjoint_insert)
    have d2: "distinct (map ev_seq evs)" using "2.prems"(3) by simp
    have x: "ev_seq ev \<notin> ev_seq ` set evs" using "2.prems"(3) by simp
    have "ev_seq ` set nodes \<inter> ev_seq ` set evs = {}"
      using "2.prems"(4) unfolding list.set image_insert by blast
    then have "ev_seq ` set n1 \<inter> ev_seq ` set evs = {}"
      by (rule disjoint_via_insert [OF replace_seq_image [OF a(1)] x])
    then show ?thesis by (rule "2.IH"(1) [OF True a d1 d2])
  next
    case False
    with 2 show ?thesis by auto
  qed
qed

lemma project_from_Inr_prefix:
  "project_from nodes (xs @ ys) = Inr r \<Longrightarrow> \<exists>r'. project_from nodes xs = Inr r'"
  by (auto simp: project_from_append split: sum.splits)

text \<open>A surface holds each event once, and only events of the log.\<close>

lemma surface_nodes:
  assumes "session_inv s"
  shows "distinct (map ev_seq (sess_nodes s))"
    and "ev_seq ` set (sess_nodes s) \<subseteq> {..<length (sess_log s)}"
proof -
  have p: "project_from [] (sess_log s) = Inr (sess_nodes s)"
    and n: "map ev_seq (sess_log s) = [0..<length (sess_log s)]"
    using assms by (auto simp: session_inv_def projectSurface_def numbered_def)
  show "distinct (map ev_seq (sess_nodes s))"
    by (rule project_from_distinct [OF p]) (simp_all add: n)
  have "ev_seq ` set (sess_log s) = {..<length (sess_log s)}"
    using arg_cong [OF n, of set] by (auto simp: atLeast0LessThan)
  then show "ev_seq ` set (sess_nodes s) \<subseteq> {..<length (sess_log s)}"
    using project_from_seqs [OF p] by auto
qed

lemma append_session_inv:
  assumes "session_inv s"
  shows "session_inv (fst (append s now ty data intent cb))"
proof (rule append_log_cases [of s now ty data intent cb])
  fix stop assume "append s now ty data intent cb = (s, stop)"
  then show ?thesis using assms by simp
next
  fix ev nodes assume t: "try_append s now ty data intent = Inr (ev, nodes)"
    and l: "sess_log (fst (append s now ty data intent cb)) = sess_log s @ [ev]"
    and n: "sess_nodes (fst (append s now ty data intent cb)) = nodes"
  note e = try_append_event [OF t]
  have "projectSurface (sess_log s @ [ev]) = Inr nodes"
    using assms e(7) unfolding projectSurface_snoc session_inv_def by (simp split: sum.splits)
  then show ?thesis
    using assms e l n by (auto simp: session_inv_def numbered_snoc data_ok_def)
qed

lemma session_step_inv: "session_inv s \<Longrightarrow> session_inv (session_step s c)"
proof (cases c)
  case (CallAppend now ty data intent cb)
  then show "session_inv s \<Longrightarrow> ?thesis" by (simp add: append_session_inv)
qed (simp add: session_inv_def seal_def)

definition empty_session :: "jsval \<Rightarrow> session" where
  "empty_session header =
     \<lparr>sess_header = header, sess_log = [], sess_nodes = [], sess_sealed = False, sess_appending = False\<rparr>"

lemma create_empty: "createSession header [] inherited now = Inr (empty_session header)"
  by (simp add: createSession_def seeded_log_def projectSurface_def empty_session_def)

lemma empty_session_inv: "session_inv (empty_session header)"
  by (simp add: session_inv_def empty_session_def numbered_def projectSurface_def)



end
