(* ===== verification/SessionReload.thy ===== *)
theory SessionReload
  imports SessionLog
begin

text \<open>
  Logs as seeds: what a live session appended, read back as envelopes, against
  \<open>validateSessionEvents\<close>, the check of a stored session. The log of a session stays valid
  under every append but those of command events, which only the check pairs.
\<close>

subsection \<open>Reading an encoded event back\<close>

lemma field_encode:
  "field (encode ev) ''type'' = JStr (ev_type ev)"
  "field (encode ev) ''seq'' = JNum (NInt (int (ev_seq ev)))"
  "field (encode ev) ''time'' = JNum (ev_time ev)"
  "field (encode ev) ''data'' = ev_data ev"
  "field (encode ev) ''surfaceOp'' = (case ev_op ev of None \<Rightarrow> JUndef | Some op \<Rightarrow> encode_op op)"
  "isObj (encode ev)"
  "has_own (encode ev) ''surfaceOp'' \<longleftrightarrow> ev_op ev \<noteq> None"
  by (cases "ev_op ev"; cases "ev_data ev = JUndef"; simp add: encode_def field_def has_own_def)+

lemma decode_encode: "event_wf ev \<Longrightarrow> ev_seq ev = i \<Longrightarrow> decode i (encode ev) = ev"
  by (cases ev) (auto simp: decode_def field_encode event_wf_def parse_encode_op split: option.splits)

lemma no_extra_key: "envelopeExtraKey (encode ev) = None"
  by (auto simp: envelopeExtraKey_def encode_def ENVELOPE_KEYS_def find_None_iff split: option.splits)

lemma envelope_encode:
  "gateEvent (ev_type ev) (ev_data ev) = Accepted \<Longrightarrow> ev_seq ev = i \<Longrightarrow>
     time_ok (JNum (ev_time ev)) \<Longrightarrow> envelopeError (encode ev) i = None"
  by (simp add: envelopeError_def no_extra_key field_encode)

definition command_event :: "string \<Rightarrow> bool" where
  "command_event ty \<longleftrightarrow> ty = ''command/run'' \<or> ty = ''command/done''"

lemma pairing_other:
  "\<not> command_event (ev_type ev) \<Longrightarrow> pairing_check p (encode ev) = (p, None)"
  by (simp add: pairing_check_def field_encode command_event_def Let_def split: jsval.splits)

lemma validate_encode:
  assumes "gateEvent (ev_type ev) (ev_data ev) = Accepted" "ev_seq ev = i" "event_wf ev"
    "time_ok (JNum (ev_time ev))" "pairing_check p (encode ev) = (p', None)"
    "project_from nodes [ev] = Inr nodes'"
  shows "validate_event nodes p i (encode ev) = Inr (nodes', p')"
proof (cases "isSurfaceEventType (ev_type ev)")
  case True
  then obtain op where op: "ev_op ev = Some op" "op_in_range op"
    using assms(3) by (auto simp: event_wf_def)
  then have "applySurfaceEvent nodes ev op = Inr nodes'"
    using assms(6) True by (auto split: sum.splits)
  then show ?thesis
    using assms op True
    by (simp add: validate_event_def field_encode envelope_encode parse_encode_op decode_encode)
next
  case False
  then have "ev_op ev = None" "nodes' = nodes"
    using assms(3,6) by (auto simp: event_wf_def)
  with False assms show ?thesis
    by (simp add: validate_event_def field_encode envelope_encode)
qed

subsection \<open>Valid logs\<close>

definition reload :: "sevent list \<Rightarrow> validate_error option" where
  "reload evs = validateSessionEvents (map encode evs)"

definition seed_state :: "sevent list \<Rightarrow> validate_error + (node list \<times> pairing)" where
  "seed_state evs = validate_from [] pairing_init 0 (map encode evs)"

lemma reload_None_iff: "reload evs = None \<longleftrightarrow> (\<exists>nodes p. seed_state evs = Inr (nodes, p))"
  by (auto simp: reload_def seed_state_def validateSessionEvents_def split: sum.splits)

lemma decode_log:
  "\<forall>ev \<in> set evs. event_wf ev \<Longrightarrow> map ev_seq evs = [i..<i + length evs] \<Longrightarrow>
     decode_from i (map encode evs) = evs"
proof (induction evs arbitrary: i)
  case Nil
  then show ?case by simp
next
  case (Cons ev evs)
  have "map ev_seq (ev # evs) = i # [Suc i..<Suc i + length evs]"
    using Cons.prems(2) by (simp add: upt_conv_Cons del: upt_Suc)
  then show ?case using Cons.IH [of "Suc i"] Cons.prems(1) by (simp add: decode_encode)
qed

lemma seed_state_nodes:
  assumes "session_inv s" and "seed_state (sess_log s) = Inr (nodes, p)"
  shows "nodes = sess_nodes s"
proof -
  have "project_from [] (decode_from 0 (map encode (sess_log s))) = Inr nodes"
    using assms(2) unfolding seed_state_def by (rule validate_from_project)
  moreover have "decode_from 0 (map encode (sess_log s)) = sess_log s"
    using assms(1) by (intro decode_log) (auto simp: session_inv_def numbered_def)
  ultimately show ?thesis using assms(1) by (simp add: session_inv_def projectSurface_def)
qed

lemma seed_state_snoc:
  assumes "session_inv s" "seed_state (sess_log s) = Inr (nodes, p)"
    and t: "try_append s now ty data intent = Inr (ev, nodes')"
    and "time_ok (JNum now)" and "pairing_check p (encode ev) = (p', None)"
  shows "seed_state (sess_log s @ [ev]) = Inr (nodes', p')"
proof -
  have n: "nodes = sess_nodes s" using assms(1,2) by (rule seed_state_nodes)
  note e = try_append_event [OF t]
  have "validate_event nodes p (length (sess_log s)) (encode ev) = Inr (nodes', p')"
    by (rule validate_encode) (use e assms(4,5) n in auto)
  then show ?thesis
    using assms(2) unfolding seed_state_def map_append validate_from_append by simp
qed

text \<open>C31: An append to a session whose log can be reloaded leaves a log that can be reloaded,
  unless it is a command event.\<close>

theorem append_keeps_reloadable:
  assumes "session_inv s" "reload (sess_log s) = None" "time_ok (JNum now)"
    and "\<not> command_event ty"
  shows "reload (sess_log (fst (append s now ty data intent cb))) = None"
proof (rule append_log_cases [of s now ty data intent cb])
  fix stop assume "append s now ty data intent cb = (s, stop)"
  then show ?thesis using assms(2) by simp
next
  fix ev nodes' assume t: "try_append s now ty data intent = Inr (ev, nodes')"
    and l: "sess_log (fst (append s now ty data intent cb)) = sess_log s @ [ev]"
  obtain nodes p where sd: "seed_state (sess_log s) = Inr (nodes, p)"
    using assms(2) reload_None_iff by blast
  have "pairing_check p (encode ev) = (p, None)"
    using try_append_event(1) [OF t] assms(4) by (simp add: pairing_other)
  from seed_state_snoc [OF assms(1) sd t assms(3) this] show ?thesis
    unfolding l reload_None_iff by blast
qed

lemma append_keeps_reloadable_witness:
  "reload (sess_log (fst (append (empty_session JNull) (NInt 5) ''turn/start'' (JObj [(''turn'', JNum (NInt 0))]) JUndef
     ([], False)))) = None \<and>
   sess_log (fst (append (empty_session JNull) (NInt 5) ''turn/start'' (JObj [(''turn'', JNum (NInt 0))]) JUndef
     ([], False))) \<noteq> []"
proof
  show "reload (sess_log (fst (append (empty_session JNull) (NInt 5) ''turn/start'' (JObj [(''turn'', JNum (NInt 0))]) JUndef
     ([], False)))) = None"
  proof (rule append_keeps_reloadable)
    show "reload (sess_log (empty_session JNull)) = None" "time_ok (JNum (NInt 5))" "\<not> command_event ''turn/start''"
      by code_simp+
  qed (rule empty_session_inv)
  show "sess_log (fst (append (empty_session JNull) (NInt 5) ''turn/start'' (JObj [(''turn'', JNum (NInt 0))]) JUndef
     ([], False))) \<noteq> []" by code_simp
qed

subsection \<open>The hole: unpaired command events\<close>

definition done_data :: "string \<Rightarrow> jsval" where
  "done_data c = JObj [(''commandId'', JStr c), (''kind'', JStr ''success'')]"

text \<open>\<open>append\<close> does not pair command events: a \<open>command/done\<close> without its \<open>command/run\<close> is
  accepted by a live session, and the log it leaves is refused when it is loaded again.\<close>

theorem unpaired_done_breaks_reload:
  assumes "c \<noteq> []"
  shows "\<exists>s' ev. append (empty_session header) now ''command/done'' (done_data c) JUndef ([], False)
           = (s', Appended ev)
         \<and> reload (sess_log s') = Some (CorruptEnvelope 0 (Pairing (DoneUnpaired c)))"
proof -
  let ?ev = "\<lparr>ev_type = ''command/done'', ev_seq = 0, ev_time = now, ev_data = done_data c, ev_op = None\<rparr>"
  have m: "materializeJson (done_data c) = Some (done_data c)"
    by (simp add: done_data_def)
  have g: "gateEvent ''command/done'' (done_data c) = Accepted"
    using assms by (simp add: gateEvent_def shapeGates_def gate_command_done_def done_data_def
        field_def opt_ok_def)
  have t: "try_append (empty_session header) now ''command/done'' (done_data c) JUndef = Inr (?ev, [])"
    by (simp add: try_append_def empty_session_def isSurfaceEventType_def SURFACE_TYPES_def m g)
  have "pairing_check pairing_init (encode ?ev) = (pairing_init, Some (DoneUnpaired c))"
    using assms by (simp add: pairing_check_def field_encode pairing_init_def)
      (simp add: done_data_def field_def)
  then have "reload [?ev] = Some (CorruptEnvelope 0 (Pairing (DoneUnpaired c)))"
    by (simp add: reload_def validateSessionEvents_def validate_event_def field_encode)
  moreover have "sess_log (fst (append (empty_session header) now ''command/done'' (done_data c) JUndef ([], False))) = [?ev]"
    using append_fields(1) [OF t, of "([], False)"] by (simp add: empty_session_def)
  moreover have "snd (append (empty_session header) now ''command/done'' (done_data c) JUndef ([], False)) = Appended ?ev"
    using t by (simp add: append_def Let_def)
  ultimately show ?thesis by (metis prod.collapse)
qed

subsection \<open>The hole: types that are members of Object.prototype\<close>

lemma gate_accepted_cases:
  "gateEvent ty data = Accepted \<Longrightarrow> known_type ty \<or> ty = ''constructor'' \<or> ty = ''toString''"
  by (force simp: gateEvent_def gate_inherited_def known_type_def
      split: option.splits if_splits dest: map_of_SomeD)

text \<open>The only event types outside the table of shapes that a session accepts are
  \<open>constructor\<close> and \<open>toString\<close>, and those it does accept: the lookup of the gate reaches
  \<open>Object.prototype\<close>.\<close>

theorem append_unknown_type_iff:
  assumes "\<not> known_type ty" "\<not> sess_sealed s" "\<not> sess_appending s" "json_safe data"
  shows "(\<exists>s' ev. append s now ty data JUndef ([], False) = (s', Appended ev))
           \<longleftrightarrow> ty = ''constructor'' \<or> ty = ''toString''"
proof
  assume "\<exists>s' ev. append s now ty data JUndef ([], False) = (s', Appended ev)"
  then obtain s' ev where a: "append s now ty data JUndef ([], False) = (s', Appended ev)" by blast
  obtain r where "try_append s now ty data JUndef = Inr r"
    using a try_append_stop [of s now ty data JUndef]
    by (cases "try_append s now ty data JUndef") (auto simp: append_stopped)
  then have "gateEvent ty (ev_data (fst r)) = Accepted"
    using try_append_event(5) [of s now ty data JUndef "fst r" "snd r"] by simp
  then show "ty = ''constructor'' \<or> ty = ''toString''"
    using gate_accepted_cases assms(1) by blast
next
  assume ty: "ty = ''constructor'' \<or> ty = ''toString''"
  have "map_of shapeGates ty = None"
    using assms(1) by (simp add: known_type_def map_of_eq_None_iff)
  then have "gateEvent ty data = Accepted"
    using ty by (auto simp: gateEvent_def gate_inherited_def object_prototype_members_def)
  moreover have "\<not> isSurfaceEventType ty"
    using ty by (auto simp: isSurfaceEventType_def SURFACE_TYPES_def)
  ultimately show "\<exists>s' ev. append s now ty data JUndef ([], False) = (s', Appended ev)"
    using assms by (simp add: append_def try_append_def materialize_safe Let_def)
qed

end
