(* ===== verification/SessionIds.thy ===== *)
theory SessionIds
  imports SessionGates
begin

text \<open>
  \<open>packages/core/session/src/id.ts\<close>: the id of a new session, a UTC timestamp and six
  random characters. The date is a record of its UTC fields, and a call of \<open>random()\<close> is
  the numerator \<open>n\<close> of \<open>n / 2 ^ 53\<close> (a source outside \<open>[0, 1)\<close> included: the code clamps
  the index).
\<close>

record utc_date =
  utc_year :: nat
  utc_month :: nat  \<comment> \<open>\<open>getUTCMonth()\<close>: from 0\<close>
  utc_day :: nat
  utc_hours :: nat
  utc_minutes :: nat
  utc_seconds :: nat

definition RANDOM_ALPHABET :: string where
  "RANDOM_ALPHABET = ''abcdefghijklmnopqrstuvwxyz0123456789''"

definition RANDOM_LENGTH :: nat where
  "RANDOM_LENGTH = 6"

definition random_char :: "nat \<Rightarrow> char" where
  "random_char n =
     RANDOM_ALPHABET ! min (n * length RANDOM_ALPHABET div 2 ^ 53) (length RANDOM_ALPHABET - 1)"

definition randomSuffix :: "(nat \<Rightarrow> nat) \<Rightarrow> string" where
  \<comment> \<open>\<open>random i\<close>: what the \<open>i\<close>-th call returns\<close>
  "randomSuffix random = map (\<lambda>i. random_char (random i)) [0..<RANDOM_LENGTH]"

definition pad :: "nat \<Rightarrow> nat \<Rightarrow> string" where
  "pad n width = padStart width (CHR ''0'') (show_nat n)"

definition timestamp :: "utc_date \<Rightarrow> string" where
  "timestamp d =
     pad (utc_year d) 4 @ pad (utc_month d + 1) 2 @ pad (utc_day d) 2 @ ''T'' @
     pad (utc_hours d) 2 @ pad (utc_minutes d) 2 @ pad (utc_seconds d) 2"

definition mintSessionId :: "utc_date \<Rightarrow> (nat \<Rightarrow> nat) \<Rightarrow> string option" where
  \<comment> \<open>\<open>None\<close>: the exception for an unsafe id\<close>
  "mintSessionId now random =
     (let i = timestamp now @ ''-'' @ randomSuffix random
      in if isSafeSessionId i then Some i else None)"

lemma random_char_alnum: "id_head_char (random_char n)"
proof -
  let ?k = "min (n * length RANDOM_ALPHABET div 2 ^ 53) (length RANDOM_ALPHABET - 1)"
  have "?k < length RANDOM_ALPHABET" by (simp add: RANDOM_ALPHABET_def)
  then have "random_char n \<in> set RANDOM_ALPHABET"
    unfolding random_char_def by (rule nth_mem)
  then show ?thesis
    by (auto simp: RANDOM_ALPHABET_def id_head_char_def is_alpha_def is_digit_def in_range_def)
qed

lemma id_head_tail: "id_head_char c \<Longrightarrow> id_tail_char c"
  by (auto simp: id_head_char_def id_tail_char_def)

lemma pad_digits: "c \<in> set (pad n w) \<Longrightarrow> id_head_char c"
  by (auto simp: pad_def padStart_def id_head_char_def show_nat_digits)
     (simp add: is_digit_def in_range_def)

lemma pad_ne: "pad n w \<noteq> []"
  by (simp add: pad_def padStart_def show_nat_ne)

lemma pad_length: "n < 10 ^ Suc k \<Longrightarrow> length (pad n w) \<le> max w (Suc k)"
  using show_nat_length [of n k] by (auto simp: pad_def padStart_def)

text \<open>Minting never throws on a date the language can represent (its years have at most six
  digits), whatever the random source returns: the id is always safe.\<close>

theorem mint_is_safe:
  assumes "utc_year d < 1000000" "utc_month d < 12" "utc_day d < 32"
    "utc_hours d < 24" "utc_minutes d < 60" "utc_seconds d < 61"
  shows "\<exists>i. mintSessionId d random = Some i \<and> isSafeSessionId i"
proof -
  let ?i = "timestamp d @ ''-'' @ randomSuffix random"
  have dash: "id_tail_char (CHR ''-'')" and T: "id_tail_char (CHR ''T'')"
    by (simp_all add: id_tail_char_def is_alpha_def in_range_def)
  have all: "\<forall>c \<in> set ?i. id_tail_char c"
    unfolding timestamp_def randomSuffix_def
    using dash T pad_digits id_head_tail random_char_alnum by fastforce
  obtain c cs where c: "pad (utc_year d) 4 = c # cs" using pad_ne by (cases "pad (utc_year d) 4") auto
  then have "id_head_char c" using pad_digits [of c "utc_year d" 4] by simp
  moreover have "length ?i \<le> 128"
    using assms pad_length [of "utc_year d" 5 4] pad_length [of "utc_month d + 1" 1 2]
      pad_length [of "utc_day d" 1 2] pad_length [of "utc_hours d" 1 2]
      pad_length [of "utc_minutes d" 1 2] pad_length [of "utc_seconds d" 1 2]
    by (simp add: timestamp_def randomSuffix_def RANDOM_LENGTH_def)
  ultimately have "isSafeSessionId ?i"
    using all c by (simp add: timestamp_def list_all_iff)
  then show ?thesis by (simp add: mintSessionId_def)
qed

definition day_one :: utc_date where
  "day_one = \<lparr>utc_year = 2024, utc_month = 0, utc_day = 1, utc_hours = 0, utc_minutes = 0, utc_seconds = 0\<rparr>"

lemma mint_is_safe_witness: "\<exists>i. mintSessionId day_one (\<lambda>_. 0) = Some i \<and> isSafeSessionId i"
  by (rule mint_is_safe) (simp_all add: day_one_def)

end
