(* ===== verification/JsMap.thy ===== *)
theory JsMap
  imports Prelude
begin

text \<open>
  The \<open>Map\<close> of the language: keys in insertion order, an update keeps the position of its
  key. The interface the stateful components rely on is the locale \<open>keyed_store\<close>;
  its interpretation \<open>js_map\<close> discharges the laws for the association lists the models
  use, and its facts carry the proofs about the session store, the mode registry and the
  grants.
\<close>

type_synonym ('k, 'v) jsmap = "('k \<times> 'v) list"

definition map_get :: "('k, 'v) jsmap \<Rightarrow> 'k \<Rightarrow> 'v option" where
  "map_get m k = map_of m k"

fun map_set :: "('k, 'v) jsmap \<Rightarrow> 'k \<Rightarrow> 'v \<Rightarrow> ('k, 'v) jsmap" where
  "map_set [] k v = [(k, v)]"
| "map_set ((k', v') # m) k v = (if k' = k then (k, v) # m else (k', v') # map_set m k v)"

definition map_delete :: "('k, 'v) jsmap \<Rightarrow> 'k \<Rightarrow> ('k, 'v) jsmap" where
  "map_delete m k = filter (\<lambda>kv. fst kv \<noteq> k) m"

definition map_keys :: "('k, 'v) jsmap \<Rightarrow> 'k list" where
  "map_keys m = map fst m"

definition map_has :: "('k, 'v) jsmap \<Rightarrow> 'k \<Rightarrow> bool" where
  "map_has m k = (k \<in> fst ` set m)"

definition map_ok :: "('k, 'v) jsmap \<Rightarrow> bool" where
  \<comment> \<open>a key occurs once\<close>
  "map_ok m = distinct (map fst m)"

subsection \<open>The interface\<close>

locale keyed_store =
  fixes get :: "'m \<Rightarrow> 'k \<Rightarrow> 'v option"
    and put :: "'m \<Rightarrow> 'k \<Rightarrow> 'v \<Rightarrow> 'm"
    and del :: "'m \<Rightarrow> 'k \<Rightarrow> 'm"
    and keys :: "'m \<Rightarrow> 'k list"
    and ok :: "'m \<Rightarrow> bool"
  assumes get_put: "get (put m k v) k' = (if k' = k then Some v else get m k')"
    and get_del: "get (del m k) k' = (if k' = k then None else get m k')"
    and keys_get: "k \<in> set (keys m) \<longleftrightarrow> get m k \<noteq> None"
    and keys_put: "keys (put m k v) = (if get m k = None then keys m @ [k] else keys m)"
    and keys_del: "keys (del m k) = filter (\<lambda>k'. k' \<noteq> k) (keys m)"
    and ok_keys: "ok m \<longleftrightarrow> distinct (keys m)"
begin

lemma get_put_same [simp]: "get (put m k v) k = Some v"
  by (simp add: get_put)

lemma get_put_other: "k' \<noteq> k \<Longrightarrow> get (put m k v) k' = get m k'"
  by (simp add: get_put)

lemma get_del_same [simp]: "get (del m k) k = None"
  by (simp add: get_del)

lemma get_del_other: "k' \<noteq> k \<Longrightarrow> get (del m k) k' = get m k'"
  by (simp add: get_del)

lemma ok_put: "ok m \<Longrightarrow> ok (put m k v)"
  using keys_get [of k m] by (simp add: ok_keys keys_put)

lemma ok_del: "ok m \<Longrightarrow> ok (del m k)"
  by (simp add: ok_keys keys_del)

lemma keys_put_old: "get m k = Some w \<Longrightarrow> keys (put m k v) = keys m"
  by (simp add: keys_put)

lemma put_keeps: "get m k = None \<Longrightarrow> get m k' = Some w \<Longrightarrow> get (put m k v) k' = Some w"
  by (auto simp: get_put)

lemmas store_simps = get_put get_del keys_put keys_del

end

subsection \<open>Association lists implement it\<close>

lemma map_get_set: "map_get (map_set m k v) k' = (if k' = k then Some v else map_get m k')"
  by (induction m k v rule: map_set.induct) (auto simp: map_get_def)

lemma map_get_delete: "map_get (map_delete m k) k' = (if k' = k then None else map_get m k')"
  by (induction m) (auto simp: map_get_def map_delete_def)

lemma map_keys_get: "k \<in> set (map_keys m) \<longleftrightarrow> map_get m k \<noteq> None"
  by (auto simp: map_keys_def map_get_def map_of_eq_None_iff)

lemma map_keys_set:
  "map_keys (map_set m k v) = (if map_get m k = None then map_keys m @ [k] else map_keys m)"
  by (induction m k v rule: map_set.induct) (auto simp: map_get_def map_keys_def)

lemma map_keys_delete: "map_keys (map_delete m k) = filter (\<lambda>k'. k' \<noteq> k) (map_keys m)"
  by (induction m) (auto simp: map_keys_def map_delete_def)

interpretation js_map: keyed_store map_get map_set map_delete map_keys map_ok
  by unfold_locales
    (simp_all add: map_get_set map_get_delete map_keys_get map_keys_set map_keys_delete
      map_ok_def map_keys_def [symmetric])

lemma map_has_get: "map_has m k \<longleftrightarrow> map_get m k \<noteq> None"
  by (simp add: map_has_def map_get_def map_of_eq_None_iff)

end
