(* ===== verification/SessionStore.thy ===== *)
theory SessionStore
  imports SessionReload SessionIds JsMap
begin

text \<open>
  \<open>packages/core/session/src/store.ts\<close>: the registry of live sessions. \<open>create\<close> and \<open>fork\<close>
  run without interruption up to the creation guard they await, so each is two steps: a
  request, which leaves a pending birth, and \<open>birth_end\<close> when the guard has answered;
  any other operations can come in between. Sessions live in a heap, since a caller keeps
  its handle after the store has dropped the session. The clock, the working directory,
  the minted id and the guard's answer are arguments.
\<close>

record agent_info =
  ag_id :: string
  ag_type :: string
  ag_depth :: jsnum
  ag_work :: "string option"
  ag_worktree :: "string option"

record create_options =
  opt_id :: "string option"
  opt_seed :: "jsval list option"
  opt_parent :: "string option"
  opt_agent :: "agent_info option"
  opt_header :: "jsval option"

datatype store_error =
    InvalidId string
  | Duplicate string
  | InvalidHeaderShape
  | InvalidHeaderIdMismatch
  | InvalidHeaderNotJson
  | InvalidParent string
  | SeedCorruptNotJson
  | SeedInvalid validate_error
  | NoSession string
  | BadCut jsnum
  | Denied string
  | MintThrew  \<comment> \<open>\<open>mintSessionId\<close> threw\<close>
  | CreateThrew create_failure  \<comment> \<open>the promise is rejected with the exception of \<open>createSession\<close>\<close>

record birth =
  b_header :: jsval
  b_seed :: "sevent list"
  b_inherited :: bool

record store =
  st_heap :: "session list"
  st_live :: "(string, nat) jsmap"
  st_pending :: "(nat \<times> birth) list"
  st_next :: nat

definition empty_store :: store where
  "empty_store = \<lparr>st_heap = [], st_live = [], st_pending = [], st_next = 0\<rparr>"

definition header_id :: "jsval \<Rightarrow> string" where
  "header_id h = str_of (field h ''id'')"

subsection \<open>Requests\<close>

definition resolveId :: "string option \<Rightarrow> string option \<Rightarrow> store_error + string" where
  "resolveId i minted =
     (case i of
        None \<Rightarrow> (case minted of Some m \<Rightarrow> Inr m | None \<Rightarrow> Inl MintThrew)
      | Some i \<Rightarrow> if isSafeSessionId i then Inr i else Inl (InvalidId i))"

definition opt_field :: "string \<Rightarrow> string option \<Rightarrow> (string \<times> jsval) list" where
  "opt_field k v = (case v of None \<Rightarrow> [] | Some s \<Rightarrow> [(k, JStr s)])"

definition makeHeader ::
  "string \<Rightarrow> jsnum \<Rightarrow> string \<Rightarrow> string option \<Rightarrow> agent_info option \<Rightarrow> jsval" where
  "makeHeader i now cwd parent agent =
     JObj ([(''id'', JStr i), (''createdAt'', JNum now), (''cwd'', JStr cwd)] @
           opt_field ''parentSession'' parent @
           (case agent of
              None \<Rightarrow> []
            | Some a \<Rightarrow>
                [(''agentId'', JStr (ag_id a)), (''agentType'', JStr (ag_type a)),
                 (''agentDepth'', JNum (ag_depth a))] @
                opt_field ''agentWork'' (ag_work a) @ opt_field ''agentWorktree'' (ag_worktree a)))"

definition resolveCreateHeader ::
  "create_options \<Rightarrow> string option \<Rightarrow> store_error + (jsval option \<times> string)" where
  "resolveCreateHeader options minted =
     (case opt_header options of
        Some h \<Rightarrow>
          if \<not> isSafeSessionId (header_id h) then Inl InvalidHeaderShape
          else if opt_id options \<noteq> None \<and> opt_id options \<noteq> Some (header_id h)
          then Inl InvalidHeaderIdMismatch
          else (case materializeJson h of
                  None \<Rightarrow> Inl InvalidHeaderNotJson
                | Some snapshot \<Rightarrow> Inr (Some snapshot, header_id h))
      | None \<Rightarrow>
          (case resolveId (opt_id options) minted of
             Inl e \<Rightarrow> Inl e
           | Inr i \<Rightarrow>
               (case opt_parent options of
                  Some p \<Rightarrow> if isSafeSessionId p then Inr (None, i) else Inl (InvalidParent p)
                | None \<Rightarrow> Inr (None, i))))"

definition add_pending :: "store \<Rightarrow> birth \<Rightarrow> store" where
  "add_pending st b = st\<lparr>st_pending := st_pending st @ [(st_next st, b)], st_next := Suc (st_next st)\<rparr>"

definition read_seed :: "jsval list option \<Rightarrow> store_error + sevent list" where
  "read_seed seed =
     (case seed of
        None \<Rightarrow> Inr []
      | Some raws \<Rightarrow>
          (case materialize_items raws of
             None \<Rightarrow> Inl SeedCorruptNotJson
           | Some snapshot \<Rightarrow>
               (case validateSessionEvents snapshot of
                  Some e \<Rightarrow> Inl (SeedInvalid e)
                | None \<Rightarrow> Inr (decode_from 0 snapshot))))"

text \<open>A request ends with an error, or with the ticket of its pending birth.\<close>

definition create_request ::
  "store \<Rightarrow> create_options \<Rightarrow> string option \<Rightarrow> jsnum \<Rightarrow> string \<Rightarrow> store \<times> (store_error + nat)" where
  "create_request st options minted now cwd =
     (case resolveCreateHeader options minted of
        Inl e \<Rightarrow> (st, Inl e)
      | Inr (header, i) \<Rightarrow>
          if map_has (st_live st) i then (st, Inl (Duplicate i))
          else
            (case read_seed (opt_seed options) of
               Inl e \<Rightarrow> (st, Inl e)
             | Inr seed \<Rightarrow>
                 let h = (case header of
                            Some h \<Rightarrow> h
                          | None \<Rightarrow> makeHeader i now cwd (opt_parent options) (opt_agent options))
                 in (add_pending st \<lparr>b_header = h, b_seed = seed, b_inherited = False\<rparr>,
                     Inr (st_next st))))"

fun cut_of :: "jsnum \<Rightarrow> nat \<Rightarrow> nat option" where
  \<comment> \<open>the index, when \<open>Number.isInteger(cut) && cut >= 0 && cut < n\<close>\<close>
  "cut_of (NInt i) n = (if 0 \<le> i \<and> i < int n then Some (nat i) else None)"
| "cut_of NNegZero n = (if 0 < n then Some 0 else None)"
| "cut_of _ n = None"

definition fork_request ::
  "store \<Rightarrow> string \<Rightarrow> jsnum option \<Rightarrow> string option \<Rightarrow> string option \<Rightarrow> jsnum \<Rightarrow> string \<Rightarrow>
     store \<times> (store_error + nat)" where
  "fork_request st source untilSeq i minted now cwd =
     (case map_get (st_live st) source of
        None \<Rightarrow> (st, Inl (NoSession source))
      | Some h \<Rightarrow>
          let snapshot = sess_log (st_heap st ! h);
              cut = (case untilSeq of Some c \<Rightarrow> c | None \<Rightarrow> NInt (int (length snapshot) - 1))
          in case cut_of cut (length snapshot) of
               None \<Rightarrow> (st, Inl (BadCut cut))
             | Some k \<Rightarrow>
                 (case resolveId i minted of
                    Inl e \<Rightarrow> (st, Inl e)
                  | Inr i' \<Rightarrow>
                      if map_has (st_live st) i' then (st, Inl (Duplicate i'))
                      else (add_pending st
                              \<lparr>b_header = makeHeader i' now cwd (Some source) None,
                               b_seed = take (Suc k) snapshot, b_inherited = True\<rparr>,
                            Inr (st_next st))))"

subsection \<open>After the guard\<close>

definition take_pending :: "store \<Rightarrow> nat \<Rightarrow> store" where
  "take_pending st ticket = st\<lparr>st_pending := filter (\<lambda>p. fst p \<noteq> ticket) (st_pending st)\<rparr>"

definition birth_end ::
  "store \<Rightarrow> nat \<Rightarrow> string option \<Rightarrow> jsnum \<Rightarrow> store \<times> (store_error + nat) option" where
  \<comment> \<open>\<open>None\<close>: no birth waits under that ticket\<close>
  "birth_end st ticket deny now =
     (case map_of (st_pending st) ticket of
        None \<Rightarrow> (st, None)
      | Some b \<Rightarrow>
          let st' = take_pending st ticket; i = header_id (b_header b) in
          (case deny of
             Some reason \<Rightarrow> (st', Some (Inl (Denied reason)))
           | None \<Rightarrow>
               if map_has (st_live st') i then (st', Some (Inl (Duplicate i)))
               else
                 (case createSession (b_header b) (b_seed b) (b_inherited b) now of
                    Inl e \<Rightarrow> (st', Some (Inl (CreateThrew e)))
                  | Inr s \<Rightarrow>
                      let h = length (st_heap st') in
                      (st'\<lparr>st_heap := st_heap st' @ [s], st_live := map_set (st_live st') i h\<rparr>,
                       Some (Inr h)))))"

subsection \<open>The other operations\<close>

definition store_get :: "store \<Rightarrow> string \<Rightarrow> nat option" where
  "store_get st i = map_get (st_live st) i"

definition store_list :: "store \<Rightarrow> string list" where
  "store_list st = map_keys (st_live st)"

definition store_flush :: "store \<Rightarrow> string \<Rightarrow> string option \<Rightarrow> (store_error + string option)" where
  \<comment> \<open>the hook's exception, if any, is the text of the reason \<open>flush-failed\<close>\<close>
  "store_flush st i failure = (if map_has (st_live st) i then Inr failure else Inl (NoSession i))"

definition store_dispose :: "store \<Rightarrow> string \<Rightarrow> store \<times> (store_error + unit)" where
  "store_dispose st i =
     (case map_get (st_live st) i of
        None \<Rightarrow> (st, Inl (NoSession i))
      | Some h \<Rightarrow>
          (st\<lparr>st_live := map_delete (st_live st) i,
              st_heap := (st_heap st)[h := seal (st_heap st ! h)]\<rparr>,
           Inr ()))"

text \<open>An append through a handle somebody holds, live in the store or not.\<close>

definition handle_append ::
  "store \<Rightarrow> nat \<Rightarrow> jsnum \<Rightarrow> string \<Rightarrow> jsval \<Rightarrow> jsval \<Rightarrow> store \<times> append_outcome option" where
  "handle_append st h now ty data intent =
     (if h < length (st_heap st)
      then case append (st_heap st ! h) now ty data intent ([], False) of
             (s', out) \<Rightarrow> (st\<lparr>st_heap := (st_heap st)[h := s']\<rparr>, Some out)
      else (st, None))"

text \<open>Any interleaving of calls is a sequence of these operations.\<close>

datatype store_op =
    OpCreate create_options utc_date "nat \<Rightarrow> nat" jsnum string
  | OpFork string "jsnum option" "string option" utc_date "nat \<Rightarrow> nat" jsnum string
  | OpGuard nat "string option" jsnum
  | OpDispose string
  | OpAppendEvent nat jsnum string jsval jsval

fun store_step :: "store \<Rightarrow> store_op \<Rightarrow> store" where
  "store_step st (OpCreate options d random now cwd) =
     fst (create_request st options (mintSessionId d random) now cwd)"
| "store_step st (OpFork source untilSeq i d random now cwd) =
     fst (fork_request st source untilSeq i (mintSessionId d random) now cwd)"
| "store_step st (OpGuard ticket deny now) = fst (birth_end st ticket deny now)"
| "store_step st (OpDispose i) = fst (store_dispose st i)"
| "store_step st (OpAppendEvent h now ty data intent) = fst (handle_append st h now ty data intent)"

end
