(* ===== verification/SessionStoreProps.thy ===== *)
theory SessionStoreProps
  imports SessionStore
begin

text \<open>
  What the session store keeps true under every interleaving of its operations: the
  invariant \<open>store_inv\<close>, proved operation by operation and then for every sequence of
  steps, and its consequences for callers.
\<close>

subsection \<open>Seeds\<close>

definition timed :: "sevent list \<Rightarrow> bool" where
  "timed evs \<longleftrightarrow> (\<forall>ev \<in> set evs. time_ok (JNum (ev_time ev)))"

definition seed_ok :: "sevent list \<Rightarrow> bool" where
  "seed_ok evs \<longleftrightarrow>
     numbered evs \<and> timed evs \<and> (\<forall>ev \<in> set evs. event_wf ev \<and> data_ok ev) \<and>
     (\<exists>nodes. projectSurface evs = Inr nodes)"

lemma seed_ok_Nil [simp]: "seed_ok []"
  by (simp add: seed_ok_def numbered_def timed_def projectSurface_def)

lemma validate_event_good:
  assumes "validate_event nodes p i raw = Inr r" and "json_safe raw"
  shows "event_wf (decode i raw)" "time_ok (JNum (ev_time (decode i raw)))" "data_ok (decode i raw)"
proof -
  from assms(1) have n: "envelopeError raw i = None"
    by (auto simp: validate_event_def split: if_splits prod.splits option.splits sum.splits)
  then have "time_ok (field raw ''time'')"
    by (auto simp: envelopeError_def split: option.splits jsval.splits gate_outcome.splits if_splits)
  then show "time_ok (JNum (ev_time (decode i raw)))"
    by (cases "field raw ''time''") (simp_all add: decode_def)
  show "event_wf (decode i raw)"
    using assms(1)
    by (auto simp: validate_event_def event_wf_def decode_def parse_op_in_range
        split: if_splits prod.splits option.splits sum.splits)
  have "json_safe (field raw ''data'')" if "has_own raw ''data''"
    using assms(2) that by (rule json_safe_field)
  then show "data_ok (decode i raw)"
    by (cases "has_own raw ''data''") (auto simp: data_ok_def decode_def has_own_def field_def)
qed

lemma validate_from_good:
  "validate_from nodes p i raws = Inr r \<Longrightarrow> \<forall>raw \<in> set raws. json_safe raw \<Longrightarrow>
     (\<forall>ev \<in> set (decode_from i raws). event_wf ev \<and> data_ok ev) \<and> timed (decode_from i raws)"
proof (induction nodes p i raws rule: validate_from.induct)
  case (1 nodes p i)
  then show ?case by (simp add: timed_def)
next
  case (2 nodes p i raw raws)
  then obtain n1 p1 where v: "validate_event nodes p i raw = Inr (n1, p1)"
    "validate_from n1 p1 (Suc i) raws = Inr r"
    by (auto split: sum.splits)
  show ?case
    using "2.IH" [OF v(1) refl v(2)] "2.prems"(2) validate_event_good [OF v(1)]
    by (simp add: timed_def)
qed

lemma decode_from_seqs: "map ev_seq (decode_from i raws) = [i..<i + length raws]"
  by (induction raws arbitrary: i) (simp_all add: decode_def upt_conv_Cons del: upt_Suc)

lemma read_seed_ok: "read_seed seed = Inr evs \<Longrightarrow> seed_ok evs"
proof (cases seed)
  case (Some raws)
  assume r: "read_seed seed = Inr evs"
  then obtain snap where m: "materialize_items raws = Some snap"
    and v: "validateSessionEvents snap = None" and e: "evs = decode_from 0 snap"
    using Some by (auto simp: read_seed_def split: option.splits)
  have "\<forall>raw \<in> set snap. json_safe raw"
    using m by (auto simp: materialize_safe split: if_splits)
  moreover obtain nodes p where f: "validate_from [] pairing_init 0 snap = Inr (nodes, p)"
    using v by (auto simp: validateSessionEvents_def split: sum.splits)
  ultimately show ?thesis
    using validate_from_good [OF f] validate_from_project [OF f] decode_from_seqs [of 0 snap]
    by (auto simp: seed_ok_def e numbered_def projectSurface_def)
qed (simp add: read_seed_def)

definition session_good :: "session \<Rightarrow> bool" where
  "session_good s \<longleftrightarrow> session_inv s \<and> timed (sess_log s) \<and> \<not> sess_appending s"

lemma session_good_seed: "session_good s \<Longrightarrow> seed_ok (sess_log s)"
  by (auto simp: session_good_def seed_ok_def session_inv_def)

lemma seed_ok_take: "seed_ok evs \<Longrightarrow> seed_ok (take k evs)"
proof -
  assume s: "seed_ok evs"
  have "map ev_seq (take k evs) = take k [0..<length evs]"
    using s by (simp add: seed_ok_def numbered_def take_map [symmetric])
  then have "numbered (take k evs)"
    by (cases "k \<le> length evs") (simp_all add: numbered_def)
  moreover have "\<exists>nodes. projectSurface (take k evs) = Inr nodes"
    using s project_from_Inr_prefix [of "[]" "take k evs" "drop k evs"]
    by (auto simp: seed_ok_def projectSurface_def)
  ultimately show ?thesis
    using s by (auto simp: seed_ok_def timed_def dest: in_set_takeD)
qed

lemma project_end_seed:
  "projectSurface evs = Inr nodes \<Longrightarrow>
     projectSurface (evs @ [end_seed_event n inherited now]) = Inr nodes"
  by (simp add: projectSurface_snoc end_seed_event_def isSurfaceEventType_def SURFACE_TYPES_def)

lemma seeded_log_ok:
  assumes "seed_ok seed" "time_ok (JNum now)"
  shows "seed_ok (seeded_log seed inherited now)"
proof (cases "seed = []")
  case False
  have "event_wf (end_seed_event n inherited now)" "data_ok (end_seed_event n inherited now)" for n
    by (simp_all add: event_wf_def data_ok_def end_seed_event_def isSurfaceEventType_def SURFACE_TYPES_def)
  moreover obtain nodes where "projectSurface seed = Inr nodes"
    using assms(1) by (auto simp: seed_ok_def)
  ultimately show ?thesis
    using False assms project_end_seed
    by (auto simp: seeded_log_def seed_ok_def timed_def end_seed_event_def intro!: numbered_snoc)
qed (simp add: seeded_log_def)

text \<open>From a good seed \<open>createSession\<close> does not throw, and the session it makes is good.\<close>

lemma createSession_good:
  assumes "seed_ok seed" "time_ok (JNum now)"
  shows "\<exists>s. createSession header seed inherited now = Inr s \<and> session_good s \<and>
           sess_log s = seeded_log seed inherited now \<and> sess_header s = header \<and> \<not> sess_sealed s"
proof -
  have "list_all (\<lambda>ev. materializeJson (encode ev) \<noteq> None) seed"
    using assms(1) by (auto simp: list_all_iff seed_ok_def timed_def materialize_safe intro!: encode_json_safe)
  moreover note ok = seeded_log_ok [OF assms, of inherited]
  moreover from ok obtain nodes where "projectSurface (seeded_log seed inherited now) = Inr nodes"
    by (auto simp: seed_ok_def)
  ultimately show ?thesis
    by (auto simp: createSession_def session_good_def session_inv_def seed_ok_def)
qed

subsection \<open>The store invariant\<close>

definition birth_ok :: "birth \<Rightarrow> bool" where
  "birth_ok b \<longleftrightarrow> isSafeSessionId (header_id (b_header b)) \<and> seed_ok (b_seed b)"

definition live_ok :: "session list \<Rightarrow> (string, nat) jsmap \<Rightarrow> bool" where
  "live_ok heap live \<longleftrightarrow>
     map_ok live \<and>
     (\<forall>i h. map_get live i = Some h \<longrightarrow>
        h < length heap \<and> \<not> sess_sealed (heap ! h) \<and> header_id (sess_header (heap ! h)) = i \<and>
        isSafeSessionId i) \<and>
     (\<forall>h < length heap. \<not> sess_sealed (heap ! h) \<longrightarrow>
        map_get live (header_id (sess_header (heap ! h))) = Some h)"

definition store_inv :: "store \<Rightarrow> bool" where
  "store_inv st \<longleftrightarrow>
     live_ok (st_heap st) (st_live st) \<and>
     (\<forall>s \<in> set (st_heap st). session_good s) \<and>
     (\<forall>p \<in> set (st_pending st). birth_ok (snd p) \<and> fst p < st_next st)"

lemma store_inv_empty: "store_inv empty_store"
  by (simp add: store_inv_def empty_store_def live_ok_def map_ok_def map_get_def)

lemma add_pending_inv: "store_inv st \<Longrightarrow> birth_ok b \<Longrightarrow> store_inv (add_pending st b)"
  by (auto simp: store_inv_def add_pending_def less_Suc_eq)

lemma take_pending_inv: "store_inv st \<Longrightarrow> store_inv (take_pending st t)"
  by (auto simp: store_inv_def take_pending_def)

lemma header_id_makeHeader [simp]: "header_id (makeHeader i now cwd parent agent) = i"
  by (simp add: header_id_def makeHeader_def field_def)

lemma resolveId_safe:
  "resolveId i (mintSessionId d random) = Inr j \<Longrightarrow> isSafeSessionId j"
  by (auto simp: resolveId_def mintSessionId_def Let_def split: option.splits if_splits)

lemma resolveCreateHeader_safe:
  assumes "resolveCreateHeader options (mintSessionId d random) = Inr (header, i)"
  shows "isSafeSessionId i" and "header = Some h \<Longrightarrow> header_id h = i"
  using assms
  by (auto simp: resolveCreateHeader_def split: option.splits if_splits sum.splits
      dest: resolveId_safe materialize_SomeD)

lemma create_request_inv:
  assumes "store_inv st"
  shows "store_inv (fst (create_request st options (mintSessionId d random) now cwd))"
proof (cases "resolveCreateHeader options (mintSessionId d random)")
  case (Inr r)
  obtain header i where r: "r = (header, i)" by (cases r)
  note safe = resolveCreateHeader_safe [OF Inr [unfolded r]]
  show ?thesis
  proof (cases "read_seed (opt_seed options)")
    case seed: (Inr evs)
    have "birth_ok \<lparr>b_header = case header of Some h \<Rightarrow> h
        | None \<Rightarrow> makeHeader i now cwd (opt_parent options) (opt_agent options),
        b_seed = evs, b_inherited = False\<rparr>"
      using safe read_seed_ok [OF seed] by (auto simp: birth_ok_def split: option.splits)
    then show ?thesis
      using assms by (simp add: create_request_def Inr r seed Let_def add_pending_inv)
  qed (simp add: create_request_def Inr r assms)
qed (simp add: create_request_def assms)

lemma heap_good: "store_inv st \<Longrightarrow> h < length (st_heap st) \<Longrightarrow> session_good (st_heap st ! h)"
  by (simp add: store_inv_def)

lemma live_get:
  "store_inv st \<Longrightarrow> map_get (st_live st) i = Some h \<Longrightarrow>
     h < length (st_heap st) \<and> \<not> sess_sealed (st_heap st ! h) \<and>
     header_id (sess_header (st_heap st ! h)) = i \<and> isSafeSessionId i"
  by (simp add: store_inv_def live_ok_def)

lemma fork_request_inv:
  assumes "store_inv st"
  shows "store_inv (fst (fork_request st source untilSeq i (mintSessionId d random) now cwd))"
proof (cases "map_get (st_live st) source")
  case (Some h)
  have seed: "seed_ok (take k (sess_log (st_heap st ! h)))" for k
    using live_get [OF assms Some] heap_good [OF assms] session_good_seed seed_ok_take by blast
  show ?thesis
  proof (cases "resolveId i (mintSessionId d random)")
    case (Inr j)
    have "birth_ok \<lparr>b_header = makeHeader j now cwd (Some source) None, b_seed = take (Suc k) (sess_log (st_heap st ! h)),
        b_inherited = True\<rparr>" for k
      using seed resolveId_safe [OF Inr] by (simp add: birth_ok_def)
    then show ?thesis
      using assms Some Inr
      by (simp add: fork_request_def Let_def add_pending_inv split: option.splits)
  qed (use assms Some in \<open>simp add: fork_request_def Let_def split: option.splits\<close>)
qed (simp add: fork_request_def assms)

subsection \<open>Births, disposals, appends\<close>

lemma live_ok_birth:
  assumes "live_ok heap live" "map_get live (header_id (sess_header s)) = None"
    "\<not> sess_sealed s" "isSafeSessionId (header_id (sess_header s))"
  shows "live_ok (heap @ [s]) (map_set live (header_id (sess_header s)) (length heap))"
proof -
  let ?i = "header_id (sess_header s)" and ?n = "length heap"
  have old: "h < ?n \<and> \<not> sess_sealed (heap ! h) \<and> header_id (sess_header (heap ! h)) = i \<and>
      isSafeSessionId i" if "map_get live i = Some h" for i h
    using assms(1) that by (simp add: live_ok_def)
  have live: "map_get live (header_id (sess_header (heap ! h))) = Some h"
    if "h < ?n" "\<not> sess_sealed (heap ! h)" for h
    using assms(1) that by (simp add: live_ok_def)
  have "h < Suc ?n \<and> \<not> sess_sealed ((heap @ [s]) ! h) \<and> header_id (sess_header ((heap @ [s]) ! h)) = i
      \<and> isSafeSessionId i" if "map_get (map_set live ?i ?n) i = Some h" for i h
  proof (cases "i = ?i")
    case True
    then show ?thesis using that assms(3,4) by (auto simp: js_map.get_put nth_append)
  next
    case False
    then show ?thesis using that old [of i h] by (simp add: js_map.get_put nth_append)
  qed
  moreover have "map_get (map_set live ?i ?n) (header_id (sess_header ((heap @ [s]) ! h))) = Some h"
    if "h < Suc ?n" "\<not> sess_sealed ((heap @ [s]) ! h)" for h
  proof (cases "h = ?n")
    case False
    then have h: "h < ?n" "\<not> sess_sealed (heap ! h)" using that by (simp_all add: nth_append)
    then have "header_id (sess_header (heap ! h)) \<noteq> ?i" using live [of h] assms(2) by force
    then show ?thesis using live [OF h] h by (simp add: js_map.get_put nth_append)
  qed (simp add: js_map.get_put)
  ultimately show ?thesis
    using assms(1) by (simp add: live_ok_def js_map.ok_put)
qed

lemma birth_end_inv:
  assumes "store_inv st" "time_ok (JNum now)"
  shows "store_inv (fst (birth_end st ticket deny now))"
proof (cases "map_of (st_pending st) ticket")
  case (Some b)
  let ?st = "take_pending st ticket" and ?i = "header_id (b_header b)"
  have b: "birth_ok b" using Some assms(1) by (auto simp: store_inv_def dest!: map_of_SomeD)
  then obtain s where s: "createSession (b_header b) (b_seed b) (b_inherited b) now = Inr s"
    "session_good s" "sess_header s = b_header b" "\<not> sess_sealed s"
    using createSession_good [of "b_seed b" now] assms(2) by (auto simp: birth_ok_def)
  have inv: "store_inv ?st" using assms(1) by (rule take_pending_inv)
  show ?thesis
  proof (cases "deny = None \<and> \<not> map_has (st_live ?st) ?i")
    case True
    then have "live_ok (st_heap ?st @ [s]) (map_set (st_live ?st) ?i (length (st_heap ?st)))"
      using live_ok_birth [of "st_heap ?st" "st_live ?st" s] inv s b
      by (simp add: store_inv_def birth_ok_def map_has_get)
    then show ?thesis
      using True Some s inv by (auto simp: birth_end_def Let_def store_inv_def)
  next
    case False
    then show ?thesis
      using Some inv by (auto simp: birth_end_def Let_def split: option.splits)
  qed
qed (simp add: birth_end_def assms)

lemma seal_good: "session_good s \<Longrightarrow> session_good (seal s)"
  by (simp add: session_good_def session_inv_def seal_def)

lemma seal_fields [simp]:
  "sess_sealed (seal s)" "sess_header (seal s) = sess_header s" "sess_log (seal s) = sess_log s"
  by (simp_all add: seal_def)

lemma store_dispose_inv:
  assumes "store_inv st"
  shows "store_inv (fst (store_dispose st i))"
proof (cases "map_get (st_live st) i")
  case (Some h)
  note l = live_get [OF assms Some]
  have other: "map_get (st_live st) i' = Some h \<Longrightarrow> i' = i" for i'
    using live_get [OF assms, of i' h] l by simp
  have "live_ok ((st_heap st)[h := seal (st_heap st ! h)]) (map_delete (st_live st) i)"
    unfolding live_ok_def
  proof (intro conjI allI impI)
    show "map_ok (map_delete (st_live st) i)"
      using assms by (simp add: store_inv_def live_ok_def js_map.ok_del)
  next
    fix k g
    assume "map_get (map_delete (st_live st) i) k = Some g"
    then have k: "k \<noteq> i" "map_get (st_live st) k = Some g"
      by (simp_all add: js_map.get_del split: if_splits)
    then have "g \<noteq> h" using other by blast
    then show "g < length ((st_heap st)[h := seal (st_heap st ! h)])"
      "\<not> sess_sealed ((st_heap st)[h := seal (st_heap st ! h)] ! g)"
      "header_id (sess_header ((st_heap st)[h := seal (st_heap st ! h)] ! g)) = k"
      "isSafeSessionId k"
      using live_get [OF assms k(2)] by simp_all
  next
    fix g
    assume g: "g < length ((st_heap st)[h := seal (st_heap st ! h)])"
      "\<not> sess_sealed ((st_heap st)[h := seal (st_heap st ! h)] ! g)"
    then have "g \<noteq> h" by auto
    moreover have "map_get (st_live st) (header_id (sess_header (st_heap st ! g))) = Some g"
      using assms g \<open>g \<noteq> h\<close> by (simp add: store_inv_def live_ok_def)
    ultimately show "map_get (map_delete (st_live st) i)
        (header_id (sess_header ((st_heap st)[h := seal (st_heap st ! h)] ! g))) = Some g"
      using Some by (auto simp: js_map.get_del)
  qed
  moreover have "\<forall>s \<in> set ((st_heap st)[h := seal (st_heap st ! h)]). session_good s"
    using assms l by (auto simp: store_inv_def dest!: set_update_subset_insert [THEN subsetD] intro: seal_good)
  ultimately show ?thesis
    using assms by (simp add: store_dispose_def Some store_inv_def)
qed (simp add: store_dispose_def assms)

lemma append_good:
  assumes "session_good s" "time_ok (JNum now)"
  shows "session_good (fst (append s now ty data intent ([], False)))"
    and "sess_sealed (fst (append s now ty data intent ([], False))) = sess_sealed s"
    and "sess_header (fst (append s now ty data intent ([], False))) = sess_header s"
proof -
  let ?s' = "fst (append s now ty data intent ([], False))"
  have "session_inv ?s'" using assms(1) append_session_inv by (simp add: session_good_def)
  moreover have "timed (sess_log ?s') \<and> \<not> sess_appending ?s' \<and> sess_sealed ?s' = sess_sealed s
      \<and> sess_header ?s' = sess_header s"
  proof (cases "try_append s now ty data intent")
    case (Inl stop)
    then show ?thesis using assms(1) by (simp add: append_stopped session_good_def)
  next
    case (Inr r)
    obtain ev nodes where r: "r = (ev, nodes)" by (cases r)
    have "ev_time ev = now" using Inr r try_append_event(3) by blast
    then show ?thesis
      using Inr r assms by (auto simp: append_def Let_def timed_def session_good_def)
  qed
  ultimately show "session_good ?s'" "sess_sealed ?s' = sess_sealed s" "sess_header ?s' = sess_header s"
    by (simp_all add: session_good_def)
qed

lemma handle_append_inv:
  assumes "store_inv st" "time_ok (JNum now)"
  shows "store_inv (fst (handle_append st h now ty data intent))"
proof (cases "h < length (st_heap st)")
  case True
  let ?s = "fst (append (st_heap st ! h) now ty data intent ([], False))"
  have st': "fst (handle_append st h now ty data intent) = st\<lparr>st_heap := (st_heap st)[h := ?s]\<rparr>"
    using True by (simp add: handle_append_def split: prod.splits)
  note g = append_good [OF heap_good [OF assms(1) True] assms(2), of ty data intent]
  have "live_ok ((st_heap st)[h := ?s]) (st_live st)"
  proof -
    have eq: "sess_sealed ((st_heap st)[h := ?s] ! k) = sess_sealed (st_heap st ! k)"
      "sess_header ((st_heap st)[h := ?s] ! k) = sess_header (st_heap st ! k)" for k
      using g True by (cases "k = h"; simp)+
    show ?thesis using assms(1) by (simp add: store_inv_def live_ok_def eq)
  qed
  moreover have "\<forall>s \<in> set ((st_heap st)[h := ?s]). session_good s"
    using assms g(1) by (auto simp: store_inv_def dest!: set_update_subset_insert [THEN subsetD])
  ultimately show ?thesis
    using assms(1) unfolding st' by (simp add: store_inv_def)
qed (simp add: handle_append_def assms)

subsection \<open>Every interleaving\<close>

fun clock_ok :: "store_op \<Rightarrow> bool" where
  \<comment> \<open>what \<open>Date.now()\<close> returns: a finite number that is not negative\<close>
  "clock_ok (OpGuard _ _ now) = time_ok (JNum now)"
| "clock_ok (OpAppendEvent _ now _ _ _) = time_ok (JNum now)"
| "clock_ok _ = True"

lemma store_step_inv: "store_inv st \<Longrightarrow> clock_ok op \<Longrightarrow> store_inv (store_step st op)"
  by (cases op) (simp_all add: create_request_inv fork_request_inv birth_end_inv
      store_dispose_inv handle_append_inv)

lemma store_run_inv:
  "store_inv st \<Longrightarrow> \<forall>op \<in> set ops. clock_ok op \<Longrightarrow> store_inv (foldl store_step st ops)"
  by (induction ops arbitrary: st) (simp_all add: store_step_inv)

definition ops_clock_ok :: "store_op list \<Rightarrow> bool" where
  "ops_clock_ok ops = list_all clock_ok ops"

abbreviation reached :: "store_op list \<Rightarrow> store" where
  "reached ops \<equiv> foldl store_step empty_store ops"

lemma reached_inv: "ops_clock_ok ops \<Longrightarrow> store_inv (reached ops)"
  using store_run_inv [OF store_inv_empty] by (simp add: ops_clock_ok_def list_all_iff)

text \<open>Whatever calls are interleaved on an initially empty store, the ids it lists are
  pairwise distinct and safe to use as file names, and each one answers \<open>get\<close> with the handle of
  a session that carries that id and has not been disposed.\<close>

theorem store_lists_live_sessions:
  assumes "ops_clock_ok ops"
  shows "distinct (store_list (reached ops)) \<and>
    (\<forall>i \<in> set (store_list (reached ops)). isSafeSessionId i \<and>
       (\<exists>h. store_get (reached ops) i = Some h \<and> h < length (st_heap (reached ops)) \<and>
            header_id (sess_header (st_heap (reached ops) ! h)) = i \<and>
            \<not> sess_sealed (st_heap (reached ops) ! h)))"
proof (intro conjI ballI)
  note inv = reached_inv [OF assms]
  then show "distinct (store_list (reached ops))"
    by (simp add: store_inv_def live_ok_def store_list_def map_ok_def map_keys_def)
  fix i assume "i \<in> set (store_list (reached ops))"
  then obtain h where "map_get (st_live (reached ops)) i = Some h"
    by (auto simp: store_list_def map_keys_get)
  then show "isSafeSessionId i" and
    "\<exists>h. store_get (reached ops) i = Some h \<and> h < length (st_heap (reached ops)) \<and>
            header_id (sess_header (st_heap (reached ops) ! h)) = i \<and>
            \<not> sess_sealed (st_heap (reached ops) ! h)"
    using live_get [OF inv] by (auto simp: store_get_def)
qed

definition no_options :: create_options where
  "no_options = \<lparr>opt_id = None, opt_seed = None, opt_parent = None, opt_agent = None, opt_header = None\<rparr>"

definition sample_ops :: "store_op list" where
  "sample_ops =
     [OpCreate (no_options\<lparr>opt_id := Some ''a''\<rparr>) day_one (\<lambda>_. 0) (NInt 0) ''/w'',
      OpCreate (no_options\<lparr>opt_id := Some ''a''\<rparr>) day_one (\<lambda>_. 0) (NInt 0) ''/w'',
      OpGuard 0 None (NInt 0), OpGuard 1 None (NInt 0)]"

lemma store_lists_live_sessions_witness:
  "ops_clock_ok sample_ops \<and> distinct (store_list (reached sample_ops))"
proof -
  have "ops_clock_ok sample_ops" by (simp add: ops_clock_ok_def sample_ops_def)
  then show ?thesis using store_lists_live_sessions [of sample_ops] by blast
qed

subsection \<open>What a step leaves alone\<close>

lemma map_get_live_birth:
  "map_get (st_live st) i = Some h \<Longrightarrow> map_get (st_live (fst (birth_end st t deny now))) i = Some h"
  by (auto simp: birth_end_def Let_def take_pending_def map_has_get js_map.get_put split: option.splits sum.splits)

lemma request_keeps:
  "st_live (fst (create_request st options minted now cwd)) = st_live st"
  "st_heap (fst (create_request st options minted now cwd)) = st_heap st"
  "st_live (fst (fork_request st source untilSeq i minted now cwd)) = st_live st"
  "st_heap (fst (fork_request st source untilSeq i minted now cwd)) = st_heap st"
  by (auto simp: create_request_def fork_request_def Let_def add_pending_def
      split: sum.splits option.splits)

text \<open>No call evicts a live session except \<open>dispose\<close> of its own id: the id keeps answering with
  the same handle, so a birth that raced with it never replaces it.\<close>

theorem live_session_not_replaced:
  assumes "store_get st i = Some h" and "op \<noteq> OpDispose i"
  shows "store_get (store_step st op) i = Some h"
proof (cases op)
  case (OpDispose j)
  then show ?thesis
    using assms by (auto simp: store_get_def store_dispose_def js_map.get_del split: option.splits)
qed (use assms in \<open>auto simp: store_get_def request_keeps map_get_live_birth handle_append_def
      split: prod.splits\<close>)

definition one_live :: store where
  "one_live =
     \<lparr>st_heap = [\<lparr>sess_header = makeHeader ''a'' (NInt 0) ''/w'' None None, sess_log = [], sess_nodes = [],
                  sess_sealed = False, sess_appending = False\<rparr>],
      st_live = [(''a'', 0)], st_pending = [], st_next = 1\<rparr>"

lemma live_session_not_replaced_witness:
  "store_get (store_step one_live (OpDispose ''b'')) ''a'' = Some 0"
  by (rule live_session_not_replaced) (simp_all add: one_live_def store_get_def map_get_def)

lemma sealed_append: "sess_sealed s \<Longrightarrow> append s now ty data intent cb = (s, AppendRefused SessionDisposed)"
  by (simp add: append_def try_append_def)

lemma step_heap_nth:
  assumes "h < length (st_heap st)" "sess_sealed (st_heap st ! h)"
  shows "h < length (st_heap (store_step st op)) \<and>
    sess_sealed (st_heap (store_step st op) ! h) \<and>
    sess_log (st_heap (store_step st op) ! h) = sess_log (st_heap st ! h)"
proof (cases op)
  case (OpGuard t deny now)
  show ?thesis
    using assms unfolding OpGuard
    by (auto simp: birth_end_def Let_def take_pending_def nth_append split: option.splits sum.splits)
next
  case (OpDispose i)
  show ?thesis
  proof (cases "map_get (st_live st) i")
    case (Some g)
    then show ?thesis
      using assms unfolding OpDispose by (cases "g = h") (simp_all add: store_dispose_def)
  qed (use assms OpDispose in \<open>simp add: store_dispose_def\<close>)
next
  case (OpAppendEvent g now ty data intent)
  show ?thesis
  proof (cases "g = h")
    case True
    then show ?thesis
      using assms sealed_append unfolding OpAppendEvent by (simp add: handle_append_def)
  next
    case False
    then show ?thesis
      using assms unfolding OpAppendEvent by (simp add: handle_append_def split: prod.splits)
  qed
qed (use assms request_keeps in simp_all)

text \<open>Disposal is final: through whatever calls follow, a handle to a disposed session refuses
  every append with \<open>session-disposed\<close> and its log stays the log it had when it was disposed.\<close>

theorem disposed_session_frozen:
  assumes "h < length (st_heap st)" and "sess_sealed (st_heap st ! h)"
  shows "sess_log (st_heap (foldl store_step st ops) ! h) = sess_log (st_heap st ! h) \<and>
    snd (handle_append (foldl store_step st ops) h now ty data intent)
      = Some (AppendRefused SessionDisposed)"
proof -
  have "h < length (st_heap (foldl store_step st ops)) \<and>
      sess_sealed (st_heap (foldl store_step st ops) ! h) \<and>
      sess_log (st_heap (foldl store_step st ops) ! h) = sess_log (st_heap st ! h)"
    using assms by (induction ops arbitrary: st) (simp, metis foldl_Cons step_heap_nth)
  then show ?thesis by (simp add: handle_append_def sealed_append)
qed

lemma disposed_session_frozen_witness:
  "snd (handle_append (foldl store_step (store_step one_live (OpDispose ''a'')) [OpDispose ''b'']) 0 (NInt 1)
        ''turn/start'' JUndef JUndef) = Some (AppendRefused SessionDisposed)"
proof -
  have "0 < length (st_heap (store_step one_live (OpDispose ''a'')))"
    and "sess_sealed (st_heap (store_step one_live (OpDispose ''a'')) ! 0)"
    by (simp_all add: one_live_def store_dispose_def map_get_def)
  then show ?thesis using disposed_session_frozen by blast
qed

subsection \<open>Births\<close>

text \<open>In every reachable store, the end of a pending birth has one of three results: the guard's
  denial, \<open>duplicate\<close> because its id went live meanwhile, or a new handle whose session has the
  requested header and exactly the validated seed (with the end-of-seed mark); it never throws.\<close>

theorem birth_end_results:
  assumes "ops_clock_ok ops" and "time_ok (JNum now)"
    and "map_of (st_pending (reached ops)) ticket = Some b"
  shows "case snd (birth_end (reached ops) ticket deny now) of
      Some (Inl (Denied r)) \<Rightarrow> deny = Some r
    | Some (Inl (Duplicate i)) \<Rightarrow> deny = None \<and> i = header_id (b_header b) \<and> i \<in> set (store_list (reached ops))
    | Some (Inr h) \<Rightarrow> deny = None \<and>
        store_get (fst (birth_end (reached ops) ticket deny now)) (header_id (b_header b)) = Some h \<and>
        sess_header (st_heap (fst (birth_end (reached ops) ticket deny now)) ! h) = b_header b \<and>
        sess_log (st_heap (fst (birth_end (reached ops) ticket deny now)) ! h)
          = seeded_log (b_seed b) (b_inherited b) now
    | _ \<Rightarrow> False"
proof -
  have "birth_ok b"
    using reached_inv [OF assms(1)] assms(3) by (auto simp: store_inv_def dest!: map_of_SomeD)
  then obtain s where "createSession (b_header b) (b_seed b) (b_inherited b) now = Inr s"
    "sess_log s = seeded_log (b_seed b) (b_inherited b) now" "sess_header s = b_header b"
    using createSession_good [of "b_seed b" now] assms(2) by (auto simp: birth_ok_def)
  then show ?thesis
    using assms(3)
    by (auto simp: birth_end_def Let_def take_pending_def store_get_def store_list_def map_has_get
        map_keys_get js_map.get_put split: option.splits)
qed

definition fork_ops :: "store_op list" where
  "fork_ops = [OpCreate (no_options\<lparr>opt_id := Some ''a''\<rparr>) day_one (\<lambda>_. 0) (NInt 0) ''/w'']"

lemma birth_end_results_witness:
  "\<exists>b. map_of (st_pending (reached fork_ops)) 0 = Some b \<and>
     (case snd (birth_end (reached fork_ops) 0 None (NInt 5)) of
        Some (Inl (CreateThrew _)) \<Rightarrow> False | _ \<Rightarrow> True)"
proof -
  have ok: "ops_clock_ok fork_ops" "time_ok (JNum (NInt 5))"
    by (simp_all add: ops_clock_ok_def fork_ops_def)
  have safe: "isSafeSessionId ''a''" by code_simp
  obtain b where b: "map_of (st_pending (reached fork_ops)) 0 = Some b"
    by (simp add: fork_ops_def create_request_def resolveCreateHeader_def resolveId_def no_options_def
        safe empty_store_def map_has_get map_get_def read_seed_def Let_def add_pending_def
        del: isSafeSessionId.simps)
  then show ?thesis using birth_end_results [OF ok b, of None]
    by (auto split: option.splits sum.splits store_error.splits)
qed


definition one_event :: store where
  "one_event = one_live\<lparr>st_heap :=
     [(st_heap one_live ! 0)\<lparr>sess_log := [\<lparr>ev_type = ''turn/start'', ev_seq = 0, ev_time = NInt 0,
        ev_data = JObj [], ev_op = None\<rparr>]\<rparr>]\<rparr>"


end
