(* ===== verification/NodePath.thy ===== *)
theory NodePath
  imports JsStrings "HOL-Library.Sublist"
begin

text \<open>
  The POSIX half of \<open>node:path\<close> (\<open>resolve\<close>, \<open>join\<close>, \<open>isAbsolute\<close>, \<open>sep\<close>) and the facts of
  the host the code reads: \<open>homedir()\<close>, \<open>process.cwd()\<close> and
  \<open>process.platform === "darwin"\<close>, the fields of a \<open>host_env\<close>. The second half of the
  theory states what the path code of the repository relies on: a resolved path is
  absolute and normal (no empty, \<open>.\<close> or \<open>..\<close> segment), resolving is idempotent, and
  on such paths the textual test "equal to the root, or starts with the root and a
  separator" is containment of directories.
\<close>

record host_env =
  home_dir :: string
  proc_cwd :: string
  is_darwin :: bool

type_synonym path = string

abbreviation slash :: char where
  "slash \<equiv> CHR ''/''"

definition sep :: string where
  "sep = ''/''"

definition isAbsolute :: "path \<Rightarrow> bool" where
  "isAbsolute p = startsWith p ''/''"

subsection \<open>Normalisation\<close>

definition dotdot :: string where
  "dotdot = ''..''"

text \<open>
  \<open>normalizeString\<close> keeps a stack of segments: an empty segment and \<open>.\<close> are dropped, a
  \<open>..\<close> removes the segment before it, and with nothing to remove it is kept only when
  the path may climb above its root (\<open>allow\<close>). The stack holds the last segment first.
\<close>

fun push_segment :: "bool \<Rightarrow> string list \<Rightarrow> string \<Rightarrow> string list" where
  "push_segment allow st seg =
     (if seg = [] \<or> seg = ''.'' then st
      else if seg = dotdot then
        (case st of
           [] \<Rightarrow> if allow then [dotdot] else []
         | t # rest \<Rightarrow> if t = dotdot then dotdot # st else rest)
      else seg # st)"

definition normal_segments :: "bool \<Rightarrow> path \<Rightarrow> string list" where
  "normal_segments allow p = rev (foldl (push_segment allow) [] (split_on slash p))"

definition normalizeString :: "bool \<Rightarrow> path \<Rightarrow> path" where
  "normalizeString allow p = join_with ''/'' (normal_segments allow p)"

definition normalize :: "path \<Rightarrow> path" where
  "normalize p =
     (if p = [] then ''.''
      else
        let abs = isAbsolute p; trailing = endsWith p ''/''; q = normalizeString (\<not> abs) p
        in if q = [] then (if abs then ''/'' else if trailing then ''./'' else ''.'')
           else (if abs then ''/'' else []) @ q @ (if trailing then ''/'' else []))"

definition path_join :: "path list \<Rightarrow> path" where
  "path_join ps =
     (let nonempty = filter (\<lambda>p. p \<noteq> []) ps
      in if nonempty = [] then ''.'' else normalize (join_with ''/'' nonempty))"

subsection \<open>resolve\<close>

text \<open>
  \<open>resolve\<close> prepends its arguments from the right until the accumulated path is
  absolute, and \<open>process.cwd()\<close> last.
\<close>

fun resolve_acc :: "path list \<Rightarrow> path \<Rightarrow> path \<times> bool" where
  "resolve_acc [] acc = (acc, False)"
| "resolve_acc (p # ps) acc =
     (if p = [] then resolve_acc ps acc
      else if isAbsolute p then (p @ ''/'' @ acc, True)
      else resolve_acc ps (p @ ''/'' @ acc))"

definition resolve :: "host_env \<Rightarrow> path list \<Rightarrow> path" where
  "resolve env ps =
     (case resolve_acc (rev ps @ [proc_cwd env]) [] of (raw, absolute) \<Rightarrow>
        let q = normalizeString (\<not> absolute) raw
        in if absolute then ''/'' @ q else if q \<noteq> [] then q else ''.'')"

subsection \<open>Directory containment\<close>

definition within_root :: "path \<Rightarrow> path \<Rightarrow> bool" where
  \<comment> \<open>the test \<open>path === root || path.startsWith(root.endsWith(sep) ? root : root + sep)\<close>\<close>
  "within_root p root =
     (p = root \<or> startsWith p (if endsWith root sep then root else root @ sep))"

definition withinAny :: "path \<Rightarrow> path list \<Rightarrow> bool" where
  "withinAny p roots = list_ex (within_root p) roots"

subsection \<open>Normal absolute paths\<close>

definition plain_segment :: "string \<Rightarrow> bool" where
  "plain_segment w \<longleftrightarrow> w \<noteq> [] \<and> w \<noteq> ''.'' \<and> w \<noteq> dotdot \<and> slash \<notin> set w"

definition abs_path :: "string list \<Rightarrow> path" where
  "abs_path segs = slash # join_with ''/'' segs"

definition path_segments :: "path \<Rightarrow> string list" where
  "path_segments p = segments slash p"

definition normal_path :: "path \<Rightarrow> bool" where
  "normal_path p \<longleftrightarrow> (\<forall>w \<in> set (path_segments p). plain_segment w) \<and> p = abs_path (path_segments p)"

lemma path_segments_abs_path [simp]:
  "\<forall>w \<in> set segs. plain_segment w \<Longrightarrow> path_segments (abs_path segs) = segs"
  unfolding path_segments_def abs_path_def
  by (simp, rule segments_join) (auto simp: plain_segment_def)

lemma normal_abs_path: "\<forall>w \<in> set segs. plain_segment w \<Longrightarrow> normal_path (abs_path segs)"
  by (simp add: normal_path_def)

lemma push_segment_empty [simp]: "push_segment allow st [] = st"
  by simp

declare push_segment.simps [simp del]

lemma push_segment_plain:
  "\<forall>w \<in> set st. plain_segment w \<Longrightarrow> slash \<notin> set seg \<Longrightarrow>
     \<forall>w \<in> set (push_segment False st seg). plain_segment w"
  by (cases st) (simp_all add: push_segment.simps plain_segment_def)

lemma foldl_push_plain:
  "\<forall>w \<in> set st. plain_segment w \<Longrightarrow> \<forall>w \<in> set segs. slash \<notin> set w \<Longrightarrow>
     \<forall>w \<in> set (foldl (push_segment False) st segs). plain_segment w"
proof (induction segs arbitrary: st)
  case Nil
  then show ?case by simp
next
  case (Cons seg segs)
  have "\<forall>w \<in> set (push_segment False st seg). plain_segment w"
    by (rule push_segment_plain) (use Cons.prems in auto)
  then show ?case using Cons.IH Cons.prems(2) by simp
qed

lemma normal_segments_plain: "\<forall>w \<in> set (normal_segments False p). plain_segment w"
proof -
  have "\<forall>w \<in> set (split_on slash p). slash \<notin> set w"
    by (auto dest: split_by_parts)
  then show ?thesis
    unfolding normal_segments_def set_rev by (intro foldl_push_plain) simp_all
qed

lemma push_segment_id: "plain_segment w \<Longrightarrow> push_segment allow st w = w # st"
  by (auto simp: plain_segment_def push_segment.simps)

lemma foldl_push_id:
  "\<forall>w \<in> set segs. plain_segment w \<Longrightarrow> foldl (push_segment allow) st segs = rev segs @ st"
  by (induction segs arbitrary: st) (simp_all add: push_segment_id)

lemma foldl_push_filter:
  "foldl (push_segment allow) st (filter (\<lambda>w. w \<noteq> []) segs) = foldl (push_segment allow) st segs"
  by (induction segs arbitrary: st) auto

lemma normal_segments_segments:
  "normal_segments allow p = rev (foldl (push_segment allow) [] (path_segments p))"
  by (simp add: normal_segments_def path_segments_def segments_by_def foldl_push_filter)

lemma path_segments_trailing: "path_segments (p @ slash # q) = path_segments p @ path_segments q"
  by (simp add: path_segments_def segments_append_sep)

subsection \<open>What resolve returns\<close>

lemma resolve_acc_absolute:
  "isAbsolute (last ps) \<Longrightarrow> ps \<noteq> [] \<Longrightarrow> snd (resolve_acc ps acc)"
  by (induction ps acc rule: resolve_acc.induct) (auto simp: isAbsolute_def split: if_splits)

lemma resolve_eq:
  assumes "isAbsolute (proc_cwd env)"
  shows "resolve env ps =
    abs_path (normal_segments False (fst (resolve_acc (rev ps @ [proc_cwd env]) [])))"
proof -
  obtain raw a where ra: "resolve_acc (rev ps @ [proc_cwd env]) [] = (raw, a)" by fastforce
  have "snd (resolve_acc (rev ps @ [proc_cwd env]) [])"
    by (rule resolve_acc_absolute) (simp_all add: assms)
  with ra show ?thesis by (simp add: resolve_def abs_path_def normalizeString_def)
qed

theorem resolve_normal: "isAbsolute (proc_cwd env) \<Longrightarrow> normal_path (resolve env ps)"
  by (simp add: resolve_eq normal_abs_path normal_segments_plain)

lemma normal_absolute: "normal_path p \<Longrightarrow> isAbsolute p"
  unfolding normal_path_def abs_path_def isAbsolute_def by (metis startsWith.simps(1,3))

lemma normal_resolve_last:
  assumes "normal_path p"
  shows "resolve env (qs @ [p]) = p"
proof -
  have ab: "isAbsolute p" using assms by (rule normal_absolute)
  then have ne: "p \<noteq> []" by (auto simp: isAbsolute_def)
  have pl: "\<forall>w \<in> set (path_segments p). plain_segment w" and eq: "p = abs_path (path_segments p)"
    using assms by (auto simp: normal_path_def)
  have "resolve env (qs @ [p]) = abs_path (normal_segments False (p @ ''/''))"
    using ab ne by (simp add: resolve_def normalizeString_def abs_path_def)
  also have "normal_segments False (p @ ''/'') = path_segments p"
    using path_segments_trailing [of p "[]"]
    by (simp add: normal_segments_segments foldl_push_id pl) (simp add: path_segments_def)
  finally show ?thesis using eq by simp
qed

corollary resolve_idem:
  "isAbsolute (proc_cwd env) \<Longrightarrow> resolve env [resolve env ps] = resolve env ps"
  using normal_resolve_last [of "resolve env ps" env "[]"] by (simp add: resolve_normal)

subsection \<open>Containment\<close>

lemma join_prefix:
  "xs \<noteq> [] \<Longrightarrow> ys \<noteq> [] \<Longrightarrow> join_with s (xs @ ys) = join_with s xs @ s @ join_with s ys"
proof (induction xs rule: induct_list012)
  case (2 x)
  then show ?case by (cases ys) auto
next
  case (3 x y zs)
  then show ?case by simp
qed simp

lemma abs_path_append:
  "xs \<noteq> [] \<Longrightarrow> ys \<noteq> [] \<Longrightarrow> abs_path (xs @ ys) = abs_path xs @ ''/'' @ join_with ''/'' ys"
  by (simp add: abs_path_def join_prefix)

lemma abs_path_root_iff: "\<forall>w \<in> set segs. plain_segment w \<Longrightarrow> endsWith (abs_path segs) sep \<longleftrightarrow> segs = []"
proof
  assume pl: "\<forall>w \<in> set segs. plain_segment w" and e: "endsWith (abs_path segs) sep"
  show "segs = []"
  proof (rule ccontr)
    assume "segs \<noteq> []"
    then obtain ws w where s: "segs = ws @ [w]" by (metis rev_exhaust)
    with pl have w: "w \<noteq> []" "slash \<notin> set w" by (auto simp: plain_segment_def)
    have "last (abs_path segs) = last w"
      using w s abs_path_append [of ws "[w]"] by (cases "ws = []") (auto simp: abs_path_def)
    moreover have "last (abs_path segs) = slash"
      using e by (auto simp: endsWith_iff sep_def)
    ultimately show False using w by (metis last_in_set)
  qed
next
  assume "segs = []"
  then show "endsWith (abs_path segs) sep" by (simp add: abs_path_def endsWith_iff sep_def)
qed

theorem within_root_iff:
  assumes "normal_path p" and "normal_path root"
  shows "within_root p root \<longleftrightarrow> prefix (path_segments root) (path_segments p)"
proof -
  let ?P = "path_segments p" and ?R = "path_segments root"
  have P: "\<forall>w \<in> set ?P. plain_segment w" "p = abs_path ?P"
    and R: "\<forall>w \<in> set ?R. plain_segment w" "root = abs_path ?R"
    using assms by (auto simp: normal_path_def)
  have sep_root: "endsWith root sep \<longleftrightarrow> ?R = []"
    using abs_path_root_iff [OF R(1)] R(2) by simp
  show ?thesis
  proof (cases "?R = []")
    case True
    then have "root = ''/''" using R(2) by (simp add: abs_path_def)
    moreover have "startsWith p ''/''" using normal_absolute [OF assms(1)] by (simp add: isAbsolute_def)
    ultimately show ?thesis using True sep_root by (simp add: within_root_def)
  next
    case False
    have "within_root p root \<longleftrightarrow> p = root \<or> (\<exists>t. p = root @ ''/'' @ t)"
      using False sep_root by (auto simp: within_root_def startsWith_iff sep_def)
    also have "\<dots> \<longleftrightarrow> prefix ?R ?P"
    proof
      assume "p = root \<or> (\<exists>t. p = root @ ''/'' @ t)"
      then show "prefix ?R ?P"
      proof
        assume "\<exists>t. p = root @ ''/'' @ t"
        then obtain t where "p = root @ slash # t" by auto
        then show ?thesis by (simp add: path_segments_trailing)
      qed simp
    next
      assume "prefix ?R ?P"
      then obtain zs where zs: "?P = ?R @ zs" by (auto simp: prefix_def)
      show "p = root \<or> (\<exists>t. p = root @ ''/'' @ t)"
      proof (cases "zs = []")
        case True
        then show ?thesis using zs P(2) R(2) by simp
      next
        case nonempty: False
        then have "p = root @ ''/'' @ join_with ''/'' zs"
          using abs_path_append [OF False nonempty] zs P(2) R(2) by simp
        then show ?thesis by blast
      qed
    qed
    finally show ?thesis .
  qed
qed

end
