(* ===== verification/JsRegex.thy ===== *)
theory JsRegex
  imports JsStrings
begin

text \<open>
  The part of ECMAScript regular expressions the code uses, for \<open>RegExp.prototype.test\<close>:
  character classes, alternation, repetition, the anchors, the word boundary and the
  one-character lookarounds. \<open>rx_ends r s i\<close> lists the positions where a match of \<open>r\<close>
  that starts at position \<open>i\<close> of \<open>s\<close> can end. \<open>test\<close> only asks whether some match
  exists, so the order in which the engine of the language tries the alternatives is
  immaterial.
\<close>

datatype rx =
    RSet "char \<Rightarrow> bool"
  | REmpty
  | RCat rx rx
  | RAlt rx rx
  | RStar rx
  | RBegin
  | REnd
  | RWordBoundary
  | RNotBehind "char \<Rightarrow> bool"
  | RNotAhead "char \<Rightarrow> bool"

text \<open>
  \<open>star_ends n f i\<close>: the positions reachable from \<open>i\<close> by at most \<open>n\<close> iterations of
  \<open>f\<close>, each of which must advance (the language's empty-iteration check). A position
  never exceeds the length of the subject, so the length is enough fuel.
\<close>

fun star_ends :: "nat \<Rightarrow> (nat \<Rightarrow> nat list) \<Rightarrow> nat \<Rightarrow> nat list" where
  "star_ends 0 f i = [i]"
| "star_ends (Suc n) f i =
     i # concat (map (star_ends n f) (filter (\<lambda>j. i < j) (f i)))"

definition word_at :: "string \<Rightarrow> nat \<Rightarrow> bool" where
  "word_at s i = (i < length s \<and> is_word (s ! i))"

definition word_before :: "string \<Rightarrow> nat \<Rightarrow> bool" where
  "word_before s i = (0 < i \<and> word_at s (i - 1))"

primrec rx_ends :: "rx \<Rightarrow> string \<Rightarrow> nat \<Rightarrow> nat list" where
  "rx_ends (RSet P) s i = (if i < length s \<and> P (s ! i) then [Suc i] else [])"
| "rx_ends REmpty s i = [i]"
| "rx_ends (RCat r q) s i = concat (map (rx_ends q s) (rx_ends r s i))"
| "rx_ends (RAlt r q) s i = rx_ends r s i @ rx_ends q s i"
| "rx_ends (RStar r) s i = star_ends (length s - i) (rx_ends r s) i"
| "rx_ends RBegin s i = (if i = 0 then [i] else [])"
| "rx_ends REnd s i = (if i = length s then [i] else [])"
| "rx_ends RWordBoundary s i = (if word_before s i \<noteq> word_at s i then [i] else [])"
| "rx_ends (RNotBehind P) s i = (if 0 < i \<and> i \<le> length s \<and> P (s ! (i - 1)) then [] else [i])"
| "rx_ends (RNotAhead P) s i = (if i < length s \<and> P (s ! i) then [] else [i])"

definition rx_test :: "rx \<Rightarrow> string \<Rightarrow> bool" where
  "rx_test r s = list_ex (\<lambda>i. rx_ends r s i \<noteq> []) [0..<Suc (length s)]"

definition RChar :: "char \<Rightarrow> rx" where
  "RChar c = RSet (\<lambda>d. d = c)"

fun RLit :: "string \<Rightarrow> rx" where
  "RLit [] = REmpty"
| "RLit [c] = RChar c"
| "RLit (c # cs) = RCat (RChar c) (RLit cs)"

fun RAny :: "rx list \<Rightarrow> rx" where
  "RAny [] = RSet (\<lambda>_. False)"
| "RAny [r] = r"
| "RAny (r # rs) = RAlt r (RAny rs)"

fun RSeq :: "rx list \<Rightarrow> rx" where
  "RSeq [] = REmpty"
| "RSeq [r] = r"
| "RSeq (r # rs) = RCat r (RSeq rs)"

definition ROpt :: "rx \<Rightarrow> rx" where
  "ROpt r = RAlt r REmpty"

text \<open>A literal under the flag \<open>i\<close> matches either case of an ASCII letter.\<close>

definition RLitI :: "string \<Rightarrow> rx" where
  "RLitI w = RSeq (map (\<lambda>c. RSet (\<lambda>d. lower_char d = lower_char c)) w)"

subsection \<open>Where a literal matches\<close>

lemma drop_startsWith_Cons:
  "startsWith (drop i s) (c # cs) \<longleftrightarrow>
     i < length s \<and> s ! i = c \<and> startsWith (drop (Suc i) s) cs"
proof (cases "i < length s")
  case True
  then have "drop i s = s ! i # drop (Suc i) s" by (simp add: Cons_nth_drop_Suc)
  with True show ?thesis by auto
qed simp

lemma rx_ends_RLit:
  "rx_ends (RLit w) s i = (if startsWith (drop i s) w then [i + length w] else [])"
proof (induction w arbitrary: i rule: RLit.induct)
  case 1
  then show ?case by simp
next
  case (2 c)
  then show ?case by (simp add: RChar_def drop_startsWith_Cons)
next
  case (3 c d cs)
  then show ?case by (simp add: RChar_def drop_startsWith_Cons [of _ _ c])
qed

lemma rx_test_iff: "rx_test r s \<longleftrightarrow> (\<exists>i \<le> length s. rx_ends r s i \<noteq> [])"
  by (force simp: rx_test_def list_ex_iff Bex_def less_Suc_eq_le simp del: upt_Suc)

lemma rx_test_RLit: "rx_test (RLit w) s \<longleftrightarrow> str_includes s w"
  by (auto simp: rx_test_iff rx_ends_RLit str_includes_def index_in_None_iff)

lemma rx_test_RAlt: "rx_test (RAlt r q) s \<longleftrightarrow> rx_test r s \<or> rx_test q s"
  by (auto simp: rx_test_iff)

end
