(* ===== verification/PermTypes.thy ===== *)
theory PermTypes
  imports JsValues NodePath JsRegex
begin

text \<open>
  The data of the permission package (\<open>packages/permission/src/types.ts\<close>): rules, profiles,
  decisions, and the text form of a rule (\<open>rules/parse.ts\<close>). A rule in text form is
  \<open>Tool(pattern):verdict\<close>; the theorems say that printing and parsing are inverse.
\<close>

datatype verdict = Allow | Deny | Ask

datatype rule_tool = Danger | ReadTool | WriteTool | ToolFace

datatype rule_origin = OriginUser | OriginProject | OriginSession | OriginDefault

datatype rule_nature = Handwritten | Grant

record permission_rule =
  r_tool :: rule_tool
  r_pattern :: string
  r_verdict :: verdict
  r_origin :: rule_origin
  r_nature :: "rule_nature option"
  r_outsideRoots :: bool
  r_at :: "jsnum option"

datatype exec_directive = Direct | Contained

datatype ask_policy = AskNever | AskOnFailure | AskOnOpaque | AskAlways
datatype containment = NotContained | Fenced
datatype mutation_policy = PlanDeny | ConfirmAll | AutoInRoot

record permission_profile =
  pr_id :: string
  pr_askPolicy :: ask_policy
  pr_containment :: containment
  pr_mutationPolicy :: mutation_policy

text \<open>\<open>Decision\<close> of \<open>decide.ts\<close>; \<open>d_grant\<close> is the directory of an \<open>extraRoot\<close> grant.\<close>

record decision =
  d_verdict :: verdict
  d_reason :: string
  d_resolvedBy :: string
  d_exec :: "exec_directive option"
  d_grant :: "string option"
  d_memorizable :: bool
  d_suggestedRule :: "string option"

definition plain_decision :: "verdict \<Rightarrow> string \<Rightarrow> string \<Rightarrow> decision" where
  "plain_decision v reason by =
     \<lparr>d_verdict = v, d_reason = reason, d_resolvedBy = by, d_exec = None, d_grant = None,
      d_memorizable = False, d_suggestedRule = None\<rparr>"

lemma plain_decision_sel [simp]:
  "d_verdict (plain_decision v r b) = v" "d_reason (plain_decision v r b) = r"
  "d_resolvedBy (plain_decision v r b) = b" "d_exec (plain_decision v r b) = None"
  "d_grant (plain_decision v r b) = None" "d_memorizable (plain_decision v r b) = False"
  "d_suggestedRule (plain_decision v r b) = None"
  by (simp_all add: plain_decision_def)

subsection \<open>Names\<close>

fun origin_text :: "rule_origin \<Rightarrow> string" where
  "origin_text OriginUser = ''user''"
| "origin_text OriginProject = ''project''"
| "origin_text OriginSession = ''session''"
| "origin_text OriginDefault = ''default''"

fun tool_text :: "rule_tool \<Rightarrow> string" where
  "tool_text Danger = ''Danger''"
| "tool_text ReadTool = ''Read''"
| "tool_text WriteTool = ''Write''"
| "tool_text ToolFace = ''Tool''"

fun verdict_text :: "verdict \<Rightarrow> string" where
  "verdict_text Allow = ''allow''"
| "verdict_text Deny = ''deny''"
| "verdict_text Ask = ''ask''"

definition rule_allows :: "permission_rule \<Rightarrow> bool" where
  "rule_allows r = (r_verdict r = Allow)"

definition is_grant :: "permission_rule \<Rightarrow> bool" where
  "is_grant r = (r_nature r = Some Grant)"

subsection \<open>Parsing a rule\<close>

definition TOOLS :: "rule_tool list" where
  "TOOLS = [Danger, ReadTool, WriteTool, ToolFace]"

definition VERDICTS :: "verdict list" where
  "VERDICTS = [Allow, Deny, Ask]"

definition tool_of_text :: "string \<Rightarrow> rule_tool option" where
  "tool_of_text s = List.find (\<lambda>t. tool_text t = s) TOOLS"

definition verdict_of_text :: "string \<Rightarrow> verdict option" where
  "verdict_of_text s = List.find (\<lambda>v. verdict_text v = s) VERDICTS"

datatype rule_error = Unparseable | UnknownTool | UnknownVerdict | EmptyPattern

definition before_paren :: "string \<Rightarrow> string" where
  \<comment> \<open>\<open>text.slice(0, text.indexOf("("))\<close>; without a parenthesis \<open>indexOf\<close> is -1 and drops the last character\<close>
  "before_paren text =
     (case index_in text ''('' of Some k \<Rightarrow> take k text | None \<Rightarrow> butlast text)"

definition between_parens :: "string \<Rightarrow> nat \<Rightarrow> string" where
  \<comment> \<open>\<open>text.slice(text.indexOf("(") + 1, close)\<close>\<close>
  "between_parens text close =
     (case index_in text ''('' of
        Some k \<Rightarrow> drop (Suc k) (take close text)
      | None \<Rightarrow> take close text)"

definition parseRule :: "string \<Rightarrow> rule_origin \<Rightarrow> rule_error + permission_rule" where
  "parseRule text origin =
     (case lastIndexOf text ''):'' of
        None \<Rightarrow> Inl Unparseable
      | Some 0 \<Rightarrow> Inl Unparseable
      | Some close \<Rightarrow>
          (case tool_of_text (before_paren text) of
             None \<Rightarrow> Inl UnknownTool
           | Some tool \<Rightarrow>
               (case verdict_of_text (drop (close + 2) text) of
                  None \<Rightarrow> Inl UnknownVerdict
                | Some v \<Rightarrow>
                    let pattern = between_parens text close
                    in if pattern = [] then Inl EmptyPattern
                       else Inr \<lparr>r_tool = tool, r_pattern = pattern, r_verdict = v, r_origin = origin,
                                 r_nature = None, r_outsideRoots = False, r_at = None\<rparr>)))"

fun parseRules :: "string list \<Rightarrow> rule_origin \<Rightarrow> rule_error + permission_rule list" where
  "parseRules [] origin = Inr []"
| "parseRules (text # texts) origin =
     (case parseRule text origin of
        Inl e \<Rightarrow> Inl e
      | Inr r \<Rightarrow> (case parseRules texts origin of Inl e \<Rightarrow> Inl e | Inr rs \<Rightarrow> Inr (r # rs)))"

definition rule_text :: "rule_tool \<Rightarrow> string \<Rightarrow> verdict \<Rightarrow> string" where
  \<comment> \<open>the form \<open>Tool(pattern):verdict\<close> the package writes\<close>
  "rule_text tool pattern v = tool_text tool @ ''('' @ pattern @ ''):'' @ verdict_text v"

lemma tool_of_text_text [simp]: "tool_of_text (tool_text t) = Some t"
  by (cases t) (simp_all add: tool_of_text_def TOOLS_def)

lemma verdict_of_text_text [simp]: "verdict_of_text (verdict_text v) = Some v"
  by (cases v) (simp_all add: verdict_of_text_def VERDICTS_def)

lemma tool_of_text_SomeD: "tool_of_text s = Some t \<Longrightarrow> s = tool_text t"
  by (auto simp: tool_of_text_def dest: find_SomeD)

lemma verdict_of_text_SomeD: "verdict_of_text s = Some v \<Longrightarrow> s = verdict_text v"
  by (auto simp: verdict_of_text_def dest: find_SomeD)

lemma index_in_fresh: "c \<notin> set u \<Longrightarrow> index_in (u @ c # v) [c] = Some (length u)"
  by (induction u) auto

lemma paren_not_in_tool: "CHR ''('' \<notin> set (tool_text t)"
  by (cases t) auto

lemma before_paren_rule: "before_paren (tool_text t @ ''('' @ s) = tool_text t"
  using index_in_fresh [OF paren_not_in_tool, of t s] by (simp add: before_paren_def)

lemma between_parens_rule:
  "between_parens (tool_text t @ ''('' @ p @ s) (length (tool_text t) + 1 + length p) = p"
  using index_in_fresh [OF paren_not_in_tool, of t "p @ s"] by (simp add: between_parens_def)

lemma verdict_tail_no_close:
  "0 < k \<Longrightarrow> \<not> startsWith (drop k (''):'' @ verdict_text v)) ''):''"
  by (cases v) (auto simp: drop_Cons split: nat.splits)

lemma last_close_rule:
  "lastIndexOf (u @ ''):'' @ verdict_text v) ''):'' = Some (length u)"
  unfolding lastIndexOf_Some_iff
proof (intro conjI allI impI)
  fix k
  assume k: "length u < k"
  have "drop k (u @ ''):'' @ verdict_text v) = drop (k - length u) (''):'' @ verdict_text v)"
    using k by simp
  then show "\<not> startsWith (drop k (u @ ''):'' @ verdict_text v)) ''):''"
    using verdict_tail_no_close [of "k - length u" v] k by simp
qed simp_all

definition parsed_rule :: "rule_tool \<Rightarrow> string \<Rightarrow> verdict \<Rightarrow> rule_origin \<Rightarrow> permission_rule" where
  "parsed_rule tool pattern v origin =
     \<lparr>r_tool = tool, r_pattern = pattern, r_verdict = v, r_origin = origin,
      r_nature = None, r_outsideRoots = False, r_at = None\<rparr>"

lemma drop_close: "drop (length u + 2) (u @ ''):'' @ w) = w"
  by simp

lemma parseRule_rule_text:
  assumes "pattern \<noteq> []"
  shows "parseRule (rule_text tool pattern v) origin = Inr (parsed_rule tool pattern v origin)"
proof -
  let ?u = "tool_text tool @ ''('' @ pattern"
  have t: "rule_text tool pattern v = ?u @ ''):'' @ verdict_text v" by (simp add: rule_text_def)
  have n: "length ?u = Suc (length (tool_text tool) + length pattern)" by simp
  have "lastIndexOf (rule_text tool pattern v) ''):'' = Some (length ?u)"
    unfolding t by (rule last_close_rule)
  moreover have "before_paren (rule_text tool pattern v) = tool_text tool"
    using before_paren_rule [of tool] by (simp add: rule_text_def)
  moreover have "between_parens (rule_text tool pattern v) (length ?u) = pattern"
    using between_parens_rule [of tool pattern "''):'' @ verdict_text v"] by (simp add: rule_text_def)
  moreover have "drop (length ?u + 2) (rule_text tool pattern v) = verdict_text v"
    unfolding t by (rule drop_close)
  ultimately show ?thesis
    using assms unfolding parseRule_def n by (simp add: parsed_rule_def)
qed

lemma close_not_in_tool: "CHR '')'' \<notin> set (tool_text t)"
  by (cases t) auto

lemma parseRule_InrD:
  assumes "parseRule text origin = Inr r"
  shows "r_pattern r \<noteq> [] \<and> text = rule_text (r_tool r) (r_pattern r) (r_verdict r) \<and>
    r = parsed_rule (r_tool r) (r_pattern r) (r_verdict r) origin"
proof -
  obtain k tool v where k: "lastIndexOf text ''):'' = Some k" "0 < k"
    and tool: "before_paren text = tool_text tool" and v: "drop (k + 2) text = verdict_text v"
    and ne: "between_parens text k \<noteq> []" and r: "r = parsed_rule tool (between_parens text k) v origin"
    using assms
    by (auto simp: parseRule_def Let_def parsed_rule_def split: option.splits nat.splits if_splits
        dest: tool_of_text_SomeD verdict_of_text_SomeD)
  have "startsWith (drop k text) ''):''" using k(1) by (simp add: lastIndexOf_Some_iff)
  then obtain z where z: "drop k text = ''):'' @ z" by (auto simp: startsWith_iff)
  then have "drop 2 (drop k text) = z" by simp
  then have "z = verdict_text v" using v by (simp add: add.commute)
  with z have whole: "text = take k text @ ''):'' @ verdict_text v" by (metis append_take_drop_id)
  have klen: "k < length text" using z by (cases "k < length text") auto
  show ?thesis
  proof (cases "index_in text ''(''")
    case None
    have "butlast text = take k text @ CHR '')'' # butlast (CHR '':'' # verdict_text v)"
      using arg_cong [OF whole, of butlast] by (simp add: butlast_append)
    then have "CHR '')'' \<in> set (butlast text)" by simp
    moreover have "butlast text = tool_text tool" using tool None by (simp add: before_paren_def)
    ultimately show ?thesis using close_not_in_tool by simp
  next
    case (Some j)
    have j: "take j text = tool_text tool" using tool Some by (simp add: before_paren_def)
    have b: "between_parens text k = drop (Suc j) (take k text)"
      using Some by (simp add: between_parens_def)
    then have jk: "Suc j < k" using ne by (cases "Suc j < k") auto
    have "startsWith (drop j text) ''(''" using Some by (simp add: index_in_Some_iff)
    then obtain w where w: "drop j text = CHR ''('' # w" by (auto simp: startsWith_iff)
    have jlen: "length (take j text) = j" using jk klen by simp
    have cut: "text = take j text @ CHR ''('' # w" by (metis append_take_drop_id w)
    have "take k text = take j text @ CHR ''('' # take (k - Suc j) w"
      using arg_cong [OF cut, of "take k"] jk jlen by (simp add: take_Cons')
    moreover have "drop (Suc j) (take k text) = take (k - Suc j) w"
      using arg_cong [OF w, of "drop 1"] by (simp add: drop_take)
    ultimately have pre: "take k text = tool_text tool @ ''('' @ between_parens text k"
      using b j by simp
    have "text = rule_text tool (between_parens text k) v"
      using whole unfolding pre by (simp add: rule_text_def)
    then show ?thesis using ne r by (simp add: parsed_rule_def)
  qed
qed

text \<open>Parsing a permission rule accepts exactly the texts \<open>Tool(pattern):verdict\<close> with one of
  the four tools, one of the three verdicts and a pattern that is not empty (it may itself hold
  parentheses and colons), and it gives back that tool, pattern and verdict.\<close>

theorem parseRule_iff:
  "parseRule text origin = Inr r \<longleftrightarrow>
     (\<exists>tool pattern v. pattern \<noteq> [] \<and> text = rule_text tool pattern v \<and>
        r = parsed_rule tool pattern v origin)"
  using parseRule_InrD [of "text" origin r] parseRule_rule_text by blast

end
