(* ===== verification/PermGlob.thy ===== *)
theory PermGlob
  imports PermTypes
begin

text \<open>
  Path patterns (\<open>rules/glob.ts\<close>). \<open>segMatch\<close> matches one path segment by the greedy search
  of the code; its specification \<open>wild\<close> says what a star means. \<open>matchSegs\<close> matches whole
  paths, where \<open>**\<close> stands for any number of segments. The last part relates a directory
  pattern \<open>D/**\<close> to the containment test on paths that the rest of the package uses.
\<close>

subsection \<open>The code\<close>

fun star_parts :: "string list \<Rightarrow> string \<Rightarrow> bool" where
  \<comment> \<open>the loop of \<open>segMatch\<close> over the parts after the first; the string is what is left from \<open>at\<close>\<close>
  "star_parts [] rest = True"
| "star_parts [part] rest = (if part \<noteq> [] then endsWith rest part else True)"
| "star_parts (part # parts) rest =
     (case index_in rest part of
        None \<Rightarrow> False
      | Some found \<Rightarrow> star_parts parts (drop (found + length part) rest))"

definition segMatch :: "string \<Rightarrow> string \<Rightarrow> bool" where
  "segMatch patSeg seg =
     (case split_on (CHR ''*'') patSeg of
        [] \<Rightarrow> False
      | [_] \<Rightarrow> patSeg = seg
      | head # parts \<Rightarrow> startsWith seg head \<and> star_parts parts (drop (length head) seg))"

function (sequential) matchSegs :: "string list \<Rightarrow> string list \<Rightarrow> bool" where
  "matchSegs [] segs = (segs = [])"
| "matchSegs (head # rest) segs =
     (if head = ''**''
      then list_ex (\<lambda>skip. matchSegs rest (drop skip segs)) [0..<Suc (length segs)]
      else case segs of
             [] \<Rightarrow> False
           | first # tail \<Rightarrow> segMatch head first \<and> matchSegs rest tail)"
  by pat_completeness auto
termination by (relation "measure (length \<circ> fst)") auto

definition fold_case :: "host_env \<Rightarrow> string \<Rightarrow> string" where
  \<comment> \<open>\<open>fold\<close>\<close>
  "fold_case env s = (if is_darwin env then toLowerCase s else s)"

definition expand :: "host_env \<Rightarrow> string \<Rightarrow> path \<Rightarrow> path" where
  "expand env pattern root =
     (if pattern = ''~'' \<or> startsWith pattern ''~/'' \<or> startsWith pattern [CHR ''~'', CHR 92]
      then path_join [home_dir env, drop 2 pattern]
      else if startsWith pattern ''/'' \<or> isAbsolute pattern then pattern
      else resolve env [root, pattern])"

definition matchGlob :: "host_env \<Rightarrow> string \<Rightarrow> path \<Rightarrow> path \<Rightarrow> bool \<Rightarrow> bool" where
  "matchGlob env pattern p root caseFold =
     (let pSegs = path_segments (expand env pattern root); tSegs = path_segments p
      in if \<not> caseFold then matchSegs pSegs tSegs
         else matchSegs (map (fold_case env) pSegs) (map (fold_case env) tSegs))"

definition globMatch :: "host_env \<Rightarrow> string \<Rightarrow> path \<Rightarrow> path \<Rightarrow> bool" where
  "globMatch env pattern p root = matchGlob env pattern p root (is_darwin env)"

subsection \<open>What a star means\<close>

fun wild :: "string \<Rightarrow> string \<Rightarrow> bool" where
  "wild [] s = (s = [])"
| "wild (c # pat) s =
     (if c = CHR ''*'' then list_ex (\<lambda>k. wild pat (drop k s)) [0..<Suc (length s)]
      else case s of [] \<Rightarrow> False | d # t \<Rightarrow> d = c \<and> wild pat t)"

fun parts_in_order :: "string list \<Rightarrow> string \<Rightarrow> bool" where
  "parts_in_order [] s = True"
| "parts_in_order [part] s = endsWith s part"
| "parts_in_order (part # parts) s = (\<exists>u v. s = u @ part @ v \<and> parts_in_order parts v)"

lemma parts_in_order_skip: "parts_in_order parts v \<Longrightarrow> parts_in_order parts (u @ v)"
proof (induction parts v rule: parts_in_order.induct)
  case (2 part s)
  then show ?case by (auto simp: endsWith_iff)
next
  case (3 part q parts s)
  then obtain x v where "s = x @ part @ v" "parts_in_order (q # parts) v" by auto
  then have "u @ s = (u @ x) @ part @ v \<and> parts_in_order (q # parts) v" by simp
  then show ?case unfolding parts_in_order.simps by blast
qed simp

lemma greedy_parts: "star_parts parts s \<longleftrightarrow> parts_in_order parts s"
proof (induction parts s rule: star_parts.induct)
  case (3 part q parts s)
  show ?case
  proof (cases "index_in s part")
    case None
    then have "\<nexists>u v. s = u @ part @ v" using str_includes_iff [of s part] by (simp add: str_includes_def)
    then show ?thesis using None by auto
  next
    case (Some k)
    then have k: "startsWith (drop k s) part" "\<forall>j < k. \<not> startsWith (drop j s) part"
      by (simp_all add: index_in_Some_iff)
    then obtain w where w: "drop k s = part @ w" by (auto simp: startsWith_iff)
    then have tl: "drop (k + length part) s = w"
      by (metis add.commute append_eq_conv_conj drop_drop)
    have "parts_in_order (part # q # parts) s \<longleftrightarrow> parts_in_order (q # parts) w"
    proof
      assume "parts_in_order (part # q # parts) s"
      then obtain u v where uv: "s = u @ part @ v" "parts_in_order (q # parts) v" by auto
      have "k \<le> length u"
      proof (rule ccontr)
        assume "\<not> k \<le> length u"
        then have "\<not> startsWith (drop (length u) s) part" using k(2) by simp
        then show False using uv(1) by simp
      qed
      then have "w = drop (k + length part) s" "k + length part \<le> length (u @ part)"
        using tl by simp_all
      then have "w = drop (k + length part) (u @ part) @ v" using uv(1) by simp
      then show "parts_in_order (q # parts) w" using uv(2) parts_in_order_skip by blast
    next
      assume "parts_in_order (q # parts) w"
      moreover have "s = take k s @ part @ w" using w by (metis append_take_drop_id)
      ultimately show "parts_in_order (part # q # parts) s" by auto
    qed
    then show ?thesis using 3 [OF Some] Some tl by simp
  qed
qed auto

lemma wild_parts:
  "wild pat s \<longleftrightarrow>
     (case split_on (CHR ''*'') pat of
        [] \<Rightarrow> False
      | [head] \<Rightarrow> s = head
      | head # parts \<Rightarrow> \<exists>v. s = head @ v \<and> parts_in_order parts v)"
proof (induction pat arbitrary: s)
  case (Cons c pat)
  obtain h ps where sp: "split_on (CHR ''*'') pat = h # ps" by (rule split_by_cases)
  show ?case
  proof (cases "c = CHR ''*''")
    case True
    have "wild (c # pat) s \<longleftrightarrow> (\<exists>k \<le> length s. wild pat (drop k s))"
      using True by (auto simp: list_ex_iff less_Suc_eq_le simp del: upt_Suc)
    also have "\<dots> \<longleftrightarrow> (\<exists>u t. s = u @ t \<and> wild pat t)"
      by (metis append_take_drop_id append_eq_conv_conj length_append le_add1)
    also have "\<dots> \<longleftrightarrow> parts_in_order (h # ps) s"
      using sp by (cases ps) (auto simp: Cons.IH endsWith_iff)
    finally show ?thesis using True sp by simp
  next
    case False
    then show ?thesis using sp by (cases s; cases ps) (auto simp: Cons.IH)
  qed
qed simp

lemma segMatch_iff: "segMatch pat seg \<longleftrightarrow> wild pat seg"
proof -
  obtain h ps where sp: "split_on (CHR ''*'') pat = h # ps" by (rule split_by_cases)
  have whole: "pat = h" if "ps = []" using join_split [of "CHR ''*''" pat] sp that by simp
  show ?thesis
    unfolding wild_parts segMatch_def sp using whole
    by (cases ps) (auto simp: greedy_parts startsWith_iff)
qed

text \<open>The greedy search for the parts of a segment pattern is complete: \<open>segMatch\<close> accepts a
  segment exactly when some choice of texts for the stars turns the pattern into it.\<close>

theorem segMatch_wild: "segMatch pat seg \<longleftrightarrow> wild pat seg"
  by (rule segMatch_iff)

subsection \<open>Directory patterns\<close>

lemma wild_literal: "CHR ''*'' \<notin> set pat \<Longrightarrow> wild pat s \<longleftrightarrow> s = pat"
  by (induction pat arbitrary: s) (auto split: list.splits)

lemma segMatch_literal: "CHR ''*'' \<notin> set pat \<Longrightarrow> segMatch pat s \<longleftrightarrow> s = pat"
  by (simp add: segMatch_iff wild_literal)

lemma star_star_matches: "matchSegs [''**''] segs"
  by (auto simp: list_ex_iff)

lemma matchSegs_dir:
  "\<forall>w \<in> set dirs. CHR ''*'' \<notin> set w \<Longrightarrow> matchSegs (dirs @ [''**'']) segs \<longleftrightarrow> prefix dirs segs"
proof (induction dirs arbitrary: segs)
  case Nil
  show ?case using star_star_matches by simp
next
  case (Cons d ds)
  then have "d \<noteq> ''**''" by auto
  then show ?case using Cons by (cases segs) (auto simp: segMatch_literal)
qed

definition dir_pattern :: "path \<Rightarrow> string" where
  "dir_pattern D = (if endsWith D ''/'' then D @ ''**'' else D @ ''/**'')"

lemma lower_char_star: "lower_char c = CHR ''*'' \<longleftrightarrow> c = CHR ''*''"
proof
  assume l: "lower_char c = CHR ''*''"
  show "c = CHR ''*''"
  proof (rule ccontr)
    assume c: "c \<noteq> CHR ''*''"
    let ?n = "of_char c :: nat"
    have "(char_of (?n + 32) :: char) = CHR ''*''" "65 \<le> ?n \<and> ?n \<le> 222"
      using l c by (auto simp: lower_char_def Let_def split: if_splits)
    then have n: "of_char (char_of (?n + 32) :: char) = (of_char (CHR ''*'') :: nat)" "65 \<le> ?n" "?n \<le> 222"
      by simp_all
    have "of_char (char_of (?n + 32) :: char) = (?n + 32) mod 256"
      by (simp add: take_bit_eq_mod)
    then show False using n by simp
  qed
qed (simp add: lower_char_def)

lemma fold_case_star: "CHR ''*'' \<in> set (fold_case env w) \<longleftrightarrow> CHR ''*'' \<in> set w"
  by (auto simp: fold_case_def toLowerCase_def lower_char_star image_iff eq_commute [of "CHR ''*''"])

lemma fold_case_stars [simp]: "fold_case env ''**'' = ''**''"
  by (simp add: fold_case_def toLowerCase_def lower_char_def)

lemma path_segments_dir_pattern: "path_segments (dir_pattern D) = path_segments D @ [''**'']"
proof (cases "endsWith D ''/''")
  case True
  then obtain E where E: "D = E @ ''/''" by (auto simp: endsWith_iff)
  show ?thesis
    using True path_segments_trailing [of E "''**''"] path_segments_trailing [of E "[]"]
    by (simp add: dir_pattern_def E path_segments_def segments_single)
next
  case False
  then show ?thesis
    using path_segments_trailing [of D "''**''"]
    by (simp add: dir_pattern_def path_segments_def segments_single)
qed

lemma expand_absolute: "isAbsolute pat \<Longrightarrow> expand env pat root = pat"
  by (auto simp: expand_def isAbsolute_def startsWith_iff)

lemma globMatch_dir:
  assumes "isAbsolute D" "CHR ''*'' \<notin> set D"
  shows "globMatch env (dir_pattern D) p root \<longleftrightarrow>
    prefix (map (fold_case env) (path_segments D)) (map (fold_case env) (path_segments p))"
proof -
  have abs: "isAbsolute (dir_pattern D)"
    using assms(1) by (auto simp: isAbsolute_def dir_pattern_def startsWith_iff)
  have "\<forall>w \<in> set (path_segments D). CHR ''*'' \<notin> set w"
  proof -
    have "set w \<subseteq> set D" if "w \<in> set (path_segments D)" for w
      using that join_split [of slash D] by (auto simp: path_segments_def segments_by_def intro: split_by_subset)
    then show ?thesis using assms(2) by blast
  qed
  then have "\<forall>w \<in> set (map (fold_case env) (path_segments D)). CHR ''*'' \<notin> set w"
    by (auto simp: fold_case_star)
  note m = matchSegs_dir [OF this]
  have id: "map (fold_case env) ws = ws" if "\<not> is_darwin env" for ws
    using that by (induction ws) (simp_all add: fold_case_def)
  show ?thesis
  proof (cases "is_darwin env")
    case True
    then show ?thesis
      using m by (simp add: globMatch_def matchGlob_def expand_absolute [OF abs] path_segments_dir_pattern)
  next
    case False
    then show ?thesis
      using m by (simp add: globMatch_def matchGlob_def expand_absolute [OF abs] path_segments_dir_pattern id)
  qed
qed

text \<open>For a normal directory \<open>D\<close> without stars, the pattern \<open>D/**\<close> matches a normal path exactly
  when the path is \<open>D\<close> or lies below it by the containment test of the decision code (on the
  case-folding platform it matches at least those).\<close>

theorem glob_dir_is_containment:
  assumes "normal_path D" "CHR ''*'' \<notin> set D" "normal_path p"
  shows "(within_root p D \<longrightarrow> globMatch env (dir_pattern D) p root) \<and>
    (\<not> is_darwin env \<longrightarrow> (globMatch env (dir_pattern D) p root \<longleftrightarrow> within_root p D))"
proof -
  have "fold_case env = id" if "\<not> is_darwin env" using that by (auto simp: fold_case_def)
  then show ?thesis
    unfolding within_root_iff [OF assms(3,1)] globMatch_dir [OF normal_absolute [OF assms(1)] assms(2)]
    by (auto simp: map_mono_prefix)
qed

definition linux_host :: host_env where
  "linux_host = \<lparr>home_dir = ''/home/u'', proc_cwd = ''/'', is_darwin = False\<rparr>"

lemma glob_dir_is_containment_witness:
  "globMatch linux_host (dir_pattern ''/w/p'') ''/w/p/x'' ''/w'' \<and>
   \<not> globMatch linux_host (dir_pattern ''/w/p'') ''/w/pq'' ''/w''"
proof -
  have n: "normal_path ''/w/p''" "normal_path ''/w/p/x''" "normal_path ''/w/pq''" by code_simp+
  show ?thesis
    using glob_dir_is_containment [OF n(1) _ n(2), of linux_host "''/w''"]
      glob_dir_is_containment [OF n(1) _ n(3), of linux_host "''/w''"]
    by (simp add: linux_host_def within_root_def endsWith_def sep_def)
qed

end
