(* ===== verification/BashCommands.thy ===== *)
theory BashCommands
  imports PermGlob
begin

text \<open>
  The simple commands a shell line is split into (\<open>ParsedCommand\<close> of \<open>bash/ast.ts\<close>) and what
  the permission code reads off one of them: the rules that match its words
  (\<open>rules/bash-prefix.ts\<close>), the commands that are always refused (\<open>bash/hard-deny.ts\<close>), the
  interpreters and fetchers (\<open>bash/injection.ts\<close>) and the rule it suggests to remember it
  (\<open>suggest.ts\<close>).
\<close>

datatype injection_kind = CommandSubstitution | NetPipeShell | FindExec | XargsShell | EvalInjection | Base64Shell

datatype redirect_face = InputFace | OutputFace

record redirect =
  rd_face :: redirect_face
  rd_op :: string
  rd_target :: "string option"

record parsed_command =
  pc_argv :: "string list"
  pc_dynamic :: bool
  pc_injection :: "injection_kind option"
  pc_redirects :: "redirect list"
  pc_raw :: string
  pc_ask :: "string option"
  pc_opaque :: "string option"
  pc_assignmentPrefix :: bool
  pc_stdinFed :: bool

datatype bash_parse = Parsed "parsed_command list" | NotParsed | ParserUnavailable

fun injection_text :: "injection_kind \<Rightarrow> string" where
  "injection_text CommandSubstitution = ''command-substitution''"
| "injection_text NetPipeShell = ''net-pipe-shell''"
| "injection_text FindExec = ''find-exec''"
| "injection_text XargsShell = ''xargs-shell''"
| "injection_text EvalInjection = ''eval''"
| "injection_text Base64Shell = ''base64-shell''"

definition bare_command :: "string list \<Rightarrow> string \<Rightarrow> parsed_command" where
  "bare_command argv raw =
     \<lparr>pc_argv = argv, pc_dynamic = False, pc_injection = None, pc_redirects = [], pc_raw = raw,
      pc_ask = None, pc_opaque = None, pc_assignmentPrefix = False, pc_stdinFed = False\<rparr>"

subsection \<open>Rules on words\<close>

definition prefix_body :: "string \<Rightarrow> string \<times> bool" where
  \<comment> \<open>the body of the pattern, and whether it is a prefix pattern\<close>
  "prefix_body pattern =
     (if endsWith pattern '':*'' then
        let stripped = take (length pattern - 2) pattern; words = space_tokens stripped
        in if words = [] \<or> CHR '':'' \<notin> set (last words) then (stripped, True) else (pattern, False)
      else (pattern, False))"

definition bashPrefixMatch :: "string \<Rightarrow> string list \<Rightarrow> rule_nature option \<Rightarrow> bool" where
  "bashPrefixMatch pattern words nature =
     (if pattern = ''*'' then nature \<noteq> Some Grant
      else case prefix_body pattern of (body, pre) \<Rightarrow>
        let tokens = space_tokens body
        in if tokens = [] then False
           else if pre then
             length tokens \<le> length words \<and> take (length tokens) words = tokens
           else length words = length tokens \<and> words = tokens)"

definition bashRuleMatches :: "permission_rule list \<Rightarrow> string list \<Rightarrow> permission_rule list" where
  "bashRuleMatches rules words =
     filter (\<lambda>rule. r_tool rule = Danger \<and> bashPrefixMatch (r_pattern rule) words (r_nature rule)) rules"

definition shell_word :: "string \<Rightarrow> bool" where
  "shell_word w \<longleftrightarrow> w \<noteq> [] \<and> (\<forall>c \<in> set w. \<not> is_space c)"

definition spaced :: "string list \<Rightarrow> string" where
  "spaced ws = join_with '' '' ws"

lemma is_space_blank [simp]: "is_space (CHR '' '')"
  by (simp add: is_space_def)

lemma space_tokens_spaced [simp]: "\<forall>w \<in> set ws. shell_word w \<Longrightarrow> space_tokens (spaced ws) = ws"
  unfolding space_tokens_def spaced_def
  by (rule segments_join) (auto simp: shell_word_def)

lemma prefix_take: "length p \<le> length s \<and> take (length p) s = p \<longleftrightarrow> prefix p s"
  by (metis append_eq_conv_conj length_append le_add1 prefix_def)

lemma prefix_body_general:
  assumes "ws \<noteq> []" "\<forall>w \<in> set ws. shell_word w"
  shows "prefix_body (spaced ws @ '':*'') =
    (if CHR '':'' \<in> set (last ws) then (spaced ws @ '':*'', False) else (spaced ws, True))"
  using assms by (simp add: prefix_body_def Let_def endsWith_iff)

lemma spaced_ne: "ws \<noteq> [] \<Longrightarrow> \<forall>w \<in> set ws. shell_word w \<Longrightarrow> spaced ws \<noteq> []"
  by (cases ws rule: remdups_adj.cases) (auto simp: spaced_def shell_word_def)

lemma bashPrefixMatch_general:
  assumes "ws \<noteq> []" "\<forall>w \<in> set ws. shell_word w" "CHR '':'' \<notin> set (last ws)"
  shows "bashPrefixMatch (spaced ws @ '':*'') words nature \<longleftrightarrow> prefix ws words"
proof -
  have "spaced ws @ '':*'' \<noteq> ''*''" using spaced_ne [OF assms(1,2)] by (cases "spaced ws") auto
  then show ?thesis
    using assms prefix_take [of ws words]
    by (simp add: bashPrefixMatch_def prefix_body_general)
qed

lemma space_tokens_snoc:
  assumes "ws \<noteq> []" "\<forall>w \<in> set ws. shell_word w" "\<forall>c \<in> set t. \<not> is_space c"
  shows "space_tokens (spaced ws @ t) = butlast ws @ [last ws @ t]"
proof -
  have "spaced ws @ t = spaced (butlast ws @ [last ws @ t])"
    using assms(1) unfolding spaced_def
    by (induction ws rule: induct_list012) auto
  moreover have "\<forall>w \<in> set (butlast ws @ [last ws @ t]). shell_word w"
    using assms by (auto simp: shell_word_def dest: in_set_butlastD)
  ultimately show ?thesis by (metis space_tokens_spaced)
qed

text \<open>A \<open>:*\<close> after a word that holds a colon is not a prefix mark: it belongs to the last word.\<close>

lemma bashPrefixMatch_colon:
  assumes "ws \<noteq> []" "\<forall>w \<in> set ws. shell_word w" "CHR '':'' \<in> set (last ws)"
  shows "bashPrefixMatch (spaced ws @ '':*'') words nature \<longleftrightarrow> words = butlast ws @ [last ws @ '':*'']"
proof -
  have "spaced ws @ '':*'' \<noteq> ''*''" using spaced_ne [OF assms(1,2)] by (cases "spaced ws") auto
  moreover have "\<forall>c \<in> set '':*''. \<not> is_space c" by (simp add: is_space_def)
  ultimately show ?thesis
    using assms space_tokens_snoc [OF assms(1,2), of "'':*''"]
    by (auto simp: bashPrefixMatch_def prefix_body_general)
qed

text \<open>A rule pattern \<open>w1 ... wn:*\<close> whose last word holds no colon matches exactly the commands
  whose words begin with \<open>w1 ... wn\<close>, word by word (\<open>git:*\<close> does not match \<open>gitk\<close>).\<close>

theorem prefix_rule_matches:
  assumes "ws \<noteq> []" "list_all shell_word ws" "CHR '':'' \<notin> set (last ws)"
  shows "bashPrefixMatch (spaced ws @ '':*'') words nature \<longleftrightarrow> prefix ws words"
  using assms by (simp add: bashPrefixMatch_general list_all_iff)

lemma prefix_rule_matches_witness:
  "\<not> bashPrefixMatch (spaced [''git'', ''push''] @ '':*'') [''git'', ''pull''] None"
  using prefix_rule_matches [of "[''git'', ''push'']" "[''git'', ''pull'']" None]
  by (simp add: shell_word_def is_space_def)

end
