(* ===== verification/BashVerbs.thy ===== *)
theory BashVerbs
  imports BashCommands
begin

text \<open>
  What the words of one command say: the commands that are never allowed silently
  (\<open>bash/hard-deny.ts\<close>), the interpreters and network fetchers (\<open>bash/injection.ts\<close>), and the
  rule suggested to remember a command (\<open>suggest.ts\<close>).
\<close>

subsection \<open>hard-deny.ts\<close>

datatype hard_deny_kind = RmRfRoot | Sudo | ForcePush | Chmod777

fun hard_deny_text :: "hard_deny_kind \<Rightarrow> string" where
  "hard_deny_text RmRfRoot = ''rm-rf-root''"
| "hard_deny_text Sudo = ''sudo''"
| "hard_deny_text ForcePush = ''force-push''"
| "hard_deny_text Chmod777 = ''chmod-777''"

definition SUDO_LIKE :: "string list" where
  "SUDO_LIKE = [''sudo'', ''doas'', ''su'', ''pkexec'', ''sudoedit'', ''gsudo'']"

definition word_or_dash :: "char \<Rightarrow> bool" where
  "word_or_dash c = (is_word c \<or> c = CHR ''-'')"

definition ELEVATION_TEXT :: rx where
  "ELEVATION_TEXT =
     RAlt (RSeq [RWordBoundary,
                 RAny (map RLitI [''sudo'', ''doas'', ''pkexec'', ''sudoedit'', ''gsudo'']),
                 RWordBoundary])
          (RSeq [RNotBehind word_or_dash, RLitI ''su'', RNotAhead word_or_dash])"

definition hd_basenameOf :: "host_env \<Rightarrow> string \<Rightarrow> string" where
  \<comment> \<open>\<open>basenameOf\<close> of \<open>hard-deny.ts\<close>\<close>
  "hd_basenameOf env word =
     (if CHR ''/'' \<notin> set word then fold_case env word
      else fold_case env (case segments (CHR ''/'') word of [] \<Rightarrow> ''/'' | segs \<Rightarrow> last segs))"

definition isSudoLike :: "host_env \<Rightarrow> string \<Rightarrow> bool" where
  "isSudoLike env word = (fold_case env word \<in> set SUDO_LIKE)"

fun dash_letters :: "string \<Rightarrow> bool" where
  \<comment> \<open>\<open>/^-[a-zA-Z]+$/\<close>\<close>
  "dash_letters (d # c # cs) = (d = CHR ''-'' \<and> list_all is_alpha (c # cs))"
| "dash_letters _ = False"

definition flag_chars :: "string \<Rightarrow> char list" where
  "flag_chars word =
     (if word = ''--recursive'' then ''r''
      else if word = ''--force'' then ''f''
      else if dash_letters word then filter (\<lambda>c. c = CHR ''r'' \<or> c = CHR ''f'') (tl word)
      else [])"

definition flagsOf :: "string list \<Rightarrow> char list" where
  "flagsOf argv = concat (map flag_chars (tl argv))"

definition hd_targetOf :: "string list \<Rightarrow> string option" where
  \<comment> \<open>\<open>targetOf\<close> of \<open>hard-deny.ts\<close>\<close>
  "hd_targetOf argv = List.find (\<lambda>word. \<not> startsWith word ''-'') (tl argv)"

definition rmRfRoot :: "string list \<Rightarrow> bool" where
  "rmRfRoot argv =
     (if CHR ''r'' \<notin> set (flagsOf argv) \<or> CHR ''f'' \<notin> set (flagsOf argv) then False
      else case hd_targetOf argv of
             None \<Rightarrow> False
           | Some t \<Rightarrow> t = ''/'' \<or> t = ''/*'' \<or> startsWith t ''/'' \<or> t = ''~'' \<or> startsWith t ''~/'')"

definition RSpace :: rx where
  "RSpace = RSet is_space"

definition blank_delimited :: "rx \<Rightarrow> rx" where
  \<comment> \<open>\<open>(^|\s)r(\s|$)\<close>\<close>
  "blank_delimited r = RSeq [RAlt RBegin RSpace, r, RAlt RSpace REnd]"

definition word_at_index :: "string list \<Rightarrow> nat \<Rightarrow> string option" where
  \<comment> \<open>\<open>argv[i]\<close>, which is \<open>undefined\<close> out of range\<close>
  "word_at_index argv i = (if i < length argv then Some (argv ! i) else None)"

definition forcePush :: "string list \<Rightarrow> bool" where
  "forcePush argv =
     (if word_at_index argv 0 \<noteq> Some ''git'' \<or> word_at_index argv 1 \<noteq> Some ''push'' then False
      else let rest = join_with '' '' (drop 2 argv)
           in rx_test (blank_delimited (RAlt (RLit ''--force'') (RLit ''-f''))) rest \<or>
              rx_test (RSeq [RAlt RBegin RSpace, RChar (CHR ''+''),
                             RAlt (RLit ''master'') (RLit ''main''), RWordBoundary]) rest)"

definition chmod777 :: "string list \<Rightarrow> bool" where
  "chmod777 argv =
     (if word_at_index argv 0 \<noteq> Some ''chmod'' then False
      else let rest = join_with '' '' (tl argv)
           in rx_test (blank_delimited (RAlt (RLit ''-R'') (RLit ''--recursive''))) rest \<and>
              rx_test (blank_delimited (RCat (ROpt (RChar (CHR ''0''))) (RLit ''777''))) rest)"

definition hardDeny :: "host_env \<Rightarrow> string list \<Rightarrow> hard_deny_kind option" where
  "hardDeny env argv =
     (case argv of
        [] \<Rightarrow> None
      | word # _ \<Rightarrow>
          let argv0 = hd_basenameOf env word
          in if argv0 \<in> set SUDO_LIKE then Some Sudo
             else if argv0 = ''rm'' \<and> rmRfRoot argv then Some RmRfRoot
             else if argv0 = ''git'' \<and> forcePush argv then Some ForcePush
             else if argv0 = ''chmod'' \<and> chmod777 argv then Some Chmod777
             else None)"

subsection \<open>injection.ts\<close>

definition INTERPRETER_FAMILY :: "string list" where
  "INTERPRETER_FAMILY =
     [''sh'', ''bash'', ''zsh'', ''dash'', ''ksh'', ''ash'', ''node'', ''bun'', ''deno'', ''python'',
      ''python3'', ''ruby'', ''perl'', ''php'']"

definition python_digit :: "string \<Rightarrow> bool" where
  \<comment> \<open>\<open>/^python\d/\<close>\<close>
  "python_digit base =
     (startsWith base ''python'' \<and> (case drop 6 base of [] \<Rightarrow> False | c # _ \<Rightarrow> is_digit c))"

definition isInterpreterName :: "string \<Rightarrow> bool" where
  "isInterpreterName base = (base \<in> set INTERPRETER_FAMILY \<or> python_digit base)"

definition PIPE_FETCHERS :: "string \<Rightarrow> injection_kind option" where
  "PIPE_FETCHERS =
     map_of [(''curl'', NetPipeShell), (''wget'', NetPipeShell), (''fetch'', NetPipeShell),
             (''base64'', Base64Shell)]"

subsection \<open>suggest.ts\<close>

definition NO_GENERALIZE :: "string list" where
  "NO_GENERALIZE =
     INTERPRETER_FAMILY @ SUDO_LIKE @
     [''env'', ''nohup'', ''time'', ''exec'', ''awk'', ''sed'', ''xargs'', ''eval'', ''osascript'',
      ''source'', ''.'']"

definition first_token :: "string \<Rightarrow> string" where
  \<comment> \<open>\<open>raw.trim().split(/\s+/)[0] ?? ""\<close>\<close>
  "first_token raw = (case space_tokens (trim raw) of [] \<Rightarrow> [] | t # _ \<Rightarrow> t)"

definition rawHeadBanned :: "parsed_command \<Rightarrow> bool" where
  "rawHeadBanned cmd =
     (let head = basenameOf (first_token (pc_raw cmd))
      in head \<noteq> [] \<and> head \<in> set NO_GENERALIZE)"

definition suggestRule :: "parsed_command list \<Rightarrow> string option" where
  "suggestRule commands =
     (case commands of
        [cmd] \<Rightarrow>
          (case pc_argv cmd of
             [] \<Rightarrow> None
           | word # rest \<Rightarrow>
               if pc_dynamic cmd \<or> pc_injection cmd \<noteq> None \<or> pc_ask cmd \<noteq> None \<or> pc_opaque cmd \<noteq> None
               then None
               else if rawHeadBanned cmd then None
               else
                 let base = basenameOf word
                 in if base \<in> set NO_GENERALIZE then None
                    else if word \<noteq> base then None
                    else (case rest of
                            sub # _ \<Rightarrow>
                              if \<not> startsWith sub ''-'' \<and> CHR ''/'' \<notin> set sub
                              then Some (''Danger('' @ base @ '' '' @ sub @ '':*):allow'')
                              else Some (''Danger('' @ base @ '':*):allow'')
                          | [] \<Rightarrow> Some (''Danger('' @ base @ '':*):allow'')))
      | _ \<Rightarrow> None)"

definition exactRule :: "string \<Rightarrow> string option" where
  "exactRule command =
     (if rx_test (RSeq [RSpace, ROpt (RChar (CHR '':'')), RChar (CHR ''*'')]) command
         \<or> str_includes command '':*''
      then None else Some (''Danger('' @ command @ ''):allow''))"

subsection \<open>Properties\<close>

lemma segments_snoc_slash: "w \<noteq> [] \<Longrightarrow> slash \<notin> set w \<Longrightarrow> segments slash (d @ ''/'' @ w) = segments slash d @ [w]"
proof -
  assume w: "w \<noteq> []" "slash \<notin> set w"
  have "segments slash w = [w]" by (rule segments_single) (use w in auto)
  then show ?thesis by (simp add: segments_append_sep)
qed

lemma basename_below: "w \<noteq> [] \<Longrightarrow> slash \<notin> set w \<Longrightarrow> hd_basenameOf env (d @ ''/'' @ w) = fold_case env w"
proof -
  assume w: "w \<noteq> []" "slash \<notin> set w"
  have "segments slash (d @ ''/'' @ w) = segments slash d @ [w]" by (rule segments_snoc_slash [OF w])
  then show ?thesis
    by (cases "segments slash d") (simp_all add: hd_basenameOf_def)
qed

lemma sudo_like_names:
  "w \<in> set SUDO_LIKE \<Longrightarrow> w \<noteq> [] \<and> slash \<notin> set w \<and> fold_case env w = w"
  by (auto simp: SUDO_LIKE_def fold_case_def toLowerCase_def lower_char_def)

text \<open>An elevation command is refused under any path: \<open>/usr/bin/sudo x\<close>, \<open>./doas x\<close> and so on
  are hard denials of kind \<open>sudo\<close>, whatever the arguments and the platform.\<close>

theorem elevation_by_any_path:
  assumes "w \<in> set SUDO_LIKE"
  shows "hardDeny env ((d @ ''/'' @ w) # args) = Some Sudo \<and> hardDeny env (w # args) = Some Sudo"
proof -
  note n = sudo_like_names [OF assms, of env]
  have "hd_basenameOf env w = w" using n by (simp add: hd_basenameOf_def)
  moreover have "hd_basenameOf env (d @ ''/'' @ w) = w" using n basename_below by simp
  ultimately show ?thesis using assms by (simp add: hardDeny_def)
qed

lemma elevation_by_any_path_witness: "hardDeny linux_host [''/usr/bin'' @ ''/'' @ ''su'', ''-''] = Some Sudo"
  using elevation_by_any_path [of "''su''" linux_host "''/usr/bin''" "[''-'']"]
  by (simp add: SUDO_LIKE_def)

text \<open>Four dangerous forms slip through the hard denial: a recursive removal of the root with the
  flag \<open>-R\<close> (only the lower-case letter is read), one whose first operand is harmless, and a
  forced push or \<open>chmod -R 777\<close> whose command is written with its path (the two tests compare
  the raw word while the dispatch compares the base name).\<close>

theorem hard_deny_gaps:
  "hardDeny linux_host [''rm'', ''-Rf'', ''/''] = None \<and>
   hardDeny linux_host [''rm'', ''-rf'', ''build'', ''/''] = None \<and>
   hardDeny linux_host [''/usr/bin/git'', ''push'', ''--force''] = None \<and>
   hardDeny linux_host [''/bin/chmod'', ''-R'', ''777'', ''/''] = None \<and>
   hardDeny linux_host [''rm'', ''-rf'', ''/''] = Some RmRfRoot \<and>
   hardDeny linux_host [''git'', ''push'', ''--force''] = Some ForcePush \<and>
   hardDeny linux_host [''chmod'', ''-R'', ''777'', ''/''] = Some Chmod777"
  by (intro conjI; code_simp)

definition suggestable_words :: "string list \<Rightarrow> bool" where
  "suggestable_words argv \<longleftrightarrow>
     list_all (\<lambda>w. shell_word w \<and> CHR '':'' \<notin> set w) (take 2 argv)"

lemma suggestRule_pattern:
  assumes "suggestRule [cmd] = Some r"
  shows "\<exists>ws. ws \<noteq> [] \<and> (ws = take 1 (pc_argv cmd) \<or> ws = take 2 (pc_argv cmd)) \<and>
    r = rule_text Danger (spaced ws @ '':*'') Allow \<and> hd (pc_argv cmd) \<notin> set NO_GENERALIZE"
proof -
  obtain word rest where a: "pc_argv cmd = word # rest"
    using assms by (auto simp: suggestRule_def split: list.splits)
  then have b: "basenameOf word \<notin> set NO_GENERALIZE" "basenameOf word = word"
    using assms by (auto simp: suggestRule_def Let_def split: if_splits)
  have "r = rule_text Danger (spaced [word] @ '':*'') Allow \<or>
      (\<exists>sub more. rest = sub # more \<and> r = rule_text Danger (spaced [word, sub] @ '':*'') Allow)"
    using assms a b
    by (auto simp: suggestRule_def Let_def rule_text_def spaced_def split: if_splits list.splits)
  then show ?thesis
  proof
    assume "r = rule_text Danger (spaced [word] @ '':*'') Allow"
    then show ?thesis using a b by (intro exI [of _ "[word]"]) simp
  next
    assume "\<exists>sub more. rest = sub # more \<and> r = rule_text Danger (spaced [word, sub] @ '':*'') Allow"
    then obtain sub more where "rest = sub # more" "r = rule_text Danger (spaced [word, sub] @ '':*'') Allow"
      by blast
    then show ?thesis using a b by (intro exI [of _ "[word, sub]"]) simp
  qed
qed

text \<open>When the first two words of a command are plain (no blank, no colon), the rule suggested to
  remember it is an allow rule for bash whose pattern matches the command it was suggested for,
  and it never generalises an interpreter, an elevation command or another code carrier.\<close>

theorem suggested_rule_matches:
  assumes "suggestRule [cmd] = Some r" and "suggestable_words (pc_argv cmd)"
  shows "\<exists>pattern. parseRule r OriginSession = Inr (parsed_rule Danger pattern Allow OriginSession) \<and>
    bashPrefixMatch pattern (pc_argv cmd) (Some Grant) \<and> hd (pc_argv cmd) \<notin> set NO_GENERALIZE"
proof -
  obtain ws where ws: "ws \<noteq> []" "ws = take 1 (pc_argv cmd) \<or> ws = take 2 (pc_argv cmd)"
    "r = rule_text Danger (spaced ws @ '':*'') Allow" "hd (pc_argv cmd) \<notin> set NO_GENERALIZE"
    using suggestRule_pattern [OF assms(1)] by blast
  have sub: "set ws \<subseteq> set (take 2 (pc_argv cmd))"
    using ws(2) set_take_subset_set_take [of 1 2 "pc_argv cmd"] by auto
  have plain: "shell_word w \<and> CHR '':'' \<notin> set w" if "w \<in> set ws" for w
    using assms(2) sub that by (auto simp: suggestable_words_def list_all_iff)
  have "bashPrefixMatch (spaced ws @ '':*'') (pc_argv cmd) (Some Grant) \<longleftrightarrow> prefix ws (pc_argv cmd)"
    using plain ws(1) by (intro bashPrefixMatch_general) auto
  moreover have "prefix ws (pc_argv cmd)" using ws(2) by (auto intro: take_is_prefix)
  moreover have "spaced ws @ '':*'' \<noteq> []" by simp
  ultimately show ?thesis using ws(3,4) parseRule_rule_text by metis
qed

lemma suggested_rule_matches_witness:
  "\<exists>pattern. bashPrefixMatch pattern [''npm'', ''run'', ''build''] (Some Grant)"
proof -
  let ?c = "bare_command [''npm'', ''run'', ''build''] ''npm run build''"
  have "suggestRule [?c] = Some ''Danger(npm run:*):allow''" by code_simp
  moreover have "suggestable_words (pc_argv ?c)" by code_simp
  ultimately show ?thesis using suggested_rule_matches by (metis bare_command_def parsed_command.select_convs(1))
qed

text \<open>The rule suggested for \<open>make build:all\<close> can never be of use: its last word holds a colon,
  so the mark \<open>:*\<close> is read as part of that word and the rule does not match the command.\<close>

theorem suggested_rule_with_colon:
  "suggestRule [bare_command [''make'', ''build:all''] ''make build:all''] = Some ''Danger(make build:all:*):allow'' \<and>
   (\<forall>words nature. bashPrefixMatch ''make build:all:*'' words nature \<longleftrightarrow> words = [''make'', ''build:all:*''])"
proof
  show "suggestRule [bare_command [''make'', ''build:all''] ''make build:all''] = Some ''Danger(make build:all:*):allow''"
    by code_simp
  show "\<forall>words nature. bashPrefixMatch ''make build:all:*'' words nature \<longleftrightarrow> words = [''make'', ''build:all:*'']"
    using bashPrefixMatch_colon [of "[''make'', ''build:all'']"]
    by (simp add: spaced_def shell_word_def is_space_def)
qed

end
