(* ===== verification/BashAst.thy ===== *)
theory BashAst
  imports BashVerbs
begin

text \<open>
  From a syntax tree to simple commands (\<open>bash/ast.ts\<close>). The tree itself comes from the
  \<open>tree-sitter\<close> package and is an argument of the model; a \<open>node\<close> has what the code reads of it,
  and \<open>namedChildren\<close> are the named ones of its children, as that package documents. The code
  walks the tree and pushes commands onto an output list while it goes, and it throws on a node
  type it does not know; here every walker returns the commands it pushes, in order, or \<open>None\<close>
  for the exception, which ends the whole parse.
\<close>

datatype node =
  Node (n_type: string) (n_isNamed: bool) (n_text: string) (n_hasError: bool) (n_children: "node list")

definition namedChildren :: "node \<Rightarrow> node list" where
  "namedChildren n = filter n_isNamed (n_children n)"

subsection \<open>Node classes\<close>

datatype node_class = ContainerNode | LeafNode | WordNode | HostNode | InertNode

definition CONTAINERS :: "string list" where
  "CONTAINERS =
     [''program'', ''list'', ''subshell'', ''compound_statement'', ''if_statement'', ''elif_clause'',
      ''else_clause'', ''while_statement'', ''for_statement'', ''c_style_for_statement'',
      ''case_statement'', ''case_item'', ''do_group'', ''function_definition'', ''pipeline'',
      ''negated_command'', ''redirected_statement'', ''variable_assignment'',
      ''variable_assignments'', ''declaration_command'', ''array'', ''heredoc_body'',
      ''test_command'', ''binary_expression'', ''unary_expression'', ''ternary_expression'',
      ''postfix_expression'', ''parenthesized_expression'', ''brace_expression'', ''subscript'']"

definition LEAVES :: "string list" where
  "LEAVES = [''command'', ''unset_command'']"

definition WORDS :: "string list" where
  "WORDS =
     [''command_name'', ''word'', ''string'', ''string_content'', ''raw_string'',
      ''translated_string'', ''ansi_c_string'', ''concatenation'', ''number'', ''simple_expansion'',
      ''expansion'', ''special_variable_name'', ''variable_name'', ''arithmetic_expansion'',
      ''command_substitution'', ''process_substitution'', ''regex'', ''extglob_pattern'',
      ''file_descriptor'', ''test_operator'']"

definition HOSTS :: "string list" where
  "HOSTS = [''file_redirect'', ''heredoc_redirect'', ''herestring_redirect'']"

definition INERT :: "string list" where
  "INERT = [''comment'', ''heredoc_start'', ''heredoc_content'', ''heredoc_end'']"

definition EXPANSION_WORDS :: "string list" where
  "EXPANSION_WORDS =
     [''simple_expansion'', ''expansion'', ''special_variable_name'', ''arithmetic_expansion'',
      ''extglob_pattern'', ''ansi_c_string'']"

definition classifyKind :: "string \<Rightarrow> node_class option" where
  "classifyKind kind =
     (if kind \<in> set CONTAINERS then Some ContainerNode
      else if kind \<in> set LEAVES then Some LeafNode
      else if kind \<in> set WORDS then Some WordNode
      else if kind \<in> set HOSTS then Some HostNode
      else if kind \<in> set INERT then Some InertNode
      else None)"

subsection \<open>What the walkers carry\<close>

record walk_ctx =
  cx_redirects :: "redirect list"
  cx_forceDynamic :: bool
  cx_forceInjection :: "injection_kind option"

definition EMPTY_CTX :: walk_ctx where
  "EMPTY_CTX = \<lparr>cx_redirects = [], cx_forceDynamic = False, cx_forceInjection = None\<rparr>"

record flags =
  fl_dynamic :: bool
  fl_injection :: "injection_kind option"

record literal =
  lt_text :: string
  lt_dynamic :: bool
  lt_injection :: "injection_kind option"

record command_state =
  cs_argv :: "string list"
  cs_flags :: flags
  cs_redirects :: "redirect list"
  cs_assignment :: bool

type_synonym emitted = "parsed_command list"

definition is_substitution :: "string \<Rightarrow> bool" where
  "is_substitution ty = (ty = ''command_substitution'' \<or> ty = ''process_substitution'')"

definition glob_text :: "string \<Rightarrow> bool" where
  \<comment> \<open>\<open>/[*?[]/\<close>\<close>
  "glob_text t = list_ex (\<lambda>c. c = CHR ''*'' \<or> c = CHR ''?'' \<or> c = CHR ''['') t"

definition has_cmdsub_text :: "string \<Rightarrow> bool" where
  "has_cmdsub_text t = (str_includes t ''$('' \<or> CHR 0x60 \<in> set t)"

fun unescapeWord :: "string \<Rightarrow> string" where
  \<comment> \<open>\<open>text.replace(/\\(.)/g, "$1")\<close>; the dot does not match a line end\<close>
  "unescapeWord (b # c # cs) =
     (if b = CHR 92 \<and> c \<noteq> CHR 10 \<and> c \<noteq> CHR 13 then c # unescapeWord cs
      else b # unescapeWord (c # cs))"
| "unescapeWord cs = cs"

definition add_literal :: "literal \<Rightarrow> flags \<Rightarrow> flags" where
  "add_literal lit fl =
     \<lparr>fl_dynamic = (fl_dynamic fl \<or> lt_dynamic lit),
      fl_injection = or_else (fl_injection fl) (lt_injection lit)\<rparr>"

definition note_cmdsub :: "bool \<Rightarrow> flags \<Rightarrow> flags" where
  \<comment> \<open>\<open>if (b) flags.injection ??= "command-substitution"\<close>\<close>
  "note_cmdsub b fl =
     (if b then fl\<lparr>fl_injection := or_else (fl_injection fl) (Some CommandSubstitution)\<rparr> else fl)"

definition join_literal :: "literal \<Rightarrow> literal \<Rightarrow> literal" where
  "join_literal acc lit =
     \<lparr>lt_text = lt_text acc @ lt_text lit, lt_dynamic = (lt_dynamic acc \<or> lt_dynamic lit),
      lt_injection = or_else (lt_injection acc) (lt_injection lit)\<rparr>"

definition plain_literal :: "string \<Rightarrow> bool \<Rightarrow> literal" where
  "plain_literal t d = \<lparr>lt_text = t, lt_dynamic = d, lt_injection = None\<rparr>"

definition flagged :: "string \<Rightarrow> flags \<Rightarrow> redirect list \<Rightarrow> parsed_command" where
  \<comment> \<open>an entry without words that only carries flags and redirects\<close>
  "flagged raw fl redirects =
     (bare_command [] raw)
       \<lparr>pc_dynamic := fl_dynamic fl, pc_injection := fl_injection fl, pc_redirects := redirects\<rparr>"

definition word_literal :: "string \<Rightarrow> string \<Rightarrow> literal" where
  \<comment> \<open>the cases of \<open>literalOf\<close> that read the text of the node only\<close>
  "word_literal ty t =
     (if ty = ''word'' then plain_literal (unescapeWord t) (glob_text t)
      else if ty = ''raw_string'' then plain_literal (butlast (tl t)) False
      else plain_literal t (ty \<in> set EXPANSION_WORDS))"

subsection \<open>Pieces of the walkers that do not recurse\<close>

definition bodyOf :: "node \<Rightarrow> node option" where
  \<comment> \<open>in \<open>redirectedOf\<close>: the first named child that is not a redirect\<close>
  "bodyOf n = List.find (\<lambda>c. n_isNamed c \<and> classifyKind (n_type c) \<noteq> Some HostNode) (n_children n)"

definition start_flags :: "walk_ctx \<Rightarrow> flags" where
  "start_flags ctx = \<lparr>fl_dynamic = cx_forceDynamic ctx, fl_injection = cx_forceInjection ctx\<rparr>"

definition start_command :: "walk_ctx \<Rightarrow> command_state" where
  "start_command ctx =
     \<lparr>cs_argv = [], cs_flags = start_flags ctx, cs_redirects = cx_redirects ctx, cs_assignment = False\<rparr>"

definition finish_command :: "string \<Rightarrow> command_state \<Rightarrow> parsed_command" where
  \<comment> \<open>the result of \<open>commandOf\<close>\<close>
  "finish_command raw st =
     \<lparr>pc_argv = cs_argv st, pc_dynamic = fl_dynamic (cs_flags st), pc_injection = fl_injection (cs_flags st),
      pc_redirects = cs_redirects st, pc_raw = raw, pc_ask = None, pc_opaque = None,
      pc_assignmentPrefix = cs_assignment st, pc_stdinFed = False\<rparr>"

definition push_word :: "literal \<Rightarrow> command_state \<Rightarrow> command_state" where
  "push_word lit st =
     st\<lparr>cs_argv := cs_argv st @ (if lt_text lit \<noteq> [] then [lt_text lit] else []),
        cs_flags := add_literal lit (cs_flags st)\<rparr>"

definition finish_assignment :: "string \<Rightarrow> flags \<Rightarrow> emitted" where
  \<comment> \<open>the end of \<open>assignmentOf\<close>\<close>
  "finish_assignment raw fl =
     (if \<not> fl_dynamic fl \<and> fl_injection fl = None then [] else [flagged raw fl []])"

definition declaration_arg :: "bool \<Rightarrow> node \<Rightarrow> literal \<Rightarrow> flags \<Rightarrow> flags" where
  \<comment> \<open>\<open>foldDeclarationArg\<close> after \<open>literalOf\<close>\<close>
  "declaration_arg declaration child lit fl =
     note_cmdsub (declaration \<and> (n_type child = ''raw_string'' \<or> n_type child = ''string'') \<and>
                  has_cmdsub_text (n_text child))
       (add_literal lit fl)"

definition op_token :: "node \<Rightarrow> string" where
  "op_token n = (case List.find (\<lambda>c. \<not> n_isNamed c) (n_children n) of Some c \<Rightarrow> n_type c | None \<Rightarrow> [])"

definition redirect_op :: "node \<Rightarrow> string" where
  \<comment> \<open>\<open>op\<close> of \<open>fileRedirectOf\<close>\<close>
  "redirect_op n =
     (case List.find (\<lambda>c. n_isNamed c \<and> n_type c = ''file_descriptor'') (n_children n) of
        Some d \<Rightarrow> n_text d @ op_token n | None \<Rightarrow> op_token n)"

definition redirect_dest :: "node \<Rightarrow> node option" where
  "redirect_dest n = List.find (\<lambda>c. n_isNamed c \<and> n_type c \<noteq> ''file_descriptor'') (n_children n)"

definition quoted_heredoc :: "node \<Rightarrow> bool" where
  "quoted_heredoc n =
     (case List.find (\<lambda>c. n_isNamed c \<and> n_type c = ''heredoc_start'') (n_children n) of
        Some st \<Rightarrow> CHR 0x27 \<in> set (n_text st) \<or> CHR 0x22 \<in> set (n_text st)
      | None \<Rightarrow> False)"

definition heredoc_body_of :: "node \<Rightarrow> node option" where
  "heredoc_body_of n = List.find (\<lambda>c. n_isNamed c \<and> n_type c = ''heredoc_body'') (n_children n)"

definition heredoc_flags :: "node \<Rightarrow> flags \<Rightarrow> flags" where
  "heredoc_flags n fl =
     (if quoted_heredoc n then fl
      else note_cmdsub (has_cmdsub_text (n_text n)) (fl\<lparr>fl_dynamic := True\<rparr>))"

definition input_redirect :: "string \<Rightarrow> redirect" where
  "input_redirect op' = \<lparr>rd_face = InputFace, rd_op = op', rd_target = None\<rparr>"

definition file_redirect :: "string \<Rightarrow> string \<Rightarrow> redirect" where
  "file_redirect op' target =
     \<lparr>rd_face = (if CHR ''<'' \<in> set op' then InputFace else OutputFace), rd_op = op', rd_target = Some target\<rparr>"

subsection \<open>Pipelines\<close>

definition head_word :: "parsed_command \<Rightarrow> string" where
  \<comment> \<open>\<open>cmd.argv[0] ?? ""\<close>\<close>
  "head_word cmd = (case pc_argv cmd of [] \<Rightarrow> [] | w # _ \<Rightarrow> w)"

fun last_with_words :: "parsed_command list \<Rightarrow> nat option" where
  "last_with_words [] = None"
| "last_with_words (c # cs) =
     (case last_with_words cs of
        Some i \<Rightarrow> Some (Suc i)
      | None \<Rightarrow> if pc_argv c \<noteq> [] then Some 0 else None)"

definition pipelineKind :: "parsed_command list \<Rightarrow> nat \<Rightarrow> injection_kind option" where
  "pipelineKind inner lastIdx =
     (if lastIdx < length inner \<and> pc_argv (inner ! lastIdx) \<noteq> [] \<and>
         isInterpreterName (basenameOf (head_word (inner ! lastIdx)))
      then first_some (\<lambda>c. PIPE_FETCHERS (basenameOf (head_word c))) (take lastIdx inner)
      else None)"

definition feed_stdin :: "parsed_command list \<Rightarrow> parsed_command list" where
  "feed_stdin inner = (case inner of [] \<Rightarrow> [] | c # cs \<Rightarrow> c # map (\<lambda>c. c\<lparr>pc_stdinFed := True\<rparr>) cs)"

definition pipelineOf :: "parsed_command list \<Rightarrow> parsed_command list" where
  \<comment> \<open>\<open>pipelineOf\<close> once the children have been walked\<close>
  "pipelineOf inner =
     (case last_with_words inner of
        None \<Rightarrow> inner
      | Some lastIdx \<Rightarrow>
          feed_stdin
            (case pipelineKind inner lastIdx of
               None \<Rightarrow> inner
             | Some kind \<Rightarrow> inner[lastIdx := (inner ! lastIdx)\<lparr>pc_injection := Some kind\<rparr>]))"

subsection \<open>The walkers\<close>

primrec nsize :: "node \<Rightarrow> nat" where
  "nsize (Node ty nm t er cs) = Suc (sum_list (map nsize cs))"

definition lsize :: "node list \<Rightarrow> nat" where
  "lsize cs = sum_list (map nsize cs)"

lemma lsize_simps [simp]: "lsize [] = 0" "lsize (c # cs) = nsize c + lsize cs"
  by (simp_all add: lsize_def)

lemma nsize_pos [simp]: "0 < nsize n"
  by (cases n) simp

lemma nsize_children: "nsize n = Suc (lsize (n_children n))"
  by (cases n) (simp add: lsize_def)

lemma nsize_mem: "c \<in> set cs \<Longrightarrow> nsize c \<le> lsize cs"
  by (induction cs) auto

lemma lsize_mem: "c \<in> set cs \<Longrightarrow> lsize (n_children c) < lsize cs"
  using nsize_mem [of c cs] by (simp add: nsize_children)

lemma find_size: "List.find P cs = Some c \<Longrightarrow> nsize c \<le> lsize cs \<and> lsize (n_children c) < lsize cs"
  by (auto dest!: find_SomeD simp: nsize_mem lsize_mem)

lemma found_sizes:
  "bodyOf n = Some b \<Longrightarrow> nsize b < nsize n"
  "redirect_dest n = Some b \<Longrightarrow> nsize b < nsize n"
  "redirect_dest n = Some b \<Longrightarrow> lsize (n_children b) < nsize n"
  "heredoc_body_of n = Some b \<Longrightarrow> lsize (n_children b) < nsize n"
  by (auto simp: bodyOf_def redirect_dest_def heredoc_body_of_def nsize_children dest!: find_size)

text \<open>
  Twelve walkers, mutually recursive as in the code: \<open>walkStatement\<close> (with the dispatch of
  \<open>walkContainer\<close> and the calls of \<open>redirectedOf\<close>, \<open>assignmentOf\<close>, \<open>commandOf\<close> and
  \<open>walkSubstitution\<close>), \<open>consumeHost\<close> (file redirects, here-strings, here-documents),
  \<open>literalOf\<close>, \<open>scanExpansions\<close>, and one function for each loop over children. The loops skip
  the children that are not named.
\<close>

function (sequential)
  walkStatement :: "node \<Rightarrow> walk_ctx \<Rightarrow> emitted option" and
  walk_all :: "node list \<Rightarrow> walk_ctx \<Rightarrow> emitted option" and
  redirect_hosts :: "node list \<Rightarrow> flags \<Rightarrow> redirect list \<Rightarrow> (emitted \<times> flags \<times> redirect list) option" and
  command_parts :: "node list \<Rightarrow> command_state \<Rightarrow> (emitted \<times> command_state) option" and
  assignment_parts :: "node list \<Rightarrow> flags \<Rightarrow> bool \<Rightarrow> (emitted \<times> flags) option" and
  consumeHost :: "node \<Rightarrow> flags \<Rightarrow> redirect list \<Rightarrow> (emitted \<times> flags \<times> redirect list) option" and
  herestring_parts :: "node list \<Rightarrow> flags \<Rightarrow> (emitted \<times> flags) option" and
  heredoc_parts :: "node list \<Rightarrow> flags \<Rightarrow> (emitted \<times> flags) option" and
  literalOf :: "node \<Rightarrow> (emitted \<times> literal) option" and
  literal_parts :: "node list \<Rightarrow> bool \<Rightarrow> literal \<Rightarrow> (emitted \<times> literal) option" and
  scanExpansions :: "node \<Rightarrow> (emitted \<times> bool \<times> bool) option" and
  scan_parts :: "node list \<Rightarrow> (emitted \<times> bool \<times> bool) option"
where
  "walkStatement n ctx =
     (case classifyKind (n_type n) of
        None \<Rightarrow> None
      | Some ContainerNode \<Rightarrow>
          if n_type n = ''redirected_statement'' then
            (case redirect_hosts (n_children n) (start_flags ctx) (cx_redirects ctx) of
               None \<Rightarrow> None
             | Some (out, fl, reds) \<Rightarrow>
                 (case bodyOf n of
                    None \<Rightarrow> Some (out @ (if reds \<noteq> [] then [flagged (n_text n) fl reds] else []))
                  | Some body \<Rightarrow>
                      (case walkStatement body
                              \<lparr>cx_redirects = reds, cx_forceDynamic = fl_dynamic fl,
                               cx_forceInjection = fl_injection fl\<rparr> of
                         None \<Rightarrow> None
                       | Some out' \<Rightarrow> Some (out @ out'))))
          else if n_type n = ''variable_assignment'' \<or> n_type n = ''declaration_command'' then
            (case assignment_parts (n_children n) \<lparr>fl_dynamic = False, fl_injection = None\<rparr>
                    (n_type n = ''declaration_command'') of
               None \<Rightarrow> None
             | Some (out, fl) \<Rightarrow> Some (out @ finish_assignment (n_text n) fl))
          else if n_type n = ''pipeline'' then map_option pipelineOf (walk_all (n_children n) ctx)
          else walk_all (n_children n) ctx
      | Some LeafNode \<Rightarrow>
          (case command_parts (n_children n) (start_command ctx) of
             None \<Rightarrow> None
           | Some (out, st) \<Rightarrow> Some (out @ [finish_command (n_text n) st]))
      | Some HostNode \<Rightarrow> walk_all (n_children n) ctx
      | Some _ \<Rightarrow>
          if is_substitution (n_type n) then
            (case walk_all (n_children n) ctx of
               None \<Rightarrow> None
             | Some out \<Rightarrow>
                 Some (out @ [flagged (n_text n) \<lparr>fl_dynamic = True, fl_injection = Some CommandSubstitution\<rparr> []]))
          else if n_type n \<in> set EXPANSION_WORDS \<or> (n_type n = ''word'' \<and> glob_text (n_text n)) then
            Some [flagged (n_text n) \<lparr>fl_dynamic = True, fl_injection = None\<rparr> []]
          else Some [])"
| "walk_all [] ctx = Some []"
| "walk_all (c # cs) ctx =
     (if \<not> n_isNamed c then walk_all cs ctx
      else case walkStatement c ctx of
             None \<Rightarrow> None
           | Some out \<Rightarrow> (case walk_all cs ctx of None \<Rightarrow> None | Some out' \<Rightarrow> Some (out @ out')))"
| "redirect_hosts [] fl reds = Some ([], fl, reds)"
| "redirect_hosts (c # cs) fl reds =
     (if \<not> (n_isNamed c \<and> classifyKind (n_type c) = Some HostNode) then redirect_hosts cs fl reds
      else case consumeHost c fl reds of
             None \<Rightarrow> None
           | Some (out, fl', reds') \<Rightarrow>
               (case redirect_hosts cs fl' reds' of
                  None \<Rightarrow> None
                | Some (out', r) \<Rightarrow> Some (out @ out', r)))"
| "command_parts [] st = Some ([], st)"
| "command_parts (c # cs) st =
     (if \<not> n_isNamed c then command_parts cs st
      else if n_type c = ''variable_assignment'' then
        (case scanExpansions c of
           None \<Rightarrow> None
         | Some (out, cmdsub, _) \<Rightarrow>
             (case command_parts cs (st\<lparr>cs_assignment := True, cs_flags := note_cmdsub cmdsub (cs_flags st)\<rparr>) of
                None \<Rightarrow> None
              | Some (out', r) \<Rightarrow> Some (out @ out', r)))
      else
        (case classifyKind (n_type c) of
           None \<Rightarrow> None
         | Some WordNode \<Rightarrow>
             (case literalOf c of
                None \<Rightarrow> None
              | Some (out, lit) \<Rightarrow>
                  (case command_parts cs (push_word lit st) of
                     None \<Rightarrow> None
                   | Some (out', r) \<Rightarrow> Some (out @ out', r)))
         | Some HostNode \<Rightarrow>
             (case consumeHost c (cs_flags st) (cs_redirects st) of
                None \<Rightarrow> None
              | Some (out, fl, reds) \<Rightarrow>
                  (case command_parts cs (st\<lparr>cs_flags := fl, cs_redirects := reds\<rparr>) of
                     None \<Rightarrow> None
                   | Some (out', r) \<Rightarrow> Some (out @ out', r)))
         | Some ContainerNode \<Rightarrow>
             (case walkStatement c EMPTY_CTX of
                None \<Rightarrow> None
              | Some out \<Rightarrow>
                  (case command_parts cs st of
                     None \<Rightarrow> None
                   | Some (out', r) \<Rightarrow> Some (out @ out', r)))
         | Some _ \<Rightarrow> command_parts cs st))"
| "assignment_parts [] fl declaration = Some ([], fl)"
| "assignment_parts (c # cs) fl declaration =
     (if \<not> n_isNamed c then assignment_parts cs fl declaration
      else if n_type c = ''variable_assignment'' then
        (case scanExpansions c of
           None \<Rightarrow> None
         | Some (out, cmdsub, expansion) \<Rightarrow>
             (case assignment_parts cs
                     (let fl1 = note_cmdsub cmdsub fl in if expansion then fl1\<lparr>fl_dynamic := True\<rparr> else fl1)
                     declaration of
                None \<Rightarrow> None
              | Some (out', r) \<Rightarrow> Some (out @ out', r)))
      else
        (case literalOf c of
           None \<Rightarrow> None
         | Some (out, lit) \<Rightarrow>
             (case assignment_parts cs (declaration_arg declaration c lit fl) declaration of
                None \<Rightarrow> None
              | Some (out', r) \<Rightarrow> Some (out @ out', r))))"
| "consumeHost n fl reds =
     (if n_type n = ''heredoc_redirect'' then
        (case heredoc_body_of n of
           None \<Rightarrow> Some ([], heredoc_flags n fl, reds @ [input_redirect ''heredoc''])
         | Some body \<Rightarrow>
             (case heredoc_parts (n_children body) (heredoc_flags n fl) of
                None \<Rightarrow> None
              | Some (out, fl') \<Rightarrow> Some (out, fl', reds @ [input_redirect ''heredoc''])))
      else if n_type n = ''herestring_redirect'' then
        (case herestring_parts (n_children n) fl of
           None \<Rightarrow> None
         | Some (out, fl') \<Rightarrow> Some (out, fl', reds @ [input_redirect ''<<<'']))
      else
        (case redirect_dest n of
           None \<Rightarrow> Some ([], fl, reds)
         | Some dest \<Rightarrow>
             if n_type dest = ''number'' \<or> op_token n = ''>&-'' \<or> op_token n = ''<&-'' then Some ([], fl, reds)
             else if n_type dest = ''process_substitution'' then
               (case walk_all (n_children dest) EMPTY_CTX of
                  None \<Rightarrow> None
                | Some out \<Rightarrow> Some (out, fl, reds @ [input_redirect (redirect_op n)]))
             else
               (case literalOf dest of
                  None \<Rightarrow> None
                | Some (out, lit) \<Rightarrow>
                    Some (out, if lt_dynamic lit then fl\<lparr>fl_dynamic := True\<rparr> else fl,
                          reds @ [file_redirect (redirect_op n) (lt_text lit)]))))"
| "herestring_parts [] fl = Some ([], fl)"
| "herestring_parts (c # cs) fl =
     (if \<not> n_isNamed c then herestring_parts cs fl
      else case literalOf c of
             None \<Rightarrow> None
           | Some (out, lit) \<Rightarrow>
               (case herestring_parts cs (add_literal lit fl) of
                  None \<Rightarrow> None
                | Some (out', r) \<Rightarrow> Some (out @ out', r)))"
| "heredoc_parts [] fl = Some ([], fl)"
| "heredoc_parts (c # cs) fl =
     (if \<not> (n_isNamed c \<and> n_type c = ''command_substitution'') then heredoc_parts cs fl
      else case walk_all (n_children c) EMPTY_CTX of
             None \<Rightarrow> None
           | Some out \<Rightarrow>
               (case heredoc_parts cs (note_cmdsub True fl) of
                  None \<Rightarrow> None
                | Some (out', r) \<Rightarrow> Some (out @ out', r)))"
| "literalOf n =
     (if n_type n = ''string'' \<or> n_type n = ''translated_string'' then
        literal_parts (n_children n) True (plain_literal [] False)
      else if n_type n = ''concatenation'' \<or> n_type n = ''command_name'' then
        literal_parts (n_children n) False (plain_literal [] False)
      else if is_substitution (n_type n) then
        (case walk_all (n_children n) EMPTY_CTX of
           None \<Rightarrow> None
         | Some out \<Rightarrow>
             Some (out, \<lparr>lt_text = n_text n, lt_dynamic = True, lt_injection = Some CommandSubstitution\<rparr>))
      else Some ([], word_literal (n_type n) (n_text n)))"
| "literal_parts [] isString acc = Some ([], acc)"
| "literal_parts (c # cs) isString acc =
     (if \<not> n_isNamed c then literal_parts cs isString acc
      else if isString \<and> n_type c = ''string_content'' then
        literal_parts cs isString (acc\<lparr>lt_text := lt_text acc @ n_text c\<rparr>)
      else case literalOf c of
             None \<Rightarrow> None
           | Some (out, lit) \<Rightarrow>
               (case literal_parts cs isString (join_literal acc lit) of
                  None \<Rightarrow> None
                | Some (out', r) \<Rightarrow> Some (out @ out', r)))"
| "scanExpansions n = scan_parts (n_children n)"
| "scan_parts [] = Some ([], False, False)"
| "scan_parts (c # cs) =
     (if \<not> n_isNamed c then scan_parts cs
      else
        (case
           (if is_substitution (n_type c) then
              map_option (\<lambda>out. (out, True, False)) (walk_all (n_children c) EMPTY_CTX)
            else if n_type c \<in> set EXPANSION_WORDS then Some ([], False, True)
            else if n_type c = ''word'' then Some ([], False, glob_text (n_text c))
            else if n_type c = ''string'' \<or> n_type c = ''translated_string'' \<or> n_type c = ''concatenation'' then
              map_option (\<lambda>(out, lit). (out, lt_injection lit \<noteq> None, lt_dynamic lit)) (literalOf c)
            else scanExpansions c) of
           None \<Rightarrow> None
         | Some (out, cmdsub, expansion) \<Rightarrow>
             (case scan_parts cs of
                None \<Rightarrow> None
              | Some (out', cmdsub', expansion') \<Rightarrow>
                  Some (out @ out', cmdsub \<or> cmdsub', expansion \<or> expansion'))))"
  by pat_completeness auto

termination
  by (relation "measure (case_sum (case_sum (case_sum ((\<lambda>p. 8 * nsize (fst p) + 2)) (case_sum ((\<lambda>p. 8 * lsize (fst p) + 4)) ((\<lambda>p. 8 * lsize (fst p) + 4)))) (case_sum ((\<lambda>p. 8 * lsize (fst p) + 4)) (case_sum ((\<lambda>p. 8 * lsize (fst p) + 4)) ((\<lambda>p. 8 * nsize (fst p) + 2))))) (case_sum (case_sum ((\<lambda>p. 8 * lsize (fst p) + 4)) (case_sum ((\<lambda>p. 8 * lsize (fst p) + 4)) ((\<lambda>p. 8 * nsize p + 2)))) (case_sum ((\<lambda>p. 8 * lsize (fst p) + 4)) (case_sum ((\<lambda>p. 8 * nsize p + 1)) ((\<lambda>p. 8 * lsize p + 4))))))")
     (auto simp: nsize_children dest: found_sizes)

declare walkStatement.simps [simp del] consumeHost.simps [simp del]
  literalOf.simps [simp del] scanExpansions.simps [simp del]

end
