(* ===== verification/BashAstProps.thy ===== *)
theory BashAstProps
  imports BashAst
begin

text \<open>
  What the walk over a syntax tree finds. The relation \<open>runs n d\<close> says that the shell runs the
  command node \<open>d\<close> as part of the statement \<open>n\<close>, through control flow, subshells, functions,
  pipelines, redirections and substitutions in the words of a command; the walk emits an entry
  for each such command. The last part shows two positions it does not look at.
\<close>

lemmas walk_simps = walkStatement.simps literalOf.simps

lemma walk_all_mem:
  "walk_all cs ctx = Some out \<Longrightarrow> c \<in> set cs \<Longrightarrow> n_isNamed c \<Longrightarrow>
     \<exists>o'. walkStatement c ctx = Some o' \<and> set o' \<subseteq> set out"
proof (induction cs arbitrary: out)
  case (Cons d cs)
  show ?case
  proof (cases "n_isNamed d")
    case True
    with Cons.prems obtain o1 o2 where o: "walkStatement d ctx = Some o1" "walk_all cs ctx = Some o2" "out = o1 @ o2"
      by (auto  split: option.splits)
    show ?thesis
    proof (cases "c = d")
      case False
      then have "c \<in> set cs" using Cons.prems(2) by simp
      from Cons.IH [OF o(2) this Cons.prems(3)] show ?thesis using o(3) by auto
    qed (use o in auto)
  next
    case False
    then have "walk_all cs ctx = Some out" "c \<in> set cs" using Cons.prems by auto
    then show ?thesis using Cons.IH Cons.prems(3) by blast
  qed
qed simp

lemma literal_parts_mem:
  "literal_parts cs b acc = Some (out, r) \<Longrightarrow> c \<in> set cs \<Longrightarrow> n_isNamed c \<Longrightarrow>
     \<not> (b \<and> n_type c = ''string_content'') \<Longrightarrow>
     \<exists>o' l. literalOf c = Some (o', l) \<and> set o' \<subseteq> set out"
proof (induction cs arbitrary: acc out)
  case (Cons d cs)
  show ?case
  proof (cases "c = d")
    case True
    then show ?thesis
      using Cons.prems by (auto  split: option.splits if_splits)
  next
    case False
    then have m: "c \<in> set cs" using Cons.prems(2) by simp
    obtain acc' out' where "literal_parts cs b acc' = Some (out', r)" "set out' \<subseteq> set out"
      using Cons.prems(1) by (auto  split: option.splits if_splits)
    then show ?thesis using Cons.IH [OF _ m Cons.prems(3,4)] by blast
  qed
qed simp

lemma command_parts_mem:
  "command_parts cs st = Some (out, r) \<Longrightarrow> c \<in> set cs \<Longrightarrow> n_isNamed c \<Longrightarrow>
     classifyKind (n_type c) = Some WordNode \<Longrightarrow>
     \<exists>o' l. literalOf c = Some (o', l) \<and> set o' \<subseteq> set out"
proof (induction cs arbitrary: st out)
  case (Cons d cs)
  show ?case
  proof (cases "c = d")
    case True
    have "n_type c \<noteq> ''variable_assignment''"
      using Cons.prems(4) by (auto simp: classifyKind_def CONTAINERS_def)
    then show ?thesis
      using True Cons.prems by (auto  split: option.splits)
  next
    case False
    then have m: "c \<in> set cs" using Cons.prems(2) by simp
    obtain st' out' where "command_parts cs st' = Some (out', r)" "set out' \<subseteq> set out"
      using Cons.prems(1)
      by (auto
          split: option.splits if_splits node_class.splits)
    then show ?thesis using Cons.IH [OF _ m Cons.prems(3,4)] by blast
  qed
qed simp

subsection \<open>Commands that run\<close>

inductive runs :: "node \<Rightarrow> node \<Rightarrow> bool" and carries :: "node \<Rightarrow> node \<Rightarrow> bool" where
  run_self: "classifyKind (n_type d) = Some LeafNode \<Longrightarrow> runs d d"
| run_inside: "classifyKind (n_type n) = Some ContainerNode \<Longrightarrow>
     n_type n \<notin> {''redirected_statement'', ''variable_assignment'', ''declaration_command''} \<Longrightarrow>
     c \<in> set (namedChildren n) \<Longrightarrow> runs c d \<Longrightarrow> runs n d"
| run_redirected: "n_type n = ''redirected_statement'' \<Longrightarrow> bodyOf n = Some c \<Longrightarrow> runs c d \<Longrightarrow> runs n d"
| run_substitution: "is_substitution (n_type n) \<Longrightarrow> c \<in> set (namedChildren n) \<Longrightarrow> runs c d \<Longrightarrow> runs n d"
| run_word: "classifyKind (n_type n) = Some LeafNode \<Longrightarrow> c \<in> set (namedChildren n) \<Longrightarrow>
     classifyKind (n_type c) = Some WordNode \<Longrightarrow> carries c d \<Longrightarrow> runs n d"
| carry_substitution: "is_substitution (n_type n) \<Longrightarrow> c \<in> set (namedChildren n) \<Longrightarrow> runs c d \<Longrightarrow> carries n d"
| carry_inside: "n_type n \<in> {''string'', ''translated_string'', ''concatenation'', ''command_name''} \<Longrightarrow>
     c \<in> set (namedChildren n) \<Longrightarrow> n_type c \<noteq> ''string_content'' \<Longrightarrow> carries c d \<Longrightarrow> carries n d"

definition emits :: "emitted \<Rightarrow> node \<Rightarrow> bool" where
  "emits out d \<longleftrightarrow> (\<exists>cmd \<in> set out. pc_raw cmd = n_text d)"

lemma emits_mono: "emits o' d \<Longrightarrow> set o' \<subseteq> set out \<Longrightarrow> emits out d"
  by (auto simp: emits_def)

lemma named_child: "c \<in> set (namedChildren n) \<Longrightarrow> c \<in> set (n_children n) \<and> n_isNamed c"
  by (simp add: namedChildren_def)

lemma map_raw_feed: "map pc_raw (feed_stdin cs) = map pc_raw cs"
  by (cases cs) (simp_all add: feed_stdin_def)

lemma map_raw_pipeline: "map pc_raw (pipelineOf cs) = map pc_raw cs"
  by (auto simp: pipelineOf_def map_raw_feed map_update split: option.splits)
     (metis list_update_id map_update parsed_command.select_convs(5) parsed_command.surjective parsed_command.update_convs(3))

lemma emits_pipeline: "emits (pipelineOf cs) d \<longleftrightarrow> emits cs d"
proof -
  have "emits xs d \<longleftrightarrow> n_text d \<in> set (map pc_raw xs)" for xs
    unfolding emits_def set_map image_iff by metis
  then show ?thesis by (simp only: map_raw_pipeline)
qed

lemma substitution_class:
  "is_substitution ty \<Longrightarrow> classifyKind ty = Some WordNode"
  by (auto simp: is_substitution_def classifyKind_def CONTAINERS_def LEAVES_def WORDS_def)

lemma redirected_class: "classifyKind ''redirected_statement'' = Some ContainerNode"
  by (simp add: classifyKind_def CONTAINERS_def)

lemma walk_substitution:
  "is_substitution (n_type n) \<Longrightarrow> walkStatement n ctx = Some out \<Longrightarrow>
     \<exists>o'. walk_all (n_children n) ctx = Some o' \<and> set o' \<subseteq> set out"
  by (auto simp: walk_simps substitution_class split: option.splits)

lemma walk_redirected:
  assumes "n_type n = ''redirected_statement''" "bodyOf n = Some c" "walkStatement n ctx = Some out"
  shows "\<exists>ctx' o'. walkStatement c ctx' = Some o' \<and> set o' \<subseteq> set out"
proof -
  have "walkStatement n ctx =
      (case redirect_hosts (n_children n) (start_flags ctx) (cx_redirects ctx) of
         None \<Rightarrow> None
       | Some (out, fl, reds) \<Rightarrow>
           (case walkStatement c \<lparr>cx_redirects = reds, cx_forceDynamic = fl_dynamic fl,
                cx_forceInjection = fl_injection fl\<rparr> of
              None \<Rightarrow> None
            | Some out' \<Rightarrow> Some (out @ out')))"
    by (subst walkStatement.simps) (simp add: assms redirected_class cong: option.case_cong)
  then show ?thesis
    using assms(3) by (auto split: option.splits) (metis Un_upper2)
qed

lemma walk_inside:
  assumes "classifyKind (n_type n) = Some ContainerNode"
    "n_type n \<notin> {''redirected_statement'', ''variable_assignment'', ''declaration_command''}"
    "walkStatement n ctx = Some out"
  shows "\<exists>o'. walk_all (n_children n) ctx = Some o' \<and> (emits o' d \<longrightarrow> emits out d)"
  using assms by (auto simp: walk_simps emits_pipeline split: if_splits)

lemma literal_substitution:
  "is_substitution (n_type n) \<Longrightarrow> literalOf n = Some (out, l) \<Longrightarrow>
     \<exists>o'. walk_all (n_children n) EMPTY_CTX = Some o' \<and> set o' \<subseteq> set out"
  by (auto simp: walk_simps is_substitution_def split: option.splits if_splits)

lemma runs_emits:
  "runs n d \<Longrightarrow> (\<forall>ctx out. walkStatement n ctx = Some out \<longrightarrow> emits out d)"
  "carries n d \<Longrightarrow> (\<forall>out l. literalOf n = Some (out, l) \<longrightarrow> emits out d)"
proof (induction rule: runs_carries.inducts)
  case (run_self d)
  show ?case using run_self by (auto simp: walk_simps emits_def finish_command_def split: option.splits)
next
  case (run_inside n c d)
  show ?case
  proof (intro allI impI)
    fix ctx out
    assume "walkStatement n ctx = Some out"
    then obtain o' where o': "walk_all (n_children n) ctx = Some o'" "emits o' d \<longrightarrow> emits out d"
      using walk_inside [OF run_inside(1,2)] by blast
    then show "emits out d"
      using walk_all_mem [OF o'(1)] named_child [OF run_inside(3)] run_inside.IH emits_mono by blast
  qed
next
  case (run_redirected n c d)
  show ?case
  proof (intro allI impI)
    fix ctx out
    assume "walkStatement n ctx = Some out"
    then obtain ctx' o' where "walkStatement c ctx' = Some o'" "set o' \<subseteq> set out"
      using walk_redirected [OF run_redirected(1,2)] by blast
    then show "emits out d" using run_redirected.IH emits_mono by blast
  qed
next
  case (run_substitution n c d)
  then show ?case
    using walk_substitution walk_all_mem named_child emits_mono by meson
next
  case (run_word n c d)
  show ?case
  proof (intro allI impI)
    fix ctx out
    assume "walkStatement n ctx = Some out"
    then obtain o1 st where o1: "command_parts (n_children n) (start_command ctx) = Some (o1, st)" "set o1 \<subseteq> set out"
      using run_word(1) by (auto simp: walk_simps split: option.splits intro: that)
    then show "emits out d"
      using command_parts_mem [OF o1(1)] named_child [OF run_word(2)] run_word(3) run_word.IH emits_mono
      by blast
  qed
next
  case (carry_substitution n c d)
  then show ?case
    using literal_substitution walk_all_mem named_child emits_mono by meson
next
  case (carry_inside n c d)
  show ?case
  proof (intro allI impI)
    fix out l
    assume "literalOf n = Some (out, l)"
    then obtain b acc where "literal_parts (n_children n) b acc = Some (out, l)"
      using carry_inside(1) by (auto simp: walk_simps is_substitution_def split: if_splits)
    then show "emits out d"
      using literal_parts_mem named_child [OF carry_inside(2)] carry_inside(3) carry_inside.IH emits_mono
      by blast
  qed
qed

text \<open>The walk drops no command that runs as part of a statement: when it succeeds, every command
  node reached through control flow, subshells, functions, pipelines, redirections and the
  substitutions in the words of a command has an entry with its text, whatever the context.\<close>

theorem walk_emits_every_command:
  assumes "runs n d" and "walkStatement n ctx = Some out"
  shows "\<exists>cmd \<in> set out. pc_raw cmd = n_text d"
  using assms runs_emits(1) by (auto simp: emits_def)

definition leaf :: "string \<Rightarrow> string \<Rightarrow> node" where
  "leaf ty t = Node ty True t False []"

definition simple_command :: "string \<Rightarrow> node" where
  \<comment> \<open>the tree of a command of one word\<close>
  "simple_command w = Node ''command'' True w False [Node ''command_name'' True w False [leaf ''word'' w]]"

definition subshell_tree :: node where
  "subshell_tree =
     Node ''program'' True ''(sudo)'' False [Node ''subshell'' True ''(sudo)'' False [simple_command ''sudo'']]"

lemma walk_emits_every_command_witness:
  "\<exists>out. walkStatement subshell_tree EMPTY_CTX = Some out \<and> (\<exists>cmd \<in> set out. pc_raw cmd = ''sudo'')"
proof -
  have "runs (simple_command ''sudo'') (simple_command ''sudo'')"
    by (rule run_self) (simp add: simple_command_def classifyKind_def CONTAINERS_def LEAVES_def)
  then have "runs (Node ''subshell'' True ''(sudo)'' False [simple_command ''sudo'']) (simple_command ''sudo'')"
    by (rule run_inside [rotated 3])
       (simp_all add: classifyKind_def CONTAINERS_def namedChildren_def simple_command_def)
  then have "runs subshell_tree (simple_command ''sudo'')"
    unfolding subshell_tree_def
    by (rule run_inside [rotated 3]) (simp_all add: classifyKind_def CONTAINERS_def namedChildren_def)
  moreover obtain out where "walkStatement subshell_tree EMPTY_CTX = Some out"
  proof -
    have "walkStatement subshell_tree EMPTY_CTX \<noteq> None" by code_simp
    then show ?thesis using that by blast
  qed
  ultimately show ?thesis
    using walk_emits_every_command by (fastforce simp: simple_command_def)
qed

subsection \<open>Positions the walk does not look at\<close>

definition quoted_for :: "node \<Rightarrow> node" where
  \<comment> \<open>the tree of \<open>for x in "$(c)"; do ls; done\<close>\<close>
  "quoted_for c =
     Node ''program'' True [] False
       [Node ''for_statement'' True [] False
          [Node ''for'' False [] False [], leaf ''variable_name'' ''x'', Node ''in'' False [] False [],
           Node ''string'' True [] False [Node ''command_substitution'' True [] False [c]],
           Node '';'' False [] False [],
           Node ''do_group'' True [] False [simple_command ''ls'']]]"

definition default_prefix :: "node \<Rightarrow> node" where
  \<comment> \<open>the tree of \<open>X=${Y:-$(c)} ls\<close>\<close>
  "default_prefix c =
     Node ''program'' True [] False
       [Node ''command'' True ''X=${Y:-$(c)} ls'' False
          [Node ''variable_assignment'' True [] False
             [leaf ''variable_name'' ''X'', Node ''='' False [] False [],
              Node ''expansion'' True [] False
                [leaf ''variable_name'' ''Y'', Node '':-'' False [] False [],
                 Node ''command_substitution'' True [] False [c]]],
           Node ''command_name'' True ''ls'' False [leaf ''word'' ''ls'']]]"

lemma walk_string: "walkStatement (Node ''string'' nm t er cs) ctx = Some []"
  by (simp add: walk_simps classifyKind_def CONTAINERS_def LEAVES_def WORDS_def is_substitution_def
      EXPANSION_WORDS_def)

lemma walk_variable_name: "walkStatement (Node ''variable_name'' nm t er cs) ctx = Some []"
  by (simp add: walk_simps classifyKind_def CONTAINERS_def LEAVES_def WORDS_def is_substitution_def
      EXPANSION_WORDS_def)

definition ls_command :: parsed_command where
  "ls_command = bare_command [''ls''] ''ls''"

lemma walk_ls: "walkStatement (simple_command ''ls'') EMPTY_CTX = Some [ls_command]"
  by code_simp

lemma simple_command_named: "n_isNamed (simple_command w)"
  by (simp add: simple_command_def)

text \<open>Two positions hide a command from the walk. In \<open>for x in "$(c)"; do ls; done\<close> the quoted
  word of the loop is not descended into, and in \<open>X=${Y:-$(c)} ls\<close> the default value of the
  expansion is not scanned: for every command \<open>c\<close>, both lines give exactly one entry, a plain \<open>ls\<close>
  without a flag for an expansion or a substitution.\<close>

theorem hidden_substitutions:
  "walkStatement (quoted_for c) EMPTY_CTX = Some [ls_command] \<and>
   walkStatement (default_prefix c) EMPTY_CTX
     = Some [ls_command\<lparr>pc_raw := ''X=${Y:-$(c)} ls'', pc_assignmentPrefix := True\<rparr>]"
proof
  have "walkStatement (Node ''do_group'' True [] False [simple_command ''ls'']) EMPTY_CTX = Some [ls_command]"
    by (subst walkStatement.simps)
       (simp add: classifyKind_def CONTAINERS_def walk_ls simple_command_named)
  then have "walkStatement (Node ''for_statement'' True [] False
          [Node ''for'' False [] False [], leaf ''variable_name'' ''x'', Node ''in'' False [] False [],
           Node ''string'' True [] False [Node ''command_substitution'' True [] False [c]],
           Node '';'' False [] False [],
           Node ''do_group'' True [] False [simple_command ''ls'']]) EMPTY_CTX = Some [ls_command]"
    by (subst walkStatement.simps)
       (simp add: classifyKind_def CONTAINERS_def leaf_def walk_string walk_variable_name)
  then show "walkStatement (quoted_for c) EMPTY_CTX = Some [ls_command]"
    unfolding quoted_for_def
    by (subst walkStatement.simps) (simp add: classifyKind_def CONTAINERS_def)
  show "walkStatement (default_prefix c) EMPTY_CTX
     = Some [ls_command\<lparr>pc_raw := ''X=${Y:-$(c)} ls'', pc_assignmentPrefix := True\<rparr>]"
    unfolding default_prefix_def leaf_def
    by (simp add: walk_simps scanExpansions.simps classifyKind_def CONTAINERS_def LEAVES_def WORDS_def
        HOSTS_def is_substitution_def EXPANSION_WORDS_def start_command_def start_flags_def EMPTY_CTX_def
        note_cmdsub_def push_word_def add_literal_def join_literal_def plain_literal_def word_literal_def
        glob_text_def finish_command_def ls_command_def bare_command_def)
qed

subsection \<open>Pipelines\<close>

lemma last_with_words_spec:
  "last_with_words cs = Some i \<longleftrightarrow>
     i < length cs \<and> pc_argv (cs ! i) \<noteq> [] \<and> (\<forall>j. i < j \<longrightarrow> j < length cs \<longrightarrow> pc_argv (cs ! j) = [])"
  "last_with_words cs = None \<longleftrightarrow> (\<forall>j < length cs. pc_argv (cs ! j) = [])"
proof (induction cs arbitrary: i)
  case (Cons c cs)
  { case 2
    have "(\<forall>j < length (c # cs). pc_argv ((c # cs) ! j) = []) \<longleftrightarrow>
        pc_argv c = [] \<and> (\<forall>j < length cs. pc_argv (cs ! j) = [])"
      by (auto simp: less_Suc_eq_0_disj)
    then show ?case using Cons.IH(2) by (auto split: option.splits) }
  { case 1 show ?case
    proof (cases "last_with_words cs")
      case None
      then have n: "\<forall>j < length cs. pc_argv (cs ! j) = []" using Cons.IH(2) by simp
      show ?thesis using None n by (cases i) (auto simp: less_Suc_eq_0_disj)
    next
      case (Some k)
      note k = Some [unfolded Cons.IH(1)]
      show ?thesis
      proof (cases i)
        case 0
        then show ?thesis using Some k by (auto intro!: exI [of _ "Suc k"])
      next
        case (Suc i')
        then show ?thesis using Some Cons.IH(1) [of i'] by (auto simp: less_Suc_eq_0_disj)
      qed
    qed }
qed simp_all

text \<open>In a pipeline whose last command is an interpreter (\<open>sh\<close>, \<open>python3.12\<close>, under any path) and
  that has a network fetcher or a decoder before it, that last command is flagged as an injection,
  and every command after the first is marked as fed from standard input.\<close>

theorem fetch_into_interpreter_flagged:
  assumes "i < j" "j < length inner" "\<forall>k < length inner. j < k \<longrightarrow> pc_argv (inner ! k) = []"
    and "pc_argv (inner ! j) \<noteq> []" "isInterpreterName (basenameOf (head_word (inner ! j)))"
    and "PIPE_FETCHERS (basenameOf (head_word (inner ! i))) \<noteq> None"
  shows "pc_injection (pipelineOf inner ! j) \<noteq> None \<and> pc_argv (pipelineOf inner ! j) = pc_argv (inner ! j) \<and>
    (\<forall>k < length inner. 0 < k \<longrightarrow> pc_stdinFed (pipelineOf inner ! k))"
proof -
  have l: "last_with_words inner = Some j"
    using assms by (simp add: last_with_words_spec)
  have "inner ! i \<in> set (take j inner)"
    using assms(1,2) by (auto simp: in_set_conv_nth intro!: exI [of _ i])
  then have "first_some (\<lambda>c. PIPE_FETCHERS (basenameOf (head_word c))) (take j inner) \<noteq> None"
    using assms(6) by auto
  then obtain kind where "pipelineKind inner j = Some kind"
    using assms(2,4,5) by (fastforce simp: pipelineKind_def)
  then have p: "pipelineOf inner = feed_stdin (inner[j := (inner ! j)\<lparr>pc_injection := Some kind\<rparr>])"
    using l by (simp add: pipelineOf_def)
  have feed: "feed_stdin cs ! k = (cs ! k)\<lparr>pc_stdinFed := True\<rparr>" if "0 < k" "k < length cs" for cs k
    using that by (cases cs) (auto simp: feed_stdin_def nth_Cons split: nat.splits)
  show ?thesis using assms(1,2) feed [of _ "inner[j := (inner ! j)\<lparr>pc_injection := Some kind\<rparr>]"] by (simp add: p)
qed

lemma fetch_into_interpreter_flagged_witness:
  "pc_injection (pipelineOf [bare_command [''curl'', ''u''] ''curl u'', bare_command [''/bin/sh''] ''/bin/sh''] ! 1) \<noteq> None"
proof -
  have i: "isInterpreterName (basenameOf (head_word (bare_command [''/bin/sh''] ''/bin/sh'')))"
    and f: "PIPE_FETCHERS (basenameOf (head_word (bare_command [''curl'', ''u''] ''curl u''))) \<noteq> None"
    by code_simp+
  show ?thesis
    using fetch_into_interpreter_flagged [of 0 1 "[bare_command [''curl'', ''u''] ''curl u'', bare_command [''/bin/sh''] ''/bin/sh'']"] i f
    by (simp add: bare_command_def)
qed

end
