(* ===== verification/BashPolicy.thy ===== *)
theory BashPolicy
  imports BashAst
begin

text \<open>
  The second pass over the commands of a line (\<open>bash/wrappers.ts\<close>): transparent wrappers are
  stripped (\<open>env\<close>, \<open>nohup\<close>, \<open>time\<close>), the commands that \<open>sh -c\<close>, \<open>eval\<close>, \<open>trap\<close>, \<open>xargs\<close> and
  \<open>find -exec\<close> would run are pushed on the queue of commands to look at, and what cannot be
  followed is marked. Payload strings are parsed again, so \<open>parseWith\<close> (\<open>bash/ast.ts\<close>) and the
  pass call each other; both take fuel here, where \<open>None\<close> says that the fuel ran out. The theory
  \<open>BashPolicyProps\<close> shows that some fuel is enough.
\<close>

definition RUNNERS :: "string list" where
  "RUNNERS =
     [''setsid'', ''exec'', ''command'', ''builtin'', ''timeout'', ''nice'', ''stdbuf'', ''watch'',
      ''coproc'', ''script'', ''strace'', ''ltrace'', ''valgrind'']"

definition EXECUTOR_WORDS :: "string list" where
  "EXECUTOR_WORDS =
     [''source'', ''.'', ''awk'', ''gawk'', ''mawk'', ''ssh'', ''docker'', ''podman'', ''kubectl'', ''osascript'']"

definition BASH_FAMILY :: "string list" where
  "BASH_FAMILY = [''sh'', ''bash'', ''zsh'', ''dash'', ''ksh'', ''ash'']"

definition BUN_SUBCOMMANDS :: "string list" where
  "BUN_SUBCOMMANDS =
     [''run'', ''test'', ''install'', ''add'', ''remove'', ''update'', ''upgrade'', ''link'', ''unlink'',
      ''publish'', ''audit'', ''outdated'', ''pm'', ''init'', ''create'', ''build'', ''deploy'', ''patch'']"

definition JUNK :: "string list" where
  "JUNK = [''{'', ''}'', ''then'', ''fi'', ''do'', ''done'', ''else'', ''elif'', ''esac'', ''in'', ''!'']"

definition DYNAMIC_TEXT :: "string \<Rightarrow> bool" where
  \<comment> \<open>the test of \<open>/[$`*?[]/\<close>\<close>
  "DYNAMIC_TEXT t = list_ex (\<lambda>c. c \<in> {CHR ''$'', CHR 0x60, CHR ''*'', CHR ''?'', CHR ''[''}) t"

type_synonym reparse = "string \<Rightarrow> bash_parse option"

text \<open>A command after the pass, and what it pushes on the queue.\<close>

type_synonym policy_result = "(parsed_command \<times> parsed_command list) option"

definition keep :: "parsed_command \<Rightarrow> policy_result" where
  "keep cmd = Some (cmd, [])"

definition with_ask :: "parsed_command \<Rightarrow> string \<Rightarrow> policy_result" where
  "with_ask cmd reason = Some (cmd\<lparr>pc_ask := Some reason\<rparr>, [])"

definition with_opaque :: "parsed_command \<Rightarrow> string \<Rightarrow> policy_result" where
  "with_opaque cmd reason = Some (cmd\<lparr>pc_opaque := Some reason\<rparr>, [])"

definition reparse_payload :: "reparse \<Rightarrow> parsed_command \<Rightarrow> string \<Rightarrow> policy_result" where
  \<comment> \<open>the end of \<open>executorPolicy\<close>, \<open>evalPolicy\<close> and \<open>trapPolicy\<close>\<close>
  "reparse_payload reparse cmd payload =
     (case reparse payload of
        None \<Rightarrow> None
      | Some ParserUnavailable \<Rightarrow> with_ask cmd ''parser-unavailable''
      | Some NotParsed \<Rightarrow> with_ask cmd ''unparseable command''
      | Some (Parsed cmds) \<Rightarrow> Some (cmd, cmds))"

subsection \<open>Wrappers\<close>

datatype strip_outcome = StripNone | Stripped "string list" bool | StripFail | StripOpaque string

fun assign_tail :: "string \<Rightarrow> bool" where
  "assign_tail [] = False"
| "assign_tail (c # cs) = (c = CHR ''='' \<or> (is_word c \<and> assign_tail cs))"

fun assign_word :: "string \<Rightarrow> bool" where
  \<comment> \<open>\<open>/^[A-Za-z_][A-Za-z0-9_]*=/\<close>\<close>
  "assign_word [] = False"
| "assign_word (c # cs) = ((is_alpha c \<or> c = CHR ''_'') \<and> assign_tail cs)"

fun strip_env :: "string list \<Rightarrow> bool \<Rightarrow> strip_outcome" where
  \<comment> \<open>the loop of \<open>stripEnv\<close> on the words from \<open>at\<close>\<close>
  "strip_env [] env = Stripped [] env"
| "strip_env (w # ws) env =
     (if w = ''--'' then Stripped ws env
      else if w = ''-i'' then strip_env ws env
      else if w = ''-u'' then strip_env (drop 1 ws) env
      else if w = ''-S'' \<or> w = ''--split-string'' then StripOpaque ''opaque-code:env''
      else if assign_word w then strip_env ws True
      else if startsWith w ''-'' then StripFail
      else Stripped (w # ws) env)"

definition stripWrapper :: "string list \<Rightarrow> string \<Rightarrow> strip_outcome" where
  "stripWrapper argv base =
     (if base = ''env'' then strip_env (tl argv) False
      else if base = ''nohup'' then Stripped (tl argv) False
      else if base = ''time'' then
        Stripped (case tl argv of w # ws \<Rightarrow> if w = ''-p'' then ws else w # ws | [] \<Rightarrow> []) False
      else StripNone)"

subsection \<open>Commands that run other commands\<close>

definition isExecutorName :: "string \<Rightarrow> bool" where
  "isExecutorName base = (base \<in> set INTERPRETER_FAMILY \<or> python_digit base \<or> base \<in> set EXECUTOR_WORDS)"

definition runnerPolicy :: "parsed_command \<Rightarrow> string \<Rightarrow> policy_result" where
  "runnerPolicy cmd base =
     (if list_ex (\<lambda>word. basenameOf word \<in> set SUDO_LIKE) (tl (pc_argv cmd))
      then with_ask cmd ''hard-deny:sudo''
      else with_opaque cmd (''opaque-code:'' @ base))"

fun c_payload :: "string list \<Rightarrow> string option" where
  \<comment> \<open>\<open>cPayloadOf\<close> on the words after the first\<close>
  "c_payload [] = None"
| "c_payload (w # ws) =
     (if w = ''--'' \<or> \<not> dash_letters w then None
      else if CHR ''c'' \<notin> set w then c_payload ws
      else (case ws of [] \<Rightarrow> Some [] | p # _ \<Rightarrow> Some p))"

definition executorPolicy :: "parsed_command \<Rightarrow> string \<Rightarrow> reparse \<Rightarrow> policy_result" where
  "executorPolicy cmd base reparse =
     (let opaque = ''opaque-code:'' @ base
      in if pc_assignmentPrefix cmd then with_opaque cmd opaque
         else if pc_stdinFed cmd \<or> list_ex (\<lambda>r. rd_face r = InputFace) (pc_redirects cmd)
         then with_opaque cmd opaque
         else if length (pc_argv cmd) = 1 then keep cmd
         else if base = ''bun'' \<and> hd (tl (pc_argv cmd)) \<in> set BUN_SUBCOMMANDS then keep cmd
         else (case (if base \<in> set BASH_FAMILY then c_payload (tl (pc_argv cmd)) else None) of
                 None \<Rightarrow> with_opaque cmd opaque
               | Some payload \<Rightarrow>
                   if payload = [] then with_ask cmd opaque
                   else if DYNAMIC_TEXT payload then with_ask cmd opaque
                   else reparse_payload reparse cmd payload))"

definition evalPolicy :: "parsed_command \<Rightarrow> reparse \<Rightarrow> policy_result" where
  "evalPolicy cmd reparse =
     (case word_at_index (pc_argv cmd) 1 of
        None \<Rightarrow> keep cmd
      | Some payload \<Rightarrow>
          if DYNAMIC_TEXT payload
          then keep (cmd\<lparr>pc_injection := or_else (pc_injection cmd) (Some EvalInjection)\<rparr>)
          else reparse_payload reparse cmd payload)"

definition trapPolicy :: "parsed_command \<Rightarrow> reparse \<Rightarrow> policy_result" where
  "trapPolicy cmd reparse =
     (case (if word_at_index (pc_argv cmd) 1 = Some ''--'' then word_at_index (pc_argv cmd) 2
            else word_at_index (pc_argv cmd) 1) of
        None \<Rightarrow> keep cmd
      | Some payload \<Rightarrow>
          if DYNAMIC_TEXT payload then keep (cmd\<lparr>pc_injection := Some EvalInjection\<rparr>)
          else reparse_payload reparse cmd payload)"

definition noArgShorts :: "string \<Rightarrow> char list" where
  "noArgShorts base = (if base = ''xargs'' then ''0rtx'' else [])"

definition argShorts :: "string \<Rightarrow> char list" where
  "argShorts base = (if base = ''xargs'' then ''IdnPEsaLl'' else ''jJ'')"

definition carrier_longs :: "string \<Rightarrow> string list" where
  "carrier_longs base =
     (if base = ''xargs''
      then [''--no-run-if-empty'', ''--verbose'', ''--exit'', ''--null'', ''--replace'', ''--max-args'',
            ''--max-procs'', ''--arg-file'', ''--delimiter'']
      else [''--jobs'', ''--keep-order'', ''--line-buffer'', ''--dry-run'', ''--tag'', ''--ungroup'', ''--halt''])"

fun long_value_tail :: "string \<Rightarrow> bool" where
  "long_value_tail [] = False"
| "long_value_tail (c # cs) = (c = CHR ''='' \<or> ((is_lower c \<or> c = CHR ''-'') \<and> long_value_tail cs))"

fun long_value :: "string \<Rightarrow> bool" where
  \<comment> \<open>\<open>/^--[a-z-]+=/\<close>\<close>
  "long_value (a # b # c # cs) =
     (a = CHR ''-'' \<and> b = CHR ''-'' \<and> (is_lower c \<or> c = CHR ''-'') \<and> long_value_tail cs)"
| "long_value _ = False"

fun short_flag :: "string \<Rightarrow> (char \<times> string) option" where
  \<comment> \<open>\<open>/^-([a-zA-Z])(.*)$/\<close>; the dot does not match a line end\<close>
  "short_flag (a # c # cs) =
     (if a = CHR ''-'' \<and> is_alpha c \<and> CHR 10 \<notin> set cs \<and> CHR 13 \<notin> set cs then Some (c, cs) else None)"
| "short_flag _ = None"

definition shortFlagStep :: "char \<times> string \<Rightarrow> string \<Rightarrow> nat option" where
  "shortFlagStep m base =
     (case m of (flag, attached) \<Rightarrow>
        if flag \<in> set (noArgShorts base) then (if attached = [] then Some 1 else None)
        else if flag \<notin> set (argShorts base) then None
        else Some (if attached = [] then 2 else 1))"

fun scan_carrier :: "string list \<Rightarrow> string \<Rightarrow> string list option" where
  \<comment> \<open>the loop of \<open>scanCarrierFlags\<close> on the words from \<open>at\<close>\<close>
  "scan_carrier [] base = Some []"
| "scan_carrier (w # ws) base =
     (if w = ''--'' then Some ws
      else if w \<in> set (carrier_longs base) then scan_carrier ws base
      else if long_value w then scan_carrier ws base
      else (case short_flag w of
              Some m \<Rightarrow>
                (case shortFlagStep m base of
                   None \<Rightarrow> None
                 | Some step \<Rightarrow> scan_carrier (drop (step - 1) ws) base)
            | None \<Rightarrow> if startsWith w ''-'' then None else Some (w # ws)))"

definition payload_command :: "string list \<Rightarrow> parsed_command" where
  \<comment> \<open>the entry pushed by \<open>payloadPolicy\<close> and \<open>findExecPolicy\<close>\<close>
  "payload_command words =
     (bare_command words (join_with '' '' words))\<lparr>pc_dynamic := list_ex DYNAMIC_TEXT words, pc_stdinFed := True\<rparr>"

definition payloadPolicy :: "parsed_command \<Rightarrow> string \<Rightarrow> policy_result" where
  "payloadPolicy cmd base =
     (case scan_carrier (tl (pc_argv cmd)) base of
        None \<Rightarrow> with_ask cmd (''wrapper:'' @ base)
      | Some [] \<Rightarrow> keep (cmd\<lparr>pc_injection := or_else (pc_injection cmd) (Some XargsShell)\<rparr>)
      | Some words \<Rightarrow> Some (cmd, [payload_command words]))"

definition exec_marker :: "string \<Rightarrow> bool" where
  "exec_marker w = (w = ''-exec'' \<or> w = ''-execdir'' \<or> w = ''-ok'' \<or> w = ''-okdir'')"

definition exec_words :: "string list \<Rightarrow> string list" where
  "exec_words ws = takeWhile (\<lambda>w. w \<noteq> '';'' \<and> w \<noteq> ''+'') ws"

lemma exec_words_le [termination_simp]: "length ws - Suc (length (exec_words ws)) < Suc (length ws)"
  by simp

fun find_payloads :: "string list \<Rightarrow> string list list" where
  \<comment> \<open>the payloads of the markers in the words, in order; an empty one is kept\<close>
  "find_payloads [] = []"
| "find_payloads (w # ws) =
     (if exec_marker w then exec_words ws # find_payloads (drop (Suc (length (exec_words ws))) ws)
      else find_payloads ws)"

definition findExecPolicy :: "parsed_command \<Rightarrow> policy_result" where
  "findExecPolicy cmd =
     (let payloads = find_payloads (tl (pc_argv cmd))
      in Some (if [] \<in> set payloads then cmd\<lparr>pc_injection := Some FindExec\<rparr> else cmd,
               map payload_command (filter (\<lambda>p. p \<noteq> []) payloads)))"

definition specialPolicy :: "parsed_command \<Rightarrow> string \<Rightarrow> reparse \<Rightarrow> policy_result" where
  "specialPolicy cmd base reparse =
     (if base \<in> set RUNNERS then runnerPolicy cmd base
      else if isExecutorName base then executorPolicy cmd base reparse
      else if base = ''eval'' then evalPolicy cmd reparse
      else if base = ''trap'' then trapPolicy cmd reparse
      else if base = ''git'' \<and> word_at_index (pc_argv cmd) 1 = Some ''-c''
      then with_opaque cmd ''opaque-code:git-c''
      else if base = ''xargs'' \<or> base = ''parallel'' then payloadPolicy cmd base
      else if base = ''find'' then findExecPolicy cmd
      else keep cmd)"

subsection \<open>The pass\<close>

lemma strip_env_shorter: "strip_env ws env = Stripped argv e \<Longrightarrow> length argv \<le> length ws"
proof (induction ws env rule: strip_env.induct)
  case (2 w ws env)
  then show ?case by (auto split: if_splits)
qed simp

lemma stripWrapper_shorter:
  "stripWrapper argv base = Stripped argv' e \<Longrightarrow> argv \<noteq> [] \<Longrightarrow> length argv' < length argv"
  by (cases argv) (auto simp: stripWrapper_def less_Suc_eq_le dest: strip_env_shorter split: if_splits list.splits)

function policyOf :: "reparse \<Rightarrow> parsed_command \<Rightarrow> policy_result" where
  "policyOf reparse cmd =
     (if pc_argv cmd = [] then keep cmd
      else
        let base = basenameOf (head_word cmd)
        in case stripWrapper (pc_argv cmd) base of
             Stripped argv envPrefix \<Rightarrow>
               if argv = [] \<or> hd argv \<in> set JUNK
               then with_ask (cmd\<lparr>pc_argv := argv\<rparr>) (''wrapper:'' @ base)
               else policyOf reparse
                      (cmd\<lparr>pc_argv := argv,
                           pc_assignmentPrefix := (envPrefix \<or> pc_assignmentPrefix cmd)\<rparr>)
           | StripFail \<Rightarrow> with_ask cmd (''wrapper:'' @ base)
           | StripOpaque reason \<Rightarrow> with_opaque cmd reason
           | StripNone \<Rightarrow> specialPolicy cmd base reparse)"
  by pat_completeness auto
termination
  by (relation "measure (\<lambda>(reparse, cmd). length (pc_argv cmd))") (auto dest: stripWrapper_shorter)

declare policyOf.simps [simp del]

fun applyCommandPolicy :: "nat \<Rightarrow> reparse \<Rightarrow> parsed_command list \<Rightarrow> parsed_command list option" where
  "applyCommandPolicy fuel reparse [] = Some []"
| "applyCommandPolicy 0 reparse (cmd # queue) = None"
| "applyCommandPolicy (Suc fuel) reparse (cmd # queue) =
     (case policyOf reparse cmd of
        None \<Rightarrow> None
      | Some (cmd', pushed) \<Rightarrow>
          map_option (\<lambda>out. cmd' # out) (applyCommandPolicy fuel reparse (queue @ pushed)))"

text \<open>\<open>parse\<close> is the parser package: the root of the tree, or \<open>None\<close> when it throws.\<close>

type_synonym parser = "string \<Rightarrow> node option"

fun parseWith :: "nat \<Rightarrow> parser \<Rightarrow> string \<Rightarrow> bash_parse option" where
  "parseWith 0 parse src = None"
| "parseWith (Suc fuel) parse src =
     (case parse src of
        None \<Rightarrow> Some NotParsed
      | Some root \<Rightarrow>
          if n_hasError root then Some NotParsed
          else (case walkStatement root EMPTY_CTX of
                  None \<Rightarrow> Some NotParsed
                | Some commands \<Rightarrow>
                    map_option Parsed (applyCommandPolicy fuel (parseWith fuel parse) commands)))"

definition parseBash :: "nat \<Rightarrow> parser option \<Rightarrow> string \<Rightarrow> bash_parse option" where
  \<comment> \<open>\<open>parseBash\<close> and \<open>parseBashWith\<close>; \<open>None\<close> for the parser when it cannot be loaded\<close>
  "parseBash fuel loaded src =
     (case loaded of None \<Rightarrow> Some ParserUnavailable | Some parse \<Rightarrow> parseWith fuel parse src)"

end
