(* ===== verification/BashPolicyProps.thy ===== *)
theory BashPolicyProps
  imports BashPolicy BashAstProps "HOL-Library.Multiset"
begin

text \<open>
  The pass over the commands ends, and what it leaves behind. Termination needs one fact of the
  parser package: the words after the head of a command are strictly shorter than the text that
  was parsed (\<open>words_shrink\<close>; each is a piece of that text and the head word comes before it).
  Then a payload is shorter than the line it stands in, and every step of the queue replaces a
  command by commands of smaller rank.
\<close>

subsection \<open>Tail words\<close>

definition tail_bound :: "nat \<Rightarrow> parsed_command \<Rightarrow> bool" where
  "tail_bound L cmd \<longleftrightarrow> (\<forall>w \<in> set (tl (pc_argv cmd)). length w < L)"

definition words_shrink :: "parser \<Rightarrow> bool" where
  "words_shrink parse \<longleftrightarrow>
     (\<forall>src root commands. parse src = Some root \<longrightarrow> walkStatement root EMPTY_CTX = Some commands \<longrightarrow>
        (\<forall>cmd \<in> set commands. tail_bound (length src) cmd))"

lemma tail_bound_mono: "tail_bound L cmd \<Longrightarrow> L \<le> L' \<Longrightarrow> tail_bound L' cmd"
  by (auto simp: tail_bound_def)

lemma set_tl_subset: "set (tl xs) \<subseteq> set xs"
  by (cases xs) auto

lemma strip_env_suffix: "strip_env ws env = Stripped argv e \<Longrightarrow> set argv \<subseteq> set ws"
proof (induction ws env rule: strip_env.induct)
  case (2 w ws env)
  then show ?case
    using set_drop_subset [of 1 ws] by (auto split: if_splits)
qed simp

lemma stripWrapper_suffix: "stripWrapper argv base = Stripped argv' e \<Longrightarrow> set argv' \<subseteq> set (tl argv)"
proof -
  assume s: "stripWrapper argv base = Stripped argv' e"
  have t: "set (case ws of w # vs \<Rightarrow> if w = ''-p'' then vs else w # vs | [] \<Rightarrow> []) \<subseteq> set ws" for ws :: "string list"
    by (cases ws) auto
  consider "strip_env (tl argv) False = Stripped argv' e" | "argv' = tl argv"
    | "argv' = (case tl argv of w # ws \<Rightarrow> if w = ''-p'' then ws else w # ws | [] \<Rightarrow> [])"
    using s that by (simp add: stripWrapper_def split: if_split_asm)
  then show ?thesis using t [of "tl argv"] strip_env_suffix by cases auto
qed

lemma scan_carrier_suffix: "scan_carrier ws base = Some out \<Longrightarrow> set out \<subseteq> set ws \<and> length out \<le> length ws"
proof (induction ws base rule: scan_carrier.induct)
  case (2 w ws base)
  show ?case
  proof (cases "short_flag w")
    case None
    then show ?thesis using 2 by (auto split: if_splits)
  next
    case (Some m)
    have d: "set (drop k ws) \<subseteq> set ws" for k by (rule set_drop_subset)
    show ?thesis
    proof (cases "w = ''--'' \<or> w \<in> set (carrier_longs base) \<or> long_value w")
      case True
      then show ?thesis using 2 by (auto split: if_splits)
    next
      case False
      then obtain step where s: "shortFlagStep m base = Some step" "scan_carrier (drop (step - 1) ws) base = Some out"
        using 2(4) Some by (auto split: option.splits)
      have "set out \<subseteq> set (drop (step - 1) ws) \<and> length out \<le> length (drop (step - 1) ws)"
        using 2(3) False Some s by auto
      then show ?thesis using d [of "step - 1"] by auto
    qed
  qed
qed simp

lemma exec_words_subset: "set (exec_words ws) \<subseteq> set ws" "length (exec_words ws) \<le> length ws"
  by (auto simp: exec_words_def dest: set_takeWhileD intro: length_takeWhile_le)

lemma find_payloads_subset: "p \<in> set (find_payloads ws) \<Longrightarrow> set p \<subseteq> set ws \<and> length p \<le> length ws"
proof (induction ws rule: find_payloads.induct)
  case (2 w ws)
  have d: "set (drop k ws) \<subseteq> set ws" for k by (rule set_drop_subset)
  show ?case
  proof (cases "exec_marker w")
    case True
    then consider "p = exec_words ws" | "p \<in> set (find_payloads (drop (Suc (length (exec_words ws))) ws))"
      using 2(3) by auto
    then show ?thesis
    proof cases
      case 1
      then show ?thesis using exec_words_subset [of ws] by auto
    next
      case 2
      then have "set p \<subseteq> set (drop (Suc (length (exec_words ws))) ws) \<and>
          length p \<le> length (drop (Suc (length (exec_words ws))) ws)"
        using "2.IH"(1) [OF True] by blast
      then show ?thesis using d [of "Suc (length (exec_words ws))"] by auto
    qed
  next
    case False
    then show ?thesis using 2 by auto
  qed
qed simp

subsection \<open>Rank\<close>

definition longest :: "parsed_command \<Rightarrow> nat" where
  "longest cmd = Max (insert 0 (length ` set (tl (pc_argv cmd))))"

definition rank :: "parsed_command \<Rightarrow> nat \<times> nat" where
  "rank cmd = (longest cmd, length (pc_argv cmd))"

definition rank_less :: "((nat \<times> nat) \<times> (nat \<times> nat)) set" where
  "rank_less = less_than <*lex*> less_than"

lemma wf_rank: "wf rank_less" and trans_rank: "trans rank_less"
  by (simp_all add: rank_less_def wf_lex_prod trans_lex_prod)

lemma rank_below_payload:
  assumes "w \<in> set (tl (pc_argv cmd))" "tail_bound (length w) c"
  shows "(rank c, rank cmd) \<in> rank_less"
proof -
  have w: "length w \<le> longest cmd"
    using assms(1) unfolding longest_def by (intro Max_ge) auto
  have len: "2 \<le> length (pc_argv cmd)" using assms(1) by (cases "pc_argv cmd"; cases "tl (pc_argv cmd)") auto
  show ?thesis
  proof (cases "w = []")
    case True
    then have "tl (pc_argv c) = []" using assms(2) by (cases "tl (pc_argv c)") (auto simp: tail_bound_def)
    then have "longest c = 0" "length (pc_argv c) \<le> 1" by (auto simp: tl_Nil longest_def)
    then show ?thesis using len by (auto simp: rank_less_def rank_def)
  next
    case False
    then have "longest c < length w" using assms(2) by (auto simp: tail_bound_def longest_def)
    then show ?thesis using w by (simp add: rank_less_def rank_def)
  qed
qed

lemma rank_below_words:
  assumes "set (pc_argv c) \<subseteq> set (tl (pc_argv cmd))" "length (pc_argv c) < length (pc_argv cmd)"
  shows "(rank c, rank cmd) \<in> rank_less"
proof -
  have "longest c \<le> longest cmd"
    unfolding longest_def using assms(1) set_tl_subset [of "pc_argv c"] by (intro Max_mono) auto
  then show ?thesis using assms(2) by (auto simp: rank_less_def rank_def)
qed

subsection \<open>What a step of the queue pushes\<close>

text \<open>
  For a command whose payloads the parser settles: from some fuel on, the step has one result,
  keeps the bound on tail words, and pushes only commands of smaller rank.
\<close>

definition settles :: "parser \<Rightarrow> string \<Rightarrow> bool" where
  "settles parse src \<longleftrightarrow>
     (\<exists>n r. (\<forall>m \<ge> n. parseWith m parse src = Some r) \<and>
            (\<forall>cmds. r = Parsed cmds \<longrightarrow> (\<forall>cmd \<in> set cmds. tail_bound (length src) cmd)))"

definition good_step :: "parser \<Rightarrow> (nat \<Rightarrow> policy_result) \<Rightarrow> nat \<Rightarrow> parsed_command \<Rightarrow> bool" where
  "good_step parse step L cmd \<longleftrightarrow>
     (\<exists>n c pushed. (\<forall>m \<ge> n. step m = Some (c, pushed)) \<and> tail_bound L c \<and>
        (\<forall>q \<in> set pushed. tail_bound L q \<and> (rank q, rank cmd) \<in> rank_less))"

lemma good_step_const:
  assumes "tail_bound L c" "\<forall>q \<in> set pushed. tail_bound L q \<and> (rank q, rank cmd) \<in> rank_less"
  shows "good_step parse (\<lambda>m. Some (c, pushed)) L cmd"
  using assms by (auto simp: good_step_def)

lemma good_step_updates:
  assumes "tail_bound L cmd"
  shows "good_step parse (\<lambda>m. keep cmd) L cmd0"
    and "good_step parse (\<lambda>m. with_ask cmd r) L cmd0"
    and "good_step parse (\<lambda>m. with_opaque cmd r) L cmd0"
    and "good_step parse (\<lambda>m. keep (cmd\<lparr>pc_injection := i\<rparr>)) L cmd0"
  using assms
  by (auto simp: keep_def with_ask_def with_opaque_def tail_bound_def intro!: good_step_const)

lemma good_step_reparse:
  assumes "tail_bound L cmd" "w \<in> set (tl (pc_argv cmd))" "settles parse w"
  shows "good_step parse (\<lambda>m. reparse_payload (parseWith m parse) cmd w) L cmd"
proof -
  from assms(3) obtain n r where n: "\<forall>m \<ge> n. parseWith m parse w = Some r"
    and b: "\<forall>cmds. r = Parsed cmds \<longrightarrow> (\<forall>c \<in> set cmds. tail_bound (length w) c)"
    by (auto simp: settles_def)
  have wL: "length w < L" using assms(1,2) by (simp add: tail_bound_def)
  show ?thesis
  proof (cases r)
    case (Parsed cmds)
    have "\<forall>q \<in> set cmds. tail_bound L q \<and> (rank q, rank cmd) \<in> rank_less"
      using b Parsed rank_below_payload [OF assms(2)] tail_bound_mono [OF _ less_imp_le [OF wL]] by blast
    then show ?thesis
      unfolding good_step_def using n Parsed assms(1)
      by (intro exI [of _ n] exI [of _ cmd] exI [of _ cmds]) (simp add: reparse_payload_def)
  next
    case NotParsed
    then show ?thesis
      unfolding good_step_def using n assms(1)
      by (intro exI [of _ n] exI [of _ "cmd\<lparr>pc_ask := Some ''unparseable command''\<rparr>"] exI [of _ "[]"])
         (simp add: reparse_payload_def with_ask_def tail_bound_def)
  next
    case ParserUnavailable
    then show ?thesis
      unfolding good_step_def using n assms(1)
      by (intro exI [of _ n] exI [of _ "cmd\<lparr>pc_ask := Some ''parser-unavailable''\<rparr>"] exI [of _ "[]"])
         (simp add: reparse_payload_def with_ask_def tail_bound_def)
  qed
qed

lemma good_step_if:
  "(b \<Longrightarrow> good_step parse f L cmd) \<Longrightarrow> (\<not> b \<Longrightarrow> good_step parse g L cmd) \<Longrightarrow>
     good_step parse (\<lambda>m. if b then f m else g m) L cmd"
  by (cases b) simp_all

lemma good_step_option:
  "(x = None \<Longrightarrow> good_step parse f L cmd) \<Longrightarrow> (\<And>y. x = Some y \<Longrightarrow> good_step parse (g y) L cmd) \<Longrightarrow>
     good_step parse (\<lambda>m. case x of None \<Rightarrow> f m | Some y \<Rightarrow> g y m) L cmd"
  by (cases x) simp_all

lemmas good_step_intros = good_step_if good_step_option

lemma c_payload_mem: "c_payload ws = Some p \<Longrightarrow> p \<noteq> [] \<Longrightarrow> p \<in> set ws"
  by (induction ws) (auto split: if_splits list.splits)

lemma word_at_index_tl: "word_at_index argv (Suc i) = Some w \<Longrightarrow> w \<in> set (tl argv)"
  by (cases argv) (auto simp: word_at_index_def split: if_splits)

lemma payload_push:
  assumes "tail_bound L cmd" "set words \<subseteq> set (tl (pc_argv cmd))" "length words < length (pc_argv cmd)"
  shows "tail_bound L (payload_command words) \<and> (rank (payload_command words), rank cmd) \<in> rank_less"
proof -
  have a: "pc_argv (payload_command words) = words" by (simp add: payload_command_def bare_command_def)
  then have "tail_bound L (payload_command words)"
    using assms(1,2) set_tl_subset [of words] by (auto simp: tail_bound_def)
  moreover have "(rank (payload_command words), rank cmd) \<in> rank_less"
    by (rule rank_below_words) (use assms(2,3) a in simp_all)
  ultimately show ?thesis by blast
qed

lemma good_executor:
  assumes "tail_bound L cmd" "\<forall>w \<in> set (tl (pc_argv cmd)). settles parse w"
  shows "good_step parse (\<lambda>m. executorPolicy cmd base (parseWith m parse)) L cmd"
  unfolding executorPolicy_def Let_def
  by (intro good_step_intros good_step_updates good_step_reparse assms)
     (use assms(2) c_payload_mem in \<open>auto split: if_splits\<close>)

lemma good_eval:
  assumes "tail_bound L cmd" "\<forall>w \<in> set (tl (pc_argv cmd)). settles parse w"
  shows "good_step parse (\<lambda>m. evalPolicy cmd (parseWith m parse)) L cmd"
    and "good_step parse (\<lambda>m. trapPolicy cmd (parseWith m parse)) L cmd"
proof -
  have "w \<in> set (tl (pc_argv cmd))" if "word_at_index (pc_argv cmd) 1 = Some w" for w
    using word_at_index_tl [of _ 0] that by simp
  moreover have "w \<in> set (tl (pc_argv cmd))" if "word_at_index (pc_argv cmd) 2 = Some w" for w
    using word_at_index_tl [of _ 1] that by (simp add: numeral_2_eq_2)
  ultimately show "good_step parse (\<lambda>m. evalPolicy cmd (parseWith m parse)) L cmd"
    "good_step parse (\<lambda>m. trapPolicy cmd (parseWith m parse)) L cmd"
    unfolding evalPolicy_def trapPolicy_def
    by (intro good_step_intros good_step_updates good_step_reparse assms;
        use assms(2) in \<open>auto split: if_splits\<close>)+
qed

lemma good_payload:
  assumes "tail_bound L cmd" "pc_argv cmd \<noteq> []"
  shows "good_step parse (\<lambda>m. payloadPolicy cmd base) L cmd"
    and "good_step parse (\<lambda>m. findExecPolicy cmd) L cmd"
proof -
  have short: "length ws \<le> length (tl (pc_argv cmd)) \<Longrightarrow> length ws < length (pc_argv cmd)" for ws :: "string list"
    using assms(2) by (cases "pc_argv cmd") auto
  show "good_step parse (\<lambda>m. payloadPolicy cmd base) L cmd"
  proof (cases "scan_carrier (tl (pc_argv cmd)) base")
    case (Some words)
    then have "tail_bound L (payload_command words) \<and> (rank (payload_command words), rank cmd) \<in> rank_less"
      using scan_carrier_suffix [OF Some] short by (intro payload_push [OF assms(1)]) auto
    then show ?thesis
      using Some good_step_updates [OF assms(1)] assms(1)
      by (auto simp: payloadPolicy_def split: list.splits intro!: good_step_const)
  qed (use good_step_updates [OF assms(1)] in \<open>simp add: payloadPolicy_def\<close>)
  have "\<forall>q \<in> set (map payload_command (filter (\<lambda>p. p \<noteq> []) (find_payloads (tl (pc_argv cmd))))).
      tail_bound L q \<and> (rank q, rank cmd) \<in> rank_less"
  proof
    fix q assume "q \<in> set (map payload_command (filter (\<lambda>p. p \<noteq> []) (find_payloads (tl (pc_argv cmd)))))"
    then obtain p where p: "p \<in> set (find_payloads (tl (pc_argv cmd)))" "q = payload_command p" by auto
    have "set p \<subseteq> set (tl (pc_argv cmd))" "length p < length (pc_argv cmd)"
      using find_payloads_subset [OF p(1)] short by blast+
    then show "tail_bound L q \<and> (rank q, rank cmd) \<in> rank_less"
      unfolding p(2) by (rule payload_push [OF assms(1)])
  qed
  then show "good_step parse (\<lambda>m. findExecPolicy cmd) L cmd"
    unfolding findExecPolicy_def Let_def
    by (intro good_step_const) (use assms(1) in \<open>simp_all add: tail_bound_def\<close>)
qed

lemma good_special:
  assumes "tail_bound L cmd" "pc_argv cmd \<noteq> []" "\<forall>w \<in> set (tl (pc_argv cmd)). settles parse w"
  shows "good_step parse (\<lambda>m. specialPolicy cmd base (parseWith m parse)) L cmd"
  unfolding specialPolicy_def runnerPolicy_def
  by (intro good_step_intros good_step_updates good_executor good_eval good_payload assms)

lemma good_policy:
  "tail_bound L cmd \<Longrightarrow> \<forall>w \<in> set (tl (pc_argv cmd)). settles parse w \<Longrightarrow>
     good_step parse (\<lambda>m. policyOf (parseWith m parse) cmd) L cmd"
proof (induction "length (pc_argv cmd)" arbitrary: cmd rule: less_induct)
  case less
  show ?case
  proof (cases "pc_argv cmd = []")
    case True
    then show ?thesis
      using good_step_updates(1) [OF less.prems(1)] by (subst policyOf.simps) simp
  next
    case False
    let ?base = "basenameOf (head_word cmd)"
    have unfold: "policyOf reparse cmd =
        (case stripWrapper (pc_argv cmd) ?base of
             Stripped argv envPrefix \<Rightarrow>
               if argv = [] \<or> hd argv \<in> set JUNK
               then with_ask (cmd\<lparr>pc_argv := argv\<rparr>) (''wrapper:'' @ ?base)
               else policyOf reparse
                      (cmd\<lparr>pc_argv := argv,
                           pc_assignmentPrefix := (envPrefix \<or> pc_assignmentPrefix cmd)\<rparr>)
           | StripFail \<Rightarrow> with_ask cmd (''wrapper:'' @ ?base)
           | StripOpaque reason \<Rightarrow> with_opaque cmd reason
           | StripNone \<Rightarrow> specialPolicy cmd ?base reparse)" for reparse
      by (subst policyOf.simps) (simp add: False Let_def)
    show ?thesis
    proof (cases "stripWrapper (pc_argv cmd) ?base")
      case StripNone
      then show ?thesis
        unfolding unfold using good_special [OF less.prems(1) False less.prems(2)] by simp
    next
      case (Stripped argv e)
      note sub = stripWrapper_suffix [OF Stripped] and short = stripWrapper_shorter [OF Stripped False]
      have tb: "tail_bound L (cmd\<lparr>pc_argv := argv\<rparr>)"
        using sub set_tl_subset [of argv] less.prems(1) by (auto simp: tail_bound_def)
      show ?thesis
      proof (cases "argv = [] \<or> hd argv \<in> set JUNK")
        case True
        then show ?thesis
          unfolding unfold using Stripped good_step_updates(2) [OF tb] by simp
      next
        case go: False
        let ?c = "cmd\<lparr>pc_argv := argv, pc_assignmentPrefix := (e \<or> pc_assignmentPrefix cmd)\<rparr>"
        have "good_step parse (\<lambda>m. policyOf (parseWith m parse) ?c) L ?c"
          using less.hyps [of ?c] short tb less.prems(2) sub set_tl_subset [of argv]
          by (auto simp: tail_bound_def)
        moreover have "(rank ?c, rank cmd) \<in> rank_less"
          using sub short by (intro rank_below_words) simp_all
        ultimately have "good_step parse (\<lambda>m. policyOf (parseWith m parse) ?c) L cmd"
          unfolding good_step_def using trans_rank [unfolded trans_def] by meson
        then show ?thesis unfolding unfold using Stripped go by simp
      qed
    next
      case StripFail
      then show ?thesis unfolding unfold using good_step_updates(2) [OF less.prems(1)] by simp
    next
      case (StripOpaque r)
      then show ?thesis unfolding unfold using good_step_updates(3) [OF less.prems(1)] by simp
    qed
  qed
qed

subsection \<open>The queue ends\<close>

lemma queue_smaller:
  assumes "\<forall>q \<in> set pushed. (rank q, rank cmd) \<in> rank_less"
  shows "(image_mset rank (mset (queue @ pushed)), image_mset rank (mset (cmd # queue))) \<in> mult rank_less"
proof -
  have "(image_mset rank (mset queue) + image_mset rank (mset pushed),
      image_mset rank (mset queue) + {#rank cmd#}) \<in> mult rank_less"
    by (rule one_step_implies_mult) (use assms in auto)
  then show ?thesis by simp
qed

lemma queue_settles:
  assumes "\<forall>w. length w < L \<longrightarrow> settles parse w"
  shows "\<forall>cmd \<in> set queue. tail_bound L cmd \<Longrightarrow>
    \<exists>n out. (\<forall>k \<ge> n. \<forall>m \<ge> n. applyCommandPolicy k (parseWith m parse) queue = Some out) \<and>
      (\<forall>cmd \<in> set out. tail_bound L cmd)"
proof (induction "image_mset rank (mset queue)" arbitrary: queue rule: wf_induct_rule [OF wf_mult [OF wf_rank]])
  case 1
  show ?case
  proof (cases queue)
    case Nil
    then show ?thesis by (intro exI [of _ 0] exI [of _ "[]"]) simp
  next
    case (Cons cmd rest)
    have b: "tail_bound L cmd" using 1(2) Cons by simp
    have "\<forall>w \<in> set (tl (pc_argv cmd)). settles parse w"
      using b assms by (simp add: tail_bound_def)
    from good_policy [OF b this] obtain n1 c pushed where step:
      "\<forall>m \<ge> n1. policyOf (parseWith m parse) cmd = Some (c, pushed)" "tail_bound L c"
      "\<forall>q \<in> set pushed. tail_bound L q \<and> (rank q, rank cmd) \<in> rank_less"
      by (auto simp: good_step_def)
    have "\<exists>n out. (\<forall>k \<ge> n. \<forall>m \<ge> n. applyCommandPolicy k (parseWith m parse) (rest @ pushed) = Some out) \<and>
        (\<forall>cmd \<in> set out. tail_bound L cmd)"
    proof (rule 1(1))
      show "(image_mset rank (mset (rest @ pushed)), image_mset rank (mset queue)) \<in> mult rank_less"
        unfolding Cons by (rule queue_smaller) (use step(3) in blast)
      show "\<forall>cmd \<in> set (rest @ pushed). tail_bound L cmd" using 1(2) Cons step(3) by auto
    qed
    then obtain n2 out where rec:
      "\<forall>k \<ge> n2. \<forall>m \<ge> n2. applyCommandPolicy k (parseWith m parse) (rest @ pushed) = Some out"
      "\<forall>cmd \<in> set out. tail_bound L cmd" by blast
    have "applyCommandPolicy k (parseWith m parse) queue = Some (c # out)"
      if "k \<ge> Suc (max n1 n2)" "m \<ge> Suc (max n1 n2)" for k m
    proof -
      obtain k' where "k = Suc k'" "k' \<ge> n2" using \<open>k \<ge> Suc (max n1 n2)\<close> by (cases k) auto
      then show ?thesis using Cons step(1) rec(1) \<open>m \<ge> Suc (max n1 n2)\<close> by simp
    qed
    then show ?thesis using rec(2) step(2)
      by (intro exI [of _ "Suc (max n1 n2)"] exI [of _ "c # out"]) simp
  qed
qed

lemma parse_settles:
  assumes "words_shrink parse"
  shows "settles parse src"
proof (induction "length src" arbitrary: src rule: less_induct)
  case less
  show ?case
  proof (cases "\<exists>root cmds. parse src = Some root \<and> \<not> n_hasError root \<and> walkStatement root EMPTY_CTX = Some cmds")
    case True
    then obtain root cmds where r: "parse src = Some root" "\<not> n_hasError root"
      "walkStatement root EMPTY_CTX = Some cmds" by blast
    then have "\<forall>cmd \<in> set cmds. tail_bound (length src) cmd"
      using assms by (simp add: words_shrink_def)
    from queue_settles [OF _ this] less obtain n out where
      q: "\<forall>k \<ge> n. \<forall>m \<ge> n. applyCommandPolicy k (parseWith m parse) cmds = Some out"
      and b: "\<forall>cmd \<in> set out. tail_bound (length src) cmd" by blast
    have "parseWith m parse src = Some (Parsed out)" if "m \<ge> Suc n" for m
      using that q r by (cases m) simp_all
    then show ?thesis using b unfolding settles_def by (intro exI [of _ "Suc n"] exI [of _ "Parsed out"]) simp
  next
    case False
    have "parseWith m parse src = Some NotParsed" if "m \<ge> 1" for m
      using that False by (cases m) (auto split: option.splits)
    then show ?thesis unfolding settles_def by (intro exI [of _ 1] exI [of _ NotParsed]) simp
  qed
qed


definition ls_parser :: parser where
  "ls_parser src = (if src = ''ls'' then Some (simple_command ''ls'') else None)"


subsection \<open>No wrapper is left\<close>

definition wrapper_name :: "string \<Rightarrow> bool" where
  "wrapper_name base \<longleftrightarrow> base = ''env'' \<or> base = ''nohup'' \<or> base = ''time''"

definition sees_through :: "parsed_command \<Rightarrow> bool" where
  "sees_through c \<longleftrightarrow> pc_ask c \<noteq> None \<or> pc_opaque c \<noteq> None \<or> \<not> wrapper_name (basenameOf (head_word c))"

definition keeps_argv :: "parsed_command \<Rightarrow> policy_result \<Rightarrow> bool" where
  "keeps_argv cmd r \<longleftrightarrow> (\<forall>c q. r = Some (c, q) \<longrightarrow> pc_argv c = pc_argv cmd)"

lemma keeps_argv_intros:
  "keeps_argv cmd (keep cmd)" "keeps_argv cmd (with_ask cmd r)" "keeps_argv cmd (with_opaque cmd r)"
  "keeps_argv cmd (keep (cmd\<lparr>pc_injection := i\<rparr>))" "keeps_argv cmd (Some (cmd, qs))"
  "keeps_argv cmd (reparse_payload reparse cmd w)"
  "(b \<Longrightarrow> keeps_argv cmd f) \<Longrightarrow> (\<not> b \<Longrightarrow> keeps_argv cmd g) \<Longrightarrow> keeps_argv cmd (if b then f else g)"
  "keeps_argv cmd h \<Longrightarrow> (\<And>y. keeps_argv cmd (k y)) \<Longrightarrow>
     keeps_argv cmd (case x of None \<Rightarrow> h | Some y \<Rightarrow> k y)"
  "keeps_argv cmd t \<Longrightarrow> (\<And>w ws. keeps_argv cmd (u w ws)) \<Longrightarrow>
     keeps_argv cmd (case l of [] \<Rightarrow> t | w # ws \<Rightarrow> u w ws)"
  by (auto simp: keeps_argv_def keep_def with_ask_def with_opaque_def reparse_payload_def
      split: option.splits bash_parse.splits list.splits)

lemma keeps_argv_find: "keeps_argv cmd (findExecPolicy cmd)"
  by (simp add: keeps_argv_def findExecPolicy_def Let_def)

lemma keeps_argv_special: "keeps_argv cmd (specialPolicy cmd base reparse)"
  unfolding specialPolicy_def runnerPolicy_def executorPolicy_def evalPolicy_def trapPolicy_def
    payloadPolicy_def Let_def
  by (intro keeps_argv_intros keeps_argv_find)

lemma special_head: "specialPolicy cmd base reparse = Some (c, q) \<Longrightarrow> pc_argv c = pc_argv cmd"
  using keeps_argv_special [of cmd base reparse] by (auto simp: keeps_argv_def)

lemma stripNone_name: "stripWrapper argv base = StripNone \<Longrightarrow> \<not> wrapper_name base"
proof -
  have "strip_env ws e \<noteq> StripNone" for ws e
    by (induction ws e rule: strip_env.induct) auto
  then show "stripWrapper argv base = StripNone \<Longrightarrow> \<not> wrapper_name base"
    by (auto simp: stripWrapper_def wrapper_name_def split: if_splits)
qed

lemma policy_sees_through:
  "policyOf reparse cmd = Some (c, q) \<Longrightarrow> sees_through c"
proof (induction reparse cmd rule: policyOf.induct)
  case (1 reparse cmd)
  let ?base = "basenameOf (head_word cmd)"
  show ?case
  proof (cases "pc_argv cmd = []")
    case True
    have "basenameOf [] = []" by (simp add: basenameOf_def)
    then show ?thesis
      using 1(2) True by (simp add: policyOf.simps keep_def sees_through_def head_word_def wrapper_name_def)
  next
    case False
    note p = 1(2) [unfolded policyOf.simps [of reparse cmd] Let_def, simplified False if_False]
    show ?thesis
    proof (cases "stripWrapper (pc_argv cmd) ?base")
      case StripNone
      then have "pc_argv c = pc_argv cmd" using p special_head by simp
      then show ?thesis using stripNone_name [OF StripNone] by (simp add: sees_through_def head_word_def)
    next
      case (Stripped argv e)
      show ?thesis
      proof (cases "argv = [] \<or> hd argv \<in> set JUNK")
        case True
        then show ?thesis using p Stripped by (auto simp: with_ask_def sees_through_def)
      next
        case go: False
        show ?thesis by (rule 1(1) [OF False refl Stripped go]) (use p Stripped go in simp)
      qed
    next
      case StripFail
      then show ?thesis using p by (auto simp: with_ask_def sees_through_def)
    next
      case (StripOpaque r)
      then show ?thesis using p by (auto simp: with_opaque_def sees_through_def)
    qed
  qed
qed

lemma apply_sees_through:
  "applyCommandPolicy fuel reparse queue = Some out \<Longrightarrow> \<forall>c \<in> set out. sees_through c"
proof (induction fuel reparse queue arbitrary: out rule: applyCommandPolicy.induct)
  case (3 fuel reparse cmd queue)
  then obtain c pushed out' where "policyOf reparse cmd = Some (c, pushed)"
    "applyCommandPolicy fuel reparse (queue @ pushed) = Some out'" "out = c # out'"
    by (auto split: option.splits)
  then show ?case using 3(1) policy_sees_through by fastforce
qed simp_all


definition env_parser :: parser where
  "env_parser src =
     Some (Node ''command'' True ''env -Z'' False
             [Node ''command_name'' True ''env'' False [leaf ''word'' ''env''], leaf ''word'' ''-Z''])"


end
