(* ===== verification/PermSensitive.thy ===== *)
theory PermSensitive
  imports BashPolicy
begin

text \<open>
  The paths that are protected whatever the rules say: the baseline (\<open>baseline.ts\<close>) and the
  search for a protected path in the words of a command (\<open>sensitive.ts\<close>). Also
  \<open>memoryBlocked\<close>, the patterns that may not become a remembered rule.
\<close>

subsection \<open>baseline.ts\<close>

record baseline_policy =
  bl_denyRead :: "string list option"
  bl_denyReadOutside :: "string list option"
  bl_denyWrite :: "string list option"

record baseline =
  bs_denyRead :: "string list"
  bs_denyReadOutside :: "string list"
  bs_denyWrite :: "string list"

definition DEFAULT_BASELINE :: baseline where
  "DEFAULT_BASELINE =
     \<lparr>bs_denyRead = [''~/.ssh/**'', ''~/.aws/**'', ''~/.gcp/**''],
      bs_denyReadOutside = [''/**/.env'', ''/**/.env.*'', ''/**/.envrc''],
      bs_denyWrite = [''/**/.git/**'']\<rparr>"

definition baselineOf :: "baseline_policy option \<Rightarrow> baseline" where
  "baselineOf host =
     (case host of
        None \<Rightarrow> DEFAULT_BASELINE
      | Some h \<Rightarrow>
          \<lparr>bs_denyRead = coalesce (bl_denyRead h) (bs_denyRead DEFAULT_BASELINE),
           bs_denyReadOutside = coalesce (bl_denyReadOutside h) (bs_denyReadOutside DEFAULT_BASELINE),
           bs_denyWrite = coalesce (bl_denyWrite h) (bs_denyWrite DEFAULT_BASELINE)\<rparr>)"

definition MEMORY_BLOCKED_HEADS :: "string list" where
  "MEMORY_BLOCKED_HEADS =
     [''sudo'', ''doas'', ''su'', ''pkexec'', ''sudoedit'', ''gsudo'',
      ''rm'', ''mkfs'', ''dd'', ''chmod'', ''chown'',
      ''sh'', ''bash'', ''zsh'', ''dash'', ''ksh'', ''ash'', ''node'', ''bun'', ''deno'', ''python'',
      ''python3'', ''perl'', ''ruby'', ''php'', ''osascript'',
      ''env'', ''nohup'', ''time'', ''exec'', ''eval'', ''source'', ''.'', ''xargs'', ''awk'', ''sed'', ''trap'']"

definition default_deny :: "rule_tool \<Rightarrow> bool \<Rightarrow> string \<Rightarrow> permission_rule" where
  "default_deny tool outside pattern =
     \<lparr>r_tool = tool, r_pattern = pattern, r_verdict = Deny, r_origin = OriginDefault,
      r_nature = None, r_outsideRoots = outside, r_at = None\<rparr>"

definition baselineDenyRules :: "bool \<Rightarrow> baseline_policy option \<Rightarrow> permission_rule list" where
  "baselineDenyRules unrestricted host =
     (let policy = baselineOf host;
          denyRead = map (default_deny ReadTool False) (bs_denyRead policy) @
                     map (default_deny ReadTool True) (bs_denyReadOutside policy)
      in if unrestricted then denyRead
         else denyRead @ map (default_deny WriteTool False) (bs_denyWrite policy))"

definition memoryBlocked :: "host_env \<Rightarrow> string \<Rightarrow> bool" where
  "memoryBlocked env pattern =
     (let body = (if endsWith pattern '':*'' then take (length pattern - 2) pattern else pattern)
      in case space_tokens (trim body) of
           [] \<Rightarrow> True
         | head # _ \<Rightarrow>
             if head = ''*'' then True
             else let folded = fold_case env (basenameOf head)
                  in folded \<in> set MEMORY_BLOCKED_HEADS \<or> python_digit folded)"

subsection \<open>sensitive.ts\<close>

record deny_tables =
  dt_protectedWrite :: "string list"
  dt_denyRead :: "string list"
  dt_denyWrite :: "string list"
  dt_denyReadOutside :: "string list option"
  dt_allowRoots :: "string list option"

datatype sensitive_kind = DenyReadHit | ProtectWriteHit

fun sensitive_text :: "sensitive_kind \<Rightarrow> string" where
  "sensitive_text DenyReadHit = ''deny-read''"
| "sensitive_text ProtectWriteHit = ''protect-write''"

definition protectGlobMatch :: "host_env \<Rightarrow> string \<Rightarrow> path \<Rightarrow> path \<Rightarrow> bool" where
  "protectGlobMatch env pattern p root =
     (globMatch env pattern p root \<or> globMatch env (dir_pattern pattern) p root)"

definition user_char :: "char \<Rightarrow> bool" where
  \<comment> \<open>\<open>[A-Za-z0-9_.-]\<close>\<close>
  "user_char c = (is_word c \<or> c = CHR ''.'' \<or> c = CHR ''-'')"

fun tilde_user :: "string \<Rightarrow> bool" where
  \<comment> \<open>\<open>/^~[A-Za-z0-9_.-]/\<close>: the home directory of some user\<close>
  "tilde_user (t # c # _) = (t = CHR ''~'' \<and> user_char c)"
| "tilde_user _ = False"

definition candidatePaths :: "host_env \<Rightarrow> string \<Rightarrow> path \<Rightarrow> path list" where
  "candidatePaths env word root =
     (if word = ''~'' then [home_dir env]
      else if startsWith word ''~/'' then [resolve env [home_dir env, drop 2 word]]
      else if tilde_user word then []
      else if startsWith word ''/'' then [resolve env [word]]
      else [resolve env [root, word]])"

definition denyReadHit :: "host_env \<Rightarrow> deny_tables \<Rightarrow> path \<Rightarrow> path \<Rightarrow> string option" where
  "denyReadHit env tables p root =
     (case List.find (\<lambda>pattern. globMatch env pattern p root) (dt_denyRead tables) of
        Some hit \<Rightarrow> Some hit
      | None \<Rightarrow>
          (case dt_denyReadOutside tables of
             None \<Rightarrow> None
           | Some outside \<Rightarrow>
               (case List.find (\<lambda>pattern. globMatch env pattern p root) outside of
                  None \<Rightarrow> None
                | Some conditional \<Rightarrow>
                    (case dt_allowRoots tables of
                       Some roots \<Rightarrow> if withinAny p roots then None else Some conditional
                     | None \<Rightarrow> Some conditional))))"

definition cwdAfter :: "host_env \<Rightarrow> parsed_command \<Rightarrow> path \<Rightarrow> path" where
  "cwdAfter env cmd cwd =
     (case pc_argv cmd of
        w # target # _ \<Rightarrow>
          if w \<noteq> ''cd'' then cwd
          else if target = [] then cwd
          else if DYNAMIC_TEXT target then cwd
          else if target = ''~'' then home_dir env
          else if startsWith target ''~/'' then resolve env [home_dir env, drop 2 target]
          else if startsWith target ''/'' then resolve env [target]
          else resolve env [cwd, target]
      | _ \<Rightarrow> cwd)"

definition flag_value :: "string \<Rightarrow> string option" where
  \<comment> \<open>the part of a word that may name a path: all of it, or what follows the \<open>=\<close> of an option\<close>
  "flag_value raw =
     (if raw = [] then None
      else if startsWith raw ''-'' then
        (let body = dropWhile (\<lambda>c. c = CHR ''-'') raw
         in case index_in body ''='' of None \<Rightarrow> None | Some eq \<Rightarrow> Some (drop (Suc eq) body))
      else Some raw)"

definition path_hit ::
  "host_env \<Rightarrow> deny_tables \<Rightarrow> path \<Rightarrow> path \<Rightarrow> (sensitive_kind \<times> string) option" where
  "path_hit env tables root p =
     (case denyReadHit env tables p root of
        Some pattern \<Rightarrow> Some (DenyReadHit, pattern)
      | None \<Rightarrow>
          map_option (Pair ProtectWriteHit)
            (List.find (\<lambda>pattern. protectGlobMatch env pattern p root)
               (dt_denyWrite tables @ dt_protectedWrite tables)))"

definition word_hit ::
  "host_env \<Rightarrow> deny_tables \<Rightarrow> path \<Rightarrow> string \<Rightarrow> (sensitive_kind \<times> string) option" where
  "word_hit env tables root raw =
     (case flag_value raw of
        None \<Rightarrow> None
      | Some w \<Rightarrow>
          let word = (if startsWith w ''@'' then tl w else w)
          in if word = [] then None
             else if tilde_user word then Some (DenyReadHit, word)
             else first_some (path_hit env tables root) (candidatePaths env word root))"

definition dev_null :: string where
  "dev_null = ''/dev/null''"

definition redirect_targets :: "parsed_command \<Rightarrow> string list" where
  "redirect_targets cmd =
     filter (\<lambda>t. t \<noteq> dev_null) (List.map_filter rd_target (pc_redirects cmd))"

definition commandSensitiveHit ::
  "host_env \<Rightarrow> parsed_command \<Rightarrow> path \<Rightarrow> deny_tables \<Rightarrow> (sensitive_kind \<times> string) option" where
  "commandSensitiveHit env cmd root tables =
     first_some (word_hit env tables root) (tl (pc_argv cmd) @ redirect_targets cmd)"

fun argvSensitiveHit ::
  "host_env \<Rightarrow> parsed_command list \<Rightarrow> path \<Rightarrow> deny_tables \<Rightarrow> (sensitive_kind \<times> string) option" where
  "argvSensitiveHit env [] cwd tables = None"
| "argvSensitiveHit env (cmd # cmds) cwd tables =
     (case commandSensitiveHit env cmd cwd tables of
        Some hit \<Rightarrow> Some hit
      | None \<Rightarrow> argvSensitiveHit env cmds (cwdAfter env cmd cwd) tables)"

lemma argvSensitiveHit_single [simp]:
  "argvSensitiveHit env [cmd] cwd tables = commandSensitiveHit env cmd cwd tables"
  by (simp split: option.splits)

end
