(* ===== verification/PermFacts.thy ===== *)
theory PermFacts
  imports PermSensitive
begin

text \<open>
  The input of the bash pipeline, the deny tables computed from it (\<open>bash/tables.ts\<close>) and the
  facts a mode plugin decides on (\<open>facts.ts\<close>). A mode's \<open>decide\<close> and \<open>posture\<close> are functions of
  the facts; one that is absent is the function that returns \<open>None\<close>.
\<close>

datatype tool_kind = KindRead | KindWrite | KindDanger

datatype facts_face = FaceTool | FacePath | FaceBash

datatype parse_failure = FailedUnparseable | FailedUnavailable

record adjudication_facts =
  af_face :: facts_face
  af_tool :: string
  af_path :: "path option"
  af_pathAbsent :: bool
  af_kind :: "tool_kind option"
  af_root :: "path option"
  af_inRoot :: "bool option"
  af_parseFailed :: "parse_failure option"
  af_elevation :: bool
  af_segments :: "parsed_command list option"
  af_hardDenyKind :: "hard_deny_kind option"
  af_sensitiveHit :: "(sensitive_kind \<times> string) option"
  af_redirectReadDeny :: "string option"
  af_redirectUnresolvable :: bool
  af_hasOutputRedirect :: bool
  af_roots :: "path list option"

definition no_facts :: "facts_face \<Rightarrow> string \<Rightarrow> adjudication_facts" where
  "no_facts face tool =
     \<lparr>af_face = face, af_tool = tool, af_path = None, af_pathAbsent = False, af_kind = None,
      af_root = None, af_inRoot = None, af_parseFailed = None, af_elevation = False,
      af_segments = None, af_hardDenyKind = None, af_sensitiveHit = None, af_redirectReadDeny = None,
      af_redirectUnresolvable = False, af_hasOutputRedirect = False, af_roots = None\<rparr>"

type_synonym decider = "adjudication_facts \<Rightarrow> decision option"

record bash_input =
  bi_command :: string
  bi_rules :: "permission_rule list"
  bi_profile :: permission_profile
  bi_root :: path
  bi_extraRoots :: "path list"
  bi_fence :: "path list option"
  bi_protectedWrite :: "string list option"
  bi_parse :: "string \<Rightarrow> bash_parse"
  bi_modeDecide :: decider
  bi_postureDecide :: decider
  bi_denyRules :: "permission_rule list"
  bi_unrestricted :: bool
  bi_baseline :: "baseline_policy option"

definition writableRoots :: "host_env \<Rightarrow> bash_input \<Rightarrow> path list" where
  "writableRoots env input =
     map (\<lambda>p. resolve env [p]) (bi_root input # bi_extraRoots input @ coalesce (bi_fence input) [])"

subsection \<open>tables.ts\<close>

definition patterns_where :: "(permission_rule \<Rightarrow> bool) \<Rightarrow> bash_input \<Rightarrow> string list" where
  "patterns_where P input = map r_pattern (filter P (bi_denyRules input))"

definition denyReadPatternsOf :: "bash_input \<Rightarrow> string list" where
  "denyReadPatternsOf input =
     bs_denyRead (baselineOf (bi_baseline input)) @
     patterns_where (\<lambda>r. r_tool r = ReadTool \<and> \<not> r_outsideRoots r) input"

definition denyReadOutsidePatternsOf :: "bash_input \<Rightarrow> string list" where
  "denyReadOutsidePatternsOf input =
     bs_denyReadOutside (baselineOf (bi_baseline input)) @
     patterns_where (\<lambda>r. r_tool r = ReadTool \<and> r_outsideRoots r) input"

definition denyWritePatternsOf :: "bash_input \<Rightarrow> string list" where
  "denyWritePatternsOf input =
     bs_denyWrite (baselineOf (bi_baseline input)) @
     patterns_where (\<lambda>r. r_tool r = WriteTool) input"

definition denyTablesOf :: "host_env \<Rightarrow> bash_input \<Rightarrow> deny_tables" where
  "denyTablesOf env input =
     \<lparr>dt_protectedWrite = coalesce (bi_protectedWrite input) [],
      dt_denyRead = denyReadPatternsOf input,
      dt_denyWrite = denyWritePatternsOf input,
      dt_denyReadOutside = Some (denyReadOutsidePatternsOf input),
      dt_allowRoots = Some (writableRoots env input)\<rparr>"

definition denyReadHitOf :: "host_env \<Rightarrow> bash_input \<Rightarrow> path \<Rightarrow> string option" where
  "denyReadHitOf env input p = denyReadHit env (denyTablesOf env input) p (bi_root input)"

subsection \<open>facts.ts\<close>

definition targetOf :: "host_env \<Rightarrow> string \<Rightarrow> path \<Rightarrow> path option" where
  \<comment> \<open>\<open>targetOf\<close> of \<open>facts.ts\<close>, and \<open>targetPath\<close> of \<open>adjudicate.ts\<close>, which is the same\<close>
  "targetOf env target root =
     (if target = ''~'' then Some (home_dir env)
      else if startsWith target ''~/'' then Some (resolve env [home_dir env, drop 2 target])
      else if tilde_user target then None
      else Some (resolve env [root, target]))"

record segment_facts =
  sf_hardDenyKind :: "hard_deny_kind option"
  sf_sensitiveHit :: "(sensitive_kind \<times> string) option"
  sf_redirectReadDeny :: "string option"
  sf_redirectUnresolvable :: bool
  sf_hasOutputRedirect :: bool

definition no_segment_facts :: segment_facts where
  "no_segment_facts =
     \<lparr>sf_hardDenyKind = None, sf_sensitiveHit = None, sf_redirectReadDeny = None,
      sf_redirectUnresolvable = False, sf_hasOutputRedirect = False\<rparr>"

definition command_hard_deny :: "host_env \<Rightarrow> parsed_command \<Rightarrow> hard_deny_kind option" where
  \<comment> \<open>the first two statements on \<open>hardDenyKind\<close> in \<open>verbFactsOf\<close>\<close>
  "command_hard_deny env cmd =
     (case hardDeny env (pc_argv cmd) of
        Some kind \<Rightarrow> Some kind
      | None \<Rightarrow>
          if pc_ask cmd = Some ''hard-deny:sudo'' \<or> list_ex (rx_test ELEVATION_TEXT) (pc_argv cmd)
          then Some Sudo else None)"

definition verbFactsOf ::
  "host_env \<Rightarrow> bash_input \<Rightarrow> path \<Rightarrow> parsed_command \<Rightarrow> segment_facts \<Rightarrow> segment_facts" where
  "verbFactsOf env input cwd cmd out =
     (if pc_argv cmd = [] then out
      else out\<lparr>sf_hardDenyKind := or_else (sf_hardDenyKind out) (command_hard_deny env cmd),
               sf_sensitiveHit := or_else (sf_sensitiveHit out)
                 (argvSensitiveHit env [cmd] cwd (denyTablesOf env input))\<rparr>)"

definition redirect_fact ::
  "host_env \<Rightarrow> bash_input \<Rightarrow> path \<Rightarrow> segment_facts \<Rightarrow> redirect \<Rightarrow> segment_facts" where
  "redirect_fact env input cwd out rd =
     (case rd_target rd of
        None \<Rightarrow> out
      | Some target \<Rightarrow>
          if target = dev_null then out
          else if rd_face rd = OutputFace then out\<lparr>sf_hasOutputRedirect := True\<rparr>
          else (case targetOf env target cwd of
                  None \<Rightarrow> out\<lparr>sf_redirectUnresolvable := True\<rparr>
                | Some p \<Rightarrow>
                    out\<lparr>sf_redirectReadDeny := or_else (sf_redirectReadDeny out) (denyReadHitOf env input p)\<rparr>))"

definition redirectFactsOf ::
  "host_env \<Rightarrow> bash_input \<Rightarrow> path \<Rightarrow> parsed_command \<Rightarrow> segment_facts \<Rightarrow> segment_facts" where
  "redirectFactsOf env input cwd cmd out = foldl (redirect_fact env input cwd) out (pc_redirects cmd)"

fun collect_facts ::
  "host_env \<Rightarrow> bash_input \<Rightarrow> path \<Rightarrow> parsed_command list \<Rightarrow> segment_facts \<Rightarrow> segment_facts" where
  \<comment> \<open>the loop of \<open>collectSegmentFacts\<close>\<close>
  "collect_facts env input cwd [] out = out"
| "collect_facts env input cwd (cmd # cmds) out =
     collect_facts env input (cwdAfter env cmd cwd) cmds
       (redirectFactsOf env input cwd cmd (verbFactsOf env input cwd cmd out))"

definition collectSegmentFacts :: "host_env \<Rightarrow> bash_input \<Rightarrow> parsed_command list \<Rightarrow> segment_facts" where
  "collectSegmentFacts env input cmds = collect_facts env input (bi_root input) cmds no_segment_facts"

definition bashFactsOf :: "host_env \<Rightarrow> bash_input \<Rightarrow> adjudication_facts" where
  "bashFactsOf env input =
     (let base = (no_facts FaceBash ''bash'')\<lparr>af_kind := Some KindDanger\<rparr>
      in case bi_parse input (bi_command input) of
           ParserUnavailable \<Rightarrow> base\<lparr>af_parseFailed := Some FailedUnavailable, af_segments := Some []\<rparr>
         | NotParsed \<Rightarrow> base\<lparr>af_parseFailed := Some FailedUnparseable, af_segments := Some []\<rparr>
         | Parsed cmds \<Rightarrow>
             let seg = collectSegmentFacts env input cmds
             in base\<lparr>af_segments := Some cmds,
                     af_hardDenyKind := sf_hardDenyKind seg,
                     af_sensitiveHit := sf_sensitiveHit seg,
                     af_redirectReadDeny := sf_redirectReadDeny seg,
                     af_redirectUnresolvable := sf_redirectUnresolvable seg,
                     af_hasOutputRedirect := sf_hasOutputRedirect seg,
                     af_roots := Some (writableRoots env input),
                     af_elevation := (sf_hardDenyKind seg = Some Sudo)\<rparr>)"

subsection \<open>A hard denial is seen in any segment\<close>

lemma redirect_fact_hard [simp]: "sf_hardDenyKind (redirect_fact env input cwd out rd) = sf_hardDenyKind out"
  by (simp add: redirect_fact_def split: option.splits)

lemma redirectFactsOf_hard [simp]:
  "sf_hardDenyKind (redirectFactsOf env input cwd cmd out) = sf_hardDenyKind out"
proof -
  have "sf_hardDenyKind (foldl (redirect_fact env input cwd) out rds) = sf_hardDenyKind out" for rds
    by (induction rds arbitrary: out) simp_all
  then show ?thesis by (simp add: redirectFactsOf_def)
qed

lemma collect_facts_hard:
  "sf_hardDenyKind (collect_facts env input cwd cmds out) \<noteq> None \<longleftrightarrow>
     sf_hardDenyKind out \<noteq> None \<or>
     (\<exists>cmd \<in> set cmds. pc_argv cmd \<noteq> [] \<and> command_hard_deny env cmd \<noteq> None)"
proof (induction cmds arbitrary: cwd out)
  case (Cons cmd cmds)
  show ?case unfolding collect_facts.simps Cons.IH by (auto simp: verbFactsOf_def)
qed simp

lemma facts_hard_deny:
  assumes "bi_parse input (bi_command input) = Parsed cmds" "cmd \<in> set cmds" "hardDeny env (pc_argv cmd) \<noteq> None"
  shows "af_hardDenyKind (bashFactsOf env input) \<noteq> None"
proof -
  have "pc_argv cmd \<noteq> []" using assms(3) by (auto simp: hardDeny_def)
  then have "sf_hardDenyKind (collectSegmentFacts env input cmds) \<noteq> None"
    unfolding collectSegmentFacts_def collect_facts_hard
    using assms(2,3) by (auto simp: command_hard_deny_def split: option.splits intro!: bexI [of _ cmd])
  then show ?thesis using assms(1) by (simp add: bashFactsOf_def Let_def)
qed

lemma bashFactsOf_segments:
  "af_segments (bashFactsOf env input) =
     Some (case bi_parse input (bi_command input) of Parsed cmds \<Rightarrow> cmds | _ \<Rightarrow> [])"
  "af_parseFailed (bashFactsOf env input) = None \<longleftrightarrow>
     (\<exists>cmds. bi_parse input (bi_command input) = Parsed cmds)"
  by (auto simp: bashFactsOf_def Let_def no_facts_def split: bash_parse.splits)

end
