(* ===== verification/PermAdjudicate.thy ===== *)
theory PermAdjudicate
  imports PermFacts
begin

text \<open>
  The decision on one shell line (\<open>bash/adjudicate.ts\<close>): the sweep that comes before the mode,
  the mode's own decision with its floor, the decision command by command, and the tail with the
  remembered grants and the mode's posture. An adjudication is a \<open>decision\<close> without \<open>exec\<close> and
  \<open>grant\<close>.
\<close>

definition ELEVATION_WORD :: rx where
  \<comment> \<open>\<open>/\b(sudo|doas|su)\b/\<close>\<close>
  "ELEVATION_WORD =
     RSeq [RWordBoundary, RAny (map RLit [''sudo'', ''doas'', ''su'']), RWordBoundary]"

definition deny_reason :: "string \<Rightarrow> string \<Rightarrow> decision" where
  "deny_reason reason by = plain_decision Deny reason by"

definition ask_reason :: "string \<Rightarrow> string \<Rightarrow> decision" where
  "ask_reason reason by = plain_decision Ask reason by"

definition ask_memo :: "string \<Rightarrow> string \<Rightarrow> decision" where
  "ask_memo reason by = (plain_decision Ask reason by)\<lparr>d_memorizable := True\<rparr>"

definition rule_decision :: "verdict \<Rightarrow> string \<Rightarrow> permission_rule \<Rightarrow> decision" where
  \<comment> \<open>\<open>{ verdict, reason: `rule:${pattern}`, resolvedBy: `rule:${origin}` }\<close>, with the prefix as an argument\<close>
  "rule_decision v kind rule =
     plain_decision v (kind @ '':'' @ r_pattern rule) (kind @ '':'' @ origin_text (r_origin rule))"

lemmas decision_constructors = deny_reason_def ask_reason_def ask_memo_def rule_decision_def

subsection \<open>Rules on one command\<close>

definition denied_by :: "bash_input \<Rightarrow> parsed_command \<Rightarrow> permission_rule option" where
  "denied_by input cmd =
     List.find (\<lambda>r. r_verdict r = Deny) (bashRuleMatches (bi_rules input) (pc_argv cmd))"

definition asked_by :: "bash_input \<Rightarrow> parsed_command \<Rightarrow> permission_rule option" where
  "asked_by input cmd =
     List.find (\<lambda>r. r_verdict r = Ask \<and> \<not> is_grant r) (bashRuleMatches (bi_rules input) (pc_argv cmd))"

definition allowed_by :: "bash_input \<Rightarrow> parsed_command \<Rightarrow> permission_rule option" where
  "allowed_by input cmd =
     List.find (\<lambda>r. r_verdict r = Allow \<and> \<not> is_grant r) (bashRuleMatches (bi_rules input) (pc_argv cmd))"

definition exact_grant :: "bash_input \<Rightarrow> parsed_command \<Rightarrow> permission_rule option" where
  "exact_grant input cmd =
     List.find (\<lambda>r. r_verdict r = Allow \<and> is_grant r \<and> r_pattern r = pc_raw cmd) (bi_rules input)"

definition learned_by :: "bash_input \<Rightarrow> parsed_command \<Rightarrow> permission_rule option" where
  "learned_by input cmd =
     or_else
       (List.find (\<lambda>r. r_verdict r = Allow \<and> is_grant r) (bashRuleMatches (bi_rules input) (pc_argv cmd)))
       (exact_grant input cmd)"

subsection \<open>The sweep before the mode\<close>

definition sweep_redirect ::
  "host_env \<Rightarrow> bash_input \<Rightarrow> path \<Rightarrow> redirect \<Rightarrow> decision option" where
  \<comment> \<open>the body of the inner loop of \<open>redirectFloorOf\<close>\<close>
  "sweep_redirect env input cwd rd =
     (case rd_target rd of
        None \<Rightarrow> None
      | Some target \<Rightarrow>
          if target = dev_null then None
          else (case targetOf env target cwd of
                  None \<Rightarrow> None
                | Some p \<Rightarrow>
                    if rd_face rd = InputFace then
                      map_option (\<lambda>hit. deny_reason (''redirect-read:'' @ hit) ''redirect-read'')
                        (denyReadHitOf env input p)
                    else if bi_unrestricted input then None
                    else map_option (\<lambda>hit. deny_reason (''redirect-write:'' @ hit) ''redirect-write'')
                        (List.find (\<lambda>pattern. globMatch env pattern p (bi_root input))
                           (denyWritePatternsOf input))))"

fun redirectFloorOf :: "host_env \<Rightarrow> bash_input \<Rightarrow> path \<Rightarrow> parsed_command list \<Rightarrow> decision option" where
  "redirectFloorOf env input cwd [] = None"
| "redirectFloorOf env input cwd (cmd # cmds) =
     (case first_some (sweep_redirect env input cwd) (pc_redirects cmd) of
        Some d \<Rightarrow> Some d
      | None \<Rightarrow> redirectFloorOf env input (cwdAfter env cmd cwd) cmds)"

definition preModeSweep :: "host_env \<Rightarrow> parsed_command list \<Rightarrow> bash_input \<Rightarrow> decision option" where
  "preModeSweep env cmds input =
     (case first_some (\<lambda>cmd. if pc_argv cmd = [] then None
                             else map_option (rule_decision Deny ''rule'') (denied_by input cmd)) cmds of
        Some d \<Rightarrow> Some d
      | None \<Rightarrow>
          (case first_some (\<lambda>cmd. if pc_argv cmd = [] then None
                                  else map_option (rule_decision Ask ''ask-rule'') (asked_by input cmd)) cmds of
             Some d \<Rightarrow> Some d
           | None \<Rightarrow> redirectFloorOf env input (bi_root input) cmds))"

subsection \<open>The mode's decision and its floor\<close>

definition floor_tables :: "host_env \<Rightarrow> bash_input \<Rightarrow> deny_tables" where
  "floor_tables env input =
     (if bi_unrestricted input
      then (denyTablesOf env input)\<lparr>dt_protectedWrite := [], dt_denyWrite := []\<rparr>
      else denyTablesOf env input)"

definition sensitive_reason :: "sensitive_kind \<times> string \<Rightarrow> string" where
  "sensitive_reason hit = ''argv-sensitive:'' @ sensitive_text (fst hit) @ '':'' @ snd hit"

fun sensitive_floor :: "host_env \<Rightarrow> bash_input \<Rightarrow> path \<Rightarrow> parsed_command list \<Rightarrow> decision option" where
  \<comment> \<open>the loop of \<open>sensitiveFloorOf\<close>\<close>
  "sensitive_floor env input cwd [] = None"
| "sensitive_floor env input cwd (cmd # cmds) =
     (case argvSensitiveHit env [cmd] cwd (floor_tables env input) of
        None \<Rightarrow> sensitive_floor env input (cwdAfter env cmd cwd) cmds
      | Some hit \<Rightarrow>
          if bi_unrestricted input then Some (deny_reason (sensitive_reason hit) ''argv-sensitive'')
          else if pc_argv cmd \<noteq> [] \<and> allowed_by input cmd \<noteq> None
          then sensitive_floor env input (cwdAfter env cmd cwd) cmds
          else if pc_argv cmd \<noteq> [] \<and> exact_grant input cmd \<noteq> None
          then sensitive_floor env input (cwdAfter env cmd cwd) cmds
          else Some ((ask_memo (sensitive_reason hit) ''argv-sensitive'')
                       \<lparr>d_suggestedRule := (if pc_argv cmd \<noteq> [] then exactRule (pc_raw cmd) else None)\<rparr>))"

definition sensitiveFloorOf :: "host_env \<Rightarrow> parsed_command list \<Rightarrow> bash_input \<Rightarrow> decision option" where
  "sensitiveFloorOf env cmds input = sensitive_floor env input (bi_root input) cmds"

definition adjudicationOf :: "decision \<Rightarrow> decision" where
  "adjudicationOf d = d\<lparr>d_exec := None, d_grant := None\<rparr>"

definition red_line :: "adjudication_facts \<Rightarrow> bool" where
  "red_line facts =
     (af_hardDenyKind facts \<noteq> None \<or> af_parseFailed facts \<noteq> None \<or>
      list_ex (\<lambda>cmd. pc_injection cmd \<noteq> None) (coalesce (af_segments facts) []))"

definition enriched_facts :: "host_env \<Rightarrow> bash_input \<Rightarrow> adjudication_facts" where
  "enriched_facts env input =
     (let facts = bashFactsOf env input
      in if af_parseFailed facts \<noteq> None \<and> rx_test ELEVATION_WORD (bi_command input)
         then facts\<lparr>af_elevation := True\<rparr> else facts)"

definition bashModeDecision :: "host_env \<Rightarrow> bash_input \<Rightarrow> decision option" where
  "bashModeDecision env input =
     (let facts = bashFactsOf env input
      in case bi_modeDecide input (enriched_facts env input) of
           None \<Rightarrow> None
         | Some d \<Rightarrow>
             if d_verdict d = Allow then
               if \<not> bi_unrestricted input \<and> red_line facts
               then Some (ask_reason ''hard-deny/injection floor'' ''red-line:floor'')
               else (case sensitiveFloorOf env (coalesce (af_segments facts) []) input of
                       Some floor \<Rightarrow> Some floor
                     | None \<Rightarrow> Some (adjudicationOf d))
             else Some (adjudicationOf d))"

subsection \<open>Command by command\<close>

definition redirect_verdict ::
  "host_env \<Rightarrow> bash_input \<Rightarrow> path list \<Rightarrow> redirect \<Rightarrow> decision option" where
  \<comment> \<open>the body of the loop of \<open>redirectDecision\<close>\<close>
  "redirect_verdict env input roots rd =
     (case rd_target rd of
        None \<Rightarrow> None
      | Some target \<Rightarrow>
          if target = dev_null then None
          else (case targetOf env target (bi_root input) of
                  None \<Rightarrow> Some (ask_memo (''redirect:'' @ target) ''redirect'')
                | Some p \<Rightarrow>
                    if rd_face rd = InputFace then
                      map_option (\<lambda>hit. deny_reason (''redirect-read:'' @ hit) ''redirect-read'')
                        (denyReadHitOf env input p)
                    else (case List.find (\<lambda>pattern. globMatch env pattern p (bi_root input))
                                 (denyWritePatternsOf input) of
                            Some hit \<Rightarrow> Some (deny_reason (''redirect-write:'' @ hit) ''redirect-write'')
                          | None \<Rightarrow>
                              if \<not> withinAny p roots
                              then Some (ask_memo (''redirect:'' @ target) ''redirect'') else None)))"

definition redirectDecision ::
  "host_env \<Rightarrow> parsed_command \<Rightarrow> bash_input \<Rightarrow> path list \<Rightarrow> decision option" where
  "redirectDecision env cmd input roots = first_some (redirect_verdict env input roots) (pc_redirects cmd)"

datatype command_verdict = CvDecision decision | CvRuleAllowed permission_rule | CvClean

definition clean_or :: "decision option \<Rightarrow> command_verdict" where
  "clean_or d = (case d of Some d \<Rightarrow> CvDecision d | None \<Rightarrow> CvClean)"

definition static_verdict :: "parsed_command \<Rightarrow> decision option" where
  \<comment> \<open>the three tests on the flags of a command in \<open>commandDecision\<close>\<close>
  "static_verdict cmd =
     (case pc_injection cmd of
        Some kind \<Rightarrow> Some (ask_reason (''injection:'' @ injection_text kind) ''injection'')
      | None \<Rightarrow>
          (case pc_ask cmd of
             Some reason \<Rightarrow> Some (ask_reason reason ''wrapper'')
           | None \<Rightarrow>
               if pc_dynamic cmd
               then Some (ask_reason ''dynamic-segment (expansion/glob)'' ''static'') else None))"

definition argv_verdict :: "host_env \<Rightarrow> parsed_command \<Rightarrow> bash_input \<Rightarrow> decision option" where
  \<comment> \<open>the tests at the head of \<open>commandDecision\<close>\<close>
  "argv_verdict env cmd input =
     (if pc_argv cmd = [] then None
      else case denied_by input cmd of
             Some rule \<Rightarrow> Some (rule_decision Deny ''rule'' rule)
           | None \<Rightarrow>
               map_option (\<lambda>hard. ask_reason (''hard-deny:'' @ hard_deny_text hard) ''hard-deny'')
                 (hardDeny env (pc_argv cmd)))"

definition sensitive_verdict ::
  "host_env \<Rightarrow> parsed_command \<Rightarrow> bash_input \<Rightarrow> path \<Rightarrow> decision option" where
  \<comment> \<open>the tail of \<open>commandDecision\<close>\<close>
  "sensitive_verdict env cmd input cwd =
     (case argvSensitiveHit env [cmd] cwd (denyTablesOf env input) of
        None \<Rightarrow> None
      | Some hit \<Rightarrow>
          if exact_grant input cmd \<noteq> None then None
          else Some ((ask_memo (sensitive_reason hit) ''argv-sensitive'')
                       \<lparr>d_suggestedRule := exactRule (pc_raw cmd)\<rparr>))"

definition commandDecision ::
  "host_env \<Rightarrow> parsed_command \<Rightarrow> bash_input \<Rightarrow> path \<Rightarrow> path list \<Rightarrow> command_verdict" where
  "commandDecision env cmd input cwd roots =
     (case or_else (argv_verdict env cmd input) (static_verdict cmd) of
        Some d \<Rightarrow> CvDecision d
      | None \<Rightarrow>
          if pc_argv cmd = [] then clean_or (redirectDecision env cmd input roots)
          else (case redirectDecision env cmd input roots of
                  Some d \<Rightarrow> CvDecision d
                | None \<Rightarrow>
                    (case asked_by input cmd of
                       Some rule \<Rightarrow> CvDecision (rule_decision Ask ''ask-rule'' rule)
                     | None \<Rightarrow>
                         (case allowed_by input cmd of
                            Some rule \<Rightarrow> CvRuleAllowed rule
                          | None \<Rightarrow> clean_or (sensitive_verdict env cmd input cwd)))))"

text \<open>
  The loop over the commands: it ends with the first decision, or with the commands that stay
  undecided and the last rule that allowed one. A command that a rule allows does not move the
  working directory.
\<close>

fun command_loop ::
  "host_env \<Rightarrow> bash_input \<Rightarrow> path list \<Rightarrow> path \<Rightarrow> parsed_command list \<Rightarrow>
     decision + (parsed_command list \<times> permission_rule option)" where
  "command_loop env input roots cwd [] = Inr ([], None)"
| "command_loop env input roots cwd (cmd # cmds) =
     (case commandDecision env cmd input cwd roots of
        CvDecision d \<Rightarrow> Inl d
      | CvRuleAllowed rule \<Rightarrow>
          (case command_loop env input roots cwd cmds of
             Inl d \<Rightarrow> Inl d
           | Inr (clean, saw) \<Rightarrow> Inr (clean, or_else saw (Some rule)))
      | CvClean \<Rightarrow>
          (case command_loop env input roots (cwdAfter env cmd cwd) cmds of
             Inl d \<Rightarrow> Inl d
           | Inr (clean, saw) \<Rightarrow> Inr (cmd # clean, saw)))"

subsection \<open>The tail\<close>

definition has_output_redirect :: "parsed_command \<Rightarrow> bool" where
  "has_output_redirect cmd =
     list_ex (\<lambda>rd. rd_face rd = OutputFace \<and> rd_target rd \<noteq> None \<and> rd_target rd \<noteq> Some dev_null)
       (pc_redirects cmd)"

definition postureFacts :: "host_env \<Rightarrow> bash_input \<Rightarrow> parsed_command list \<Rightarrow> adjudication_facts" where
  "postureFacts env input clean =
     (no_facts FaceBash ''bash'')
       \<lparr>af_kind := Some KindDanger, af_segments := Some clean,
        af_hasOutputRedirect := list_ex has_output_redirect clean,
        af_roots := Some (writableRoots env input), af_root := Some (bi_root input),
        af_sensitiveHit := argvSensitiveHit env clean (bi_root input) (denyTablesOf env input)\<rparr>"

definition pipelineTail ::
  "host_env \<Rightarrow> bash_input \<Rightarrow> parsed_command list \<Rightarrow> permission_rule option \<Rightarrow> decision" where
  "pipelineTail env input clean saw =
     (case (clean, saw) of
        ([], Some rule) \<Rightarrow> rule_decision Allow ''rule'' rule
      | _ \<Rightarrow>
          (case first_some (\<lambda>cmd. if pc_argv cmd = [] then None else learned_by input cmd) clean of
             Some rule \<Rightarrow> rule_decision Allow ''grant'' rule
           | None \<Rightarrow>
               (case bi_postureDecide input (postureFacts env input clean) of
                  Some posture \<Rightarrow> adjudicationOf posture
                | None \<Rightarrow>
                    (case first_some pc_opaque clean of
                       Some reason \<Rightarrow> ask_memo reason ''opaque''
                     | None \<Rightarrow> ask_memo ''no rule matches segment'' ''default:ask''))))"

definition adjudicateBash :: "host_env \<Rightarrow> bash_input \<Rightarrow> decision" where
  "adjudicateBash env input =
     (case bi_parse input (bi_command input) of
        Parsed cmds \<Rightarrow>
          (case preModeSweep env cmds input of
             Some d \<Rightarrow> d
           | None \<Rightarrow>
               (case bashModeDecision env input of
                  Some d \<Rightarrow> d
                | None \<Rightarrow>
                    (case command_loop env input (writableRoots env input) (bi_root input) cmds of
                       Inl d \<Rightarrow> d
                     | Inr (clean, saw) \<Rightarrow> pipelineTail env input clean saw)))
      | failure \<Rightarrow>
          (case bashModeDecision env input of
             Some d \<Rightarrow> d
           | None \<Rightarrow>
               ask_reason (if failure = ParserUnavailable then ''parser-unavailable''
                           else ''unparseable command'') ''parse''))"

definition suggestedRuleOf :: "string \<Rightarrow> (string \<Rightarrow> bash_parse) \<Rightarrow> string option" where
  "suggestedRuleOf command parse =
     (case parse command of
        Parsed cmds \<Rightarrow> or_else (suggestRule cmds) (exactRule command)
      | _ \<Rightarrow> exactRule command)"

end
