(* ===== verification/PermAdjudicateProps.thy ===== *)
theory PermAdjudicateProps
  imports PermAdjudicate
begin

text \<open>
  What the decision on a shell line guarantees: deny rules win, the red lines (hard denials,
  injections, lines that do not parse, protected files read by a redirection) are never allowed,
  and what it takes for a line to be allowed; and two places where it allows more than each of
  its commands was given.
\<close>

subsection \<open>The sweep\<close>

lemma preModeSweep_deny:
  assumes "cmd \<in> set cmds" "pc_argv cmd \<noteq> []" "denied_by input cmd \<noteq> None"
  shows "\<exists>d. preModeSweep env cmds input = Some d \<and> d_verdict d = Deny"
proof -
  let ?f = "\<lambda>cmd. if pc_argv cmd = [] then None else map_option (rule_decision Deny ''rule'') (denied_by input cmd)"
  have "first_some ?f cmds \<noteq> None" using assms by auto
  then obtain d where d: "first_some ?f cmds = Some d" by blast
  then have "d_verdict d = Deny"
    by (auto dest!: first_some_SomeD simp: rule_decision_def split: if_splits)
  then show ?thesis using d by (simp add: preModeSweep_def)
qed

lemma redirectFloorOf_deny: "redirectFloorOf env input cwd cmds = Some d \<Longrightarrow> d_verdict d = Deny"
  by (induction env input cwd cmds rule: redirectFloorOf.induct)
     (auto dest!: first_some_SomeD simp: sweep_redirect_def deny_reason_def split: option.splits if_splits)

lemma preModeSweep_not_allow: "preModeSweep env cmds input = Some d \<Longrightarrow> d_verdict d \<noteq> Allow"
  by (auto simp: preModeSweep_def rule_decision_def dest!: first_some_SomeD redirectFloorOf_deny
      split: option.splits if_splits)

lemma redirectFloorOf_hit:
  assumes "rd \<in> set (pc_redirects cmd)"
    "sweep_redirect env input (foldl (\<lambda>cwd c. cwdAfter env c cwd) cwd pre) rd \<noteq> None"
  shows "redirectFloorOf env input cwd (pre @ cmd # post) \<noteq> None"
  using assms(2)
proof (induction pre arbitrary: cwd)
  case Nil
  then have "first_some (sweep_redirect env input cwd) (pc_redirects cmd) \<noteq> None" using assms(1) by auto
  then show ?case by (auto split: option.splits)
next
  case (Cons c pre)
  then show ?case by (auto split: option.splits)
qed

lemma adjudicate_sweep:
  "bi_parse input (bi_command input) = Parsed cmds \<Longrightarrow> preModeSweep env cmds input = Some d \<Longrightarrow>
     adjudicateBash env input = d"
  by (simp add: adjudicateBash_def)

subsection \<open>The loop\<close>

lemma command_decision_not_allow:
  "commandDecision env cmd input cwd roots = CvDecision d \<Longrightarrow> d_verdict d \<noteq> Allow"
proof -
  have r: "redirectDecision env cmd input roots = Some d \<Longrightarrow> d_verdict d \<noteq> Allow" for d
    by (auto simp: redirectDecision_def redirect_verdict_def decision_constructors dest!: first_some_SomeD
        split: option.splits if_splits)
  have a: "argv_verdict env cmd input = Some d \<Longrightarrow> d_verdict d \<noteq> Allow" for d
    by (auto simp: argv_verdict_def decision_constructors split: option.splits if_splits)
  have s: "static_verdict cmd = Some d \<Longrightarrow> d_verdict d \<noteq> Allow" for d
    by (auto simp: static_verdict_def decision_constructors split: option.splits if_splits)
  have v: "sensitive_verdict env cmd input cwd = Some d \<Longrightarrow> d_verdict d \<noteq> Allow" for d
    by (auto simp: sensitive_verdict_def decision_constructors split: option.splits if_splits)
  have o: "or_else (argv_verdict env cmd input) (static_verdict cmd) = Some d \<Longrightarrow> d_verdict d \<noteq> Allow" for d
    using a s by (cases "argv_verdict env cmd input") auto
  assume "commandDecision env cmd input cwd roots = CvDecision d"
  then show ?thesis
    unfolding commandDecision_def clean_or_def
    by (auto simp: rule_decision_def dest: r o v split: option.splits if_splits)
qed

definition flagged_command :: "host_env \<Rightarrow> parsed_command \<Rightarrow> bool" where
  "flagged_command env cmd \<longleftrightarrow>
     hardDeny env (pc_argv cmd) \<noteq> None \<or> pc_injection cmd \<noteq> None \<or> pc_ask cmd \<noteq> None \<or> pc_dynamic cmd"

lemma flagged_decision:
  assumes "flagged_command env cmd"
  shows "\<exists>d. commandDecision env cmd input cwd roots = CvDecision d"
proof -
  have "argv_verdict env cmd input \<noteq> None \<or> static_verdict cmd \<noteq> None"
  proof (cases "hardDeny env (pc_argv cmd)")
    case None
    then show ?thesis using assms by (auto simp: flagged_command_def static_verdict_def split: option.splits)
  next
    case (Some k)
    then have "pc_argv cmd \<noteq> []" by (auto simp: hardDeny_def)
    then show ?thesis using Some by (auto simp: argv_verdict_def split: option.splits)
  qed
  then have "or_else (argv_verdict env cmd input) (static_verdict cmd) \<noteq> None" by simp
  then show ?thesis by (auto simp: commandDecision_def split: option.splits)
qed

lemma command_loop_not_allow:
  "command_loop env input roots cwd cmds = Inl d \<Longrightarrow> d_verdict d \<noteq> Allow"
  by (induction env input roots cwd cmds rule: command_loop.induct)
     (auto dest: command_decision_not_allow split: command_verdict.splits sum.splits)

lemma command_loop_flagged:
  "cmd \<in> set cmds \<Longrightarrow> flagged_command env cmd \<Longrightarrow> \<exists>d. command_loop env input roots cwd cmds = Inl d"
proof (induction cmds arbitrary: cwd)
  case (Cons c cmds)
  show ?case
  proof (cases "flagged_command env c")
    case True
    then show ?thesis using flagged_decision [OF True, of input cwd roots] by auto
  next
    case False
    then have "cmd \<in> set cmds" using Cons.prems by auto
    then have "\<exists>d. command_loop env input roots cwd' cmds = Inl d" for cwd'
      using Cons.IH Cons.prems(2) by blast
    then show ?thesis by (auto split: command_verdict.splits sum.splits) (metis sum.distinct(1))+
  qed
qed simp

lemma command_loop_Inr:
  "command_loop env input roots cwd cmds = Inr (clean, saw) \<Longrightarrow>
     set clean \<subseteq> set cmds \<and>
     (\<forall>cmd \<in> set cmds. cmd \<in> set clean \<or> (pc_argv cmd \<noteq> [] \<and> allowed_by input cmd \<noteq> None)) \<and>
     (saw = None \<longrightarrow> clean = cmds)"
proof (induction env input roots cwd cmds arbitrary: clean saw rule: command_loop.induct)
  case (2 env input roots cwd cmd cmds)
  show ?case
  proof (cases "commandDecision env cmd input cwd roots")
    case (CvDecision d)
    then show ?thesis using 2(3) by simp
  next
    case (CvRuleAllowed rule)
    then obtain saw' where "command_loop env input roots cwd cmds = Inr (clean, saw')" "saw = or_else saw' (Some rule)"
      using 2(3) by (auto split: sum.splits)
    moreover have "pc_argv cmd \<noteq> [] \<and> allowed_by input cmd \<noteq> None"
      using CvRuleAllowed by (auto simp: commandDecision_def clean_or_def split: option.splits if_splits)
    ultimately show ?thesis using 2(1) [OF CvRuleAllowed] by auto
  next
    case CvClean
    then obtain clean' where "command_loop env input roots (cwdAfter env cmd cwd) cmds = Inr (clean', saw)"
      "clean = cmd # clean'"
      using 2(3) by (auto split: sum.splits)
    then show ?thesis using 2(2) [OF CvClean] by auto
  qed
qed simp

subsection \<open>The mode\<close>

lemma mode_red_line:
  assumes "\<not> bi_unrestricted input" "red_line (bashFactsOf env input)" "bashModeDecision env input = Some d"
  shows "d_verdict d \<noteq> Allow"
  using assms
  by (auto simp: bashModeDecision_def Let_def ask_reason_def adjudicationOf_def split: option.splits if_splits)

lemma red_line_flagged:
  assumes "bi_parse input (bi_command input) = Parsed cmds" "cmd \<in> set cmds"
    "hardDeny env (pc_argv cmd) \<noteq> None \<or> pc_injection cmd \<noteq> None"
  shows "red_line (bashFactsOf env input)"
  using assms facts_hard_deny [OF assms(1,2), of env] bashFactsOf_segments(1) [of env input]
  by (auto simp: red_line_def list_ex_iff)

lemma red_line_unparsed:
  "\<nexists>cmds. bi_parse input (bi_command input) = Parsed cmds \<Longrightarrow> red_line (bashFactsOf env input)"
  using bashFactsOf_segments(2) [of env input] by (auto simp: red_line_def)

lemma mode_none: "\<forall>facts. bi_modeDecide input facts = None \<Longrightarrow> bashModeDecision env input = None"
  by (simp add: bashModeDecision_def Let_def)

subsection \<open>Properties\<close>

definition rule_denies :: "bash_input \<Rightarrow> parsed_command \<Rightarrow> bool" where
  "rule_denies input cmd \<longleftrightarrow>
     (\<exists>r \<in> set (bi_rules input). r_tool r = Danger \<and> r_verdict r = Deny \<and>
        bashPrefixMatch (r_pattern r) (pc_argv cmd) (r_nature r))"

lemma rule_denies_denied_by: "rule_denies input cmd \<longleftrightarrow> denied_by input cmd \<noteq> None"
  by (auto simp: rule_denies_def denied_by_def bashRuleMatches_def find_None_iff)

text \<open>C10: A deny rule for bash that matches one command of a line denies the whole line, whatever the
  mode, the other rules and the remembered grants say.\<close>

theorem deny_rule_wins:
  assumes "bi_parse input (bi_command input) = Parsed cmds"
    and "cmd \<in> set cmds" and "pc_argv cmd \<noteq> []" and "rule_denies input cmd"
  shows "d_verdict (adjudicateBash env input) = Deny"
  using preModeSweep_deny [OF assms(2,3)] adjudicate_sweep [OF assms(1)] assms(4)
  unfolding rule_denies_denied_by by metis

definition sample_profile :: permission_profile where
  "sample_profile =
     \<lparr>pr_id = ''auto'', pr_askPolicy = AskOnOpaque, pr_containment = NotContained, pr_mutationPolicy = AutoInRoot\<rparr>"

definition hand_rule :: "string \<Rightarrow> verdict \<Rightarrow> permission_rule" where
  "hand_rule pattern v = parsed_rule Danger pattern v OriginUser"

definition sample_input :: "permission_rule list \<Rightarrow> parsed_command list \<Rightarrow> bash_input" where
  \<comment> \<open>a line with the given commands, in the root \<open>/w\<close>, without a mode\<close>
  "sample_input rules cmds =
     \<lparr>bi_command = ''line'', bi_rules = rules, bi_profile = sample_profile, bi_root = ''/w'',
      bi_extraRoots = [], bi_fence = None, bi_protectedWrite = None, bi_parse = (\<lambda>_. Parsed cmds),
      bi_modeDecide = (\<lambda>_. None), bi_postureDecide = (\<lambda>_. None), bi_denyRules = [],
      bi_unrestricted = False, bi_baseline = None\<rparr>"

lemma deny_rule_wins_witness:
  "d_verdict (adjudicateBash linux_host
     (sample_input [hand_rule ''ls:*'' Allow, hand_rule ''curl:*'' Deny]
        [bare_command [''ls''] ''ls'', bare_command [''curl'', ''u''] ''curl u''])) = Deny"
proof (rule deny_rule_wins [where cmd = "bare_command [''curl'', ''u''] ''curl u''"
      and cmds = "[bare_command [''ls''] ''ls'', bare_command [''curl'', ''u''] ''curl u'']"])
  show "rule_denies (sample_input [hand_rule ''ls:*'' Allow, hand_rule ''curl:*'' Deny]
        [bare_command [''ls''] ''ls'', bare_command [''curl'', ''u''] ''curl u''])
      (bare_command [''curl'', ''u''] ''curl u'')"
    by code_simp
qed (simp_all add: sample_input_def bare_command_def)

definition red_lined :: "host_env \<Rightarrow> bash_input \<Rightarrow> bool" where
  \<comment> \<open>some command is hard denied or an injection, or the line does not parse\<close>
  "red_lined env input \<longleftrightarrow>
     (case bi_parse input (bi_command input) of
        Parsed cmds \<Rightarrow> list_ex (\<lambda>cmd. hardDeny env (pc_argv cmd) \<noteq> None \<or> pc_injection cmd \<noteq> None) cmds
      | _ \<Rightarrow> True)"

text \<open>C34: Without an unrestricted mode, a line with a hard denied command or an injection, or one that
  does not parse, is never allowed: not by a rule, not by a grant and not by any mode.\<close>

theorem red_lines_never_allowed:
  assumes "\<not> bi_unrestricted input" and "red_lined env input"
  shows "d_verdict (adjudicateBash env input) \<noteq> Allow"
proof (cases "bi_parse input (bi_command input)")
  case (Parsed cmds)
  then obtain cmd where cmd: "cmd \<in> set cmds" "hardDeny env (pc_argv cmd) \<noteq> None \<or> pc_injection cmd \<noteq> None"
    using assms(2) by (auto simp: red_lined_def list_ex_iff)
  then have f: "flagged_command env cmd" by (auto simp: flagged_command_def)
  obtain d where "command_loop env input (writableRoots env input) (bi_root input) cmds = Inl d"
    using command_loop_flagged [OF cmd(1) f] by blast
  then show ?thesis
    using Parsed command_loop_not_allow preModeSweep_not_allow [of env cmds input]
      mode_red_line [OF assms(1) red_line_flagged [OF Parsed cmd]]
    by (auto simp: adjudicateBash_def split: option.splits)
next
  case NotParsed
  then show ?thesis
    using mode_red_line [OF assms(1) red_line_unparsed]
    by (auto simp: adjudicateBash_def ask_reason_def split: option.splits)
next
  case ParserUnavailable
  then show ?thesis
    using mode_red_line [OF assms(1) red_line_unparsed]
    by (auto simp: adjudicateBash_def ask_reason_def split: option.splits)
qed

lemma red_lines_never_allowed_witness:
  "d_verdict (adjudicateBash linux_host
     ((sample_input [hand_rule ''*'' Allow] [bare_command [''sudo'', ''id''] ''sudo id''])
        \<lparr>bi_modeDecide := \<lambda>_. Some (plain_decision Allow [] [])\<rparr>)) \<noteq> Allow"
proof (rule red_lines_never_allowed)
  have h: "hardDeny linux_host [''sudo'', ''id''] = Some Sudo" by code_simp
  show "red_lined linux_host ((sample_input [hand_rule ''*'' Allow] [bare_command [''sudo'', ''id''] ''sudo id''])
        \<lparr>bi_modeDecide := \<lambda>_. Some (plain_decision Allow [] [])\<rparr>)"
    by (simp add: red_lined_def sample_input_def bare_command_def h)
qed (simp add: sample_input_def)

text \<open>A line whose input redirection reads a protected file is never allowed, even in an
  unrestricted mode; the file is named relative to where the \<open>cd\<close> commands before it lead.\<close>

theorem protected_redirect_never_allowed:
  assumes "bi_parse input (bi_command input) = Parsed (pre @ cmd # post)"
    and "rd \<in> set (pc_redirects cmd)" and "rd_face rd = InputFace" and "rd_target rd = Some t" and "t \<noteq> dev_null"
    and "targetOf env t (foldl (\<lambda>cwd c. cwdAfter env c cwd) (bi_root input) pre) = Some p"
    and "denyReadHitOf env input p \<noteq> None"
  shows "d_verdict (adjudicateBash env input) \<noteq> Allow"
proof -
  have "sweep_redirect env input (foldl (\<lambda>cwd c. cwdAfter env c cwd) (bi_root input) pre) rd \<noteq> None"
    using assms(3-7) by (simp add: sweep_redirect_def)
  then have "redirectFloorOf env input (bi_root input) (pre @ cmd # post) \<noteq> None"
    by (rule redirectFloorOf_hit [OF assms(2)])
  then have "preModeSweep env (pre @ cmd # post) input \<noteq> None"
    by (auto simp: preModeSweep_def split: option.splits)
  then show ?thesis
    using adjudicate_sweep [OF assms(1)] preModeSweep_not_allow by fastforce
qed

definition cat_key :: parsed_command where
  "cat_key = (bare_command [''cat''] ''cat < id'')\<lparr>pc_redirects := [\<lparr>rd_face = InputFace, rd_op = ''<'', rd_target = Some ''id''\<rparr>]\<rparr>"

lemma protected_redirect_never_allowed_witness:
  "d_verdict (adjudicateBash linux_host
     ((sample_input [hand_rule ''*'' Allow] [bare_command [''cd'', ''~/.ssh''] ''cd ~/.ssh'', cat_key])\<lparr>bi_unrestricted := True\<rparr>)) \<noteq> Allow"
proof (rule protected_redirect_never_allowed [where pre = "[bare_command [''cd'', ''~/.ssh''] ''cd ~/.ssh'']"
      and cmd = cat_key and post = "[]" and t = "''id''" and p = "''/home/u/.ssh/id''"
      and rd = "\<lparr>rd_face = InputFace, rd_op = ''<'', rd_target = Some ''id''\<rparr>"])
  have "globMatch linux_host ''~/.ssh/**'' ''/home/u/.ssh/id'' ''/w''" by code_simp
  then show "denyReadHitOf linux_host
      ((sample_input [hand_rule ''*'' Allow] [bare_command [''cd'', ''~/.ssh''] ''cd ~/.ssh'', cat_key])\<lparr>bi_unrestricted := True\<rparr>)
      ''/home/u/.ssh/id'' \<noteq> None"
    by (simp add: denyReadHitOf_def denyReadHit_def denyTablesOf_def denyReadPatternsOf_def baselineOf_def
        DEFAULT_BASELINE_def sample_input_def)
  have "cwdAfter linux_host (bare_command [''cd'', ''~/.ssh''] ''cd ~/.ssh'') ''/w'' = ''/home/u/.ssh''"
    "targetOf linux_host ''id'' ''/home/u/.ssh'' = Some ''/home/u/.ssh/id''" by code_simp+
  then show "targetOf linux_host ''id'' (foldl (\<lambda>cwd c. cwdAfter linux_host c cwd)
      (bi_root ((sample_input [hand_rule ''*'' Allow] [bare_command [''cd'', ''~/.ssh''] ''cd ~/.ssh'', cat_key])\<lparr>bi_unrestricted := True\<rparr>))
      [bare_command [''cd'', ''~/.ssh''] ''cd ~/.ssh'']) = Some ''/home/u/.ssh/id''"
    by (simp add: sample_input_def)
qed (simp_all add: sample_input_def cat_key_def dev_null_def)

text \<open>When the mode and its posture decide nothing, a line is allowed only if no command of it is
  flagged (hard denied, injection, wrapper that could not be followed, expansion) and either a
  handwritten rule allows every command or a remembered grant fits at least one.\<close>

theorem allowed_line_has_cause:
  assumes "\<forall>facts. bi_modeDecide input facts = None" and "\<forall>facts. bi_postureDecide input facts = None"
    and "d_verdict (adjudicateBash env input) = Allow"
  shows "\<exists>cmds. bi_parse input (bi_command input) = Parsed cmds \<and>
    (\<forall>cmd \<in> set cmds. \<not> flagged_command env cmd) \<and>
    ((\<forall>cmd \<in> set cmds. allowed_by input cmd \<noteq> None) \<or> (\<exists>cmd \<in> set cmds. learned_by input cmd \<noteq> None))"
proof -
  note none = mode_none [OF assms(1), of env]
  obtain cmds where p: "bi_parse input (bi_command input) = Parsed cmds"
    using assms(3) none by (cases "bi_parse input (bi_command input)") (auto simp: adjudicateBash_def ask_reason_def)
  have pre: "preModeSweep env cmds input = None"
    using preModeSweep_not_allow [of env cmds input] assms(3) adjudicate_sweep [OF p, of env]
    by (cases "preModeSweep env cmds input") auto
  obtain clean saw where loop: "command_loop env input (writableRoots env input) (bi_root input) cmds = Inr (clean, saw)"
    and tail: "adjudicateBash env input = pipelineTail env input clean saw"
    using assms(3) command_loop_not_allow [of env input "writableRoots env input" "bi_root input" cmds]
    by (cases "command_loop env input (writableRoots env input) (bi_root input) cmds")
       (auto simp: adjudicateBash_def p pre none)
  have unflagged: "\<not> flagged_command env cmd" if "cmd \<in> set cmds" for cmd
    using command_loop_flagged [OF that, of env input "writableRoots env input" "bi_root input"] loop by auto
  have sub: "set clean \<subseteq> set cmds" using command_loop_Inr [OF loop] by blast
  have "clean = [] \<and> saw \<noteq> None \<or> (\<exists>cmd \<in> set clean. learned_by input cmd \<noteq> None)"
  proof (cases "clean = [] \<and> saw \<noteq> None")
    case False
    then have "pipelineTail env input clean saw =
        (case first_some (\<lambda>cmd. if pc_argv cmd = [] then None else learned_by input cmd) clean of
           Some rule \<Rightarrow> rule_decision Allow ''grant'' rule
         | None \<Rightarrow> (case first_some pc_opaque clean of
                       Some reason \<Rightarrow> ask_memo reason ''opaque''
                     | None \<Rightarrow> ask_memo ''no rule matches segment'' ''default:ask''))"
      using assms(2) by (auto simp: pipelineTail_def split: list.splits option.splits)
    then show ?thesis
      using assms(3) tail
      by (auto simp: ask_memo_def dest!: first_some_SomeD split: option.splits if_splits)
  qed simp
  then show ?thesis using p unflagged sub command_loop_Inr [OF loop] by fastforce
qed

lemma allowed_line_has_cause_witness:
  "\<exists>cmds. bi_parse (sample_input [hand_rule ''ls:*'' Allow] [bare_command [''ls''] ''ls'']) ''line'' = Parsed cmds \<and>
     (\<forall>cmd \<in> set cmds. \<not> flagged_command linux_host cmd)"
proof -
  let ?i = "sample_input [hand_rule ''ls:*'' Allow] [bare_command [''ls''] ''ls'']"
  have "d_verdict (adjudicateBash linux_host ?i) = Allow" by code_simp
  moreover have "bi_command ?i = ''line''" "\<forall>facts. bi_modeDecide ?i facts = None" "\<forall>facts. bi_postureDecide ?i facts = None"
    by (simp_all add: sample_input_def)
  ultimately show ?thesis using allowed_line_has_cause [of ?i linux_host] by metis
qed

subsection \<open>More is allowed than was granted\<close>

definition ls_grant :: permission_rule where
  "ls_grant = (parsed_rule Danger ''ls:*'' Allow OriginSession)\<lparr>r_nature := Some Grant\<rparr>"

text \<open>A remembered grant for one command allows every other command of the line as well: with only
  the grant \<open>ls:*\<close>, the line \<open>ls; rm -r src\<close> is allowed, while \<open>rm -r src\<close> alone is asked about.\<close>

theorem grant_covers_other_commands:
  "d_verdict (adjudicateBash linux_host
      (sample_input [ls_grant] [bare_command [''ls''] ''ls'', bare_command [''rm'', ''-r'', ''src''] ''rm -r src''])) = Allow \<and>
   d_verdict (adjudicateBash linux_host
      (sample_input [ls_grant] [bare_command [''rm'', ''-r'', ''src''] ''rm -r src''])) = Ask"
  by (intro conjI; code_simp)

definition echo_to :: "string \<Rightarrow> parsed_command" where
  "echo_to target =
     (bare_command [''echo'', ''x''] ''echo x'')
       \<lparr>pc_redirects := [\<lparr>rd_face = OutputFace, rd_op = ''>'', rd_target = Some target\<rparr>]\<rparr>"

text \<open>The test that an output redirection stays inside the roots ignores a preceding \<open>cd\<close>: with
  handwritten rules for \<open>cd\<close> and \<open>echo\<close>, \<open>echo x > /etc/passwd\<close> is asked about, but
  \<open>cd /etc; echo x > passwd\<close>, which writes the same file, is allowed.\<close>

theorem cd_escapes_redirect_check:
  "d_verdict (adjudicateBash linux_host
      (sample_input [hand_rule ''cd:*'' Allow, hand_rule ''echo:*'' Allow] [echo_to ''/etc/passwd''])) = Ask \<and>
   d_verdict (adjudicateBash linux_host
      (sample_input [hand_rule ''cd:*'' Allow, hand_rule ''echo:*'' Allow]
         [bare_command [''cd'', ''/etc''] ''cd /etc'', echo_to ''passwd''])) = Allow \<and>
   targetOf linux_host ''passwd'' (cwdAfter linux_host (bare_command [''cd'', ''/etc''] ''cd /etc'') ''/w'') = Some ''/etc/passwd''"
  by (intro conjI; code_simp)

end
