(* ===== verification/PermDecide.thy ===== *)
theory PermDecide
  imports PermAdjudicate
begin

text \<open>
  The decision on a tool call (\<open>decide.ts\<close>): control tools, commands (handed to the bash
  pipeline), paths (alone or in a batch) and other tools. \<open>di_String\<close> is the built-in \<open>String\<close> on
  the value of \<open>args.path\<close>, which appears only in the text of one reason.
\<close>

record decide_input =
  di_tool :: string
  di_args :: jsval
  di_modeDecide :: decider
  di_postureDecide :: decider
  di_control :: bool
  di_kind :: "tool_kind option"
  di_pathScope :: bool
  di_userRules :: "permission_rule list"
  di_projectRules :: "permission_rule list"
  di_sessionRules :: "permission_rule list"
  di_profile :: permission_profile
  di_root :: path
  di_extraRoots :: "path list"
  di_fence :: "path list option"
  di_protectedWrite :: "string list option"
  di_denyRules :: "permission_rule list"
  di_unrestricted :: bool
  di_baseline :: "baseline_policy option"
  di_parse :: "string \<Rightarrow> bash_parse"
  di_String :: "jsval \<Rightarrow> string"

subsection \<open>Exec directives\<close>

definition execOf :: "verdict \<Rightarrow> permission_profile \<Rightarrow> exec_directive option" where
  "execOf v profile =
     (if v \<noteq> Allow then None
      else Some (if pr_containment profile = Fenced then Contained else Direct))"

definition withExec :: "decision \<Rightarrow> permission_profile \<Rightarrow> decision" where
  "withExec d profile =
     (if d_verdict d \<noteq> Allow \<or> d_exec d \<noteq> None then d else d\<lparr>d_exec := execOf Allow profile\<rparr>)"

definition allowDecision :: "string \<Rightarrow> string \<Rightarrow> permission_profile \<Rightarrow> decision" where
  "allowDecision reason by profile = (plain_decision Allow reason by)\<lparr>d_exec := execOf Allow profile\<rparr>"

definition attributeRule :: "decision \<Rightarrow> permission_rule option \<Rightarrow> decision" where
  "attributeRule d allowRule =
     (case allowRule of
        Some rule \<Rightarrow>
          if d_verdict d \<noteq> Allow then d
          else d\<lparr>d_reason := ''rule:'' @ r_pattern rule,
                 d_resolvedBy := ''rule:'' @ origin_text (r_origin rule)\<rparr>
      | None \<Rightarrow> d)"

subsection \<open>Commands\<close>

definition bash_input_of :: "decide_input \<Rightarrow> permission_rule list \<Rightarrow> permission_rule list \<Rightarrow> string \<Rightarrow> bash_input" where
  "bash_input_of input rules denyRules command =
     \<lparr>bi_command = command, bi_rules = rules, bi_profile = di_profile input, bi_root = di_root input,
      bi_extraRoots = di_extraRoots input, bi_fence = di_fence input,
      bi_protectedWrite = di_protectedWrite input, bi_parse = di_parse input,
      bi_modeDecide = di_modeDecide input, bi_postureDecide = di_postureDecide input,
      bi_denyRules = denyRules, bi_unrestricted = di_unrestricted input, bi_baseline = di_baseline input\<rparr>"

definition decideDangerFace ::
  "host_env \<Rightarrow> decide_input \<Rightarrow> permission_rule list \<Rightarrow> permission_rule list \<Rightarrow> decision" where
  "decideDangerFace env input rules denyRules =
     (case field (di_args input) ''command'' of
        JStr command \<Rightarrow>
          let adjudication = adjudicateBash env (bash_input_of input rules denyRules command)
          in adjudication\<lparr>d_exec := execOf (d_verdict adjudication) (di_profile input), d_grant := None\<rparr>
      | _ \<Rightarrow> plain_decision Ask ''danger:command-absent'' ''kind-contract'')"

subsection \<open>Other tools\<close>

definition js_dot :: "char \<Rightarrow> bool" where
  \<comment> \<open>what the dot of a regular expression matches\<close>
  "js_dot c = (c \<noteq> CHR 10 \<and> c \<noteq> CHR 13)"

fun star_joined :: "string list \<Rightarrow> rx" where
  \<comment> \<open>the escaped parts of the pattern, joined by \<open>.*\<close> and closed by \<open>$\<close>\<close>
  "star_joined [] = REnd"
| "star_joined [part] = RCat (RLit part) REnd"
| "star_joined (part # parts) = RCat (RLit part) (RCat (RStar (RSet js_dot)) (star_joined parts))"

definition toolWildcardMatch :: "string \<Rightarrow> string \<Rightarrow> bool" where
  "toolWildcardMatch pattern tool =
     (if pattern = ''*'' then True
      else if CHR ''*'' \<notin> set pattern then pattern = tool
      else rx_test (RCat RBegin (star_joined (split_on (CHR ''*'') pattern))) tool)"

definition decideToolFace :: "decide_input \<Rightarrow> permission_rule list \<Rightarrow> decision" where
  "decideToolFace input rules =
     (let toolRules = filter (\<lambda>r. r_tool r = ToolFace \<and> toolWildcardMatch (r_pattern r) (di_tool input)) rules
      in case List.find (\<lambda>r. r_verdict r = Deny) toolRules of
           Some denied \<Rightarrow> rule_decision Deny ''rule'' denied
         | None \<Rightarrow>
             (case List.find (\<lambda>r. r_verdict r = Ask \<and> \<not> is_grant r) toolRules of
                Some askRule \<Rightarrow> rule_decision Ask ''ask-rule'' askRule
              | None \<Rightarrow>
                  let allowed = List.find (\<lambda>r. r_verdict r = Allow \<and> \<not> is_grant r) toolRules
                  in case di_modeDecide input ((no_facts FaceTool (di_tool input))\<lparr>af_kind := di_kind input\<rparr>) of
                       Some d \<Rightarrow> withExec (attributeRule d allowed) (di_profile input)
                     | None \<Rightarrow>
                         (case allowed of
                            Some rule \<Rightarrow>
                              allowDecision (''rule:'' @ r_pattern rule)
                                (''rule:'' @ origin_text (r_origin rule)) (di_profile input)
                          | None \<Rightarrow>
                              (plain_decision Ask (''unknown tool:'' @ di_tool input) ''default:ask'')
                                \<lparr>d_memorizable := True,
                                 d_suggestedRule := Some (''Tool('' @ di_tool input @ ''):allow'')\<rparr>)))"

subsection \<open>Paths\<close>

text \<open>The input of the path face: the kind (read or write), the rules, and the roots.\<close>

record path_input = decide_input +
  pi_write :: bool
  pi_rules :: "permission_rule list"
  pi_roots :: "path list"
  pi_baselineRoots :: "path list option"

definition pi_tool :: "'a path_input_scheme \<Rightarrow> rule_tool" where
  "pi_tool input = (if pi_write input then WriteTool else ReadTool)"

definition pi_kind :: "'a path_input_scheme \<Rightarrow> tool_kind" where
  "pi_kind input = (if pi_write input then KindWrite else KindRead)"

definition unanchored_base :: "string \<Rightarrow> string" where
  \<comment> \<open>\<open>base\<close> of \<open>unanchoredPattern\<close> and \<open>scopeDenyAnchored\<close>: the directory before the first star\<close>
  "unanchored_base pattern =
     (let head = (case index_in pattern ''*'' of None \<Rightarrow> pattern | Some star \<Rightarrow> take star pattern)
      in case lastIndexOf head ''/'' of None \<Rightarrow> [] | Some k \<Rightarrow> take k head)"

definition unanchoredPattern :: "string \<Rightarrow> bool" where
  "unanchoredPattern pattern = (unanchored_base pattern = [] \<or> unanchored_base pattern = ''~'')"

definition basedirOf :: "host_env \<Rightarrow> string \<Rightarrow> path \<Rightarrow> path" where
  "basedirOf env base root =
     (if base = ''~'' then home_dir env
      else if startsWith base ''~/'' then resolve env [home_dir env, drop 2 base]
      else resolve env [root, base])"

definition scopeDenyAnchored :: "host_env \<Rightarrow> string \<Rightarrow> path \<Rightarrow> path \<Rightarrow> bool" where
  "scopeDenyAnchored env pattern scope root =
     (if unanchoredPattern pattern then False
      else let dir = basedirOf env (unanchored_base pattern) root
           in within_root dir scope \<or> within_root scope dir)"

definition scopeDenySoft :: "'a path_input_scheme \<Rightarrow> path \<Rightarrow> bool \<Rightarrow> decision option" where
  "scopeDenySoft input p scope =
     (if \<not> scope then None
      else map_option
             (\<lambda>rule. (plain_decision Ask (''scope-deny:'' @ r_pattern rule) ''scope-deny'')
                       \<lparr>d_memorizable := True, d_suggestedRule := Some (''Read('' @ p @ ''):allow'')\<rparr>)
             (List.find
                (\<lambda>r. r_tool r = ReadTool \<and> r_verdict r = Deny \<and>
                     \<not> (r_outsideRoots r \<and> withinAny p (pi_roots input)) \<and>
                     unanchoredPattern (r_pattern r))
                (pi_rules input)))"

definition allowRuleOf :: "host_env \<Rightarrow> 'a path_input_scheme \<Rightarrow> path \<Rightarrow> permission_rule option" where
  "allowRuleOf env input p =
     List.find
       (\<lambda>r. r_tool r = pi_tool input \<and> r_verdict r = Allow \<and> \<not> is_grant r \<and> p \<noteq> [] \<and>
            globMatch env (r_pattern r) p (di_root input))
       (pi_rules input)"

definition path_denied :: "host_env \<Rightarrow> 'a path_input_scheme \<Rightarrow> path \<Rightarrow> permission_rule \<Rightarrow> bool" where
  \<comment> \<open>the test for \<open>denied\<close> in \<open>decideOnePath\<close>\<close>
  "path_denied env input p r =
     (let scope = di_pathScope input \<and> \<not> pi_write input;
          conditional = r_outsideRoots r \<and> withinAny p (coalesce (pi_baselineRoots input) (pi_roots input))
      in r_tool r = pi_tool input \<and> r_verdict r = Deny \<and> p \<noteq> [] \<and> \<not> conditional \<and>
         (globMatch env (r_pattern r) p (di_root input) \<or>
          (scope \<and> scopeDenyAnchored env (r_pattern r) p (di_root input))))"

definition path_facts :: "'a path_input_scheme \<Rightarrow> path \<Rightarrow> bool \<Rightarrow> adjudication_facts" where
  "path_facts input p absent =
     (no_facts FacePath (di_tool input))
       \<lparr>af_kind := Some (pi_kind input), af_path := Some p,
        af_inRoot := Some (p \<noteq> [] \<and> withinAny p (pi_roots input)),
        af_root := Some (di_root input), af_pathAbsent := absent\<rparr>"

definition absent_path_text :: "'a path_input_scheme \<Rightarrow> string" where
  \<comment> \<open>\<open>String(args.path ?? "")\<close>\<close>
  "absent_path_text input =
     (case field (di_args input) ''path'' of
        JUndef \<Rightarrow> [] | JNull \<Rightarrow> [] | JStr s \<Rightarrow> s | v \<Rightarrow> di_String input v)"

definition decideOnePath :: "host_env \<Rightarrow> 'a path_input_scheme \<Rightarrow> path \<Rightarrow> bool \<Rightarrow> decision" where
  "decideOnePath env input p absent =
     (case List.find (path_denied env input p) (pi_rules input) of
        Some rule \<Rightarrow> rule_decision Deny ''rule'' rule
      | None \<Rightarrow>
          (case List.find
                  (\<lambda>r. r_tool r = pi_tool input \<and> r_verdict r = Ask \<and> \<not> is_grant r \<and> p \<noteq> [] \<and>
                       globMatch env (r_pattern r) p (di_root input))
                  (pi_rules input) of
             Some rule \<Rightarrow> rule_decision Ask ''ask-rule'' rule
           | None \<Rightarrow>
               (case di_modeDecide input (path_facts input p absent) of
                  Some d \<Rightarrow> withExec (attributeRule d (allowRuleOf env input p)) (di_profile input)
                | None \<Rightarrow>
                    (case List.find
                            (\<lambda>r. r_tool r = pi_tool input \<and> r_verdict r = Allow \<and> p \<noteq> [] \<and>
                                 globMatch env (r_pattern r) p (di_root input))
                            (pi_rules input) of
                       Some rule \<Rightarrow>
                         allowDecision (''rule:'' @ r_pattern rule)
                           ((if is_grant rule then ''grant'' else ''rule'') @ '':'' @ origin_text (r_origin rule))
                           (di_profile input)
                     | None \<Rightarrow>
                         (case scopeDenySoft input p (di_pathScope input \<and> \<not> pi_write input) of
                            Some d \<Rightarrow> d
                          | None \<Rightarrow>
                              (case di_postureDecide input (path_facts input p absent) of
                                 Some d \<Rightarrow> withExec d (di_profile input)
                               | None \<Rightarrow>
                                   plain_decision Ask (''outside-root:'' @ absent_path_text input)
                                     ''outside-root''))))))"

definition pathOf :: "host_env \<Rightarrow> 'a path_input_scheme \<Rightarrow> path \<times> bool" where
  "pathOf env input =
     (let none = (if di_pathScope input then (resolve env [di_root input], False) else (di_root input, True))
      in case field (di_args input) ''path'' of
           JStr p \<Rightarrow> if p \<noteq> [] then (resolve env [di_root input, p], False) else none
         | _ \<Rightarrow> none)"

fun path_item :: "host_env \<Rightarrow> path \<Rightarrow> jsval \<Rightarrow> path option" where
  "path_item env root (JStr item) = (if item = [] then None else Some (resolve env [root, item]))"
| "path_item env root _ = None"

definition pathsOf :: "host_env \<Rightarrow> 'a path_input_scheme \<Rightarrow> path list option" where
  "pathsOf env input =
     (case field (di_args input) ''paths'' of
        JArr items \<Rightarrow>
          let entries = List.map_filter (path_item env (di_root input)) items
          in if entries \<noteq> [] then Some entries else None
      | _ \<Rightarrow> None)"

fun decide_batch :: "host_env \<Rightarrow> 'a path_input_scheme \<Rightarrow> path list \<Rightarrow> decision option \<Rightarrow> decision option" where
  \<comment> \<open>the loop of \<open>decidePathTool\<close>: a denial ends it, else the first question is kept\<close>
  "decide_batch env input [] firstAsk = firstAsk"
| "decide_batch env input (p # ps) firstAsk =
     (let one = decideOnePath env input p False
      in if d_verdict one = Deny then Some one
         else decide_batch env input ps (if d_verdict one = Ask then or_else firstAsk (Some one) else firstAsk))"

definition decidePathTool :: "host_env \<Rightarrow> 'a path_input_scheme \<Rightarrow> decision" where
  "decidePathTool env input =
     (case pathsOf env input of
        Some batch \<Rightarrow>
          (case decide_batch env input batch None of
             Some d \<Rightarrow> d
           | None \<Rightarrow>
               withExec (attributeRule (plain_decision Allow ''batch in-root'' ''auto'')
                           (allowRuleOf env input (hd batch)))
                 (di_profile input))
      | None \<Rightarrow> (case pathOf env input of (p, absent) \<Rightarrow> decideOnePath env input p absent))"

subsection \<open>All tools\<close>

definition deny_rules_of :: "decide_input \<Rightarrow> permission_rule list" where
  "deny_rules_of input = baselineDenyRules (di_unrestricted input) (di_baseline input) @ di_denyRules input"

definition all_rules_of :: "decide_input \<Rightarrow> permission_rule list" where
  "all_rules_of input =
     di_projectRules input @ di_userRules input @ deny_rules_of input @ di_sessionRules input"

definition path_input_of :: "host_env \<Rightarrow> decide_input \<Rightarrow> bool \<Rightarrow> path_input" where
  "path_input_of env input write =
     (let baselineRoots = resolve env [di_root input] #
                          map (\<lambda>r. resolve env [di_root input, r]) (di_extraRoots input)
      in decide_input.extend input
           \<lparr>pi_write = write, pi_rules = all_rules_of input,
            pi_roots = baselineRoots @ map (\<lambda>p. resolve env [p]) (coalesce (di_fence input) []),
            pi_baselineRoots = Some baselineRoots\<rparr>)"

definition decideFor :: "host_env \<Rightarrow> decide_input \<Rightarrow> decision" where
  "decideFor env input =
     (if di_control input then plain_decision Allow ''control tool'' ''control-tool''
      else case di_kind input of
             Some KindDanger \<Rightarrow> decideDangerFace env input (all_rules_of input) (deny_rules_of input)
           | Some KindRead \<Rightarrow> decidePathTool env (path_input_of env input False)
           | Some KindWrite \<Rightarrow> decidePathTool env (path_input_of env input True)
           | None \<Rightarrow> decideToolFace input (all_rules_of input))"

end
