(* ===== verification/PermClassifier.thy ===== *)
theory PermClassifier
  imports PermDecide
begin

text \<open>
  The classifier of shell lines of the package \<open>permission-modes\<close>: which commands only read
  (\<open>readonly-verbs.ts\<close>), which write inside the roots, and the class of a whole line
  (\<open>classifier.ts\<close>).
\<close>

subsection \<open>readonly-verbs.ts\<close>

definition READONLY_VERBS :: "string list" where
  "READONLY_VERBS =
     [''ls'', ''cat'', ''head'', ''tail'', ''wc'', ''pwd'', ''echo'', ''printf'', ''which'', ''file'',
      ''stat'', ''du'', ''df'', ''ps'', ''env'', ''printenv'', ''whoami'', ''uname'', ''date'', ''id'',
      ''hostname'', ''sort'', ''uniq'', ''cut'', ''tr'', ''diff'', ''cmp'', ''tree'', ''basename'',
      ''dirname'', ''realpath'', ''readlink'', ''jq'', ''true'', ''false'', ''test'', ''sleep'', ''grep'',
      ''rg'', ''find'', ''column'', ''nl'', ''tac'', ''rev'', ''fmt'', ''fold'', ''paste'', ''join'',
      ''comm'', ''seq'', ''expr'', ''bc'', ''cal'', ''factor'', ''numfmt'', ''od'', ''hexdump'', ''strings'',
      ''uptime'', ''who'', ''w'', ''groups'', ''locale'', ''nproc'', ''lsof'', ''netstat'', ''md5sum'',
      ''sha1sum'', ''sha256sum'', ''git'']"

fun cluster_has :: "string \<Rightarrow> char \<Rightarrow> char list \<Rightarrow> bool" where
  "cluster_has [] target valueFlags = False"
| "cluster_has (c # cs) target valueFlags =
     (if c = target then True else if c \<in> set valueFlags then False else cluster_has cs target valueFlags)"

definition clusterHasFlag :: "string \<Rightarrow> char \<Rightarrow> char list \<Rightarrow> bool" where
  "clusterHasFlag word target valueFlags = cluster_has (tl word) target valueFlags"

definition findWriteForms :: "string list \<Rightarrow> bool" where
  "findWriteForms argv =
     list_ex (\<lambda>w. w = ''-delete'' \<or> startsWith w ''-fprint'' \<or> w = ''-fls'' \<or> startsWith w ''-fprintf'') argv"

definition findReadonly :: "string list \<Rightarrow> bool" where
  "findReadonly argv = (if findWriteForms argv then False else \<not> list_ex exec_marker argv)"

definition path_like :: "string \<Rightarrow> bool" where
  "path_like w = (CHR ''/'' \<in> set w \<or> w = ''~'' \<or> startsWith w ''~/'' \<or> w = ''.'' \<or> w = ''..'')"

definition findCarrierSafe :: "string list \<Rightarrow> (string \<Rightarrow> bool) option \<Rightarrow> bool" where
  "findCarrierSafe argv inRoot =
     (if \<not> list_ex exec_marker argv \<or> findWriteForms argv then False
      else case inRoot of
             None \<Rightarrow> True
           | Some inside \<Rightarrow>
               list_all
                 (\<lambda>w. startsWith w ''-'' \<or> startsWith w ''!'' \<or> w = ''('' \<or> w = '')'' \<or>
                      \<not> path_like w \<or> inside w)
                 (tl argv))"

definition GIT_READONLY_SUBS :: "string list" where
  "GIT_READONLY_SUBS =
     [''status'', ''diff'', ''log'', ''show'', ''branch'', ''tag'', ''remote'', ''describe'', ''rev-parse'',
      ''shortlog'', ''reflog'', ''ls-files'', ''ls-remote'', ''ls-tree'', ''cat-file'', ''blame'', ''var'', ''version'']"

definition GIT_BRANCH_MUTATION :: "char list \<times> string list" where
  "GIT_BRANCH_MUTATION =
     (''dmMcC'', [''--delete'', ''--move'', ''--copy'', ''--edit-description'', ''--set-upstream-to'',
                  ''--unset-upstream'', ''--track'', ''--no-track''])"

definition GIT_TAG_MUTATION :: "char list \<times> string list" where
  "GIT_TAG_MUTATION =
     (''damfsu'', [''--delete'', ''--annotate'', ''--message'', ''--file'', ''--sign'', ''--local-user'', ''--force''])"

definition clusterHits :: "string \<Rightarrow> char list \<Rightarrow> bool" where
  "clusterHits word shorts = list_ex (\<lambda>c. c \<in> set shorts) (tl word)"

definition gitMutationHit :: "string list \<Rightarrow> char list \<times> string list \<Rightarrow> bool" where
  "gitMutationHit words table =
     list_ex
       (\<lambda>w. if startsWith w ''--'' then list_ex (\<lambda>flag. startsWith w flag) (snd table)
            else startsWith w ''-'' \<and> w \<noteq> ''-'' \<and> clusterHits w (fst table))
       words"

definition all_flags :: "string list \<Rightarrow> bool" where
  "all_flags words = list_all (\<lambda>w. startsWith w ''-'' \<and> w \<noteq> ''-'') words"

definition gitListOnlyForm :: "string list \<Rightarrow> char list \<times> string list \<Rightarrow> bool" where
  "gitListOnlyForm rest table =
     (if gitMutationHit rest table then False
      else if list_ex (\<lambda>w. w = ''-l'' \<or> startsWith w ''--list'') rest then True
      else all_flags rest)"

definition first_operand :: "string list \<Rightarrow> string option" where
  \<comment> \<open>\<open>argv.find((word, index) => index > 0 && !word.startsWith("-"))\<close>\<close>
  "first_operand argv = List.find (\<lambda>w. \<not> startsWith w ''-'') (tl argv)"

definition gitReadonly :: "string list \<Rightarrow> bool" where
  "gitReadonly argv =
     (if list_ex (\<lambda>w. startsWith w ''--output'' \<or> w = ''--ext-diff'') argv then False
      else case first_operand argv of
             None \<Rightarrow> True
           | Some sub \<Rightarrow>
               if sub \<notin> set GIT_READONLY_SUBS then False
               else
                 let rest = tl (dropWhile (\<lambda>w. w \<noteq> sub) argv)
                 in if sub = ''branch'' then gitListOnlyForm rest GIT_BRANCH_MUTATION
                    else if sub = ''tag'' then gitListOnlyForm rest GIT_TAG_MUTATION
                    else if sub = ''remote'' then all_flags rest
                    else if sub = ''reflog'' then
                      (case List.find (\<lambda>w. \<not> startsWith w ''-'') rest of
                         None \<Rightarrow> True | Some first \<Rightarrow> first = ''show'')
                    else True)"

definition dash_flag :: "string \<Rightarrow> bool" where
  "dash_flag w = (startsWith w ''-'' \<and> \<not> startsWith w ''--'')"

definition sortReadonly :: "string list \<Rightarrow> bool" where
  "sortReadonly argv =
     (\<not> list_ex
        (\<lambda>w. if startsWith w ''--compress-program'' then True
             else if startsWith w ''--o'' then True
             else if dash_flag w then clusterHasFlag w (CHR ''o'') ''ktTSo'' else False)
        (tl argv))"

fun uniq_operands :: "string list \<Rightarrow> bool \<Rightarrow> nat" where
  \<comment> \<open>the loop of \<open>uniqReadonly\<close>: the number of operands, with \<open>flagsDone\<close> as second argument\<close>
  "uniq_operands [] flagsDone = 0"
| "uniq_operands (w # ws) flagsDone =
     (if \<not> flagsDone \<and> w = ''--'' then uniq_operands ws True
      else if \<not> flagsDone \<and> startsWith w ''-'' \<and> w \<noteq> ''-'' then
        (if w = ''-f'' \<or> w = ''-s'' \<or> w = ''-w'' then uniq_operands (drop 1 ws) flagsDone
         else uniq_operands ws flagsDone)
      else Suc (uniq_operands ws True))"

definition uniqReadonly :: "string list \<Rightarrow> bool" where
  "uniqReadonly argv = (uniq_operands (tl argv) False \<le> 1)"

definition treeReadonly :: "string list \<Rightarrow> bool" where
  "treeReadonly argv =
     (\<not> list_ex
        (\<lambda>w. if startsWith w ''--o'' then True
             else if dash_flag w then clusterHasFlag w (CHR ''o'') ''LIHPo'' else False)
        (tl argv))"

definition dateReadonly :: "string list \<Rightarrow> bool" where
  "dateReadonly argv = list_all (\<lambda>w. startsWith w ''+'') (tl argv)"

definition hostnameReadonly :: "string list \<Rightarrow> bool" where
  "hostnameReadonly argv = (length argv = 1)"

definition rgReadonly :: "string list \<Rightarrow> bool" where
  "rgReadonly argv = (\<not> list_ex (\<lambda>w. startsWith w ''--pre'') (tl argv))"

definition READONLY_EXCEPT :: "string \<Rightarrow> (string list \<Rightarrow> bool) option" where
  "READONLY_EXCEPT base =
     (if base = ''git'' then Some gitReadonly
      else if base = ''find'' then Some findReadonly
      else if base = ''sort'' then Some sortReadonly
      else if base = ''uniq'' then Some uniqReadonly
      else if base = ''tree'' then Some treeReadonly
      else if base = ''date'' then Some dateReadonly
      else if base = ''hostname'' then Some hostnameReadonly
      else if base = ''rg'' then Some rgReadonly
      else None)"

definition commandReadonly :: "string list \<Rightarrow> bool" where
  "commandReadonly argv =
     (case argv of
        [] \<Rightarrow> True
      | w # _ \<Rightarrow>
          let base = basenameOf w
          in if base \<notin> set READONLY_VERBS then False
             else (case READONLY_EXCEPT base of None \<Rightarrow> True | Some test \<Rightarrow> test argv))"

subsection \<open>classifier.ts\<close>

definition WRITE_SAFE_VERBS :: "string list" where
  "WRITE_SAFE_VERBS = [''mkdir'', ''touch'', ''cp'', ''mv'', ''ln'', ''tee'', ''install'']"

definition WRITE_SAFE_FAMILY :: "string \<Rightarrow> string list option" where
  "WRITE_SAFE_FAMILY =
     map_of
       [(''git'', [''add'', ''commit'', ''checkout'', ''switch'', ''restore'', ''stash'', ''pull'', ''fetch'',
                   ''merge'', ''rebase'', ''clone'', ''init'', ''cherry-pick'', ''reset'', ''clean'', ''mv'', ''rm'']),
        (''npm'', [''install'', ''add'', ''ci'', ''uninstall'', ''run'', ''test'', ''build'', ''dev'']),
        (''pnpm'', [''install'', ''add'', ''ci'', ''remove'', ''run'', ''test'', ''build'', ''dev'']),
        (''yarn'', [''install'', ''add'', ''remove'', ''run'', ''test'', ''build'', ''dev'']),
        (''bun'', [''install'', ''add'', ''remove'', ''run'', ''test'', ''build'', ''dev'']),
        (''cargo'', [''build'', ''test'', ''check'', ''run'', ''fmt'', ''clippy'', ''add'']),
        (''go'', [''build'', ''test'', ''vet'', ''run'', ''mod'', ''fmt'']),
        (''docker'', [''build'', ''pull'', ''logs'', ''ps'']),
        (''uv'', [''run'', ''test''])]"

definition GLOBAL_INSTALL :: "string list" where
  "GLOBAL_INSTALL = [''npm'', ''pnpm'', ''yarn'', ''bun'', ''cargo'']"

definition commandWriteSafe :: "string list \<Rightarrow> bool" where
  "commandWriteSafe argv =
     (case argv of
        [] \<Rightarrow> False
      | w # _ \<Rightarrow>
          let base = basenameOf w
          in if base \<in> set GLOBAL_INSTALL \<and> list_ex (\<lambda>w. w = ''-g'' \<or> w = ''--global'') argv then False
             else if base \<in> set WRITE_SAFE_VERBS then True
             else (case WRITE_SAFE_FAMILY base of
                     None \<Rightarrow> False
                   | Some family \<Rightarrow>
                       (case first_operand argv of None \<Rightarrow> False | Some sub \<Rightarrow> sub \<in> set family)))"

definition CARRIER_SKIP :: "string list" where
  "CARRIER_SKIP =
     [''bash'', ''sh'', ''zsh'', ''dash'', ''ksh'', ''find'', ''parallel'', ''eval'', ''trap'', ''watch'']"

definition TRANSPORT_STRIP :: "string list" where
  "TRANSPORT_STRIP =
     [''env'', ''nohup'', ''timeout'', ''nice'', ''stdbuf'', ''setsid'', ''command'', ''builtin'', ''xargs'']"

datatype command_class = Readonly | WriteClass | Unclassified

definition transport_arg :: "string \<Rightarrow> bool" where
  "transport_arg w = (startsWith w ''-'' \<or> (w \<noteq> [] \<and> list_all is_digit w) \<or> assign_word w)"

function stripTransport :: "string list \<Rightarrow> string list" where
  "stripTransport [] = []"
| "stripTransport (w # ws) =
     (if basenameOf w \<in> set TRANSPORT_STRIP then stripTransport (dropWhile transport_arg ws) else w # ws)"
  by pat_completeness auto
termination
  by (relation "measure length") (auto simp: less_Suc_eq_le length_dropWhile_le)

definition withinRoots :: "host_env \<Rightarrow> string \<Rightarrow> path list \<Rightarrow> bool" where
  "withinRoots env word roots =
     (let target =
        (if word = ''~'' then home_dir env
         else if startsWith word ''~/'' then resolve env [home_dir env, drop 2 word]
         else resolve env [case roots of [] \<Rightarrow> proc_cwd env | r # _ \<Rightarrow> r, word])
      in withinAny target roots)"

definition carrierSkipOf :: "host_env \<Rightarrow> parsed_command \<Rightarrow> string \<Rightarrow> bool \<Rightarrow> path list \<Rightarrow> bool" where
  "carrierSkipOf env cmd base multiSegment roots =
     (if \<not> multiSegment \<or> base \<notin> set CARRIER_SKIP \<or> pc_opaque cmd \<noteq> None then False
      else base \<noteq> ''find'' \<or>
           findCarrierSafe (pc_argv cmd) (Some (\<lambda>word. roots = [] \<or> withinRoots env word roots)))"

definition bareCarrier :: "string \<Rightarrow> string list \<Rightarrow> bool" where
  "bareCarrier base argv =
     (length argv = 1 \<and> (base \<in> set CARRIER_SKIP \<or> base \<in> set TRANSPORT_STRIP))"

definition findOperandsInRoot :: "string list \<Rightarrow> (string \<Rightarrow> bool) \<Rightarrow> bool" where
  "findOperandsInRoot argv inside =
     list_all
       (\<lambda>w. startsWith w ''-'' \<or> startsWith w ''!'' \<or> w = ''('' \<or> w = '')'' \<or> w = ''{}'' \<or>
            \<not> path_like w \<or> inside w)
       (tl argv)"

definition operand_value :: "string \<Rightarrow> string option" where
  \<comment> \<open>\<open>valueOf\<close>\<close>
  "operand_value w =
     (if \<not> startsWith w ''-'' then Some w
      else case index_in w ''='' of None \<Rightarrow> None | Some eq \<Rightarrow> Some (drop (Suc eq) w))"

definition writeOperandsInRoot :: "string list \<Rightarrow> (string \<Rightarrow> bool) \<Rightarrow> bool" where
  "writeOperandsInRoot argv inside =
     list_all
       (\<lambda>w. case operand_value w of
              None \<Rightarrow> True
            | Some v \<Rightarrow> if v = [] then True else \<not> path_like v \<or> inside v)
       (tl argv)"

definition segmentClass :: "host_env \<Rightarrow> string list \<Rightarrow> path list \<Rightarrow> command_class" where
  "segmentClass env argv roots =
     (if argv \<noteq> [] \<and> basenameOf (hd argv) = ''find'' \<and> roots \<noteq> [] \<and>
         \<not> findOperandsInRoot argv (\<lambda>w. withinRoots env w roots)
      then Unclassified
      else if commandReadonly argv then Readonly
      else if \<not> commandWriteSafe argv then Unclassified
      else if writeOperandsInRoot argv (\<lambda>w. roots = [] \<or> withinRoots env w roots)
      then WriteClass else Unclassified)"

fun classify_loop ::
  "host_env \<Rightarrow> bool \<Rightarrow> path list \<Rightarrow> bool \<Rightarrow> parsed_command list \<Rightarrow> bool \<Rightarrow> command_class" where
  \<comment> \<open>the loop of \<open>classifyPipeline\<close>; the last argument is \<open>sawWrite\<close>\<close>
  "classify_loop env multi roots redirected [] sawWrite =
     (if sawWrite \<or> redirected then WriteClass else Readonly)"
| "classify_loop env multi roots redirected (cmd # cmds) sawWrite =
     (if pc_argv cmd = [] then classify_loop env multi roots redirected cmds sawWrite
      else
        let base = basenameOf (head_word cmd)
        in if carrierSkipOf env cmd base multi roots \<or> bareCarrier base (pc_argv cmd) \<or>
              stripTransport (pc_argv cmd) = []
           then classify_loop env multi roots redirected cmds sawWrite
           else (case segmentClass env (stripTransport (pc_argv cmd)) roots of
                   Unclassified \<Rightarrow> Unclassified
                 | WriteClass \<Rightarrow> classify_loop env multi roots redirected cmds True
                 | Readonly \<Rightarrow> classify_loop env multi roots redirected cmds sawWrite))"

definition classifyPipeline ::
  "host_env \<Rightarrow> parsed_command list \<Rightarrow> bool \<Rightarrow> path list \<Rightarrow> command_class" where
  "classifyPipeline env cmds hasOutputRedirect roots =
     classify_loop env (1 < length cmds) roots hasOutputRedirect cmds False"

subsection \<open>What a class promises\<close>

definition examined :: "host_env \<Rightarrow> bool \<Rightarrow> path list \<Rightarrow> parsed_command \<Rightarrow> bool" where
  \<comment> \<open>the commands whose own words the classifier looks at\<close>
  "examined env multi roots cmd \<longleftrightarrow>
     pc_argv cmd \<noteq> [] \<and> \<not> carrierSkipOf env cmd (basenameOf (head_word cmd)) multi roots \<and>
     \<not> bareCarrier (basenameOf (head_word cmd)) (pc_argv cmd) \<and> stripTransport (pc_argv cmd) \<noteq> []"

lemma classify_loop_spec:
  "classify_loop env multi roots redirected cmds saw \<noteq> Unclassified \<longleftrightarrow>
     (\<forall>cmd \<in> set cmds. examined env multi roots cmd \<longrightarrow>
        segmentClass env (stripTransport (pc_argv cmd)) roots \<noteq> Unclassified)"
  "classify_loop env multi roots redirected cmds saw = Readonly \<longleftrightarrow>
     \<not> saw \<and> \<not> redirected \<and>
     (\<forall>cmd \<in> set cmds. examined env multi roots cmd \<longrightarrow>
        segmentClass env (stripTransport (pc_argv cmd)) roots = Readonly)"
proof (induction env multi roots redirected cmds saw rule: classify_loop.induct)
  case (2 env multi roots redirected cmd cmds saw)
  { case 1
    show ?case
      using "2.IH" by (cases "segmentClass env (stripTransport (pc_argv cmd)) roots")
        (auto simp: examined_def Let_def)
  next
    case 2
    show ?case
      using "2.IH" by (cases "segmentClass env (stripTransport (pc_argv cmd)) roots")
        (auto simp: examined_def Let_def) }
qed simp_all

lemma withinRoots_contained:
  assumes "withinRoots env v roots" "roots \<noteq> []" "list_all normal_path roots" "isAbsolute (proc_cwd env)"
    and "v \<noteq> ''~''" "\<not> startsWith v ''~/''"
  shows "\<exists>root \<in> set roots. prefix (path_segments root) (path_segments (resolve env [hd roots, v]))"
proof -
  have "withinAny (resolve env [hd roots, v]) roots"
    using assms(1,2,5,6) by (cases roots) (simp_all add: withinRoots_def)
  then obtain root where r: "root \<in> set roots" "within_root (resolve env [hd roots, v]) root"
    by (auto simp: withinAny_def list_ex_iff)
  moreover have "normal_path root" using assms(3) r(1) by (simp add: list_all_iff)
  ultimately show ?thesis using within_root_iff resolve_normal [OF assms(4)] by blast
qed

text \<open>When a line is classified as a write (so that the automatic mode allows it), every operand of
  an examined write command that looks like a path, and every such value of a \<open>--name=value\<close>
  option, names a file below one of the roots once \<open>.\<close> and \<open>..\<close> are resolved.\<close>

theorem write_class_contained:
  assumes "classifyPipeline env cmds redirected roots = WriteClass"
    and "roots \<noteq> []" and "list_all normal_path roots" and "isAbsolute (proc_cwd env)"
    and "cmd \<in> set cmds" and "examined env (1 < length cmds) roots cmd"
    and "\<not> commandReadonly (stripTransport (pc_argv cmd))"
    and "w \<in> set (tl (stripTransport (pc_argv cmd)))" and "operand_value w = Some v"
    and "path_like v" and "v \<noteq> ''~''" and "\<not> startsWith v ''~/''"
  shows "\<exists>root \<in> set roots. prefix (path_segments root) (path_segments (resolve env [hd roots, v]))"
proof -
  have "classify_loop env (1 < length cmds) roots redirected cmds False \<noteq> Unclassified"
    using assms(1) by (simp add: classifyPipeline_def)
  then have "segmentClass env (stripTransport (pc_argv cmd)) roots \<noteq> Unclassified"
    using classify_loop_spec(1) assms(5,6) by blast
  then have "writeOperandsInRoot (stripTransport (pc_argv cmd)) (\<lambda>w. roots = [] \<or> withinRoots env w roots)"
    using assms(7) by (auto simp: segmentClass_def split: if_splits)
  then have "case operand_value w of None \<Rightarrow> True
      | Some v \<Rightarrow> if v = [] then True else \<not> path_like v \<or> (roots = [] \<or> withinRoots env v roots)"
    unfolding writeOperandsInRoot_def list_all_iff using assms(8) by blast
  moreover have "v \<noteq> []" using assms(10) by (auto simp: path_like_def)
  ultimately have "withinRoots env v roots" using assms(2,9,10) by simp
  then show ?thesis using withinRoots_contained assms(2-4,11,12) by blast
qed

lemma write_class_contained_witness:
  "\<exists>root \<in> set [''/w'']. prefix (path_segments root) (path_segments (resolve linux_host [hd [''/w''], ''./a/../b'']))"
proof (rule write_class_contained [where cmds = "[bare_command [''touch'', ''./a/../b''] ''touch ./a/../b'']"
      and redirected = False and cmd = "bare_command [''touch'', ''./a/../b''] ''touch ./a/../b''" and w = "''./a/../b''"])
  show "classifyPipeline linux_host [bare_command [''touch'', ''./a/../b''] ''touch ./a/../b''] False [''/w''] = WriteClass"
    by code_simp
  show "list_all normal_path [''/w'']" by code_simp
  show "examined linux_host (1 < length [bare_command [''touch'', ''./a/../b''] ''touch ./a/../b''])
      [''/w''] (bare_command [''touch'', ''./a/../b''] ''touch ./a/../b'')" by code_simp
  show "\<not> commandReadonly (stripTransport (pc_argv (bare_command [''touch'', ''./a/../b''] ''touch ./a/../b'')))" by code_simp
  show "''./a/../b'' \<in> set (tl (stripTransport (pc_argv (bare_command [''touch'', ''./a/../b''] ''touch ./a/../b''))))" by code_simp
qed (simp_all add: linux_host_def isAbsolute_def operand_value_def path_like_def)

text \<open>The test does not see the value of a short option written in one word: \<open>cp -t /etc x\<close> is left
  unclassified because it names a directory outside the root \<open>/w\<close>, while \<open>cp -t/etc x\<close>, which does
  the same, counts as a write inside the root and names no protected path either.\<close>

theorem attached_option_escapes:
  "classifyPipeline linux_host [bare_command [''cp'', ''-t'', ''/etc'', ''x''] ''cp -t /etc x''] False [''/w''] = Unclassified \<and>
   classifyPipeline linux_host [bare_command [''cp'', ''-t/etc'', ''x''] ''cp -t/etc x''] False [''/w''] = WriteClass \<and>
   flag_value ''-t/etc'' = None"
  by (intro conjI; code_simp)

end
