(* ===== verification/PermModes.thy ===== *)
theory PermModes
  imports PermClassifier PermAdjudicateProps
begin

text \<open>
  The built-in modes and profiles (\<open>permission-modes/src/modes.ts\<close>) and the contracts the
  decision code relies on: a restrictive mode denies every command and every write in its
  \<open>decide\<close>; a contained posture allows a path only inside the roots. What follows for a decision
  is proved once from each contract, and each is interpreted on the modes of the code.
\<close>

record mode_plugin =
  mp_id :: string
  mp_decide :: "decider option"
  mp_posture :: "decider option"
  mp_unrestricted :: bool
  mp_escalatable :: bool

definition decider_of :: "decider option \<Rightarrow> decider" where
  \<comment> \<open>\<open>f?.(facts)\<close>\<close>
  "decider_of f = (case f of None \<Rightarrow> (\<lambda>_. None) | Some g \<Rightarrow> g)"

definition m_allow :: "string \<Rightarrow> string \<Rightarrow> decision option" where
  "m_allow reason by = Some (plain_decision Allow reason by)"

definition m_ask :: "string \<Rightarrow> string \<Rightarrow> bool \<Rightarrow> string option \<Rightarrow> decision option" where
  "m_ask reason by memorizable suggested =
     Some ((plain_decision Ask reason by)\<lparr>d_memorizable := memorizable, d_suggestedRule := suggested\<rparr>)"

definition m_deny :: "string \<Rightarrow> string \<Rightarrow> decision option" where
  "m_deny reason by = Some (plain_decision Deny reason by)"

definition classOf :: "host_env \<Rightarrow> adjudication_facts \<Rightarrow> command_class" where
  "classOf env facts =
     classifyPipeline env (coalesce (af_segments facts) []) (af_hasOutputRedirect facts)
       (coalesce (af_roots facts) [])"

definition some_opaque :: "adjudication_facts \<Rightarrow> bool" where
  "some_opaque facts = list_ex (\<lambda>cmd. pc_opaque cmd \<noteq> None) (coalesce (af_segments facts) [])"

subsection \<open>Full\<close>

definition full_decide :: decider where
  "full_decide facts =
     (if af_elevation facts then m_deny ''hard-deny:sudo'' ''mode:full'' else m_allow ''full mode'' ''mode:full'')"

definition fullMode :: mode_plugin where
  "fullMode = \<lparr>mp_id = ''full'', mp_decide = Some full_decide, mp_posture = None,
               mp_unrestricted = True, mp_escalatable = False\<rparr>"

subsection \<open>Auto\<close>

definition kind_text :: "tool_kind \<Rightarrow> string" where
  "kind_text k = (case k of KindRead \<Rightarrow> ''Read'' | KindWrite \<Rightarrow> ''Write'' | KindDanger \<Rightarrow> ''Danger'')"

definition parent_dir :: "path \<Rightarrow> path" where
  \<comment> \<open>\<open>path.slice(0, Math.max(path.lastIndexOf("/"), 1))\<close>\<close>
  "parent_dir p = take (max (case lastIndexOf p ''/'' of None \<Rightarrow> 0 | Some k \<Rightarrow> k) 1) p"

definition hasGlobMeta :: "string \<Rightarrow> bool" where
  "hasGlobMeta s = (CHR ''*'' \<in> set s \<or> CHR ''?'' \<in> set s \<or> CHR ''['' \<in> set s)"

definition replace_char :: "char \<Rightarrow> string \<Rightarrow> string \<Rightarrow> string" where
  \<comment> \<open>\<open>s.replace(/c/g, w)\<close>\<close>
  "replace_char c w s = concat (map (\<lambda>d. if d = c then w else [d]) s)"

definition literal_path :: "path \<Rightarrow> string" where
  "literal_path p =
     replace_char (CHR ''['') ''[[]'' (replace_char (CHR ''?'') ''[?]'' (replace_char (CHR ''*'') ''[*]'' p))"

definition outside_ask :: "path \<Rightarrow> tool_kind \<Rightarrow> decision" where
  \<comment> \<open>the question of the automatic mode about a path outside the roots\<close>
  "outside_ask p kind =
     (let dir = parent_dir p;
          suggested = (if dir = ''/'' \<or> hasGlobMeta dir
                       then kind_text kind @ ''('' @ literal_path p @ ''):allow''
                       else kind_text kind @ ''('' @ dir @ ''/**):allow'')
      in (plain_decision Ask (''outside-root:'' @ p) ''outside-root'')
           \<lparr>d_grant := (if dir \<noteq> ''/'' \<and> kind = KindWrite then Some dir else None),
            d_memorizable := True, d_suggestedRule := Some suggested\<rparr>)"

definition auto_posture :: "host_env \<Rightarrow> decider" where
  "auto_posture env facts =
     (case af_face facts of
        FacePath \<Rightarrow>
          if af_pathAbsent facts then m_ask (''path-absent:'' @ af_tool facts) ''path-absent'' False None
          else if af_inRoot facts = Some True then m_allow ''in-root'' ''auto''
          else (case (af_path facts, af_kind facts) of
                  (Some p, Some kind) \<Rightarrow> Some (outside_ask p kind)
                | _ \<Rightarrow> None)
      | FaceTool \<Rightarrow> None
      | FaceBash \<Rightarrow>
          if some_opaque facts then None
          else (case classOf env facts of
                  Readonly \<Rightarrow> m_allow ''classifier:readonly'' ''classifier:readonly''
                | WriteClass \<Rightarrow> m_allow ''classifier:in-root-write'' ''classifier:in-root-write''
                | Unclassified \<Rightarrow> None))"

definition autoMode :: "host_env \<Rightarrow> mode_plugin" where
  "autoMode env = \<lparr>mp_id = ''auto'', mp_decide = None, mp_posture = Some (auto_posture env),
                   mp_unrestricted = False, mp_escalatable = False\<rparr>"

subsection \<open>Confirmed edits\<close>

definition strip_slashes :: "string \<Rightarrow> string" where
  \<comment> \<open>\<open>s.replace(/\/+$/, "")\<close>\<close>
  "strip_slashes s = rev (dropWhile (\<lambda>c. c = CHR ''/'') (rev s))"

definition edit_confirm_posture :: "host_env \<Rightarrow> decider" where
  "edit_confirm_posture env facts =
     (if af_face facts = FacePath \<and> af_pathAbsent facts
      then m_ask (''path-absent:'' @ af_tool facts) ''path-absent'' False None
      else if af_face facts = FacePath \<and> af_inRoot facts = Some True \<and> af_kind facts = Some KindWrite
      then m_ask ''edit-confirm: in-root write'' ''edit-confirm'' True
             (Some (''Write('' @ strip_slashes (coalesce (af_root facts) ''/'') @ ''/**):allow''))
      else if af_kind facts = Some KindDanger \<and> classOf env facts = WriteClass
      then m_ask ''edit-confirm: in-root write'' ''edit-confirm'' True None
      else auto_posture env facts)"

definition editConfirmMode :: "host_env \<Rightarrow> mode_plugin" where
  "editConfirmMode env =
     \<lparr>mp_id = ''edit-confirm'', mp_decide = None, mp_posture = Some (edit_confirm_posture env),
      mp_unrestricted = False, mp_escalatable = False\<rparr>"

subsection \<open>Sandboxed\<close>

definition sandboxed_posture :: "host_env \<Rightarrow> decider" where
  "sandboxed_posture env facts =
     (if af_kind facts = Some KindDanger \<and> (classOf env facts = Unclassified \<or> some_opaque facts)
      then m_allow ''classifier:unclassified (fenced)'' ''classifier:unclassified''
      else auto_posture env facts)"

definition sandboxedAutoMode :: "host_env \<Rightarrow> mode_plugin" where
  "sandboxedAutoMode env =
     \<lparr>mp_id = ''sandboxed-auto'', mp_decide = None, mp_posture = Some (sandboxed_posture env),
      mp_unrestricted = False, mp_escalatable = True\<rparr>"

subsection \<open>Plan\<close>

definition plan_decide :: decider where
  "plan_decide facts =
     (if af_face facts = FacePath \<and> af_kind facts = Some KindWrite
      then m_deny ''plan mode disallows write'' ''mode:plan''
      else if af_kind facts = Some KindDanger then
        (if af_parseFailed facts \<noteq> None then m_deny ''plan mode: command not parseable'' ''mode:plan''
         else if af_elevation facts \<or> af_hardDenyKind facts \<noteq> None
         then m_deny ''plan mode: elevation denied'' ''mode:plan''
         else m_deny ''plan mode disallows bash'' ''mode:plan'')
      else None)"

definition planDefaultMode :: "host_env \<Rightarrow> mode_plugin" where
  "planDefaultMode env =
     \<lparr>mp_id = ''plan'', mp_decide = Some plan_decide, mp_posture = Some (auto_posture env),
      mp_unrestricted = False, mp_escalatable = False\<rparr>"

subsection \<open>Profiles\<close>

definition knobDecideOf :: "host_env \<Rightarrow> permission_profile \<Rightarrow> mode_plugin" where
  "knobDecideOf env profile =
     (if pr_mutationPolicy profile = PlanDeny then planDefaultMode env
      else if pr_mutationPolicy profile = ConfirmAll then editConfirmMode env
      else if pr_askPolicy profile = AskAlways then editConfirmMode env
      else if pr_askPolicy profile = AskNever \<and> pr_containment profile = NotContained then fullMode
      else if pr_askPolicy profile = AskOnFailure \<and> pr_containment profile = Fenced then sandboxedAutoMode env
      else autoMode env)"

definition BUILTIN_PROFILES :: "permission_profile list" where
  "BUILTIN_PROFILES =
     [\<lparr>pr_id = ''plan'', pr_askPolicy = AskAlways, pr_containment = NotContained, pr_mutationPolicy = PlanDeny\<rparr>,
      \<lparr>pr_id = ''auto'', pr_askPolicy = AskOnOpaque, pr_containment = NotContained, pr_mutationPolicy = AutoInRoot\<rparr>,
      \<lparr>pr_id = ''edit-confirm'', pr_askPolicy = AskOnOpaque, pr_containment = NotContained, pr_mutationPolicy = ConfirmAll\<rparr>,
      \<lparr>pr_id = ''full'', pr_askPolicy = AskNever, pr_containment = NotContained, pr_mutationPolicy = AutoInRoot\<rparr>,
      \<lparr>pr_id = ''sandboxed-auto'', pr_askPolicy = AskOnFailure, pr_containment = Fenced, pr_mutationPolicy = AutoInRoot\<rparr>]"

definition resolveProfile :: "string \<Rightarrow> permission_profile list option \<Rightarrow> permission_profile option" where
  "resolveProfile i customRows =
     (case List.find (\<lambda>p. pr_id p = i) BUILTIN_PROFILES of
        Some builtin \<Rightarrow> Some builtin
      | None \<Rightarrow> (case customRows of None \<Rightarrow> None | Some rows \<Rightarrow> List.find (\<lambda>p. pr_id p = i) rows))"

end
