(* ===== verification/PermGrants.thy ===== *)
theory PermGrants
  imports JsMap PermModes
begin

text \<open>
  What a session has been granted (\<open>permission/src/grants.ts\<close>): the directories and rules a user
  approved while it ran, and the switch of the unrestricted mode. The registry is a state
  machine; its invariants are proved by induction on the steps that reach a state.
\<close>

record session_bucket =
  b_extraRoots :: "path list" \<comment> \<open>a \<open>Set\<close> in insertion order\<close>
  b_rules :: "permission_rule list"
  b_rootOverride :: "(path \<times> path) option"

record grants_registry =
  g_buckets :: "(string, session_bucket) jsmap"
  g_overriddenKeys :: "string list"
  g_deadSessions :: "string list"
  g_disposed :: bool
  g_unrestricted :: bool

definition new_grants :: grants_registry where
  "new_grants =
     \<lparr>g_buckets = [], g_overriddenKeys = [], g_deadSessions = [], g_disposed = False, g_unrestricted = False\<rparr>"

definition session_key :: "string option \<Rightarrow> string" where
  \<comment> \<open>\<open>session ?? "_anon"\<close>\<close>
  "session_key session = coalesce session ''_anon''"

definition fresh_bucket :: session_bucket where
  "fresh_bucket = \<lparr>b_extraRoots = [], b_rules = [], b_rootOverride = None\<rparr>"

definition bucket :: "grants_registry \<Rightarrow> string option \<Rightarrow> session_bucket" where
  "bucket g session = coalesce (map_get (g_buckets g) (session_key session)) fresh_bucket"

definition put_bucket :: "grants_registry \<Rightarrow> string option \<Rightarrow> session_bucket \<Rightarrow> grants_registry" where
  "put_bucket g session b = g\<lparr>g_buckets := map_set (g_buckets g) (session_key session) b\<rparr>"

subsection \<open>Reading\<close>

definition isOverridden :: "grants_registry \<Rightarrow> string option \<Rightarrow> bool" where
  "isOverridden g session = (session_key session \<in> set (g_overriddenKeys g))"

definition isUnrestricted :: "grants_registry \<Rightarrow> string option \<Rightarrow> bool" where
  "isUnrestricted g session =
     (if \<not> g_unrestricted g \<or> g_disposed g then False else \<not> isOverridden g session)"

definition extraRootsOf :: "grants_registry \<Rightarrow> string option \<Rightarrow> path list" where
  "extraRootsOf g session =
     (if g_unrestricted g \<and> \<not> g_disposed g \<and> \<not> isOverridden g session then [''/'']
      else case map_get (g_buckets g) (session_key session) of
             None \<Rightarrow> []
           | Some b \<Rightarrow> b_extraRoots b)"

definition rootOverrideOf :: "grants_registry \<Rightarrow> string option \<Rightarrow> (path \<times> path) option" where
  "rootOverrideOf g session =
     (case map_get (g_buckets g) (session_key session) of None \<Rightarrow> None | Some b \<Rightarrow> b_rootOverride b)"

definition rulesOf :: "grants_registry \<Rightarrow> string option \<Rightarrow> permission_rule list" where
  "rulesOf g session =
     (case map_get (g_buckets g) (session_key session) of None \<Rightarrow> [] | Some b \<Rightarrow> b_rules b)"

subsection \<open>Writing\<close>

definition setUnrestricted :: "bool \<Rightarrow> grants_registry \<Rightarrow> grants_registry" where
  "setUnrestricted enabled g = g\<lparr>g_unrestricted := enabled\<rparr>"

definition closed_for :: "grants_registry \<Rightarrow> string option \<Rightarrow> bool" where
  \<comment> \<open>the guard of \<open>addExtraRoot\<close> and \<open>addRule\<close>\<close>
  "closed_for g session = (g_disposed g \<or> session_key session \<in> set (g_deadSessions g))"

definition addExtraRoot :: "string option \<Rightarrow> path \<Rightarrow> grants_registry \<Rightarrow> grants_registry" where
  "addExtraRoot session dir g =
     (if closed_for g session then g
      else put_bucket g session
             ((bucket g session)\<lparr>b_extraRoots := List.insert dir (b_extraRoots (bucket g session))\<rparr>))"

definition same_rule :: "permission_rule \<Rightarrow> permission_rule \<Rightarrow> bool" where
  "same_rule existing rule = (r_tool existing = r_tool rule \<and> r_pattern existing = r_pattern rule)"

definition addRule :: "string option \<Rightarrow> permission_rule \<Rightarrow> grants_registry \<Rightarrow> grants_registry" where
  "addRule session rule g =
     (if closed_for g session then g
      else put_bucket g session
             (let b = bucket g session
              in if list_ex (\<lambda>existing. same_rule existing rule) (b_rules b) then b
                 else b\<lparr>b_rules := b_rules b @ [rule]\<rparr>))"

definition setRootOverride ::
  "host_env \<Rightarrow> string option \<Rightarrow> path \<Rightarrow> path \<Rightarrow> grants_registry \<Rightarrow> grants_registry" where
  "setRootOverride env session dir guard g =
     (let g = g\<lparr>g_overriddenKeys := List.insert (session_key session) (g_overriddenKeys g)\<rparr>
      in put_bucket g session
           ((bucket g session)\<lparr>b_rootOverride := Some (resolve env [dir], resolve env [guard])\<rparr>))"

definition evict :: "string option \<Rightarrow> grants_registry \<Rightarrow> grants_registry" where
  "evict session g =
     g\<lparr>g_buckets := map_delete (g_buckets g) (session_key session),
       g_deadSessions := List.insert (session_key session) (g_deadSessions g)\<rparr>"

definition seal :: "grants_registry \<Rightarrow> grants_registry" where
  "seal g = g\<lparr>g_disposed := True\<rparr>"

subsection \<open>The registry as a state machine\<close>

inductive grants_step :: "host_env \<Rightarrow> grants_registry \<Rightarrow> grants_registry \<Rightarrow> bool" for env where
  step_unrestricted: "grants_step env g (setUnrestricted enabled g)"
| step_root: "grants_step env g (addExtraRoot session dir g)"
| step_rule: "grants_step env g (addRule session rule g)"
| step_override: "grants_step env g (setRootOverride env session dir guard g)"
| step_evict: "grants_step env g (evict session g)"
| step_seal: "grants_step env g (seal g)"

inductive grants_later :: "host_env \<Rightarrow> grants_registry \<Rightarrow> grants_registry \<Rightarrow> bool" for env where
  later_refl: "grants_later env g g"
| later_step: "grants_later env g h \<Longrightarrow> grants_step env h k \<Longrightarrow> grants_later env g k"

inductive_cases grants_stepE: "grants_step env g h"

lemmas grants_defs = setUnrestricted_def addExtraRoot_def addRule_def setRootOverride_def evict_def seal_def
  put_bucket_def closed_for_def Let_def

lemma step_monotone:
  assumes "grants_step env g h"
  shows "set (g_overriddenKeys g) \<subseteq> set (g_overriddenKeys h)"
    and "set (g_deadSessions g) \<subseteq> set (g_deadSessions h)" and "g_disposed g \<Longrightarrow> g_disposed h"
  using assms by (auto simp: grants_defs elim!: grants_stepE)

lemma later_monotone:
  assumes "grants_later env g h"
  shows "set (g_overriddenKeys g) \<subseteq> set (g_overriddenKeys h) \<and>
    set (g_deadSessions g) \<subseteq> set (g_deadSessions h) \<and> (g_disposed g \<longrightarrow> g_disposed h)"
  using assms by induction (use step_monotone in blast)+

subsection \<open>Rules are not duplicated\<close>

definition rules_unique :: "permission_rule list \<Rightarrow> bool" where
  "rules_unique rules = distinct (map (\<lambda>r. (r_tool r, r_pattern r)) rules)"

definition grants_wf :: "grants_registry \<Rightarrow> bool" where
  "grants_wf g \<longleftrightarrow> map_ok (g_buckets g) \<and>
     (\<forall>k b. map_get (g_buckets g) k = Some b \<longrightarrow> rules_unique (b_rules b) \<and> distinct (b_extraRoots b))"

lemma wf_put:
  assumes "grants_wf g" "rules_unique (b_rules b)" "distinct (b_extraRoots b)"
  shows "grants_wf (put_bucket g session b)"
  using assms by (auto simp: grants_wf_def put_bucket_def js_map.ok_put js_map.get_put split: if_splits)

lemma wf_bucket:
  assumes "grants_wf g"
  shows "rules_unique (b_rules (bucket g session))" "distinct (b_extraRoots (bucket g session))"
  using assms by (cases "map_get (g_buckets g) (session_key session)";
      auto simp: grants_wf_def bucket_def fresh_bucket_def rules_unique_def)+

lemma wf_more [simp]:
  "grants_wf (g\<lparr>g_overriddenKeys := x\<rparr>) = grants_wf g" "grants_wf (g\<lparr>g_unrestricted := u\<rparr>) = grants_wf g"
  "grants_wf (g\<lparr>g_disposed := d\<rparr>) = grants_wf g" "grants_wf (g\<lparr>g_deadSessions := y\<rparr>) = grants_wf g"
  by (simp_all add: grants_wf_def)

lemma rules_unique_snoc:
  "rules_unique rs \<Longrightarrow> \<not> list_ex (\<lambda>existing. same_rule existing rule) rs \<Longrightarrow> rules_unique (rs @ [rule])"
  by (auto simp: rules_unique_def same_rule_def list_ex_iff)

lemma step_wf:
  assumes "grants_step env g h" "grants_wf g"
  shows "grants_wf h"
  using assms(1)
proof cases
  case (step_root session dir)
  then show ?thesis using assms(2) wf_bucket [OF assms(2)] by (simp add: addExtraRoot_def wf_put)
next
  case (step_rule session rule)
  then show ?thesis
    using assms(2) wf_bucket [OF assms(2)] by (auto simp: addRule_def Let_def intro!: wf_put rules_unique_snoc)
next
  case (step_override session dir guard)
  then show ?thesis
    using assms(2) wf_bucket [of "g\<lparr>g_overriddenKeys := k\<rparr>" for k]
    by (auto simp: setRootOverride_def Let_def intro!: wf_put)
next
  case (step_evict session)
  have "grants_wf (g\<lparr>g_buckets := map_delete (g_buckets g) (session_key session)\<rparr>)"
    using assms(2) by (auto simp: grants_wf_def js_map.ok_del js_map.get_del split: if_splits)
  then show ?thesis
    using step_evict wf_more(4) [of _ "g\<lparr>g_buckets := map_delete (g_buckets g) (session_key session)\<rparr>"]
    by (simp add: evict_def)
qed (use assms(2) in \<open>simp_all add: setUnrestricted_def seal_def\<close>)

lemma reachable_wf: "grants_later env g h \<Longrightarrow> grants_wf g \<Longrightarrow> grants_wf h"
  by (induction rule: grants_later.induct) (auto intro: step_wf)

subsection \<open>An ended session is granted nothing\<close>

definition granted_nothing :: "grants_registry \<Rightarrow> string option \<Rightarrow> bool" where
  "granted_nothing g session \<longleftrightarrow> rulesOf g session = [] \<and>
     (\<forall>b. map_get (g_buckets g) (session_key session) = Some b \<longrightarrow> b_extraRoots b = [])"

lemma granted_nothing_put:
  assumes "granted_nothing g session"
    and "session_key s = session_key session \<longrightarrow> b_rules b = [] \<and> b_extraRoots b = []"
  shows "granted_nothing (put_bucket g s b) session"
  using assms by (auto simp: granted_nothing_def rulesOf_def put_bucket_def js_map.get_put split: if_splits)

lemma granted_nothing_bucket:
  "granted_nothing g session \<Longrightarrow> session_key s = session_key session \<Longrightarrow>
     b_rules (bucket g s) = [] \<and> b_extraRoots (bucket g s) = []"
  by (cases "map_get (g_buckets g) (session_key session)")
     (auto simp: granted_nothing_def rulesOf_def bucket_def fresh_bucket_def)

lemma granted_nothing_more [simp]:
  "granted_nothing (g\<lparr>g_overriddenKeys := x\<rparr>) session = granted_nothing g session"
  "granted_nothing (g\<lparr>g_unrestricted := u\<rparr>) session = granted_nothing g session"
  "granted_nothing (g\<lparr>g_disposed := d\<rparr>) session = granted_nothing g session"
  "granted_nothing (g\<lparr>g_deadSessions := y\<rparr>) session = granted_nothing g session"
  by (simp_all add: granted_nothing_def rulesOf_def)

lemma step_granted_nothing:
  assumes "grants_step env g h" "granted_nothing g session" "session_key session \<in> set (g_deadSessions g)"
  shows "granted_nothing h session"
  using assms(1)
proof cases
  case (step_root s dir)
  then show ?thesis using assms(2,3) by (auto simp: addExtraRoot_def closed_for_def intro!: granted_nothing_put)
next
  case (step_rule s rule)
  then show ?thesis using assms(2,3) by (auto simp: addRule_def closed_for_def intro!: granted_nothing_put)
next
  case (step_override s dir guard)
  then show ?thesis
    using assms(2) granted_nothing_bucket [of "g\<lparr>g_overriddenKeys := k\<rparr>" session s for k]
    by (auto simp: setRootOverride_def Let_def intro!: granted_nothing_put)
next
  case (step_evict s)
  have "granted_nothing (g\<lparr>g_buckets := map_delete (g_buckets g) (session_key s)\<rparr>) session"
    using assms(2) by (auto simp: granted_nothing_def rulesOf_def js_map.get_del)
  then show ?thesis
    using step_evict granted_nothing_more(4) [of _ "g\<lparr>g_buckets := map_delete (g_buckets g) (session_key s)\<rparr>"]
    by (simp add: evict_def)
qed (use assms(2) in \<open>simp_all add: setUnrestricted_def seal_def\<close>)

lemma later_granted_nothing:
  assumes "grants_later env g h" "granted_nothing g session" "session_key session \<in> set (g_deadSessions g)"
  shows "granted_nothing h session"
  using assms by induction (use step_granted_nothing later_monotone in blast)+

text \<open>C39: Once a session has ended it keeps no granted rule and no granted directory, whatever the
  registry is asked to do afterwards (a late approval of a question asked before included); no
  bucket of the registry ever holds one rule twice.\<close>

theorem evicted_session_granted_nothing:
  assumes "grants_later env new_grants g" and "grants_later env (evict session g) h"
  shows "granted_nothing h session \<and> grants_wf h"
proof
  have "granted_nothing (evict session g) session"
    by (simp add: granted_nothing_def rulesOf_def evict_def js_map.get_del)
  then show "granted_nothing h session"
    by (rule later_granted_nothing [OF assms(2)]) (simp add: evict_def)
  have "grants_wf new_grants" by (simp add: grants_wf_def new_grants_def map_ok_def map_get_def)
  then have "grants_wf (evict session g)"
    using reachable_wf [OF assms(1)] step_wf [OF step_evict] by blast
  then show "grants_wf h" by (rule reachable_wf [OF assms(2)])
qed

lemma evicted_session_granted_nothing_witness:
  "granted_nothing (addRule (Some ''s'') (parsed_rule Danger ''ls'' Allow OriginSession)
     (evict (Some ''s'') (addExtraRoot (Some ''s'') ''/d'' new_grants))) (Some ''s'')"
  using evicted_session_granted_nothing [where env = linux_host,
      OF later_step [OF later_refl step_root] later_step [OF later_refl step_rule]] by blast

text \<open>A session whose root is overridden (an isolated subagent) is never unrestricted again and
  never gets the root directory, even while the full mode is on and whatever happens later; a sealed
  registry makes no session unrestricted.\<close>

theorem overridden_session_stays_restricted:
  assumes "grants_later env (setRootOverride env session dir guard g) h"
  shows "\<not> isUnrestricted h session \<and>
    extraRootsOf h session = b_extraRoots (bucket h session) \<and> \<not> isUnrestricted (seal h) other"
proof -
  have "session_key session \<in> set (g_overriddenKeys h)"
    using later_monotone [OF assms] by (auto simp: setRootOverride_def put_bucket_def Let_def)
  then show ?thesis
    by (auto simp: isUnrestricted_def isOverridden_def extraRootsOf_def bucket_def fresh_bucket_def seal_def
        split: option.splits)
qed

lemma overridden_session_stays_restricted_witness:
  "\<not> isUnrestricted (setUnrestricted True (setRootOverride linux_host (Some ''s'') ''/d'' ''/d'' new_grants)) (Some ''s'')"
  using overridden_session_stays_restricted [OF later_step [OF later_refl step_unrestricted]] by blast

end
