(* ===== verification/PermRegistry.thy ===== *)
theory PermRegistry
  imports JsMap PermModes
begin

text \<open>
  The registry of permission modes (\<open>createModeRegistry\<close> of \<open>permission/src/modes.ts\<close>). A
  registration returns a disposer; the fresh object that identifies a registration is the number of
  registrations before it. The abstract specification is over the history of the calls.
\<close>

record mode_entry =
  me_plugin :: mode_plugin
  me_identity :: nat

record mode_registry =
  mr_byId :: "(string, mode_entry) jsmap"
  mr_next :: nat \<comment> \<open>the identities given so far\<close>

datatype registry_error = EmptyModeId | NoModeFace

definition createModeRegistry :: mode_registry where
  "createModeRegistry = \<lparr>mr_byId = [], mr_next = 0\<rparr>"

definition register_mode :: "mode_plugin \<Rightarrow> mode_registry \<Rightarrow> registry_error + mode_registry \<times> (string \<times> nat)" where
  \<comment> \<open>\<open>register\<close>: the new state and the disposer\<close>
  "register_mode p reg =
     (if mp_id p = [] then Inl EmptyModeId
      else if mp_decide p = None \<and> mp_posture p = None then Inl NoModeFace
      else Inr (reg\<lparr>mr_byId := map_set (mr_byId reg) (mp_id p) \<lparr>me_plugin = p, me_identity = mr_next reg\<rparr>,
                    mr_next := Suc (mr_next reg)\<rparr>,
                (mp_id p, mr_next reg)))"

definition dispose_mode :: "string \<times> nat \<Rightarrow> mode_registry \<Rightarrow> mode_registry" where
  \<comment> \<open>a disposer that was returned, called\<close>
  "dispose_mode d reg =
     (case map_get (mr_byId reg) (fst d) of
        Some e \<Rightarrow>
          if me_identity e = snd d then reg\<lparr>mr_byId := map_delete (mr_byId reg) (fst d)\<rparr> else reg
      | None \<Rightarrow> reg)"

definition resolve_mode :: "mode_registry \<Rightarrow> string \<Rightarrow> mode_plugin option" where
  "resolve_mode reg i = map_option me_plugin (map_get (mr_byId reg) i)"

subsection \<open>The history of a registry\<close>

datatype mode_event = RegisterMode mode_plugin | DisposeMode "string \<times> nat"

definition mode_plugin_ok :: "mode_plugin \<Rightarrow> bool" where
  "mode_plugin_ok p \<longleftrightarrow> mp_id p \<noteq> [] \<and> (mp_decide p \<noteq> None \<or> mp_posture p \<noteq> None)"

definition mode_event_step :: "mode_event \<Rightarrow> mode_registry \<Rightarrow> mode_registry" where
  "mode_event_step e reg =
     (case e of
        RegisterMode p \<Rightarrow> (case register_mode p reg of Inl _ \<Rightarrow> reg | Inr r \<Rightarrow> fst r)
      | DisposeMode d \<Rightarrow> dispose_mode d reg)"

fun registrations :: "mode_event list \<Rightarrow> nat" where
  "registrations [] = 0"
| "registrations (RegisterMode p # es) = (if mode_plugin_ok p then 1 else 0) + registrations es"
| "registrations (DisposeMode d # es) = registrations es"

definition run_modes :: "mode_event list \<Rightarrow> mode_registry" where
  "run_modes es = fold mode_event_step es createModeRegistry"

definition registers :: "string \<Rightarrow> mode_event \<Rightarrow> bool" where
  "registers i e = (case e of RegisterMode p \<Rightarrow> mode_plugin_ok p \<and> mp_id p = i | DisposeMode _ \<Rightarrow> False)"

definition last_live :: "mode_event list \<Rightarrow> string \<Rightarrow> mode_plugin \<Rightarrow> bool" where
  \<comment> \<open>\<open>p\<close> was the last one registered under \<open>i\<close> and its own disposer was not called since\<close>
  "last_live es i p \<longleftrightarrow>
     (\<exists>before after. es = before @ RegisterMode p # after \<and> mode_plugin_ok p \<and> mp_id p = i \<and>
        (\<forall>e \<in> set after. \<not> registers i e) \<and> DisposeMode (i, registrations before) \<notin> set after)"

lemma registrations_append [simp]: "registrations (es @ fs) = registrations es + registrations fs"
  by (induction es rule: registrations.induct) auto

definition live_entry :: "mode_event list \<Rightarrow> string \<Rightarrow> mode_entry \<Rightarrow> bool" where
  "live_entry es i e \<longleftrightarrow>
     (\<exists>before after. es = before @ RegisterMode (me_plugin e) # after \<and> mode_plugin_ok (me_plugin e) \<and>
        mp_id (me_plugin e) = i \<and> me_identity e = registrations before \<and>
        (\<forall>x \<in> set after. \<not> registers i x) \<and> DisposeMode (i, registrations before) \<notin> set after)"

lemma live_entry_Nil [simp]: "\<not> live_entry [] i e"
  by (simp add: live_entry_def)

lemma live_entry_snoc_keep:
  assumes "\<not> registers i x" "x \<noteq> DisposeMode (i, me_identity e)"
  shows "live_entry (es @ [x]) i e \<longleftrightarrow> live_entry es i e"
proof
  assume "live_entry (es @ [x]) i e"
  then obtain before after where s: "es @ [x] = before @ RegisterMode (me_plugin e) # after"
    and r: "mode_plugin_ok (me_plugin e)" "mp_id (me_plugin e) = i" "me_identity e = registrations before"
      "\<forall>x \<in> set after. \<not> registers i x" "DisposeMode (i, registrations before) \<notin> set after"
    by (auto simp: live_entry_def)
  have "after \<noteq> []"
  proof
    assume "after = []"
    then have "x = RegisterMode (me_plugin e)" using s by simp
    then show False using assms(1) r(1,2) by (simp add: registers_def)
  qed
  then obtain a where "after = a @ [x]" using s by (metis append_butlast_last_id last_appendR last_snoc list.distinct(1) last_ConsR)
  then show "live_entry es i e" using s r unfolding live_entry_def by fastforce
next
  assume "live_entry es i e"
  then obtain before after where s: "es = before @ RegisterMode (me_plugin e) # after"
    and r: "mode_plugin_ok (me_plugin e)" "mp_id (me_plugin e) = i" "me_identity e = registrations before"
      "\<forall>x \<in> set after. \<not> registers i x" "DisposeMode (i, registrations before) \<notin> set after"
    by (auto simp: live_entry_def)
  show "live_entry (es @ [x]) i e"
    unfolding live_entry_def
    by (rule exI [of _ before], rule exI [of _ "after @ [x]"]) (use s r assms in auto)
qed

lemma live_entry_snoc_register:
  assumes "mode_plugin_ok p" "mp_id p = i"
  shows "live_entry (es @ [RegisterMode p]) i e \<longleftrightarrow> e = \<lparr>me_plugin = p, me_identity = registrations es\<rparr>"
proof
  assume "live_entry (es @ [RegisterMode p]) i e"
  then obtain before after where s: "es @ [RegisterMode p] = before @ RegisterMode (me_plugin e) # after"
    and r: "me_identity e = registrations before" "\<forall>x \<in> set after. \<not> registers i x"
    by (auto simp: live_entry_def)
  have "after = []"
  proof (rule ccontr)
    assume "after \<noteq> []"
    then have "last after = RegisterMode p" using arg_cong [OF s, of last] by simp
    then have "RegisterMode p \<in> set after" using last_in_set [OF \<open>after \<noteq> []\<close>] by simp
    then show False using r(2) assms by (force simp: registers_def)
  qed
  then show "e = \<lparr>me_plugin = p, me_identity = registrations es\<rparr>" using s r(1) by (cases e) simp
next
  assume "e = \<lparr>me_plugin = p, me_identity = registrations es\<rparr>"
  then show "live_entry (es @ [RegisterMode p]) i e"
    unfolding live_entry_def by (intro exI [of _ es] exI [of _ "[]"]) (use assms in simp)
qed

lemma live_entry_snoc_dispose: "\<not> live_entry (es @ [DisposeMode (i, me_identity e)]) i e"
proof
  assume "live_entry (es @ [DisposeMode (i, me_identity e)]) i e"
  then obtain before after where s: "es @ [DisposeMode (i, me_identity e)] = before @ RegisterMode (me_plugin e) # after"
    and r: "me_identity e = registrations before" "DisposeMode (i, registrations before) \<notin> set after"
    by (auto simp: live_entry_def)
  have "last (RegisterMode (me_plugin e) # after) = DisposeMode (i, me_identity e)"
    using arg_cong [OF s, of last] by simp
  then have "after \<noteq> []" "last after = DisposeMode (i, me_identity e)" by (auto split: if_splits)
  then have "DisposeMode (i, me_identity e) \<in> set after" using last_in_set [of after] by simp
  then show False using r by simp
qed

lemma run_modes_snoc: "run_modes (es @ [e]) = mode_event_step e (run_modes es)"
  by (simp add: run_modes_def)

lemma dispose_get:
  "mr_next (dispose_mode d reg) = mr_next reg"
  "map_get (mr_byId (dispose_mode d reg)) i = Some e \<longleftrightarrow>
     map_get (mr_byId reg) i = Some e \<and> d \<noteq> (i, me_identity e)"
  by (cases d; auto simp: dispose_mode_def js_map.get_del split: option.splits if_splits)+

lemma run_modes_refines:
  "mr_next (run_modes es) = registrations es \<and>
   (\<forall>i e. map_get (mr_byId (run_modes es)) i = Some e \<longleftrightarrow> live_entry es i e)"
proof (induction es rule: rev_induct)
  case Nil
  show ?case by (simp add: run_modes_def createModeRegistry_def map_get_def)
next
  case (snoc x es)
  let ?r = "run_modes es"
  have n: "mr_next ?r = registrations es"
    and m: "\<And>i e. map_get (mr_byId ?r) i = Some e \<longleftrightarrow> live_entry es i e" using snoc by auto
  show ?case
  proof (cases x)
    case (RegisterMode p)
    show ?thesis
    proof (cases "mode_plugin_ok p")
      case True
      have "live_entry (es @ [RegisterMode p]) i e \<longleftrightarrow>
          (if mp_id p = i then e = \<lparr>me_plugin = p, me_identity = registrations es\<rparr> else live_entry es i e)" for i e
        using live_entry_snoc_register [OF True] live_entry_snoc_keep [of i "RegisterMode p"] True
        by (auto simp: registers_def)
      then show ?thesis
        using True n m
        by (auto simp: RegisterMode run_modes_snoc mode_event_step_def register_mode_def mode_plugin_ok_def
            js_map.get_put split: if_splits)
    next
      case False
      have "live_entry (es @ [RegisterMode p]) i e \<longleftrightarrow> live_entry es i e" for i e
        by (rule live_entry_snoc_keep) (use False in \<open>simp_all add: registers_def\<close>)
      then show ?thesis
        using False n m
        by (auto simp: RegisterMode run_modes_snoc mode_event_step_def register_mode_def mode_plugin_ok_def)
    qed
  next
    case (DisposeMode d)
    have "live_entry (es @ [DisposeMode d]) i e \<longleftrightarrow> live_entry es i e \<and> d \<noteq> (i, me_identity e)" for i e
      using live_entry_snoc_dispose [of es i e] live_entry_snoc_keep [of i "DisposeMode d" e es]
      by (cases "d = (i, me_identity e)") (auto simp: registers_def)
    then show ?thesis
      using n m by (simp add: DisposeMode run_modes_snoc mode_event_step_def dispose_get)
  qed
qed

text \<open>C40: The mode a name resolves to is the one last registered under it, unless the disposer of that
  very registration has been called since: a disposer kept from an earlier registration of the same
  name removes nothing, and registrations without a name or without a face are refused.\<close>

theorem resolve_is_last_live:
  "resolve_mode (run_modes es) i = Some p \<longleftrightarrow> last_live es i p"
proof -
  have "resolve_mode (run_modes es) i = Some p \<longleftrightarrow> (\<exists>e. live_entry es i e \<and> me_plugin e = p)"
    using run_modes_refines [of es] by (auto simp: resolve_mode_def)
  also have "\<dots> \<longleftrightarrow> last_live es i p"
  proof
    assume "\<exists>e. live_entry es i e \<and> me_plugin e = p"
    then show "last_live es i p" by (fastforce simp: live_entry_def last_live_def)
  next
    assume "last_live es i p"
    then obtain before after where "es = before @ RegisterMode p # after" "mode_plugin_ok p" "mp_id p = i"
      "\<forall>e \<in> set after. \<not> registers i e" "DisposeMode (i, registrations before) \<notin> set after"
      by (auto simp: last_live_def)
    then have "live_entry es i \<lparr>me_plugin = p, me_identity = registrations before\<rparr>"
      unfolding live_entry_def by auto
    then show "\<exists>e. live_entry es i e \<and> me_plugin e = p" by (metis mode_entry.select_convs(1))
  qed
  finally show ?thesis .
qed

end
