(* ===== verification/PermModeProps.thy ===== *)
theory PermModeProps
  imports PermModes
begin

text \<open>
  What a decision on a tool call guarantees in each mode. The contracts of the modes are
  locales: from \<open>restrictive_mode\<close> it follows that commands and writes are never allowed, from
  \<open>contained_posture\<close> that a path is allowed only inside the roots or by a rule.
\<close>

subsection \<open>Paths and batches\<close>

definition requested_paths :: "host_env \<Rightarrow> 'a path_input_scheme \<Rightarrow> path list" where
  "requested_paths env input =
     (case pathsOf env input of Some ps \<Rightarrow> ps | None \<Rightarrow> [fst (pathOf env input)])"

definition path_absent :: "host_env \<Rightarrow> 'a path_input_scheme \<Rightarrow> bool" where
  "path_absent env input = (pathsOf env input = None \<and> snd (pathOf env input))"

lemma decide_batch_spec:
  "decide_batch env input ps firstAsk = None \<longleftrightarrow>
     firstAsk = None \<and> (\<forall>p \<in> set ps. d_verdict (decideOnePath env input p False) = Allow)"
  "\<forall>d. firstAsk = Some d \<longrightarrow> d_verdict d = Ask \<Longrightarrow> decide_batch env input ps firstAsk = Some d \<Longrightarrow>
     d_verdict d = Ask \<and> (\<forall>p \<in> set ps. d_verdict (decideOnePath env input p False) \<noteq> Deny) \<or>
     d_verdict d = Deny \<and> (\<exists>p \<in> set ps. d_verdict (decideOnePath env input p False) = Deny)"
proof (induction ps arbitrary: firstAsk)
  case (Cons p ps)
  let ?d = "decideOnePath env input p False"
  { case 1 show ?case using Cons.IH(1) by (cases "d_verdict ?d") (auto simp: Let_def)
  next
    case 2
    show ?case
    proof (cases "d_verdict ?d = Deny")
      case True
      then show ?thesis using 2(2) by (simp add: Let_def)
    next
      case False
      let ?f = "if d_verdict ?d = Ask then or_else firstAsk (Some ?d) else firstAsk"
      have f: "\<forall>d. ?f = Some d \<longrightarrow> d_verdict d = Ask" using 2(1) by (cases firstAsk) auto
      have "decide_batch env input ps ?f = Some d" using 2(2) False by (simp add: Let_def)
      from Cons.IH(2) [OF f this] show ?thesis using False by (elim disjE) auto
    qed }
qed auto

lemma withExec_verdict [simp]: "d_verdict (withExec d profile) = d_verdict d"
  by (simp add: withExec_def)

lemma attributeRule_verdict [simp]: "d_verdict (attributeRule d r) = d_verdict d"
  by (simp add: attributeRule_def split: option.splits)

lemma allowDecision_verdict [simp]: "d_verdict (allowDecision r b p) = Allow"
  by (simp add: allowDecision_def)

definition sample_call :: "tool_kind option \<Rightarrow> jsval \<Rightarrow> decide_input" where
  \<comment> \<open>a call in the root \<open>/w\<close>, without rules and without a mode\<close>
  "sample_call kind args =
     \<lparr>di_tool = ''tool'', di_args = args, di_modeDecide = (\<lambda>_. None), di_postureDecide = (\<lambda>_. None),
      di_control = False, di_kind = kind, di_pathScope = False, di_userRules = [], di_projectRules = [],
      di_sessionRules = [], di_profile = sample_profile, di_root = ''/w'', di_extraRoots = [],
      di_fence = None, di_protectedWrite = None, di_denyRules = [], di_unrestricted = False,
      di_baseline = None, di_parse = (\<lambda>_. NotParsed), di_String = (\<lambda>_. [])\<rparr>"

text \<open>A call on several files is decided as a whole: it is denied exactly when some file is denied,
  and allowed exactly when every file is allowed on its own; otherwise it is asked about.\<close>

theorem batch_decision:
  assumes "pathsOf env input = Some ps"
  shows "(d_verdict (decidePathTool env input) = Deny \<longleftrightarrow>
            (\<exists>p \<in> set ps. d_verdict (decideOnePath env input p False) = Deny)) \<and>
         (d_verdict (decidePathTool env input) = Allow \<longleftrightarrow>
            (\<forall>p \<in> set ps. d_verdict (decideOnePath env input p False) = Allow))"
proof (cases "decide_batch env input ps None")
  case None
  then have "\<forall>p \<in> set ps. d_verdict (decideOnePath env input p False) = Allow"
    using decide_batch_spec(1) by blast
  moreover have "ps \<noteq> []" using assms by (auto simp: pathsOf_def Let_def split: jsval.splits if_splits)
  ultimately show ?thesis using assms None by (auto simp: decidePathTool_def)
next
  case (Some d)
  then have "\<not> (\<forall>p \<in> set ps. d_verdict (decideOnePath env input p False) = Allow)"
    using decide_batch_spec(1) [of env input ps None] by auto
  moreover note decide_batch_spec(2) [of None env input ps d]
  ultimately show ?thesis using assms Some by (auto simp: decidePathTool_def)
qed

lemma batch_decision_witness:
  "d_verdict (decidePathTool linux_host (path_input_of linux_host
     (sample_call (Some KindRead) (JObj [(''paths'', JArr [JStr ''x'', JStr ''../home/u/.ssh/id''])])) False)) = Deny"
proof -
  let ?i = "path_input_of linux_host
     (sample_call (Some KindRead) (JObj [(''paths'', JArr [JStr ''x'', JStr ''../home/u/.ssh/id''])])) False"
  have p: "pathsOf linux_host ?i = Some [''/w/x'', ''/home/u/.ssh/id'']" by code_simp
  have "d_verdict (decideOnePath linux_host ?i ''/home/u/.ssh/id'' False) = Deny" by code_simp
  then show ?thesis using batch_decision [OF p] by simp
qed

lemma pathTool_allow:
  assumes "d_verdict (decidePathTool env input) = Allow"
  shows "\<forall>p \<in> set (requested_paths env input).
           d_verdict (decideOnePath env input p (path_absent env input)) = Allow"
proof (cases "pathsOf env input")
  case (Some ps)
  then show ?thesis
    using assms decide_batch_spec(2) [of None env input ps] decide_batch_spec(1) [of env input ps None]
    by (cases "decide_batch env input ps None")
       (auto simp: requested_paths_def path_absent_def decidePathTool_def)
next
  case None
  then show ?thesis
    using assms by (auto simp: requested_paths_def path_absent_def decidePathTool_def split: prod.splits)
qed

lemma requested_paths_normal:
  assumes "isAbsolute (proc_cwd env)" "\<not> path_absent env input"
  shows "\<forall>p \<in> set (requested_paths env input). normal_path p"
proof (cases "pathsOf env input")
  case (Some ps)
  have "path_item env root v = Some p \<Longrightarrow> normal_path p" for root v p
    using resolve_normal [OF assms(1)] by (cases v) (auto split: if_splits)
  then show ?thesis
    using Some by (fastforce simp: requested_paths_def pathsOf_def map_filter_def Let_def
        split: jsval.splits if_splits)
next
  case None
  then have "\<not> snd (pathOf env input)" using assms(2) by (simp add: path_absent_def)
  then show ?thesis
    using None resolve_normal [OF assms(1)]
    by (auto simp: requested_paths_def pathOf_def Let_def split: jsval.splits if_splits)
qed

subsection \<open>Deny rules on paths\<close>

lemma path_denied_wins:
  assumes "r \<in> set (pi_rules input)" "path_denied env input p r"
  shows "d_verdict (decideOnePath env input p absent) = Deny"
proof -
  obtain q where "List.find (path_denied env input p) (pi_rules input) = Some q"
    using find_ne_NoneI [of r "pi_rules input" "path_denied env input p"] assms by blast
  then show ?thesis by (simp add: decideOnePath_def rule_decision_def)
qed

lemma path_input_of_sel [simp]:
  "pi_write (path_input_of env input w) = w" "pi_rules (path_input_of env input w) = all_rules_of input"
  "di_root (path_input_of env input w) = di_root input" "di_args (path_input_of env input w) = di_args input"
  "di_pathScope (path_input_of env input w) = di_pathScope input"
  "di_modeDecide (path_input_of env input w) = di_modeDecide input"
  "di_postureDecide (path_input_of env input w) = di_postureDecide input"
  "di_profile (path_input_of env input w) = di_profile input"
  by (simp_all add: path_input_of_def Let_def decide_input.defs)

definition path_call :: "decide_input \<Rightarrow> bool \<Rightarrow> bool" where
  \<comment> \<open>the call is one of a tool that reads (or writes) paths\<close>
  "path_call input writes \<longleftrightarrow> \<not> di_control input \<and> di_kind input = Some (if writes then KindWrite else KindRead)"

lemma decideFor_path:
  "path_call input writes \<Longrightarrow> decideFor env input = decidePathTool env (path_input_of env input writes)"
  by (cases writes) (simp_all add: path_call_def decideFor_def)

lemma path_rule_denies:
  assumes "path_call input writes" and "p \<in> set (requested_paths env (path_input_of env input writes))"
    and "r \<in> set (all_rules_of input)" and "path_denied env (path_input_of env input writes) p r"
  shows "d_verdict (decideFor env input) = Deny"
proof -
  let ?i = "path_input_of env input writes"
  have one: "d_verdict (decideOnePath env ?i p absent) = Deny" for absent
    by (rule path_denied_wins [OF _ assms(4)]) (simp add: assms(3))
  show ?thesis
  proof (cases "pathsOf env ?i")
    case None
    then show ?thesis
      using assms(2) one decideFor_path [OF assms(1), of env]
      by (auto simp: requested_paths_def decidePathTool_def split: prod.splits)
  next
    case (Some ps)
    then have "p \<in> set ps" using assms(2) by (simp add: requested_paths_def)
    then have m: "\<exists>p \<in> set ps. d_verdict (decideOnePath env ?i p False) = Deny" using one by blast
    then obtain d where d: "decide_batch env ?i ps None = Some d"
      using decide_batch_spec(1) [of env ?i ps None] by (cases "decide_batch env ?i ps None") auto
    then have "d_verdict d = Deny" using decide_batch_spec(2) [of None env ?i ps d] m by auto
    then show ?thesis using Some d decideFor_path [OF assms(1), of env] by (simp add: decidePathTool_def)
  qed
qed

text \<open>C11: A deny rule for the kind of access that matches one of the requested files (and, if it only
  holds outside the roots, a file outside them) denies the call, in every mode and whatever other
  rules and grants say.\<close>

theorem path_deny_rule_wins:
  assumes "path_call input writes" and "p \<in> set (requested_paths env (path_input_of env input writes))"
    and "r \<in> set (all_rules_of input)" and "path_denied env (path_input_of env input writes) p r"
  shows "d_verdict (decideFor env input) = Deny"
  by (rule path_rule_denies [OF assms])

lemma path_deny_rule_wins_witness:
  "d_verdict (decideFor linux_host (sample_call (Some KindRead) (JObj [(''path'', JStr ''../home/u/.ssh/id'')]))) = Deny"
proof (rule path_deny_rule_wins [where p = "''/home/u/.ssh/id''" and writes = False
      and r = "default_deny ReadTool False ''~/.ssh/**''"])
  show "path_call (sample_call (Some KindRead) (JObj [(''path'', JStr ''../home/u/.ssh/id'')])) False"
    by (simp add: path_call_def sample_call_def)
  show "''/home/u/.ssh/id'' \<in> set (requested_paths linux_host (path_input_of linux_host
      (sample_call (Some KindRead) (JObj [(''path'', JStr ''../home/u/.ssh/id'')])) False))" by code_simp
  show "default_deny ReadTool False ''~/.ssh/**'' \<in> set (all_rules_of
      (sample_call (Some KindRead) (JObj [(''path'', JStr ''../home/u/.ssh/id'')])))"
    by (simp add: all_rules_of_def deny_rules_of_def baselineDenyRules_def baselineOf_def
        DEFAULT_BASELINE_def sample_call_def Let_def)
  show "path_denied linux_host (path_input_of linux_host
      (sample_call (Some KindRead) (JObj [(''path'', JStr ''../home/u/.ssh/id'')])) False)
      ''/home/u/.ssh/id'' (default_deny ReadTool False ''~/.ssh/**'')" by code_simp
qed

subsection \<open>Restrictive modes\<close>

locale restrictive_mode =
  fixes decide :: decider
  assumes denies_danger: "af_kind facts = Some KindDanger \<Longrightarrow> \<exists>d. decide facts = Some d \<and> d_verdict d = Deny"
    and denies_write: "af_face facts = FacePath \<Longrightarrow> af_kind facts = Some KindWrite \<Longrightarrow>
      \<exists>d. decide facts = Some d \<and> d_verdict d = Deny"
begin

lemma mode_denies: "bi_modeDecide input = decide \<Longrightarrow> \<exists>d. bashModeDecision env input = Some d \<and> d_verdict d = Deny"
proof -
  assume m: "bi_modeDecide input = decide"
  have "af_kind (enriched_facts env input) = Some KindDanger"
    by (simp add: enriched_facts_def bashFactsOf_def Let_def split: bash_parse.splits)
  then obtain d where "decide (enriched_facts env input) = Some d" "d_verdict d = Deny"
    using denies_danger by blast
  then show ?thesis by (simp add: bashModeDecision_def m Let_def adjudicationOf_def)
qed

lemma command_not_allowed: "bi_modeDecide input = decide \<Longrightarrow> d_verdict (adjudicateBash env input) \<noteq> Allow"
  using mode_denies [of input env] preModeSweep_not_allow [of env _ input]
  by (auto simp: adjudicateBash_def split: bash_parse.splits option.splits)

lemma write_not_allowed:
  assumes "di_modeDecide input = decide" "pi_write input"
  shows "d_verdict (decideOnePath env input p absent) \<noteq> Allow"
proof -
  obtain d where "decide (path_facts input p absent) = Some d" "d_verdict d = Deny"
    using denies_write [of "path_facts input p absent"] assms(2)
    by (auto simp: path_facts_def pi_kind_def no_facts_def)
  then show ?thesis
    using assms(1) by (auto simp: decideOnePath_def rule_decision_def split: option.splits)
qed

lemma call_not_allowed:
  assumes "di_modeDecide input = decide" "\<not> di_control input" "di_kind input \<in> {Some KindDanger, Some KindWrite}"
  shows "d_verdict (decideFor env input) \<noteq> Allow"
proof (cases "di_kind input = Some KindDanger")
  case True
  then show ?thesis
    using assms command_not_allowed
    by (auto simp: decideFor_def decideDangerFace_def bash_input_of_def Let_def split: jsval.splits)
next
  case False
  then have k: "di_kind input = Some KindWrite" using assms(3) by simp
  have ne: "set (requested_paths env (path_input_of env input True)) \<noteq> {}"
    by (auto simp: requested_paths_def pathsOf_def Let_def split: option.splits jsval.splits if_splits)
  show ?thesis
  proof
    assume "d_verdict (decideFor env input) = Allow"
    then have "d_verdict (decidePathTool env (path_input_of env input True)) = Allow"
      using assms(2) k by (simp add: decideFor_def)
    note all = pathTool_allow [OF this]
    obtain p where p: "p \<in> set (requested_paths env (path_input_of env input True))"
      using ne by (meson ex_in_conv)
    let ?absent = "path_absent env (path_input_of env input True)"
    show False using bspec [OF all p] using write_not_allowed [of "path_input_of env input True" env p ?absent] assms(1) by simp
  qed
qed

end

interpretation plan: restrictive_mode plan_decide
  by unfold_locales (auto simp: plan_decide_def m_deny_def)



subsection \<open>Contained postures\<close>

definition rule_admits :: "host_env \<Rightarrow> decide_input \<Rightarrow> bool \<Rightarrow> path \<Rightarrow> bool" where
  "rule_admits env input writes p \<longleftrightarrow>
     (\<exists>r \<in> set (all_rules_of input). r_tool r = (if writes then WriteTool else ReadTool) \<and> r_verdict r = Allow \<and>
        globMatch env (r_pattern r) p (di_root input))"

locale contained_posture =
  fixes posture :: decider
  assumes allows_inside: "af_face facts = FacePath \<Longrightarrow> posture facts = Some d \<Longrightarrow> d_verdict d = Allow \<Longrightarrow>
    af_inRoot facts = Some True \<and> \<not> af_pathAbsent facts"
begin

lemma path_allowed:
  assumes "\<forall>facts. di_modeDecide input facts = None" "di_postureDecide input = posture"
    "d_verdict (decideOnePath env (path_input_of env input writes) p absent) = Allow"
  shows "(withinAny p (pi_roots (path_input_of env input writes)) \<and> \<not> absent) \<or> rule_admits env input writes p"
proof -
  let ?i = "path_input_of env input writes"
  let ?match = "\<lambda>r. r_tool r = pi_tool ?i \<and> r_verdict r = Allow \<and> p \<noteq> [] \<and>
      globMatch env (r_pattern r) p (di_root ?i)"
  show ?thesis
  proof (cases "List.find ?match (pi_rules ?i)")
    case (Some r)
    then have "?match r" "r \<in> set (all_rules_of input)" by (auto dest: find_SomeD)
    then show ?thesis by (auto simp: rule_admits_def pi_tool_def)
  next
    case None
    obtain d where d: "posture (path_facts ?i p absent) = Some d" "d_verdict d = Allow"
      using assms None
      by (auto simp: decideOnePath_def rule_decision_def scopeDenySoft_def split: option.splits if_splits)
    have "af_inRoot (path_facts ?i p absent) = Some True \<and> \<not> af_pathAbsent (path_facts ?i p absent)"
      by (rule allows_inside [OF _ d]) (simp add: path_facts_def no_facts_def)
    then show ?thesis by (auto simp: path_facts_def)
  qed
qed

lemma roots_normal:
  assumes "isAbsolute (proc_cwd env)"
  shows "root \<in> set (pi_roots (path_input_of env input writes)) \<Longrightarrow> normal_path root"
  using resolve_normal [OF assms]
  by (auto simp: path_input_of_def Let_def decide_input.defs)

lemma call_contained:
  assumes "isAbsolute (proc_cwd env)" "path_call input writes"
    "\<forall>facts. di_modeDecide input facts = None" "di_postureDecide input = posture"
    "d_verdict (decideFor env input) = Allow" "p \<in> set (requested_paths env (path_input_of env input writes))"
  shows "(\<exists>root \<in> set (pi_roots (path_input_of env input writes)). prefix (path_segments root) (path_segments p)) \<or>
    rule_admits env input writes p"
proof -
  let ?i = "path_input_of env input writes"
  have "d_verdict (decideOnePath env ?i p (path_absent env ?i)) = Allow"
    using pathTool_allow [of env ?i] assms(2,5,6) decideFor_path by metis
  from path_allowed [OF assms(3,4) this] show ?thesis
  proof
    assume a: "withinAny p (pi_roots ?i) \<and> \<not> path_absent env ?i"
    then have "normal_path p" using requested_paths_normal [OF assms(1)] assms(6) by blast
    then show ?thesis using a roots_normal [OF assms(1)] within_root_iff
      by (auto simp: withinAny_def list_ex_iff)
  qed simp
qed

end

interpretation auto_paths: contained_posture "auto_posture env" for env
  by unfold_locales (auto simp: auto_posture_def m_ask_def m_allow_def outside_ask_def Let_def split: if_splits option.splits)

lemma path_not_danger: "edit_confirm_posture env facts = Some d \<Longrightarrow> d_verdict d = Allow \<Longrightarrow> auto_posture env facts = Some d"
  by (auto simp: edit_confirm_posture_def m_ask_def split: if_splits)

interpretation edit_paths: contained_posture "edit_confirm_posture env" for env
  by unfold_locales (auto dest: path_not_danger auto_paths.allows_inside)

text \<open>C36: In the automatic mode and in the one that confirms edits, an allowed call on files touches only
  files below the roots (once \<open>.\<close> and \<open>..\<close> are resolved) or files that an allow rule names.\<close>

theorem automatic_modes_stay_in_roots:
  assumes "isAbsolute (proc_cwd env)" and "path_call input writes"
    and "mode \<in> {autoMode env, editConfirmMode env}"
    and "di_modeDecide input = decider_of (mp_decide mode)" and "di_postureDecide input = decider_of (mp_posture mode)"
    and "d_verdict (decideFor env input) = Allow"
    and "p \<in> set (requested_paths env (path_input_of env input writes))"
  shows "(\<exists>root \<in> set (pi_roots (path_input_of env input writes)). prefix (path_segments root) (path_segments p)) \<or>
    rule_admits env input writes p"
proof -
  have none: "\<forall>facts. di_modeDecide input facts = None"
    using assms(3,4) by (auto simp: autoMode_def editConfirmMode_def decider_of_def)
  have "di_postureDecide input = auto_posture env \<or> di_postureDecide input = edit_confirm_posture env"
    using assms(3,5) by (auto simp: autoMode_def editConfirmMode_def decider_of_def)
  then show ?thesis
    using auto_paths.call_contained [OF assms(1,2) none _ assms(6,7)]
      edit_paths.call_contained [OF assms(1,2) none _ assms(6,7)] by blast
qed

lemma automatic_modes_stay_in_roots_witness:
  "(\<exists>root \<in> set (pi_roots (path_input_of linux_host ((sample_call (Some KindWrite) (JObj [(''path'', JStr ''a/../b'')]))
        \<lparr>di_postureDecide := auto_posture linux_host\<rparr>) True)). prefix (path_segments root) (path_segments ''/w/b'')) \<or>
    rule_admits linux_host ((sample_call (Some KindWrite) (JObj [(''path'', JStr ''a/../b'')]))
        \<lparr>di_postureDecide := auto_posture linux_host\<rparr>) True ''/w/b''"
proof (rule automatic_modes_stay_in_roots [where mode = "autoMode linux_host"])
  show "d_verdict (decideFor linux_host ((sample_call (Some KindWrite) (JObj [(''path'', JStr ''a/../b'')]))
        \<lparr>di_postureDecide := auto_posture linux_host\<rparr>)) = Allow" by code_simp
  show "''/w/b'' \<in> set (requested_paths linux_host (path_input_of linux_host
      ((sample_call (Some KindWrite) (JObj [(''path'', JStr ''a/../b'')]))\<lparr>di_postureDecide := auto_posture linux_host\<rparr>) True))"
    by code_simp
qed (simp_all add: linux_host_def isAbsolute_def path_call_def sample_call_def autoMode_def decider_of_def)

subsection \<open>Full mode\<close>

lemma floor_unrestricted:
  assumes "bi_unrestricted input"
  shows "sensitive_floor env input cwd cmds \<noteq> None \<longleftrightarrow>
    argvSensitiveHit env cmds cwd (floor_tables env input) \<noteq> None"
    and "sensitive_floor env input cwd cmds = Some d \<Longrightarrow> d_verdict d = Deny"
proof -
  show "sensitive_floor env input cwd cmds \<noteq> None \<longleftrightarrow>
      argvSensitiveHit env cmds cwd (floor_tables env input) \<noteq> None"
    using assms by (induction cmds arbitrary: cwd) (simp_all split: option.splits)
  show "sensitive_floor env input cwd cmds = Some d \<Longrightarrow> d_verdict d = Deny"
    using assms by (induction cmds arbitrary: cwd) (auto simp: deny_reason_def split: option.splits)
qed

lemma collect_facts_first:
  assumes "\<forall>cmd \<in> set cmds. command_hard_deny env cmd \<in> {None, Some Sudo}"
    "sf_hardDenyKind out \<in> {None, Some Sudo}"
  shows "sf_hardDenyKind (collect_facts env input cwd cmds out) \<in> {None, Some Sudo}"
  using assms
proof (induction cmds arbitrary: cwd out)
  case (Cons cmd cmds)
  have "sf_hardDenyKind (redirectFactsOf env input cwd cmd (verbFactsOf env input cwd cmd out)) \<in> {None, Some Sudo}"
    using Cons.prems by (cases "sf_hardDenyKind out") (auto simp: verbFactsOf_def)
  then show ?case using Cons.IH Cons.prems(1) by simp
qed simp

lemma facts_elevation:
  assumes "bi_parse input (bi_command input) = Parsed cmds"
    "\<forall>cmd \<in> set cmds. command_hard_deny env cmd \<in> {None, Some Sudo}"
    "cmd \<in> set cmds" "pc_argv cmd \<noteq> []" "command_hard_deny env cmd = Some Sudo"
  shows "af_elevation (bashFactsOf env input)"
proof -
  have "sf_hardDenyKind (collectSegmentFacts env input cmds) \<noteq> None"
    unfolding collectSegmentFacts_def collect_facts_hard using assms(3-5) by auto
  moreover have "sf_hardDenyKind (collectSegmentFacts env input cmds) \<in> {None, Some Sudo}"
    unfolding collectSegmentFacts_def
    by (rule collect_facts_first [OF assms(2)]) (simp add: no_segment_facts_def)
  ultimately show ?thesis using assms(1) by (auto simp: bashFactsOf_def Let_def)
qed

definition elevates :: "host_env \<Rightarrow> parsed_command \<Rightarrow> bool" where
  "elevates env cmd \<longleftrightarrow> pc_argv cmd \<noteq> [] \<and> command_hard_deny env cmd = Some Sudo"

definition only_elevations :: "host_env \<Rightarrow> parsed_command list \<Rightarrow> bool" where
  \<comment> \<open>no command is hard denied for another reason\<close>
  "only_elevations env cmds = list_all (\<lambda>cmd. command_hard_deny env cmd \<in> {None, Some Sudo}) cmds"

text \<open>In the unrestricted full mode a line is still never allowed if it elevates privileges (and no
  command of it is hard denied for another reason), or if a word of a command names a protected
  file, followed through the \<open>cd\<close> commands of the line.\<close>

theorem full_mode_floor:
  assumes "bi_parse input (bi_command input) = Parsed cmds"
    and "bi_modeDecide input = decider_of (mp_decide fullMode)" and "bi_unrestricted input"
    and "(only_elevations env cmds \<and> list_ex (elevates env) cmds) \<or>
         argvSensitiveHit env cmds (bi_root input) (floor_tables env input) \<noteq> None"
  shows "d_verdict (adjudicateBash env input) \<noteq> Allow"
proof -
  have parsed: "enriched_facts env input = bashFactsOf env input"
    using assms(1) bashFactsOf_segments(2) [of env input] by (simp add: enriched_facts_def Let_def)
  have "\<exists>d. bashModeDecision env input = Some d \<and> d_verdict d \<noteq> Allow"
  proof (cases "af_elevation (bashFactsOf env input)")
    case True
    then show ?thesis
      using assms(2) parsed
      by (simp add: bashModeDecision_def Let_def fullMode_def decider_of_def full_decide_def m_deny_def adjudicationOf_def)
  next
    case False
    then have "\<not> (only_elevations env cmds \<and> list_ex (elevates env) cmds)"
      using facts_elevation [OF assms(1)] by (auto simp: only_elevations_def elevates_def list_all_iff list_ex_iff)
    then have "sensitive_floor env input (bi_root input) cmds \<noteq> None"
      using assms(4) floor_unrestricted(1) [OF assms(3)] by blast
    then obtain d where "sensitive_floor env input (bi_root input) cmds = Some d" "d_verdict d = Deny"
      using floor_unrestricted(2) [OF assms(3)] by blast
    then show ?thesis
      using assms(1-3) parsed False bashFactsOf_segments(1) [of env input]
      by (simp add: bashModeDecision_def Let_def fullMode_def decider_of_def full_decide_def m_allow_def sensitiveFloorOf_def)
  qed
  then show ?thesis
    using assms(1) preModeSweep_not_allow [of env cmds input] by (auto simp: adjudicateBash_def split: option.splits)
qed

definition full_line :: "parsed_command list \<Rightarrow> bash_input" where
  "full_line cmds =
     (sample_input [] cmds)\<lparr>bi_modeDecide := decider_of (mp_decide fullMode), bi_unrestricted := True\<rparr>"

lemma full_mode_floor_witness:
  "d_verdict (adjudicateBash linux_host (full_line [bare_command [''ls''] ''ls'', bare_command [''sudo'', ''id''] ''sudo id''])) \<noteq> Allow"
proof (rule full_mode_floor)
  have "only_elevations linux_host [bare_command [''ls''] ''ls'', bare_command [''sudo'', ''id''] ''sudo id'']"
    "list_ex (elevates linux_host) [bare_command [''ls''] ''ls'', bare_command [''sudo'', ''id''] ''sudo id'']"
    by code_simp+
  then show "(only_elevations linux_host [bare_command [''ls''] ''ls'', bare_command [''sudo'', ''id''] ''sudo id''] \<and>
      list_ex (elevates linux_host) [bare_command [''ls''] ''ls'', bare_command [''sudo'', ''id''] ''sudo id'']) \<or>
      argvSensitiveHit linux_host [bare_command [''ls''] ''ls'', bare_command [''sudo'', ''id''] ''sudo id'']
        (bi_root (full_line [bare_command [''ls''] ''ls'', bare_command [''sudo'', ''id''] ''sudo id'']))
        (floor_tables linux_host (full_line [bare_command [''ls''] ''ls'', bare_command [''sudo'', ''id''] ''sudo id''])) \<noteq> None"
    by blast
qed (simp_all add: full_line_def sample_input_def)

text \<open>Only the first hard denial of a line is recorded, so one of another kind masks an elevation
  after it: the full mode denies \<open>sudo id\<close> but allows \<open>rm -rf /x; sudo id\<close>.\<close>

theorem full_mode_masked_elevation:
  "d_verdict (adjudicateBash linux_host (full_line [bare_command [''sudo'', ''id''] ''sudo id''])) = Deny \<and>
   d_verdict (adjudicateBash linux_host
     (full_line [bare_command [''rm'', ''-rf'', ''/x''] ''rm -rf /x'', bare_command [''sudo'', ''id''] ''sudo id''])) = Allow"
  by (intro conjI; code_simp)

subsection \<open>Exec directives\<close>

definition no_exec :: "decider \<Rightarrow> bool" where
  "no_exec f \<longleftrightarrow> (\<forall>facts d. f facts = Some d \<longrightarrow> d_exec d = None)"

lemma builtin_no_exec:
  "no_exec (decider_of (mp_decide (knobDecideOf env profile)))"
  "no_exec (decider_of (mp_posture (knobDecideOf env profile)))"
proof -
  have a: "auto_posture env facts = Some d \<Longrightarrow> d_exec d = None" for facts d
    by (auto simp: auto_posture_def m_ask_def m_allow_def outside_ask_def Let_def
        split: facts_face.splits if_splits option.splits command_class.splits)
  show "no_exec (decider_of (mp_decide (knobDecideOf env profile)))"
    by (auto simp: no_exec_def knobDecideOf_def planDefaultMode_def editConfirmMode_def fullMode_def
        sandboxedAutoMode_def autoMode_def decider_of_def plan_decide_def full_decide_def m_deny_def m_allow_def
        split: if_splits)
  show "no_exec (decider_of (mp_posture (knobDecideOf env profile)))"
    by (auto simp: no_exec_def knobDecideOf_def planDefaultMode_def editConfirmMode_def fullMode_def
        sandboxedAutoMode_def autoMode_def decider_of_def edit_confirm_posture_def sandboxed_posture_def
        m_ask_def m_allow_def dest: a split: if_splits)
qed

definition exec_follows :: "permission_profile \<Rightarrow> decision \<Rightarrow> bool" where
  "exec_follows profile d \<longleftrightarrow> d_exec d = execOf (d_verdict d) profile"

lemma exec_follows_withExec:
  "d_exec d = None \<Longrightarrow> exec_follows profile (withExec d profile)"
  by (simp add: exec_follows_def withExec_def execOf_def)

lemma attributeRule_exec [simp]: "d_exec (attributeRule d r) = d_exec d"
  by (simp add: attributeRule_def split: option.splits)

lemma exec_follows_others:
  "exec_follows profile (allowDecision r b profile)"
  "v \<noteq> Allow \<Longrightarrow> exec_follows profile (rule_decision v k rule)"
  "v \<noteq> Allow \<Longrightarrow> exec_follows profile (plain_decision v r b)"
  "v \<noteq> Allow \<Longrightarrow> exec_follows profile ((plain_decision v r b)\<lparr>d_memorizable := m, d_suggestedRule := s\<rparr>)"
  by (simp_all add: exec_follows_def allowDecision_def rule_decision_def execOf_def)

lemma exec_one_path:
  assumes "no_exec (di_modeDecide input)" "no_exec (di_postureDecide input)"
  shows "exec_follows (di_profile input) (decideOnePath env input p absent)"
proof -
  have m: "di_modeDecide input f = Some d \<Longrightarrow> d_exec d = None" "di_postureDecide input f = Some d \<Longrightarrow> d_exec d = None" for f d
    using assms by (auto simp: no_exec_def)
  show ?thesis
    unfolding decideOnePath_def scopeDenySoft_def
    by (auto intro!: exec_follows_withExec exec_follows_others dest: m split: option.splits if_splits)
qed

lemma exec_path_tool:
  assumes "no_exec (di_modeDecide input)" "no_exec (di_postureDecide input)"
  shows "exec_follows (di_profile input) (decidePathTool env input)"
proof -
  have "\<forall>d. f = Some d \<longrightarrow> exec_follows (di_profile input) d \<Longrightarrow> decide_batch env input ps f = Some d \<Longrightarrow>
      exec_follows (di_profile input) d" for ps f d
  proof (induction ps arbitrary: f)
    case (Cons p ps)
    let ?d = "decideOnePath env input p False"
    let ?f = "if d_verdict ?d = Ask then or_else f (Some ?d) else f"
    have one: "exec_follows (di_profile input) ?d" by (rule exec_one_path [OF assms])
    then have f: "\<forall>d. ?f = Some d \<longrightarrow> exec_follows (di_profile input) d"
      using Cons.prems(1) by (cases f) auto
    show ?case
    proof (cases "d_verdict ?d = Deny")
      case True
      then have "?d = d" using Cons.prems(2) by simp
      then show ?thesis using one by simp
    next
      case False
      then show ?thesis using Cons.IH [OF f] Cons.prems(2) by (simp add: Let_def)
    qed
  qed simp
  from this [of None] show ?thesis
    using exec_one_path [OF assms]
    by (auto simp: decidePathTool_def split: option.splits prod.splits intro!: exec_follows_withExec)
qed

text \<open>With a built-in mode, the decision on every call but a control tool carries an exec directive
  exactly when it allows the call, and the directive is \<open>contained\<close> exactly for a fenced profile.\<close>

theorem exec_directive_follows_profile:
  assumes "\<not> di_control input"
    and "di_modeDecide input = decider_of (mp_decide (knobDecideOf env profile))"
    and "di_postureDecide input = decider_of (mp_posture (knobDecideOf env profile))"
  shows "d_exec (decideFor env input) =
    (if d_verdict (decideFor env input) = Allow
     then Some (if pr_containment (di_profile input) = Fenced then Contained else Direct) else None)"
proof -
  have n: "no_exec (di_modeDecide input)" "no_exec (di_postureDecide input)"
    using assms(2,3) builtin_no_exec by simp_all
  have m: "di_modeDecide input f = Some d \<Longrightarrow> d_exec d = None" for f d using n(1) by (auto simp: no_exec_def)
  have path: "exec_follows (di_profile input) (decidePathTool env (path_input_of env input w))" for w
    using exec_path_tool [of "path_input_of env input w" env] n by simp
  have tool: "exec_follows (di_profile input) (decideToolFace input rules)" for rules
    unfolding decideToolFace_def Let_def
    by (auto intro!: exec_follows_withExec exec_follows_others dest: m split: option.splits)
  have bash: "exec_follows (di_profile input) (decideDangerFace env input rules denys)" for rules denys
    unfolding decideDangerFace_def Let_def
    by (auto simp: exec_follows_def execOf_def split: jsval.splits)
  have "exec_follows (di_profile input) (decideFor env input)"
    using assms(1) path tool bash by (auto simp: decideFor_def split: option.splits tool_kind.splits)
  then show ?thesis by (simp add: exec_follows_def execOf_def)
qed

lemma exec_directive_follows_profile_witness:
  "d_exec (decideFor linux_host ((sample_call (Some KindRead) (JObj [(''path'', JStr ''x'')]))
      \<lparr>di_modeDecide := decider_of (mp_decide (knobDecideOf linux_host sample_profile)),
       di_postureDecide := decider_of (mp_posture (knobDecideOf linux_host sample_profile))\<rparr>)) \<noteq> Some Contained"
proof -
  let ?i = "(sample_call (Some KindRead) (JObj [(''path'', JStr ''x'')]))
      \<lparr>di_modeDecide := decider_of (mp_decide (knobDecideOf linux_host sample_profile)),
       di_postureDecide := decider_of (mp_posture (knobDecideOf linux_host sample_profile))\<rparr>"
  have "pr_containment (di_profile ?i) = NotContained" "\<not> di_control ?i" "di_modeDecide ?i = decider_of (mp_decide (knobDecideOf linux_host sample_profile))"
    "di_postureDecide ?i = decider_of (mp_posture (knobDecideOf linux_host sample_profile))"
    by (simp_all add: sample_call_def sample_profile_def)
  then show ?thesis using exec_directive_follows_profile [of ?i linux_host sample_profile] by simp
qed

subsection \<open>The rule suggested for a path with a star\<close>

text \<open>The rule the automatic mode suggests for the path \<open>/a*\<close> outside the roots does not match that
  path: the three replacements run one after the other, so the bracket of the first is replaced by
  the third, and patterns know no brackets anyway.\<close>

theorem suggested_path_rule_misses:
  "d_suggestedRule (outside_ask ''/a*'' KindWrite) = Some ''Write(/a[[]*]):allow'' \<and>
   \<not> globMatch linux_host ''/a[[]*]'' ''/a*'' ''/w''"
  by (intro conjI; code_simp)

end
