(* ===== verification/PermPlugin.thy ===== *)
theory PermPlugin
  imports PermGrants PermRegistry PermModeProps
begin

text \<open>
  The permission plugin (\<open>permission/src/plugin.ts\<close>, \<open>ask-summary.ts\<close>, \<open>profiles.ts\<close>): the gate in
  front of every tool call. A call that has to be asked about waits for the broker, and anything may
  happen to the plugin meanwhile: the gate is modelled as two steps, \<open>begin_call\<close> before the question
  and \<open>answer_call\<close> after it, each on the state at its own time.

  The other plugins a call reaches through \<open>ctx.tryUse\<close> are the fields of \<open>services\<close>; a field that is
  \<open>None\<close> is a service that is not provided. The answer of the grant store is taken at once. The
  warnings written to stderr are left out.
\<close>

subsection \<open>Data\<close>

record plugin_options =
  po_root :: path
  po_mode :: "string option"
  po_customProfiles :: "permission_profile list option"
  po_rules :: "permission_rule list option"
  po_projectRules :: "permission_rule list option"
  po_protectedPaths :: "string list option"
  po_baseline :: "baseline_policy option"

datatype memory_scope = SessionScope | ProjectScope | UserScope

datatype ask_option = AskOnce | AskRemember memory_scope

record rule_entry =
  e_tool :: rule_tool
  e_pattern :: string
  e_verdict :: verdict
  e_nature :: rule_nature
  e_at :: "jsnum option"

record ask_payload =
  ap_tool :: string
  ap_summary :: "string option"
  ap_reason :: string
  ap_options :: "ask_option list"
  ap_suggestedRule :: "string option"
  ap_session :: "string option"

record ask_reply =
  rp_allows :: bool
  rp_memory :: "memory_scope option"
  rp_ruleOverride :: "string option"

record permission_audit =
  au_tool :: string
  au_verdict :: verdict
  au_resolvedBy :: string
  au_reason :: string
  au_exec :: "exec_directive option"
  au_session :: "string option"

record grant_written =
  gw_scope :: memory_scope
  gw_rule :: string
  gw_from :: string

record mode_faces =
  mf_decide :: "decider option"
  mf_posture :: "decider option"
  mf_escalatable :: bool

record services =
  sv_resolveProfile :: "(string \<Rightarrow> permission_profile list option \<Rightarrow> permission_profile option) option"
  sv_profileDecide :: "(permission_profile \<Rightarrow> mode_faces) option"
  sv_brokerPresent :: bool
  sv_grantStore :: "(memory_scope \<Rightarrow> rule_entry \<Rightarrow> string option) option"
    \<comment> \<open>\<open>write\<close>: \<open>None\<close> when it was written, else the reason\<close>
  sv_fenceFacts :: "(string option \<Rightarrow> path list) option"
  sv_now :: jsnum
  sv_parse :: "string \<Rightarrow> bash_parse"
  sv_String :: "jsval \<Rightarrow> string"

record plugin_state =
  st_mode :: string
  st_grants :: grants_registry
  st_modes :: mode_registry
  st_tearingDown :: bool
  st_decided :: "permission_audit list" \<comment> \<open>the \<open>permission/decided\<close> events, in order\<close>
  st_grantWritten :: "grant_written list"

record call_payload =
  cl_name :: string
  cl_args :: jsval
  cl_control :: bool
  cl_kind :: "string option"
  cl_readsSubtree :: bool
  cl_session :: "string option"

datatype gate_result = GateAllow "exec_directive option" bool | GateDeny string

subsection \<open>Rules and profiles\<close>

definition parseMemoryRule ::
  "host_env \<Rightarrow> services \<Rightarrow> string option \<Rightarrow> memory_scope \<Rightarrow> rule_entry option" where
  "parseMemoryRule env svc raw scope =
     (case raw of
        None \<Rightarrow> None
      | Some raw \<Rightarrow>
          if str_includes raw '';'' \<or> str_includes raw [CHR 10] then None
          else (case parseRules [raw]
                       (case scope of SessionScope \<Rightarrow> OriginSession | ProjectScope \<Rightarrow> OriginProject
                        | UserScope \<Rightarrow> OriginUser) of
                  Inr (first # _) \<Rightarrow>
                    if r_verdict first \<noteq> Allow \<or> memoryBlocked env (r_pattern first) then None
                    else Some \<lparr>e_tool = r_tool first, e_pattern = r_pattern first, e_verdict = Allow,
                               e_nature = Grant, e_at = Some (sv_now svc)\<rparr>
                | _ \<Rightarrow> None))"

definition narrowKind :: "string option \<Rightarrow> tool_kind option" where
  "narrowKind kind =
     (if kind = Some ''Read'' then Some KindRead else if kind = Some ''Write'' then Some KindWrite
      else if kind = Some ''Danger'' then Some KindDanger else None)"

definition with_origin :: "permission_rule list option \<Rightarrow> rule_origin \<Rightarrow> permission_rule list" where
  \<comment> \<open>\<open>rulesOf\<close> of the plugin\<close>
  "with_origin entries origin = map (\<lambda>r. r\<lparr>r_origin := origin\<rparr>) (coalesce entries [])"

definition UNRESOLVED_PROFILE :: permission_profile where
  "UNRESOLVED_PROFILE = \<lparr>pr_id = ''auto'', pr_askPolicy = AskOnOpaque, pr_containment = NotContained,
                         pr_mutationPolicy = AutoInRoot\<rparr>"

definition protectPattern :: "string \<Rightarrow> string" where
  "protectPattern pattern =
     (if CHR ''*'' \<in> set pattern then pattern
      else if endsWith pattern ''/'' then pattern @ ''**'' else pattern @ ''/**'')"

definition protectedRules :: "plugin_options \<Rightarrow> permission_rule list" where
  "protectedRules opts =
     map (\<lambda>pattern. parsed_rule WriteTool (protectPattern pattern) Deny OriginDefault)
       (coalesce (po_protectedPaths opts) [])"

definition userRules :: "plugin_options \<Rightarrow> permission_rule list" where
  "userRules opts = with_origin (po_rules opts) OriginUser @ protectedRules opts"

definition projectRules :: "plugin_options \<Rightarrow> permission_rule list" where
  "projectRules opts = with_origin (po_projectRules opts) OriginProject"

definition profileOf :: "plugin_options \<Rightarrow> services \<Rightarrow> string \<Rightarrow> permission_profile" where
  "profileOf opts svc i =
     coalesce (case sv_resolveProfile svc of None \<Rightarrow> None | Some f \<Rightarrow> f i (po_customProfiles opts))
       UNRESOLVED_PROFILE"

subsection \<open>The mode\<close>

definition mode_unrestricted :: "mode_registry \<Rightarrow> string \<Rightarrow> bool" where
  "mode_unrestricted modes m = (case resolve_mode modes m of None \<Rightarrow> False | Some p \<Rightarrow> mp_unrestricted p)"

definition apply_plugin :: "plugin_options \<Rightarrow> plugin_state" where
  \<comment> \<open>the state after \<open>apply\<close>\<close>
  "apply_plugin opts =
     (let mode = coalesce (po_mode opts) ''auto''
      in \<lparr>st_mode = mode,
          st_grants = setUnrestricted (mode_unrestricted createModeRegistry mode) new_grants,
          st_modes = createModeRegistry, st_tearingDown = False, st_decided = [], st_grantWritten = []\<rparr>)"

definition set_mode :: "string \<Rightarrow> plugin_state \<Rightarrow> plugin_state" where
  "set_mode nextMode st =
     st\<lparr>st_mode := nextMode,
        st_grants := setUnrestricted (mode_unrestricted (st_modes st) nextMode) (st_grants st)\<rparr>"

definition facesOf :: "plugin_options \<Rightarrow> services \<Rightarrow> plugin_state \<Rightarrow> mode_faces option" where
  "facesOf opts svc st =
     (let plugin = resolve_mode (st_modes st) (st_mode st);
          knob = map_option (\<lambda>f. f (profileOf opts svc (st_mode st))) (sv_profileDecide svc)
      in case plugin of
           None \<Rightarrow> knob
         | Some p \<Rightarrow>
             Some \<lparr>mf_decide = or_else (mp_decide p) (case knob of None \<Rightarrow> None | Some k \<Rightarrow> mf_decide k),
                   mf_posture = or_else (mp_posture p) (case knob of None \<Rightarrow> None | Some k \<Rightarrow> mf_posture k),
                   mf_escalatable = (mp_escalatable p \<or> (case knob of None \<Rightarrow> False | Some k \<Rightarrow> mf_escalatable k))\<rparr>)"

definition decideInputOf ::
  "plugin_options \<Rightarrow> services \<Rightarrow> plugin_state \<Rightarrow> call_payload \<Rightarrow> permission_profile \<Rightarrow> decide_input" where
  "decideInputOf opts svc st payload profile =
     (let faces = facesOf opts svc st
      in \<lparr>di_tool = cl_name payload, di_args = cl_args payload,
          di_modeDecide = decider_of (case faces of None \<Rightarrow> None | Some f \<Rightarrow> mf_decide f),
          di_postureDecide = decider_of (case faces of None \<Rightarrow> None | Some f \<Rightarrow> mf_posture f),
          di_control = False, di_kind = narrowKind (cl_kind payload),
          di_pathScope = cl_readsSubtree payload, di_userRules = userRules opts,
          di_projectRules = projectRules opts,
          di_sessionRules = rulesOf (st_grants st) (cl_session payload), di_profile = profile,
          di_root = po_root opts, di_extraRoots = extraRootsOf (st_grants st) (cl_session payload),
          di_fence = map_option (\<lambda>f. f (cl_session payload)) (sv_fenceFacts svc),
          di_protectedWrite = po_protectedPaths opts, di_denyRules = [],
          di_unrestricted = isUnrestricted (st_grants st) (cl_session payload),
          di_baseline = po_baseline opts, di_parse = sv_parse svc, di_String = sv_String svc\<rparr>)"

definition decide_call :: "host_env \<Rightarrow> plugin_options \<Rightarrow> services \<Rightarrow> plugin_state \<Rightarrow> call_payload \<Rightarrow> decision" where
  \<comment> \<open>\<open>adjudicateDirect\<close>, and the decision of the gate\<close>
  "decide_call env opts svc st payload =
     decideFor env (decideInputOf opts svc st payload (profileOf opts svc (st_mode st)))"

subsection \<open>Asking\<close>

fun joined_strings :: "jsval list \<Rightarrow> string list" where
  "joined_strings [] = []"
| "joined_strings (JStr s # vs) = s # joined_strings vs"
| "joined_strings (_ # vs) = joined_strings vs"

fun target_text :: "jsval \<Rightarrow> string option" where
  \<comment> \<open>one round of the loop of \<open>summaryOf\<close>\<close>
  "target_text (JStr s) = (if s \<noteq> [] then Some s else None)"
| "target_text (JArr vs) =
     (if joined_strings vs \<noteq> [] then Some (join_with '', '' (joined_strings vs)) else None)"
| "target_text _ = None"

definition TARGET_KEYS :: "string list" where
  "TARGET_KEYS = [''path'', ''paths'', ''command'', ''pattern'']"

definition summaryOf :: "jsval \<Rightarrow> string option" where
  "summaryOf args = first_some (\<lambda>key. target_text (field args key)) TARGET_KEYS"

definition commandOf :: "call_payload \<Rightarrow> string" where
  "commandOf payload =
     (case field (cl_args payload) ''command'' of JStr c \<Rightarrow> c | _ \<Rightarrow> cl_name payload)"

definition memoryOptionsOf :: "services \<Rightarrow> decision \<Rightarrow> ask_option list" where
  "memoryOptionsOf svc d =
     (if \<not> d_memorizable d then [AskOnce]
      else if sv_grantStore svc \<noteq> None
      then [AskOnce, AskRemember SessionScope, AskRemember ProjectScope, AskRemember UserScope]
      else [AskOnce, AskRemember SessionScope])"

definition buildAskPayload :: "services \<Rightarrow> call_payload \<Rightarrow> decision \<Rightarrow> ask_payload" where
  "buildAskPayload svc payload d =
     \<lparr>ap_tool = cl_name payload, ap_summary = summaryOf (cl_args payload), ap_reason = d_reason d,
      ap_options = memoryOptionsOf svc d,
      ap_suggestedRule =
        (if d_memorizable d
         then or_else (d_suggestedRule d)
                (if cl_kind payload = Some ''Danger'' then suggestedRuleOf (commandOf payload) (sv_parse svc)
                 else None)
         else None),
      ap_session = cl_session payload\<rparr>"

definition session_rule :: "rule_entry \<Rightarrow> permission_rule" where
  \<comment> \<open>\<open>{ ...entry, origin: "session" }\<close>\<close>
  "session_rule e =
     \<lparr>r_tool = e_tool e, r_pattern = e_pattern e, r_verdict = e_verdict e, r_origin = OriginSession,
      r_nature = Some (e_nature e), r_outsideRoots = False, r_at = e_at e\<rparr>"

definition entry_text :: "rule_entry \<Rightarrow> string" where
  "entry_text e = rule_text (e_tool e) (e_pattern e) (e_verdict e)"

definition remember_in_session :: "string option \<Rightarrow> rule_entry \<Rightarrow> plugin_state \<Rightarrow> plugin_state" where
  "remember_in_session session e st = st\<lparr>st_grants := addRule session (session_rule e) (st_grants st)\<rparr>"

definition emit_written :: "memory_scope \<Rightarrow> rule_entry \<Rightarrow> string \<Rightarrow> plugin_state \<Rightarrow> plugin_state" where
  "emit_written scope e from_command st =
     st\<lparr>st_grantWritten := st_grantWritten st @
          [\<lparr>gw_scope = scope, gw_rule = entry_text e, gw_from = from_command\<rparr>]\<rparr>"

definition writeMemory ::
  "services \<Rightarrow> memory_scope \<Rightarrow> rule_entry \<Rightarrow> string option \<Rightarrow> string \<Rightarrow> plugin_state \<Rightarrow> plugin_state" where
  "writeMemory svc scope e session from_command st =
     (if scope = SessionScope then emit_written scope e from_command (remember_in_session session e st)
      else case sv_grantStore svc of
             None \<Rightarrow> st
           | Some store \<Rightarrow>
               (case store scope e of
                  Some reason \<Rightarrow>
                    emit_written SessionScope e (from_command @ '' (degraded: '' @ reason @ '')'')
                      (remember_in_session session e st)
                | None \<Rightarrow> emit_written scope e from_command st))"

definition settleMemory ::
  "host_env \<Rightarrow> services \<Rightarrow> ask_reply \<Rightarrow> ask_payload \<Rightarrow> decision \<Rightarrow> call_payload \<Rightarrow> plugin_state \<Rightarrow> plugin_state" where
  "settleMemory env svc reply asked d payload st =
     (if \<not> rp_allows reply \<or> \<not> d_memorizable d then st
      else case rp_memory reply of
             None \<Rightarrow> st
           | Some scope \<Rightarrow>
               (case parseMemoryRule env svc
                       (or_else (map_option trim (rp_ruleOverride reply)) (ap_suggestedRule asked)) scope of
                  None \<Rightarrow> st
                | Some e \<Rightarrow> writeMemory svc scope e (cl_session payload) (commandOf payload) st))"

subsection \<open>The gate\<close>

record settled_call =
  sc_verdict :: verdict
  sc_reason :: string
  sc_exec :: "exec_directive option"

record pending_call =
  pd_payload :: call_payload
  pd_decision :: decision
  pd_profile :: permission_profile
  pd_asked :: ask_payload

datatype call_state = PassedOn | Waiting pending_call | Settled settled_call

definition emitAudit :: "permission_audit \<Rightarrow> plugin_state \<Rightarrow> plugin_state" where
  "emitAudit a st = st\<lparr>st_decided := st_decided st @ [a]\<rparr>"

definition settle ::
  "call_payload \<Rightarrow> decision \<Rightarrow> permission_profile \<Rightarrow> verdict \<Rightarrow> plugin_state \<Rightarrow> plugin_state \<times> settled_call" where
  \<comment> \<open>the audit event and what remains to be done after it; \<open>v\<close> is \<open>finalVerdict\<close>\<close>
  "settle payload d profile v st =
     (let reason = (if d_verdict d = Ask \<and> v = Allow then d_reason d @ '' (approved)'' else d_reason d);
          exec = (if v = Allow then execOf Allow profile else None)
      in (emitAudit \<lparr>au_tool = cl_name payload, au_verdict = v, au_resolvedBy = d_resolvedBy d,
                     au_reason = reason, au_exec = exec, au_session = cl_session payload\<rparr> st,
          \<lparr>sc_verdict = v, sc_reason = reason, sc_exec = exec\<rparr>))"

definition begin_call ::
  "host_env \<Rightarrow> plugin_options \<Rightarrow> services \<Rightarrow> plugin_state \<Rightarrow> call_payload \<Rightarrow> plugin_state \<times> call_state" where
  "begin_call env opts svc st payload =
     (if cl_control payload
      then (emitAudit \<lparr>au_tool = cl_name payload, au_verdict = Allow, au_resolvedBy = ''control'',
                       au_reason = ''control tool'', au_exec = None, au_session = cl_session payload\<rparr> st,
            PassedOn)
      else
        let profile = profileOf opts svc (st_mode st); d = decide_call env opts svc st payload
        in if d_verdict d = Ask then
             (if st_tearingDown st \<or> \<not> sv_brokerPresent svc
              then map_prod id Settled (settle payload d profile Deny st)
              else (st, Waiting \<lparr>pd_payload = payload, pd_decision = d, pd_profile = profile,
                                 pd_asked = buildAskPayload svc payload d\<rparr>))
           else map_prod id Settled (settle payload d profile (d_verdict d) st))"

definition answer_call ::
  "host_env \<Rightarrow> services \<Rightarrow> ask_reply option \<Rightarrow> plugin_state \<Rightarrow> pending_call \<Rightarrow> plugin_state \<times> settled_call" where
  \<comment> \<open>the rest of \<open>ask\<close> and of the gate once the broker answers; \<open>None\<close> is a broker that throws\<close>
  "answer_call env svc reply st p =
     (let d = pd_decision p; payload = pd_payload p; profile = pd_profile p
      in case reply of
           None \<Rightarrow> settle payload d profile Deny st
         | Some r \<Rightarrow>
             if st_tearingDown st then settle payload d profile Deny st
             else
               let st = (case d_grant d of
                           Some dir \<Rightarrow>
                             if rp_allows r \<and> rp_memory r \<noteq> None
                             then st\<lparr>st_grants := addExtraRoot (cl_session payload) dir (st_grants st)\<rparr> else st
                         | None \<Rightarrow> st);
                   st = settleMemory env svc r (pd_asked p) d payload st
               in settle payload d profile (if rp_allows r then Allow else Deny) st)"

definition gateWithExec :: "gate_result \<Rightarrow> exec_directive option \<Rightarrow> mode_faces option \<Rightarrow> gate_result" where
  "gateWithExec downstream exec faces =
     (case downstream of
        GateDeny reason \<Rightarrow> GateDeny reason
      | GateAllow e escalatable \<Rightarrow>
          (case exec of
             None \<Rightarrow> downstream
           | Some x \<Rightarrow>
               GateAllow (Some x)
                 (escalatable \<or> x = Contained \<and> (case faces of None \<Rightarrow> False | Some f \<Rightarrow> mf_escalatable f))))"

definition finish_call ::
  "plugin_options \<Rightarrow> services \<Rightarrow> plugin_state \<Rightarrow> settled_call \<Rightarrow> gate_result \<Rightarrow> gate_result" where
  \<comment> \<open>after \<open>await next(payload)\<close>, which returned \<open>downstream\<close>\<close>
  "finish_call opts svc st s downstream =
     (if sc_verdict s = Deny then GateDeny (''permission:'' @ sc_reason s)
      else gateWithExec downstream (sc_exec s) (facesOf opts svc st))"

subsection \<open>Other events\<close>

definition session_disposed :: "string option \<Rightarrow> plugin_state \<Rightarrow> plugin_state" where
  "session_disposed session st = st\<lparr>st_grants := evict session (st_grants st)\<rparr>"

definition tear_down :: "plugin_state \<Rightarrow> plugin_state" where
  "tear_down st = st\<lparr>st_tearingDown := True, st_grants := seal (st_grants st)\<rparr>"

definition teardown_guard :: "gate_result \<Rightarrow> gate_result" where
  \<comment> \<open>the handler the teardown leaves behind\<close>
  "teardown_guard inner =
     (case inner of GateAllow _ _ \<Rightarrow> GateDeny ''permission: unloaded (guard)'' | GateDeny r \<Rightarrow> GateDeny r)"

subsection \<open>Rows of custom profiles\<close>

text \<open>\<open>ID_SHAPE\<close> ends in \<open>$\<close> without the \<open>m\<close> flag, so nothing follows the last character.\<close>

definition id_shape :: "string \<Rightarrow> bool" where
  "id_shape s =
     (case s of [] \<Rightarrow> False
      | c # cs \<Rightarrow> is_alpha c \<and> list_all (\<lambda>c. is_alpha c \<or> is_digit c \<or> c = CHR ''-'') cs)"

definition one_of :: "jsval \<Rightarrow> string list \<Rightarrow> bool" where
  \<comment> \<open>\<open>list.includes(v)\<close>\<close>
  "one_of v names = (case v of JStr s \<Rightarrow> s \<in> set names | _ \<Rightarrow> False)"

definition profileRowValid :: "jsval \<Rightarrow> bool" where
  "profileRowValid row =
     ((case field row ''id'' of JStr i \<Rightarrow> id_shape i | _ \<Rightarrow> False) \<and>
      one_of (field row ''askPolicy'') [''never'', ''on-failure'', ''on-opaque'', ''always''] \<and>
      one_of (field row ''containment'') [''none'', ''fenced''] \<and>
      one_of (field row ''mutationPolicy'') [''plan-deny'', ''confirm-all'', ''auto-in-root''] \<and>
      \<not> (field row ''askPolicy'' = JStr ''never'' \<and>
         (field row ''mutationPolicy'' = JStr ''plan-deny'' \<or> field row ''mutationPolicy'' = JStr ''confirm-all'')))"

end
