(* ===== verification/PermPluginProps.thy ===== *)
theory PermPluginProps
  imports PermPlugin
begin

text \<open>
  What the gate in front of the tools guarantees, over every order of events: the state the question is
  answered in, and the one the downstream handlers return in, are arbitrary.
\<close>

subsection \<open>A call from beginning to end\<close>

definition gate_run ::
  "host_env \<Rightarrow> plugin_options \<Rightarrow> services \<Rightarrow> call_payload \<Rightarrow> plugin_state \<Rightarrow> ask_reply option \<Rightarrow>
     plugin_state \<Rightarrow> plugin_state \<Rightarrow> gate_result \<Rightarrow> gate_result" where
  \<comment> \<open>begun in \<open>st\<close>, answered with \<open>reply\<close> in \<open>st1\<close> if it was asked about, finished in \<open>st2\<close>\<close>
  "gate_run env opts svc payload st reply st1 st2 downstream =
     (case snd (begin_call env opts svc st payload) of
        PassedOn \<Rightarrow> downstream
      | Settled s \<Rightarrow> finish_call opts svc st2 s downstream
      | Waiting p \<Rightarrow> finish_call opts svc st2 (snd (answer_call env svc reply st1 p)) downstream)"

definition gate_allows :: "gate_result \<Rightarrow> bool" where
  "gate_allows r = (case r of GateAllow _ _ \<Rightarrow> True | GateDeny _ \<Rightarrow> False)"

definition approved :: "services \<Rightarrow> plugin_state \<Rightarrow> ask_reply option \<Rightarrow> plugin_state \<Rightarrow> bool" where
  \<comment> \<open>a broker was there, answered yes, and the plugin was not being unloaded\<close>
  "approved svc st reply st1 \<longleftrightarrow> sv_brokerPresent svc \<and> \<not> st_tearingDown st \<and> \<not> st_tearingDown st1 \<and>
     (case reply of None \<Rightarrow> False | Some r \<Rightarrow> rp_allows r)"

lemma settle_sel [simp]:
  "sc_verdict (snd (settle payload d profile v st)) = v"
  "sc_exec (snd (settle payload d profile v st)) = (if v = Allow then execOf Allow profile else None)"
  "st_grants (fst (settle payload d profile v st)) = st_grants st"
  "st_mode (fst (settle payload d profile v st)) = st_mode st"
  "st_modes (fst (settle payload d profile v st)) = st_modes st"
  "st_tearingDown (fst (settle payload d profile v st)) = st_tearingDown st"
  by (simp_all add: settle_def emitAudit_def Let_def)

lemma execOf_allow [simp]: "execOf Allow profile \<noteq> None"
  by (simp add: execOf_def)

lemma finish_allows [simp]:
  "gate_allows (finish_call opts svc st s downstream) \<longleftrightarrow> sc_verdict s \<noteq> Deny \<and> gate_allows downstream"
  by (auto simp: finish_call_def gate_allows_def gateWithExec_def split: gate_result.splits option.splits)

lemma answer_verdict:
  "sc_verdict (snd (answer_call env svc reply st p)) =
     (if \<not> st_tearingDown st \<and> (case reply of None \<Rightarrow> False | Some r \<Rightarrow> rp_allows r) then Allow else Deny)"
  by (simp add: answer_call_def Let_def split: option.splits)

lemma begin_cases:
  assumes "\<not> cl_control payload"
  shows "snd (begin_call env opts svc st payload) =
    (let profile = profileOf opts svc (st_mode st); d = decide_call env opts svc st payload
     in if d_verdict d = Ask \<and> sv_brokerPresent svc \<and> \<not> st_tearingDown st
        then Waiting \<lparr>pd_payload = payload, pd_decision = d, pd_profile = profile,
                      pd_asked = buildAskPayload svc payload d\<rparr>
        else Settled (snd (settle payload d profile (if d_verdict d = Ask then Deny else d_verdict d) st)))"
  using assms by (auto simp: begin_call_def Let_def)

text \<open>C9: The gate lets a call (of a tool that is not a control tool) through exactly when the handlers
  after it do and either the decision was to allow it, or it was to ask and a broker that was present
  said yes while the plugin was not being unloaded, neither when the question was put nor when it was
  answered. A denied call is never run, and an allowed one is not lost.\<close>

theorem gate_allows_iff:
  assumes "\<not> cl_control payload"
  shows "gate_allows (gate_run env opts svc payload st reply st1 st2 downstream) \<longleftrightarrow>
    gate_allows downstream \<and>
    (d_verdict (decide_call env opts svc st payload) = Allow \<or>
     d_verdict (decide_call env opts svc st payload) = Ask \<and> approved svc st reply st1)"
proof (cases "d_verdict (decide_call env opts svc st payload) = Ask \<and> sv_brokerPresent svc \<and> \<not> st_tearingDown st")
  case True
  then have "gate_run env opts svc payload st reply st1 st2 downstream =
      finish_call opts svc st2 (snd (answer_call env svc reply st1
        \<lparr>pd_payload = payload, pd_decision = decide_call env opts svc st payload,
         pd_profile = profileOf opts svc (st_mode st),
         pd_asked = buildAskPayload svc payload (decide_call env opts svc st payload)\<rparr>)) downstream"
    by (simp add: gate_run_def begin_cases [OF assms] Let_def)
  then show ?thesis using True by (simp add: answer_verdict approved_def conj_commute)
next
  case False
  let ?v = "d_verdict (decide_call env opts svc st payload)"
  have "gate_run env opts svc payload st reply st1 st2 downstream =
      finish_call opts svc st2 (snd (settle payload (decide_call env opts svc st payload)
        (profileOf opts svc (st_mode st)) (if ?v = Ask then Deny else ?v) st)) downstream"
    unfolding gate_run_def begin_cases [OF assms] Let_def if_not_P [OF False] by simp
  then show ?thesis using False by (cases ?v) (auto simp: approved_def)
qed

definition bare_services :: services where
  \<comment> \<open>the built-in profiles, a broker, and no store\<close>
  "bare_services =
     \<lparr>sv_resolveProfile = Some resolveProfile, sv_profileDecide = None, sv_brokerPresent = True,
      sv_grantStore = None, sv_fenceFacts = None, sv_now = NInt 0, sv_parse = (\<lambda>_. NotParsed),
      sv_String = (\<lambda>_. [])\<rparr>"

definition bare_options :: plugin_options where
  "bare_options =
     \<lparr>po_root = ''/w'', po_mode = None, po_customProfiles = None, po_rules = None, po_projectRules = None,
      po_protectedPaths = Some [''/w/secret''], po_baseline = None\<rparr>"

definition file_call :: "string \<Rightarrow> string \<Rightarrow> call_payload" where
  "file_call kind p =
     \<lparr>cl_name = ''tool'', cl_args = JObj [(''path'', JStr p)], cl_control = False, cl_kind = Some kind,
      cl_readsSubtree = False, cl_session = Some ''s''\<rparr>"

definition yes_reply :: ask_reply where
  "yes_reply = \<lparr>rp_allows = True, rp_memory = Some SessionScope, rp_ruleOverride = Some ''Read(/w/**):allow''\<rparr>"

lemma gate_allows_iff_witness:
  "gate_allows (gate_run linux_host bare_options bare_services (file_call ''Read'' ''x'') (apply_plugin bare_options)
     (Some yes_reply) (apply_plugin bare_options) (apply_plugin bare_options) (GateAllow None False)) \<and>
   \<not> gate_allows (gate_run linux_host bare_options bare_services (file_call ''Read'' ''x'') (apply_plugin bare_options)
     (Some yes_reply) (tear_down (apply_plugin bare_options)) (apply_plugin bare_options) (GateAllow None False))"
proof -
  have c: "\<not> cl_control (file_call ''Read'' ''x'')" by (simp add: file_call_def)
  have d: "d_verdict (decide_call linux_host bare_options bare_services (apply_plugin bare_options)
      (file_call ''Read'' ''x'')) = Ask" by code_simp
  have a: "approved bare_services (apply_plugin bare_options) (Some yes_reply) (apply_plugin bare_options)"
    "\<not> approved bare_services (apply_plugin bare_options) (Some yes_reply) (tear_down (apply_plugin bare_options))"
    by code_simp+
  show ?thesis unfolding gate_allows_iff [OF c] by (simp add: a d gate_allows_def)
qed

subsection \<open>The audit trail\<close>

lemma settle_audit:
  "st_decided (fst (settle payload d profile v st)) = st_decided st @
     [\<lparr>au_tool = cl_name payload, au_verdict = v, au_resolvedBy = d_resolvedBy d,
       au_reason = sc_reason (snd (settle payload d profile v st)),
       au_exec = (if v = Allow then execOf Allow profile else None), au_session = cl_session payload\<rparr>]"
  by (simp add: settle_def emitAudit_def Let_def)

lemma memory_keeps_decided [simp]:
  "st_decided (settleMemory env svc r asked d payload st) = st_decided st"
  by (auto simp: settleMemory_def writeMemory_def emit_written_def remember_in_session_def split: option.splits)

definition audit_of :: "call_payload \<Rightarrow> gate_result \<Rightarrow> permission_audit \<Rightarrow> bool" where
  \<comment> \<open>the audit event tells what the caller got\<close>
  "audit_of payload r a \<longleftrightarrow> au_tool a = cl_name payload \<and> au_session a = cl_session payload \<and>
     (case r of
        GateDeny reason \<Rightarrow> au_verdict a = Deny \<and> reason = ''permission:'' @ au_reason a \<and> au_exec a = None
      | GateAllow e _ \<Rightarrow> au_verdict a = Allow \<and> au_exec a = e)"

lemma settle_audit_of:
  assumes "v \<noteq> Ask" "gate_allows downstream"
  shows "\<exists>a. st_decided (fst (settle payload d profile v st)) = st_decided st @ [a] \<and>
    audit_of payload (finish_call opts svc st2 (snd (settle payload d profile v st)) downstream) a"
  using assms
  by (cases v)
     (auto simp: settle_audit audit_of_def finish_call_def gateWithExec_def gate_allows_def execOf_def
        split: gate_result.splits option.splits)

definition settling_states ::
  "host_env \<Rightarrow> plugin_options \<Rightarrow> services \<Rightarrow> call_payload \<Rightarrow> plugin_state \<Rightarrow> ask_reply option \<Rightarrow> plugin_state \<Rightarrow>
     plugin_state \<times> plugin_state" where
  \<comment> \<open>the states before and after the step that settles the call\<close>
  "settling_states env opts svc payload st reply st1 =
     (case snd (begin_call env opts svc st payload) of
        Waiting p \<Rightarrow> (st1, fst (answer_call env svc reply st1 p))
      | _ \<Rightarrow> (st, fst (begin_call env opts svc st payload)))"

lemma answer_settles:
  "\<exists>d profile v st'. v \<noteq> Ask \<and> st_decided st' = st_decided st \<and>
     answer_call env svc reply st p = settle (pd_payload p) d profile v st'"
proof (cases reply)
  case None
  then show ?thesis by (fastforce simp: answer_call_def Let_def)
next
  case (Some r)
  let ?g = "case d_grant (pd_decision p) of
      Some dir \<Rightarrow> if rp_allows r \<and> rp_memory r \<noteq> None
        then st\<lparr>st_grants := addExtraRoot (cl_session (pd_payload p)) dir (st_grants st)\<rparr> else st
    | None \<Rightarrow> st"
  have g: "st_decided ?g = st_decided st" by (simp split: option.splits)
  show ?thesis
  proof (cases "st_tearingDown st")
    case True
    then show ?thesis using Some by (fastforce simp: answer_call_def Let_def)
  next
    case False
    then have "answer_call env svc reply st p = settle (pd_payload p) (pd_decision p) (pd_profile p)
        (if rp_allows r then Allow else Deny)
        (settleMemory env svc r (pd_asked p) (pd_decision p) (pd_payload p) ?g)"
      using Some by (simp add: answer_call_def Let_def)
    moreover have "(if rp_allows r then Allow else Deny) \<noteq> Ask" by simp
    moreover have "st_decided (settleMemory env svc r (pd_asked p) (pd_decision p) (pd_payload p) ?g) = st_decided st"
      using g by (simp only: memory_keeps_decided)
    ultimately show ?thesis by blast
  qed
qed

text \<open>Every call the handlers after the gate let through is reported by exactly one audit event, in the
  step that settles it, and the event tells what the caller got: the verdict, the reason of a denial and
  the exec directive.\<close>

theorem one_audit_per_call:
  assumes "\<not> cl_control payload" and "gate_allows downstream"
  shows "\<exists>a. st_decided (snd (settling_states env opts svc payload st reply st1)) =
      st_decided (fst (settling_states env opts svc payload st reply st1)) @ [a] \<and>
    audit_of payload (gate_run env opts svc payload st reply st1 st2 downstream) a"
proof (cases "snd (begin_call env opts svc st payload)")
  case (Waiting p)
  have p: "pd_payload p = payload"
    using Waiting by (auto simp: begin_cases [OF assms(1)] Let_def split: if_splits)
  obtain d profile v st' where "v \<noteq> Ask" "st_decided st' = st_decided st1"
    "answer_call env svc reply st1 p = settle payload d profile v st'"
    using answer_settles [of st1 env svc reply p] p by auto
  then show ?thesis
    using settle_audit_of [OF _ assms(2), of v payload d profile st' opts svc st2] Waiting
    by (auto simp: settling_states_def gate_run_def)
next
  case (Settled s)
  let ?d = "decide_call env opts svc st payload"
  let ?v = "if d_verdict ?d = Ask then Deny else d_verdict ?d"
  have "begin_call env opts svc st payload =
      map_prod id Settled (settle payload ?d (profileOf opts svc (st_mode st)) ?v st)"
    using Settled assms(1) by (auto simp: begin_call_def Let_def split: if_splits)
  then show ?thesis
    using settle_audit_of [OF _ assms(2), of ?v payload ?d "profileOf opts svc (st_mode st)" st opts svc st2]
      Settled
    by (auto simp: settling_states_def gate_run_def split: if_splits)
next
  case PassedOn
  then show ?thesis using begin_cases [OF assms(1), of env opts svc st] by (simp add: Let_def split: if_splits)
qed

lemma one_audit_per_call_witness:
  "\<exists>a. audit_of (file_call ''Read'' ''x'') (gate_run linux_host bare_options bare_services (file_call ''Read'' ''x'')
     (apply_plugin bare_options) None (apply_plugin bare_options) (apply_plugin bare_options) (GateAllow None False)) a"
proof -
  have "\<not> cl_control (file_call ''Read'' ''x'')" "gate_allows (GateAllow None False)"
    by (simp_all add: file_call_def gate_allows_def)
  from one_audit_per_call [OF this] show ?thesis by blast
qed

subsection \<open>What an approval is remembered as\<close>

lemma rulesOf_addRule:
  "rulesOf (addRule session rule g) other =
     (if session_key other = session_key session \<and> \<not> closed_for g session \<and>
         \<not> list_ex (\<lambda>existing. same_rule existing rule) (rulesOf g session)
      then rulesOf g other @ [rule] else rulesOf g other)"
  by (auto simp: addRule_def rulesOf_def put_bucket_def bucket_def fresh_bucket_def js_map.get_put Let_def
      split: option.splits)

lemma rulesOf_addExtraRoot [simp]: "rulesOf (addExtraRoot session dir g) other = rulesOf g other"
  by (auto simp: addExtraRoot_def rulesOf_def put_bucket_def bucket_def fresh_bucket_def js_map.get_put
      split: option.splits)

definition safe_grant :: "host_env \<Rightarrow> permission_rule \<Rightarrow> bool" where
  "safe_grant env r \<longleftrightarrow> r_verdict r = Allow \<and> is_grant r \<and> r_origin r = OriginSession \<and> r_pattern r \<noteq> [] \<and>
     \<not> memoryBlocked env (r_pattern r) \<and> \<not> str_includes (r_pattern r) '';'' \<and> \<not> str_includes (r_pattern r) [CHR 10]"

lemma parseMemoryRule_safe:
  assumes "parseMemoryRule env svc raw scope = Some e"
  shows "safe_grant env (session_rule e) \<and> (\<exists>s. raw = Some s \<and> s = entry_text e)"
proof -
  obtain s first rest where raw: "raw = Some s" "\<not> str_includes s '';''" "\<not> str_includes s [CHR 10]"
    and p: "parseRules [s] (case scope of SessionScope \<Rightarrow> OriginSession | ProjectScope \<Rightarrow> OriginProject
          | UserScope \<Rightarrow> OriginUser) = Inr (first # rest)"
    and ok: "r_verdict first = Allow" "\<not> memoryBlocked env (r_pattern first)"
    and e: "e = \<lparr>e_tool = r_tool first, e_pattern = r_pattern first, e_verdict = Allow,
                 e_nature = Grant, e_at = Some (sv_now svc)\<rparr>"
    using assms unfolding parseMemoryRule_def by (auto split: option.splits sum.splits list.splits if_splits)
  from p obtain o' where "parseRule s o' = Inr first" by (auto split: sum.splits)
  then have s: "r_pattern first \<noteq> []" "s = rule_text (r_tool first) (r_pattern first) Allow"
    using parseRule_InrD ok(1) by fastforce+
  have "\<not> str_includes (r_pattern first) '';''" "\<not> str_includes (r_pattern first) [CHR 10]"
    using raw(2,3) by (auto simp: s(2) rule_text_def)
  then show ?thesis
    using e ok s raw(1) by (simp add: safe_grant_def session_rule_def is_grant_def entry_text_def)
qed

lemma writeMemory_rules:
  assumes "r \<in> set (rulesOf (st_grants (writeMemory svc scope e session c st)) other)"
  shows "r \<in> set (rulesOf (st_grants st) other) \<or>
    session_key other = session_key session \<and> r = session_rule e \<and> \<not> closed_for (st_grants st) session"
  using assms
  by (auto simp: writeMemory_def emit_written_def remember_in_session_def rulesOf_addRule
      split: if_splits option.splits)

lemma settleMemory_rules:
  assumes "r \<in> set (rulesOf (st_grants (settleMemory env svc reply asked d payload st)) other)"
  shows "r \<in> set (rulesOf (st_grants st) other) \<or>
    session_key other = session_key (cl_session payload) \<and> safe_grant env r \<and> rp_allows reply \<and>
    d_memorizable d \<and> rp_memory reply \<noteq> None \<and>
    or_else (map_option trim (rp_ruleOverride reply)) (ap_suggestedRule asked) =
      Some (rule_text (r_tool r) (r_pattern r) Allow)"
proof (cases "rp_allows reply \<and> d_memorizable d")
  case True
  show ?thesis
  proof (cases "rp_memory reply")
    case None
    then show ?thesis using assms True by (simp add: settleMemory_def)
  next
    case (Some scope)
    let ?raw = "or_else (map_option trim (rp_ruleOverride reply)) (ap_suggestedRule asked)"
    show ?thesis
    proof (cases "parseMemoryRule env svc ?raw scope")
      case None
      then show ?thesis using assms True Some by (simp add: settleMemory_def)
    next
      case e: (Some e)
      have m: "r \<in> set (rulesOf (st_grants
          (writeMemory svc scope e (cl_session payload) (commandOf payload) st)) other)"
        using assms True Some e by (simp add: settleMemory_def)
      have "r = session_rule e \<Longrightarrow> safe_grant env r \<and> ?raw = Some (rule_text (r_tool r) (r_pattern r) Allow)"
        using parseMemoryRule_safe [OF e] by (auto simp: safe_grant_def session_rule_def entry_text_def)
      then show ?thesis using writeMemory_rules [OF m] True Some by auto
    qed
  qed
qed (use assms in \<open>auto simp: settleMemory_def\<close>)

text \<open>C38: The answer to a question adds to a session's rules nothing but a safe grant, and only for the
  session that asked: an allow rule marked as a grant, whose text is the rule the user typed or the one
  that was suggested, without a semicolon or a line break, and whose command is not an interpreter or
  another head that may not be remembered. It adds nothing unless the user allowed the call, chose to
  remember it, and the question could be remembered.\<close>

theorem answer_remembers_only_safe_grants:
  assumes "r \<in> set (rulesOf (st_grants (fst (answer_call env svc reply st p))) session)"
    and "r \<notin> set (rulesOf (st_grants st) session)"
  shows "safe_grant env r \<and> session_key session = session_key (cl_session (pd_payload p)) \<and>
    d_memorizable (pd_decision p) \<and> \<not> st_tearingDown st \<and>
    (\<exists>a. reply = Some a \<and> rp_allows a \<and> rp_memory a \<noteq> None \<and>
       or_else (map_option trim (rp_ruleOverride a)) (ap_suggestedRule (pd_asked p)) =
         Some (rule_text (r_tool r) (r_pattern r) Allow))"
proof -
  obtain a where a: "reply = Some a" using assms by (cases reply) (auto simp: answer_call_def Let_def)
  have t: "\<not> st_tearingDown st" using assms by (auto simp: answer_call_def Let_def a)
  let ?g = "case d_grant (pd_decision p) of
      Some dir \<Rightarrow> if rp_allows a \<and> rp_memory a \<noteq> None
        then st\<lparr>st_grants := addExtraRoot (cl_session (pd_payload p)) dir (st_grants st)\<rparr> else st
    | None \<Rightarrow> st"
  have "r \<in> set (rulesOf (st_grants
      (settleMemory env svc a (pd_asked p) (pd_decision p) (pd_payload p) ?g)) session)"
    using assms(1) t by (simp add: answer_call_def Let_def a)
  moreover have "rulesOf (st_grants ?g) session = rulesOf (st_grants st) session" by (simp split: option.splits)
  ultimately show ?thesis
    using settleMemory_rules [of r env svc a "pd_asked p" "pd_decision p" "pd_payload p" ?g session] assms(2) a t
    by auto
qed

definition sample_pending :: pending_call where
  "sample_pending =
     \<lparr>pd_payload = file_call ''Read'' ''x'',
      pd_decision = (plain_decision Ask ''outside-root'' ''outside-root'')\<lparr>d_memorizable := True\<rparr>,
      pd_profile = UNRESOLVED_PROFILE,
      pd_asked = buildAskPayload bare_services (file_call ''Read'' ''x'')
        ((plain_decision Ask ''outside-root'' ''outside-root'')\<lparr>d_memorizable := True\<rparr>)\<rparr>"

lemma answer_remembers_only_safe_grants_witness:
  "\<exists>r. safe_grant linux_host r \<and> r_pattern r = ''/w/**''"
proof -
  let ?r = "session_rule \<lparr>e_tool = ReadTool, e_pattern = ''/w/**'', e_verdict = Allow, e_nature = Grant, e_at = Some (NInt 0)\<rparr>"
  have "?r \<in> set (rulesOf (st_grants (fst (answer_call linux_host bare_services (Some yes_reply)
      (apply_plugin bare_options) sample_pending))) (Some ''s''))"
    "?r \<notin> set (rulesOf (st_grants (apply_plugin bare_options)) (Some ''s''))" by code_simp+
  from answer_remembers_only_safe_grants [OF this] show ?thesis
    by (intro exI [of _ ?r]) (simp add: session_rule_def)
qed

subsection \<open>Protected directories\<close>

lemma protectPattern_dir: "CHR ''*'' \<notin> set D \<Longrightarrow> protectPattern D = dir_pattern D"
  by (simp add: protectPattern_def dir_pattern_def)

lemma decideInputOf_sel [simp]:
  "di_control (decideInputOf opts svc st payload profile) = False"
  "di_kind (decideInputOf opts svc st payload profile) = narrowKind (cl_kind payload)"
  "di_userRules (decideInputOf opts svc st payload profile) = userRules opts"
  "di_root (decideInputOf opts svc st payload profile) = po_root opts"
  "di_args (decideInputOf opts svc st payload profile) = cl_args payload"
  by (simp_all add: decideInputOf_def Let_def)

definition writes_path :: "host_env \<Rightarrow> plugin_options \<Rightarrow> call_payload \<Rightarrow> string \<Rightarrow> bool" where
  \<comment> \<open>the call is one of a tool that writes the file its \<open>path\<close> argument names, resolved to \<open>p\<close>\<close>
  "writes_path env opts payload p \<longleftrightarrow> \<not> cl_control payload \<and> cl_kind payload = Some ''Write'' \<and>
     field (cl_args payload) ''paths'' = JUndef \<and>
     (\<exists>q. field (cl_args payload) ''path'' = JStr q \<and> q \<noteq> [] \<and> resolve env [po_root opts, q] = p)"



end
