(* ===== verification/ToolsRegistry.thy ===== *)
theory ToolsRegistry
  imports JsMap JsValues
begin

text \<open>
  The registry of tools (\<open>core/tools/src/registry.ts\<close>): definitions under their names, and the filters
  that restrict what a session sees. An object has an identity (\<open>td_ref\<close>, and the number of filters set
  before for the fresh object of a filter), which the disposers compare.

  The check of an input schema, which walks a schema object of a library, is the parameter
  \<open>probe\<close>: \<open>None\<close> when the schema is accepted, else the text of the error.
\<close>

datatype concurrency = Parallel | Exclusive

datatype subtree_reads = NeverSubtree | AlwaysSubtree | SubtreeBy "jsval \<Rightarrow> jsval"

record exec_context =
  xc_callId :: string
  xc_name :: string
  xc_session :: "string option"
  xc_exec :: "string option"
  xc_escalatable :: bool

text \<open>What \<open>execute\<close> leaves: the value returned or the text of what was thrown, and whether the signal
  was aborted by then.\<close>

record body_end =
  be_result :: "string + jsval"
  be_aborted :: bool

record tool_def =
  td_ref :: nat
  td_name :: string
  td_description :: "string option"
  td_inputSchema :: jsval
  td_isConcurrencySafe :: "(jsval \<Rightarrow> string + jsval) option"
  td_isControlTool :: bool
  td_kind :: "string option"
  td_readsSubtree :: subtree_reads
  td_execute :: "(jsval \<Rightarrow> exec_context \<Rightarrow> body_end) option"

datatype tool_filter = DenyAll | OnlyTools "string list"

record restriction =
  rs_filter :: tool_filter
  rs_identity :: nat

record tool_registry =
  tr_tools :: "(string, tool_def) jsmap"
  tr_restrictions :: "(string, restriction) jsmap"
  tr_next :: nat

record tool_schema =
  ts_name :: string
  ts_description :: "string option"
  ts_inputSchema :: jsval

definition createToolRegistry :: tool_registry where
  "createToolRegistry = \<lparr>tr_tools = [], tr_restrictions = [], tr_next = 0\<rparr>"

datatype register_error = EmptyToolName | AlreadyRegistered string | NoExecute string | BadSchema string

definition register_tool ::
  "(jsval \<Rightarrow> string option) \<Rightarrow> tool_def \<Rightarrow> tool_registry \<Rightarrow> register_error + tool_registry" where
  "register_tool probe def reg =
     (if td_name def = [] then Inl EmptyToolName
      else if map_has (tr_tools reg) (td_name def) then Inl (AlreadyRegistered (td_name def))
      else if td_execute def = None then Inl (NoExecute (td_name def))
      else case probe (td_inputSchema def) of
             Some e \<Rightarrow> Inl (BadSchema e)
           | None \<Rightarrow> Inr (reg\<lparr>tr_tools := map_set (tr_tools reg) (td_name def) def\<rparr>))"

definition unregister_tool :: "tool_def \<Rightarrow> tool_registry \<Rightarrow> tool_registry" where
  \<comment> \<open>the disposer \<open>register\<close> returned for \<open>def\<close>\<close>
  "unregister_tool def reg =
     (case map_get (tr_tools reg) (td_name def) of
        Some t \<Rightarrow> if td_ref t = td_ref def then reg\<lparr>tr_tools := map_delete (tr_tools reg) (td_name def)\<rparr> else reg
      | None \<Rightarrow> reg)"

definition get_tool :: "tool_registry \<Rightarrow> string \<Rightarrow> tool_def option" where
  "get_tool reg name = map_get (tr_tools reg) name"

definition restrictionOf :: "tool_registry \<Rightarrow> string \<Rightarrow> tool_filter option" where
  "restrictionOf reg session = map_option rs_filter (map_get (tr_restrictions reg) session)"

definition visibleTools :: "tool_registry \<Rightarrow> string option \<Rightarrow> tool_def list" where
  "visibleTools reg session =
     (case session of
        None \<Rightarrow> map snd (tr_tools reg)
      | Some s \<Rightarrow>
          (case restrictionOf reg s of
             None \<Rightarrow> map snd (tr_tools reg)
           | Some DenyAll \<Rightarrow> []
           | Some (OnlyTools names) \<Rightarrow> filter (\<lambda>t. td_name t \<in> set names) (map snd (tr_tools reg))))"

definition tool_schemas :: "tool_registry \<Rightarrow> string option \<Rightarrow> tool_schema list" where
  "tool_schemas reg session =
     map (\<lambda>t. \<lparr>ts_name = td_name t, ts_description = td_description t, ts_inputSchema = td_inputSchema t\<rparr>)
       (visibleTools reg session)"

definition filter_ok :: "tool_filter \<Rightarrow> bool" where
  \<comment> \<open>the shape \<open>restrict\<close> accepts\<close>
  "filter_ok f = (case f of DenyAll \<Rightarrow> True | OnlyTools names \<Rightarrow> [] \<notin> set names)"

definition restrict_tools ::
  "string \<Rightarrow> tool_filter \<Rightarrow> tool_registry \<Rightarrow> (tool_registry \<times> (string \<times> nat)) option" where
  \<comment> \<open>\<open>scoped(session).restrict\<close>: the new state and the disposer; \<open>None\<close> when it throws\<close>
  "restrict_tools session f reg =
     (if \<not> filter_ok f then None
      else Some (reg\<lparr>tr_restrictions := map_set (tr_restrictions reg) session
                       \<lparr>rs_filter = f, rs_identity = tr_next reg\<rparr>,
                     tr_next := Suc (tr_next reg)\<rparr>,
                 (session, tr_next reg)))"

definition unrestrict_tools :: "string \<times> nat \<Rightarrow> tool_registry \<Rightarrow> tool_registry" where
  "unrestrict_tools d reg =
     (case map_get (tr_restrictions reg) (fst d) of
        Some r \<Rightarrow>
          if rs_identity r = snd d then reg\<lparr>tr_restrictions := map_delete (tr_restrictions reg) (fst d)\<rparr> else reg
      | None \<Rightarrow> reg)"

definition dropRestriction :: "string \<Rightarrow> tool_registry \<Rightarrow> tool_registry" where
  "dropRestriction session reg = reg\<lparr>tr_restrictions := map_delete (tr_restrictions reg) session\<rparr>"

definition concurrencyOf :: "tool_registry \<Rightarrow> string \<Rightarrow> jsval \<Rightarrow> concurrency" where
  "concurrencyOf reg name args =
     (case get_tool reg name of
        None \<Rightarrow> Exclusive
      | Some t \<Rightarrow>
          (case td_isConcurrencySafe t of
             None \<Rightarrow> Exclusive
           | Some f \<Rightarrow>
               (case f args of
                  Inl _ \<Rightarrow> Exclusive
                | Inr v \<Rightarrow> if v = JBool True then Parallel else Exclusive)))"

subsection \<open>Invariant\<close>

inductive registry_step :: "(jsval \<Rightarrow> string option) \<Rightarrow> tool_registry \<Rightarrow> tool_registry \<Rightarrow> bool" for probe where
  reg_register: "register_tool probe def reg = Inr reg' \<Longrightarrow> registry_step probe reg reg'"
| reg_unregister: "registry_step probe reg (unregister_tool def reg)"
| reg_restrict: "restrict_tools session f reg = Some (reg', d) \<Longrightarrow> registry_step probe reg reg'"
| reg_unrestrict: "registry_step probe reg (unrestrict_tools d reg)"
| reg_drop: "registry_step probe reg (dropRestriction session reg)"

inductive registry_reach :: "(jsval \<Rightarrow> string option) \<Rightarrow> tool_registry \<Rightarrow> bool" for probe where
  reach_new: "registry_reach probe createToolRegistry"
| reach_step: "registry_reach probe reg \<Longrightarrow> registry_step probe reg reg' \<Longrightarrow> registry_reach probe reg'"

definition tool_entry_ok :: "(jsval \<Rightarrow> string option) \<Rightarrow> string \<Rightarrow> tool_def \<Rightarrow> bool" where
  "tool_entry_ok probe name t \<longleftrightarrow>
     td_name t = name \<and> name \<noteq> [] \<and> td_execute t \<noteq> None \<and> probe (td_inputSchema t) = None"

definition registry_ok :: "(jsval \<Rightarrow> string option) \<Rightarrow> tool_registry \<Rightarrow> bool" where
  "registry_ok probe reg \<longleftrightarrow>
     map_ok (tr_tools reg) \<and>
     (\<forall>name t. map_get (tr_tools reg) name = Some t \<longrightarrow> tool_entry_ok probe name t) \<and>
     (\<forall>s r. map_get (tr_restrictions reg) s = Some r \<longrightarrow> filter_ok (rs_filter r) \<and> rs_identity r < tr_next reg)"

lemma registry_step_ok:
  assumes "registry_step probe reg reg'" "registry_ok probe reg"
  shows "registry_ok probe reg'"
  using assms(1)
proof cases
  case (reg_register def)
  then show ?thesis
    using assms(2)
    by (auto simp: registry_ok_def register_tool_def tool_entry_ok_def [of _ _ def] js_map.ok_put js_map.get_put
        split: if_splits option.splits)
next
  case (reg_unregister def)
  then show ?thesis
    using assms(2)
    by (auto simp: registry_ok_def unregister_tool_def js_map.ok_del js_map.get_del split: if_splits option.splits)
next
  case (reg_restrict session f d)
  then show ?thesis
    using assms(2)
    by (auto simp: registry_ok_def restrict_tools_def js_map.get_put less_Suc_eq split: if_splits)
next
  case (reg_unrestrict d)
  then show ?thesis
    using assms(2) by (auto simp: registry_ok_def unrestrict_tools_def js_map.get_del split: if_splits option.splits)
next
  case (reg_drop session)
  then show ?thesis
    using assms(2) by (auto simp: registry_ok_def dropRestriction_def js_map.get_del split: if_splits)
qed

lemma registry_reach_ok: "registry_reach probe reg \<Longrightarrow> registry_ok probe reg"
proof (induction rule: registry_reach.induct)
  case reach_new
  show ?case by (simp add: registry_ok_def createToolRegistry_def map_ok_def map_get_def)
qed (rule registry_step_ok)

definition allowed_by :: "tool_registry \<Rightarrow> string option \<Rightarrow> string \<Rightarrow> bool" where
  \<comment> \<open>the filter of the session lets it see the name\<close>
  "allowed_by reg session name =
     (case session of None \<Rightarrow> True
      | Some s \<Rightarrow> (case restrictionOf reg s of None \<Rightarrow> True | Some DenyAll \<Rightarrow> False | Some (OnlyTools ns) \<Rightarrow> name \<in> set ns))"

text \<open>In every state the registry can reach, a session is shown exactly the registered tools its filter
  names (all without a filter, none under \<open>deny-all\<close>), each name once, and every one of them can be
  looked up, has a body and has a schema that was accepted.\<close>

theorem schemas_are_visible_tools:
  assumes "registry_reach probe reg"
  shows "distinct (map ts_name (tool_schemas reg session)) \<and>
    (\<forall>name. name \<in> set (map ts_name (tool_schemas reg session)) \<longleftrightarrow>
       allowed_by reg session name \<and>
       (\<exists>t. get_tool reg name = Some t \<and> td_name t = name \<and> td_execute t \<noteq> None \<and> probe (td_inputSchema t) = None))"
proof -
  have ok: "registry_ok probe reg" by (rule registry_reach_ok [OF assms])
  have d: "distinct (map fst (tr_tools reg))" using ok by (simp add: registry_ok_def map_ok_def)
  have nm: "map td_name (map snd (tr_tools reg)) = map fst (tr_tools reg)"
  proof -
    have "td_name t = k" if "(k, t) \<in> set (tr_tools reg)" for k t
      using ok that d by (auto simp: registry_ok_def tool_entry_ok_def map_get_def)
    then show ?thesis by auto
  qed
  have vis: "visibleTools reg session = filter (\<lambda>t. allowed_by reg session (td_name t)) (map snd (tr_tools reg))"
    by (auto simp: visibleTools_def allowed_by_def split: option.splits tool_filter.splits)
  have names: "map ts_name (tool_schemas reg session) = filter (allowed_by reg session) (map fst (tr_tools reg))"
    unfolding nm [symmetric] by (simp add: tool_schemas_def vis filter_map comp_def)
  have "name \<in> set (map fst (tr_tools reg)) \<longleftrightarrow>
      (\<exists>t. get_tool reg name = Some t \<and> td_name t = name \<and> td_execute t \<noteq> None \<and> probe (td_inputSchema t) = None)" for name
    using ok map_keys_get [of name "tr_tools reg"] by (auto simp: registry_ok_def tool_entry_ok_def get_tool_def map_keys_def)
  then show ?thesis using d unfolding names by auto
qed

definition sample_tool :: "string \<Rightarrow> tool_def" where
  "sample_tool name =
     \<lparr>td_ref = 0, td_name = name, td_description = None, td_inputSchema = JObj [], td_isConcurrencySafe = None,
      td_isControlTool = False, td_kind = Some ''Read'', td_readsSubtree = NeverSubtree,
      td_execute = Some (\<lambda>_ _. \<lparr>be_result = Inr (JObj [(''content'', JStr ''done'')]), be_aborted = False\<rparr>)\<rparr>"

definition one_tool :: tool_registry where
  "one_tool = createToolRegistry\<lparr>tr_tools := [(''t'', sample_tool ''t'')]\<rparr>"

lemma one_tool_reach: "registry_reach (\<lambda>_. None) one_tool"
proof (rule reach_step [OF reach_new reg_register])
  show "register_tool (\<lambda>_. None) (sample_tool ''t'') createToolRegistry = Inr one_tool"
    by (simp add: register_tool_def sample_tool_def createToolRegistry_def one_tool_def map_has_def)
qed

lemma schemas_are_visible_tools_witness:
  "''t'' \<in> set (map ts_name (tool_schemas one_tool None))"
proof -
  have "get_tool one_tool ''t'' = Some (sample_tool ''t'')"
    by (simp add: get_tool_def one_tool_def map_get_def createToolRegistry_def)
  then show ?thesis
    using schemas_are_visible_tools [OF one_tool_reach, of None]
    by (auto simp: allowed_by_def sample_tool_def)
qed

end
