(* ===== verification/ToolsDispatch.thy ===== *)
theory ToolsDispatch
  imports ToolsRegistry PermPluginProps
begin

text \<open>
  The dispatcher of tool calls (\<open>core/tools/src/dispatch.ts\<close>, \<open>plugin.ts\<close>). The two waterfalls it runs
  are built by other plugins. The first one returns a decision, of which nothing is known but that it is a
  value (or an exception); its result is the parameter \<open>gate\<close>. A handler around the execution may return,
  throw or call the next handler with a request of its choice any number of times: it is a tree of type
  \<open>around\<close>, and the dispatcher hands it its innermost handler. The runs of tool bodies are recorded as
  events, so that the theorems can say when a body runs and with what.

  The check of the arguments against the input schema is the parameter \<open>violations\<close>, the text of the
  arguments in its message \<open>echo\<close>, the text of a thrown value is the value itself.
\<close>

record tool_request =
  rq_ref :: nat \<comment> \<open>which argument object: \<open>req.args !== request.args\<close> compares identities\<close>
  rq_callId :: string
  rq_name :: string
  rq_args :: jsval
  rq_session :: "string option"

record tool_outcome =
  oc_content :: string
  oc_isError :: bool
  oc_aborted :: bool
  oc_concludesTurn :: bool
  oc_additionalContexts :: jsval

definition errorOutcome :: "string \<Rightarrow> tool_outcome" where
  "errorOutcome content =
     \<lparr>oc_content = content, oc_isError = True, oc_aborted = False, oc_concludesTurn = False,
      oc_additionalContexts = JUndef\<rparr>"

definition abortedOutcome :: tool_outcome where
  "abortedOutcome = (errorOutcome ''aborted'')\<lparr>oc_aborted := True\<rparr>"

subsection \<open>Checking what other code returned\<close>

datatype gate_decision = DecisionAllow "string option" bool | DecisionDeny string

definition gateDecision :: "jsval \<Rightarrow> gate_decision" where
  "gateDecision value =
     (if field value ''kind'' = JStr ''allow'' then
        if field value ''exec'' \<notin> {JUndef, JStr ''direct'', JStr ''contained''} then DecisionDeny ''invalid-decision''
        else if field value ''escalatable'' \<notin> {JUndef, JBool True} then DecisionDeny ''invalid-decision''
        else DecisionAllow (case field value ''exec'' of JStr e \<Rightarrow> Some e | _ \<Rightarrow> None)
               (field value ''escalatable'' = JBool True)
      else if field value ''kind'' = JStr ''deny'' then
        (case field value ''reason'' of
           JUndef \<Rightarrow> DecisionDeny []
         | JStr r \<Rightarrow> DecisionDeny r
         | _ \<Rightarrow> DecisionDeny ''invalid-decision'')
      else DecisionDeny ''invalid-decision'')"

definition flagsValid :: "jsval \<Rightarrow> bool" where
  "flagsValid r =
     list_all (\<lambda>flag. field r flag = JUndef \<or> field r flag = JBool True) [''isError'', ''aborted'', ''concludesTurn'']"

fun is_str :: "jsval \<Rightarrow> bool" where
  "is_str (JStr _) = True"
| "is_str _ = False"

fun context_block_ok :: "jsval \<Rightarrow> bool" where
  "context_block_ok b = (field b ''type'' = JStr ''text'' \<and> is_str (field b ''text''))"

fun context_entry_ok :: "jsval \<Rightarrow> bool" where
  "context_entry_ok e =
     (case field e ''content'' of JArr blocks \<Rightarrow> list_all context_block_ok blocks | _ \<Rightarrow> False)"

fun contextsValid :: "jsval \<Rightarrow> bool" where
  "contextsValid (JArr entries) = list_all context_entry_ok entries"
| "contextsValid _ = False"

definition gateOutcome :: "jsval \<Rightarrow> tool_outcome" where
  "gateOutcome raw =
     (case field raw ''content'' of
        JStr content \<Rightarrow>
          if \<not> flagsValid raw then errorOutcome ''invalid-tool-output''
          else if field raw ''additionalContexts'' \<noteq> JUndef \<and> \<not> contextsValid (field raw ''additionalContexts'')
          then errorOutcome ''invalid-tool-output''
          else \<lparr>oc_content = content, oc_isError = (field raw ''isError'' = JBool True),
                oc_aborted = (field raw ''aborted'' = JBool True),
                oc_concludesTurn = (field raw ''concludesTurn'' = JBool True),
                oc_additionalContexts = field raw ''additionalContexts''\<rparr>
      | _ \<Rightarrow> errorOutcome ''invalid-tool-output'')"

subsection \<open>Running the body\<close>

record body_event =
  ev_tool :: string
  ev_args :: jsval
  ev_context :: exec_context

definition runBody ::
  "tool_def \<Rightarrow> tool_request \<Rightarrow> string option \<Rightarrow> bool \<Rightarrow> body_event list \<times> tool_outcome" where
  \<comment> \<open>a tool without a body is not registered; the call of \<open>undefined\<close> would throw inside the \<open>try\<close>\<close>
  "runBody tool req exec escalatable =
     (let c = \<lparr>xc_callId = rq_callId req, xc_name = rq_name req, xc_session = rq_session req,
               xc_exec = exec, xc_escalatable = escalatable\<rparr>
      in case td_execute tool of
           None \<Rightarrow> ([], errorOutcome ''not a function'')
         | Some body \<Rightarrow>
             let e = body (rq_args req) c
             in ([\<lparr>ev_tool = td_name tool, ev_args = rq_args req, ev_context = c\<rparr>],
                 if be_aborted e then abortedOutcome
                 else case be_result e of Inl thrown \<Rightarrow> errorOutcome thrown | Inr raw \<Rightarrow> gateOutcome raw))"

definition same_request :: "tool_request \<Rightarrow> tool_request \<Rightarrow> bool" where
  "same_request r s \<longleftrightarrow> rq_ref r = rq_ref s \<and> rq_args r = rq_args s \<and> rq_name r = rq_name s \<and>
     rq_callId r = rq_callId s \<and> rq_session r = rq_session s"

definition final_handler ::
  "tool_def \<Rightarrow> tool_request \<Rightarrow> string option \<Rightarrow> bool \<Rightarrow> tool_request \<Rightarrow> body_event list \<times> tool_outcome" where
  "final_handler tool request exec escalatable req =
     (if \<not> same_request req request then ([], errorOutcome ''request-altered'')
      else runBody tool req exec escalatable)"

datatype around =
    Returns tool_outcome
  | Throws string
  | CallsNext tool_request "tool_outcome \<Rightarrow> around"

primrec run_around ::
  "(tool_request \<Rightarrow> body_event list \<times> tool_outcome) \<Rightarrow> around \<Rightarrow> body_event list \<times> (string + tool_outcome)" where
  "run_around final (Returns out) = ([], Inr out)"
| "run_around final (Throws e) = ([], Inl e)"
| "run_around final (CallsNext req k) =
     (case final req of (es, out) \<Rightarrow>
        (case run_around final (k out) of (es', res) \<Rightarrow> (es @ es', res)))"

subsection \<open>Dispatch\<close>

definition isScopeRead :: "tool_def \<Rightarrow> jsval \<Rightarrow> bool" where
  "isScopeRead tool args =
     (case td_readsSubtree tool of NeverSubtree \<Rightarrow> False | AlwaysSubtree \<Rightarrow> True | SubtreeBy f \<Rightarrow> f args = JBool True)"

definition preExecutePayload :: "tool_def \<Rightarrow> tool_request \<Rightarrow> call_payload" where
  "preExecutePayload tool req =
     \<lparr>cl_name = rq_name req, cl_args = rq_args req, cl_control = td_isControlTool tool, cl_kind = td_kind tool,
      cl_readsSubtree = isScopeRead tool (rq_args req), cl_session = rq_session req\<rparr>"

record dispatch_env =
  de_gate :: "call_payload \<Rightarrow> string + jsval" \<comment> \<open>the waterfall before the call\<close>
  de_around :: "tool_request \<Rightarrow> around" \<comment> \<open>the one around it\<close>
  de_violations :: "jsval \<Rightarrow> jsval \<Rightarrow> string option"
  de_echo :: "jsval \<Rightarrow> string"
  de_abortedAtStart :: bool
  de_abortedAfterGate :: bool

definition dispatch :: "dispatch_env \<Rightarrow> tool_registry \<Rightarrow> tool_request \<Rightarrow> body_event list \<times> tool_outcome" where
  "dispatch de reg request =
     (if de_abortedAtStart de then ([], abortedOutcome)
      else case get_tool reg (rq_name request) of
             None \<Rightarrow> ([], errorOutcome (''unknown-tool:'' @ rq_name request))
           | Some tool \<Rightarrow>
               (case de_gate de (preExecutePayload tool request) of
                  Inl e \<Rightarrow> ([], errorOutcome (''internal:'' @ e))
                | Inr raw \<Rightarrow>
                    (case gateDecision raw of
                       DecisionDeny reason \<Rightarrow> ([], errorOutcome (''denied:'' @ reason))
                     | DecisionAllow exec escalatable \<Rightarrow>
                         if de_abortedAfterGate de then ([], abortedOutcome)
                         else case de_violations de (td_inputSchema tool) (rq_args request) of
                                Some v \<Rightarrow>
                                  ([], errorOutcome (v @ [CHR 10] @ ''received: '' @ de_echo de (rq_args request)))
                              | None \<Rightarrow>
                                  (case run_around (final_handler tool request exec escalatable)
                                          (de_around de request) of
                                     (es, Inr out) \<Rightarrow> (es, out)
                                   | (es, Inl e) \<Rightarrow> (es, errorOutcome (''internal:'' @ e))))))"

subsection \<open>When a body runs\<close>

definition event_of ::
  "tool_def \<Rightarrow> tool_request \<Rightarrow> string option \<Rightarrow> bool \<Rightarrow> body_event" where
  "event_of tool request exec escalatable =
     \<lparr>ev_tool = td_name tool, ev_args = rq_args request,
      ev_context = \<lparr>xc_callId = rq_callId request, xc_name = rq_name request, xc_session = rq_session request,
                    xc_exec = exec, xc_escalatable = escalatable\<rparr>\<rparr>"

lemma final_events:
  "set (fst (final_handler tool request exec escalatable req)) \<subseteq> {event_of tool request exec escalatable}"
  by (auto simp: final_handler_def runBody_def same_request_def event_of_def Let_def split: option.splits)

lemma around_events:
  "set (fst (run_around (final_handler tool request exec escalatable) h)) \<subseteq> {event_of tool request exec escalatable}"
proof (induction h)
  case (CallsNext req k)
  have "set (fst (run_around (final_handler tool request exec escalatable)
      (k (snd (final_handler tool request exec escalatable req))))) \<subseteq> {event_of tool request exec escalatable}"
    by (rule CallsNext) simp
  then show ?case using final_events [of tool request exec escalatable req]
    by (auto simp: split_beta)
qed simp_all

lemma dispatch_events:
  assumes "e \<in> set (fst (dispatch de reg request))"
  shows "\<exists>tool raw exec escalatable. get_tool reg (rq_name request) = Some tool \<and>
    de_gate de (preExecutePayload tool request) = Inr raw \<and> gateDecision raw = DecisionAllow exec escalatable \<and>
    \<not> de_abortedAtStart de \<and> \<not> de_abortedAfterGate de \<and>
    de_violations de (td_inputSchema tool) (rq_args request) = None \<and> e = event_of tool request exec escalatable"
proof -
  obtain tool raw exec escalatable where s: "get_tool reg (rq_name request) = Some tool"
    "de_gate de (preExecutePayload tool request) = Inr raw" "gateDecision raw = DecisionAllow exec escalatable"
    "\<not> de_abortedAtStart de" "\<not> de_abortedAfterGate de"
    "de_violations de (td_inputSchema tool) (rq_args request) = None"
    using assms by (auto simp: dispatch_def split: if_splits option.splits sum.splits gate_decision.splits)
  moreover have "e \<in> set (fst (run_around (final_handler tool request exec escalatable) (de_around de request)))"
    using assms s by (simp add: dispatch_def split: prod.splits sum.splits)
  ultimately show ?thesis using around_events by fastforce
qed


definition sample_request :: tool_request where
  "sample_request = \<lparr>rq_ref = 1, rq_callId = ''c1'', rq_name = ''t'', rq_args = JObj [], rq_session = None\<rparr>"

definition sample_dispatch :: "(tool_request \<Rightarrow> around) \<Rightarrow> dispatch_env" where
  \<comment> \<open>everything is allowed, contained\<close>
  "sample_dispatch wrapper =
     \<lparr>de_gate = (\<lambda>_. Inr (JObj [(''kind'', JStr ''allow''), (''exec'', JStr ''contained'')])), de_around = wrapper,
      de_violations = (\<lambda>_ _. None), de_echo = (\<lambda>_. []), de_abortedAtStart = False, de_abortedAfterGate = False\<rparr>"

definition pass_through :: "tool_request \<Rightarrow> around" where
  "pass_through req = CallsNext req Returns"


definition flag_field :: "string \<Rightarrow> bool \<Rightarrow> (string \<times> jsval) list" where
  "flag_field name b = (if b then [(name, JBool True)] else [])"

definition outcome_value :: "tool_outcome \<Rightarrow> jsval" where
  "outcome_value out =
     JObj ([(''content'', JStr (oc_content out))] @ flag_field ''isError'' (oc_isError out) @
       flag_field ''aborted'' (oc_aborted out) @ flag_field ''concludesTurn'' (oc_concludesTurn out) @
       (if oc_additionalContexts out = JUndef then [] else [(''additionalContexts'', oc_additionalContexts out)]))"

definition outcome_ok :: "tool_outcome \<Rightarrow> bool" where
  "outcome_ok out \<longleftrightarrow> oc_additionalContexts out = JUndef \<or> contextsValid (oc_additionalContexts out)"

text \<open>A tool that answers in the documented shape is passed on as it is: reading back what was written as
  a result value gives the same outcome, so no flag is lost or invented.\<close>

theorem gateOutcome_roundtrip:
  assumes "outcome_ok out"
  shows "gateOutcome (outcome_value out) = out"
  using assms
  by (cases out) (auto simp: gateOutcome_def outcome_value_def outcome_ok_def flag_field_def field_def flagsValid_def)

lemma gateOutcome_roundtrip_witness:
  "gateOutcome (outcome_value abortedOutcome) = abortedOutcome"
  by (rule gateOutcome_roundtrip) (simp add: outcome_ok_def abortedOutcome_def errorOutcome_def)

end
