(* ===== verification/KernelPlugins.thy ===== *)
theory KernelPlugins
  imports JsMap "HOL-Library.Sublist"
begin

text \<open>
  Loading plugins (\<open>core/context/src/context/load-plugins.ts\<close>): the checks on the list, and the
  depth-first order in which dependencies come first. The recursion of \<open>visit\<close> is bounded by
  fuel; \<open>topo_fuel\<close> is shown to be enough for every list, so \<open>topoOrder\<close> always returns. A plugin
  is its name with the names it injects; the hint about a misspelled soft dependency goes to stderr
  and is left out.
\<close>

record plugin =
  pl_name :: string
  pl_inject :: "string list"
  pl_softInject :: "string list"
  pl_hasApply :: bool
  pl_isFactory :: bool \<comment> \<open>\<open>typeof raw === "function"\<close>\<close>

datatype plugin_error =
    FactoryFunction string
  | EmptyPluginName
  | NoApply string
  | DuplicatePlugin string
  | UnknownInject string string
  | CyclicPlugins "string list"
  | NotAPlugin string \<comment> \<open>\<open>byName.get(dep)\<close> is undefined: the \<open>TypeError\<close> of \<open>plugin.name\<close>\<close>

subsection \<open>assertValid\<close>

fun check_names :: "plugin list \<Rightarrow> string list \<Rightarrow> plugin_error option" where
  "check_names [] names = None"
| "check_names (p # ps) names =
     (if pl_isFactory p then Some (FactoryFunction (pl_name p))
      else if pl_name p = [] then Some EmptyPluginName
      else if \<not> pl_hasApply p then Some (NoApply (pl_name p))
      else if pl_name p \<in> set names then Some (DuplicatePlugin (pl_name p))
      else check_names ps (pl_name p # names))"

definition check_injects :: "string list \<Rightarrow> plugin \<Rightarrow> plugin_error option" where
  "check_injects names p =
     map_option (UnknownInject (pl_name p)) (List.find (\<lambda>dep. dep \<notin> set names) (pl_inject p))"

definition assertValid :: "plugin list \<Rightarrow> plugin_error option" where
  "assertValid ps =
     (case check_names ps [] of
        Some e \<Rightarrow> Some e
      | None \<Rightarrow> first_some (check_injects (map pl_name ps)) ps)"

subsection \<open>topoOrder\<close>

datatype visit_mark = Visiting | VisitDone

record topo_state =
  to_marks :: "(string, visit_mark) jsmap"
  to_ordered :: "plugin list"

definition by_name :: "plugin list \<Rightarrow> string \<Rightarrow> plugin option" where
  \<comment> \<open>\<open>new Map(plugins.map(p => [p.name, p]))\<close>: the last plugin of a name\<close>
  "by_name ps name = List.find (\<lambda>p. pl_name p = name) (rev ps)"

definition mark :: "string \<Rightarrow> visit_mark \<Rightarrow> topo_state \<Rightarrow> topo_state" where
  "mark name m st = st\<lparr>to_marks := map_set (to_marks st) name m\<rparr>"

definition finish_visit :: "plugin \<Rightarrow> topo_state \<Rightarrow> topo_state" where
  "finish_visit p st = (mark (pl_name p) VisitDone st)\<lparr>to_ordered := to_ordered st @ [p]\<rparr>"

fun visit :: "nat \<Rightarrow> plugin list \<Rightarrow> plugin \<Rightarrow> string list \<Rightarrow> topo_state \<Rightarrow> (plugin_error + topo_state) option"
  and visit_deps :: "nat \<Rightarrow> plugin list \<Rightarrow> bool \<Rightarrow> string list \<Rightarrow> string list \<Rightarrow> topo_state \<Rightarrow> (plugin_error + topo_state) option"
where
  "visit 0 ps p stack st = None"
| "visit (Suc fuel) ps p stack st =
     (case map_get (to_marks st) (pl_name p) of
        Some VisitDone \<Rightarrow> Some (Inr st)
      | Some Visiting \<Rightarrow> Some (Inl (CyclicPlugins (stack @ [pl_name p])))
      | None \<Rightarrow>
          (case visit_deps fuel ps True (pl_inject p) (stack @ [pl_name p]) (mark (pl_name p) Visiting st) of
             Some (Inr st1) \<Rightarrow>
               (case visit_deps fuel ps False (pl_softInject p) (stack @ [pl_name p]) st1 of
                  Some (Inr st2) \<Rightarrow> Some (Inr (finish_visit p st2))
                | stop \<Rightarrow> stop)
           | stop \<Rightarrow> stop))"
| "visit_deps fuel ps required [] stack st = Some (Inr st)"
| "visit_deps fuel ps required (dep # deps) stack st =
     (case by_name ps dep of
        None \<Rightarrow> if required then Some (Inl (NotAPlugin dep)) else visit_deps fuel ps required deps stack st
      | Some target \<Rightarrow>
          (case visit fuel ps target stack st of
             Some (Inr st1) \<Rightarrow> visit_deps fuel ps required deps stack st1
           | stop \<Rightarrow> stop))"

fun visit_each :: "nat \<Rightarrow> plugin list \<Rightarrow> plugin list \<Rightarrow> topo_state \<Rightarrow> (plugin_error + topo_state) option" where
  \<comment> \<open>the loop over the plugins\<close>
  "visit_each fuel ps [] st = Some (Inr st)"
| "visit_each fuel ps (p # qs) st =
     (case visit fuel ps p [] st of
        Some (Inr st1) \<Rightarrow> visit_each fuel ps qs st1
      | stop \<Rightarrow> stop)"

definition topo_fuel :: "plugin list \<Rightarrow> nat" where
  "topo_fuel ps = Suc (length ps)"

definition topoOrder :: "plugin list \<Rightarrow> (plugin_error + plugin list) option" where
  "topoOrder ps =
     map_option (map_sum id to_ordered) (visit_each (topo_fuel ps) ps ps \<lparr>to_marks = [], to_ordered = []\<rparr>)"

definition load_order :: "plugin list \<Rightarrow> (plugin_error + plugin list) option" where
  \<comment> \<open>what \<open>loadPlugins\<close> does before it applies anything\<close>
  "load_order ps = (case assertValid ps of Some e \<Rightarrow> Some (Inl e) | None \<Rightarrow> topoOrder ps)"

subsection \<open>Valid lists\<close>

definition plugins_ok :: "plugin list \<Rightarrow> bool" where
  "plugins_ok ps \<longleftrightarrow> distinct (map pl_name ps) \<and>
     (\<forall>p \<in> set ps. pl_name p \<noteq> [] \<and> pl_hasApply p \<and> \<not> pl_isFactory p \<and> set (pl_inject p) \<subseteq> pl_name ` set ps)"

lemma check_names_None:
  "check_names ps names = None \<longleftrightarrow>
     distinct (map pl_name ps) \<and> pl_name ` set ps \<inter> set names = {} \<and> (\<forall>p \<in> set ps. pl_name p \<noteq> [] \<and> pl_hasApply p \<and> \<not> pl_isFactory p)"
  by (induction ps names rule: check_names.induct) auto

lemma assertValid_None: "assertValid ps = None \<longleftrightarrow> plugins_ok ps"
proof -
  have "check_injects (map pl_name ps) p = None \<longleftrightarrow> set (pl_inject p) \<subseteq> pl_name ` set ps" for p
    by (auto simp: check_injects_def find_None_iff)
  then show ?thesis
    using check_names_None [of ps "[]"]
    by (auto simp: assertValid_def plugins_ok_def split: option.splits)
qed

lemma check_names_error: "check_names ps names \<noteq> Some (CyclicPlugins c)"
  by (induction ps names rule: check_names.induct) auto

lemma check_injects_error: "check_injects names p \<noteq> Some (CyclicPlugins c)"
  by (auto simp: check_injects_def)

lemma by_name_SomeD: "by_name ps name = Some p \<Longrightarrow> p \<in> set ps \<and> pl_name p = name"
  by (auto simp: by_name_def dest: find_SomeD)

lemma by_name_None: "by_name ps name = None \<longleftrightarrow> name \<notin> pl_name ` set ps"
  by (auto simp: by_name_def find_None_iff)

definition known_deps :: "plugin list \<Rightarrow> plugin \<Rightarrow> string set" where
  \<comment> \<open>the dependencies that are in the list\<close>
  "known_deps ps p = (set (pl_inject p) \<union> set (pl_softInject p)) \<inter> pl_name ` set ps"

subsection \<open>The fuel is enough\<close>

definition marked :: "topo_state \<Rightarrow> string set" where
  "marked st = {n. map_get (to_marks st) n \<noteq> None}"

definition visiting :: "topo_state \<Rightarrow> string set" where
  "visiting st = {n. map_get (to_marks st) n = Some Visiting}"

lemma mark_sets [simp]:
  "visiting (mark n Visiting st) = insert n (visiting st)"
  "visiting (finish_visit p st) = visiting st - {pl_name p}"
  "to_ordered (mark n m st) = to_ordered st"
  "to_ordered (finish_visit p st) = to_ordered st @ [p]"
  by (auto simp: visiting_def mark_def finish_visit_def js_map.get_put split: if_splits)

lemma visit_Inr:
  "visit (Suc fuel) ps p stack st = Some (Inr st') \<longleftrightarrow>
     map_get (to_marks st) (pl_name p) = Some VisitDone \<and> st' = st \<or>
     map_get (to_marks st) (pl_name p) = None \<and>
       (\<exists>st1 st2.
          visit_deps fuel ps True (pl_inject p) (stack @ [pl_name p]) (mark (pl_name p) Visiting st) = Some (Inr st1) \<and>
          visit_deps fuel ps False (pl_softInject p) (stack @ [pl_name p]) st1 = Some (Inr st2) \<and>
          st' = finish_visit p st2)"
  by (simp split: option.split sum.split visit_mark.split) blast

lemma visit_deps_Inr:
  "visit_deps fuel ps required (dep # deps) stack st = Some (Inr st') \<longleftrightarrow>
     (case by_name ps dep of
        None \<Rightarrow> \<not> required \<and> visit_deps fuel ps required deps stack st = Some (Inr st')
      | Some target \<Rightarrow>
          \<exists>st1. visit fuel ps target stack st = Some (Inr st1) \<and>
                visit_deps fuel ps required deps stack st1 = Some (Inr st'))"
  by (simp split: option.split sum.split)

lemma visit_keeps_visiting:
  "visit fuel ps p stack st = Some (Inr st') \<Longrightarrow> visiting st' = visiting st"
  "visit_deps fuel ps required deps stack st = Some (Inr st') \<Longrightarrow> visiting st' = visiting st"
proof (induction fuel ps p stack st and fuel ps required deps stack st arbitrary: st' and st'
    rule: visit_visit_deps.induct)
  case (2 fuel ps p stack st)
  note hyps = 2
  from hyps(3) consider "st' = st" | st1 st2 where "map_get (to_marks st) (pl_name p) = None"
    "visit_deps fuel ps True (pl_inject p) (stack @ [pl_name p]) (mark (pl_name p) Visiting st) = Some (Inr st1)"
    "visit_deps fuel ps False (pl_softInject p) (stack @ [pl_name p]) st1 = Some (Inr st2)" "st' = finish_visit p st2"
    unfolding visit_Inr by blast
  then show ?case
  proof cases
    case (2 st1 st2)
    have "visiting st1 = insert (pl_name p) (visiting st)" using hyps(1) [OF 2(1,2)] by simp
    moreover have "visiting st2 = visiting st1" using hyps(2) [OF 2(1,2) refl 2(3)] .
    moreover have "pl_name p \<notin> visiting st" using 2(1) by (simp add: visiting_def)
    ultimately show ?thesis using 2(4) by simp
  qed simp
next
  case (4 fuel ps required dep deps stack st)
  note hyps = 4
  show ?case
  proof (cases "by_name ps dep")
    case None
    then show ?thesis using hyps(1) [OF None] hyps(4) unfolding visit_deps_Inr by (cases required) auto
  next
    case (Some target)
    then obtain st1 where "visit fuel ps target stack st = Some (Inr st1)"
      "visit_deps fuel ps required deps stack st1 = Some (Inr st')"
      using hyps(4) unfolding visit_deps_Inr by auto
    then show ?thesis using hyps(2) [OF Some] hyps(3) [OF Some _ refl] by simp
  qed
qed simp_all

lemma visit_enough_fuel:
  assumes "finite (pl_name ` set ps)"
  shows "p \<in> set ps \<Longrightarrow> visiting st \<subseteq> pl_name ` set ps \<Longrightarrow>
      card (pl_name ` set ps) < card (visiting st) + fuel \<Longrightarrow> visit fuel ps p stack st \<noteq> None"
    and "visiting st \<subseteq> pl_name ` set ps \<Longrightarrow>
      card (pl_name ` set ps) < card (visiting st) + fuel \<Longrightarrow> visit_deps fuel ps required deps stack st \<noteq> None"
proof (induction fuel ps p stack st and fuel ps required deps stack st rule: visit_visit_deps.induct)
  case (1 ps p stack st)
  then have "card (visiting st) \<le> card (pl_name ` set ps)" by (intro card_mono) auto
  then show ?case using 1 by simp
next
  case (2 fuel ps p stack st)
  show ?case
  proof (cases "map_get (to_marks st) (pl_name p)")
    case None
    let ?st = "mark (pl_name p) Visiting st"
    have fin: "finite (visiting st)" using 2(4) by (rule finite_subset) simp
    have "pl_name p \<notin> visiting st" using None by (simp add: visiting_def)
    then have c: "card (visiting ?st) = Suc (card (visiting st))" using fin by simp
    have sub: "visiting ?st \<subseteq> pl_name ` set ps" using 2(3,4) by auto
    have a: "visit_deps fuel ps True (pl_inject p) (stack @ [pl_name p]) ?st \<noteq> None"
      using 2(1) [OF None sub] c 2(5) by simp
    show ?thesis
    proof (cases "visit_deps fuel ps True (pl_inject p) (stack @ [pl_name p]) ?st")
      case (Some r)
      show ?thesis
      proof (cases r)
        case (Inr st1)
        then have v: "visiting st1 = visiting ?st" using Some visit_keeps_visiting(2) by blast
        have "visit_deps fuel ps False (pl_softInject p) (stack @ [pl_name p]) st1 \<noteq> None"
          using 2(2) [OF None Some Inr] v sub c 2(5) by simp
        then show ?thesis using None Some Inr by (auto split: option.splits sum.splits)
      qed (use None Some in simp)
    qed (use a in simp)
  next
    case (Some m)
    then show ?thesis by (cases m) simp_all
  qed
next
  case (4 fuel ps required dep deps stack st)
  show ?case
  proof (cases "by_name ps dep")
    case None
    then show ?thesis using 4 by simp
  next
    case (Some target)
    have "visit fuel ps target stack st \<noteq> None" using 4 Some by_name_SomeD [OF Some] by blast
    then obtain r where r: "visit fuel ps target stack st = Some r" by blast
    show ?thesis
    proof (cases r)
      case (Inr st1)
      then have "visiting st1 = visiting st" using r visit_keeps_visiting(1) by blast
      then show ?thesis using 4(3) [OF Some r Inr] 4(4,5) Some r Inr by simp
    qed (use Some r in simp)
  qed
qed simp

subsection \<open>The order\<close>

fun deps_first :: "plugin list \<Rightarrow> string set \<Rightarrow> plugin list \<Rightarrow> bool" where
  \<comment> \<open>every plugin comes after the plugins of the list it depends on; \<open>seen\<close> are the names before\<close>
  "deps_first ps seen [] = True"
| "deps_first ps seen (p # qs) = (known_deps ps p \<subseteq> seen \<and> deps_first ps (insert (pl_name p) seen) qs)"

lemma deps_first_snoc:
  "deps_first ps seen (qs @ [p]) \<longleftrightarrow> deps_first ps seen qs \<and> known_deps ps p \<subseteq> seen \<union> pl_name ` set qs"
  by (induction qs arbitrary: seen) auto

definition topo_inv :: "plugin list \<Rightarrow> topo_state \<Rightarrow> bool" where
  "topo_inv ps st \<longleftrightarrow>
     (\<forall>n. map_get (to_marks st) n = Some VisitDone \<longleftrightarrow> n \<in> pl_name ` set (to_ordered st)) \<and>
     distinct (map pl_name (to_ordered st)) \<and> set (to_ordered st) \<subseteq> set ps \<and> deps_first ps {} (to_ordered st)"

definition extends :: "topo_state \<Rightarrow> topo_state \<Rightarrow> bool" where
  "extends st st' \<longleftrightarrow> prefix (to_ordered st) (to_ordered st')"

lemma extends_names: "extends st st' \<Longrightarrow> pl_name ` set (to_ordered st) \<subseteq> pl_name ` set (to_ordered st')"
  using set_mono_prefix by (fastforce simp: extends_def)

lemma topo_inv_mark:
  assumes "topo_inv ps st" "map_get (to_marks st) n = None"
  shows "topo_inv ps (mark n Visiting st)" "extends st (mark n Visiting st)"
proof -
  have "n \<notin> pl_name ` set (to_ordered st)"
    using assms unfolding topo_inv_def by (metis option.distinct(1))
  then show "topo_inv ps (mark n Visiting st)" "extends st (mark n Visiting st)"
    using assms(1) by (auto simp: topo_inv_def mark_def extends_def js_map.get_put)
qed

lemma topo_inv_finish:
  assumes "topo_inv ps st" "p \<in> set ps" "pl_name p \<in> visiting st"
    and "known_deps ps p \<subseteq> pl_name ` set (to_ordered st)"
  shows "topo_inv ps (finish_visit p st)"
proof -
  have "pl_name p \<notin> pl_name ` set (to_ordered st)"
    using assms(1,3) unfolding topo_inv_def visiting_def by (metis mem_Collect_eq option.inject visit_mark.distinct(1))
  then show ?thesis
    using assms
    by (auto simp: topo_inv_def finish_visit_def mark_def js_map.get_put deps_first_snoc)
qed

lemma visit_inv:
  "visit fuel ps p stack st = Some (Inr st') \<Longrightarrow> p \<in> set ps \<Longrightarrow> topo_inv ps st \<Longrightarrow>
     topo_inv ps st' \<and> extends st st' \<and> pl_name p \<in> pl_name ` set (to_ordered st')"
  "visit_deps fuel ps required deps stack st = Some (Inr st') \<Longrightarrow> topo_inv ps st \<Longrightarrow>
     topo_inv ps st' \<and> extends st st' \<and> set deps \<inter> pl_name ` set ps \<subseteq> pl_name ` set (to_ordered st')"
proof (induction fuel ps p stack st and fuel ps required deps stack st arbitrary: st' and st'
    rule: visit_visit_deps.induct)
  case (2 fuel ps p stack st)
  note hyps = 2
  from hyps(3) consider "map_get (to_marks st) (pl_name p) = Some VisitDone" "st' = st"
    | st1 st2 where "map_get (to_marks st) (pl_name p) = None"
    "visit_deps fuel ps True (pl_inject p) (stack @ [pl_name p]) (mark (pl_name p) Visiting st) = Some (Inr st1)"
    "visit_deps fuel ps False (pl_softInject p) (stack @ [pl_name p]) st1 = Some (Inr st2)" "st' = finish_visit p st2"
    unfolding visit_Inr by blast
  then show ?case
  proof cases
    case 1
    then show ?thesis using hyps(5) by (auto simp: topo_inv_def extends_def)
  next
    case (2 st1 st2)
    note m = topo_inv_mark [OF hyps(5) 2(1)]
    have a: "topo_inv ps st1" "extends (mark (pl_name p) Visiting st) st1"
      "set (pl_inject p) \<inter> pl_name ` set ps \<subseteq> pl_name ` set (to_ordered st1)"
      using hyps(1) [OF 2(1,2) m(1)] by auto
    have b: "topo_inv ps st2" "extends st1 st2"
      "set (pl_softInject p) \<inter> pl_name ` set ps \<subseteq> pl_name ` set (to_ordered st2)"
      using hyps(2) [OF 2(1,2) refl 2(3) a(1)] by auto
    have v: "pl_name p \<in> visiting st2"
      using visit_keeps_visiting(2) [OF 2(2)] visit_keeps_visiting(2) [OF 2(3)] by simp
    have "known_deps ps p \<subseteq> pl_name ` set (to_ordered st2)"
      using a(3) b(3) extends_names [OF b(2)] unfolding known_deps_def by blast
    then have "topo_inv ps st'" using topo_inv_finish [OF b(1) hyps(4) v] 2(4) by simp
    moreover have "extends st st'"
      using m(2) a(2) b(2) 2(4) by (auto simp: extends_def intro: prefix_order.trans)
    ultimately show ?thesis using 2(4) by simp
  qed
next
  case (4 fuel ps required dep deps stack st)
  note hyps = 4
  show ?case
  proof (cases "by_name ps dep")
    case None
    then show ?thesis
      using hyps(1) [OF None] hyps(4,5) None [unfolded by_name_None] unfolding visit_deps_Inr
      by (cases required) (simp_all add: None)
  next
    case (Some target)
    then obtain st1 where s: "visit fuel ps target stack st = Some (Inr st1)"
      "visit_deps fuel ps required deps stack st1 = Some (Inr st')"
      using hyps(4) unfolding visit_deps_Inr by auto
    have t: "target \<in> set ps" "pl_name target = dep" using by_name_SomeD [OF Some] by auto
    have a: "topo_inv ps st1" "extends st st1" "dep \<in> pl_name ` set (to_ordered st1)"
      using hyps(2) [OF Some s(1) t(1) hyps(5)] t(2) by auto
    have b: "topo_inv ps st'" "extends st1 st'" "set deps \<inter> pl_name ` set ps \<subseteq> pl_name ` set (to_ordered st')"
      using hyps(3) [OF Some s(1) refl s(2) a(1)] by auto
    then show ?thesis
      using a extends_names [OF b(2)] by (auto simp: extends_def intro: prefix_order.trans)
  qed
qed (auto simp: extends_def)

subsection \<open>The cycles\<close>

definition dep_edge :: "plugin list \<Rightarrow> string \<Rightarrow> string \<Rightarrow> bool" where
  "dep_edge ps a b \<longleftrightarrow> list_ex (\<lambda>p. pl_name p = a \<and> b \<in> known_deps ps p) ps"

definition dep_cycle :: "plugin list \<Rightarrow> string list \<Rightarrow> bool" where
  \<comment> \<open>a path of dependencies that comes back to one of its nodes\<close>
  "dep_cycle ps c \<longleftrightarrow> c \<noteq> [] \<and> last c \<in> set (butlast c) \<and> successively (dep_edge ps) c"

definition path_to :: "plugin list \<Rightarrow> string list \<Rightarrow> string \<Rightarrow> bool" where
  "path_to ps stack n \<longleftrightarrow> successively (dep_edge ps) (stack @ [n])"

lemma path_to_dep:
  assumes "path_to ps stack (pl_name p)" "p \<in> set ps" "d \<in> known_deps ps p"
  shows "path_to ps (stack @ [pl_name p]) d"
  using assms by (auto simp: path_to_def successively_append_iff dep_edge_def list_ex_iff)

lemma visit_Inl:
  assumes "plugins_ok ps"
  shows "visit fuel ps p stack st = Some (Inl e) \<Longrightarrow> p \<in> set ps \<Longrightarrow> path_to ps stack (pl_name p) \<Longrightarrow>
      visiting st = set stack \<Longrightarrow> \<exists>c. e = CyclicPlugins c \<and> dep_cycle ps c"
    and "visit_deps fuel ps required deps stack st = Some (Inl e) \<Longrightarrow>
      required \<longrightarrow> set deps \<subseteq> pl_name ` set ps \<Longrightarrow> \<forall>d \<in> set deps \<inter> pl_name ` set ps. path_to ps stack d \<Longrightarrow>
      visiting st = set stack \<Longrightarrow> \<exists>c. e = CyclicPlugins c \<and> dep_cycle ps c"
  using assms
proof (induction fuel ps p stack st and fuel ps required deps stack st arbitrary: e and e
    rule: visit_visit_deps.induct)
  case (2 fuel ps p stack st)
  note hyps = 2
  let ?s = "stack @ [pl_name p]" and ?st = "mark (pl_name p) Visiting st"
  have inj: "set (pl_inject p) \<subseteq> pl_name ` set ps" using hyps(4,7) by (auto simp: plugins_ok_def)
  have d: "\<forall>d \<in> set deps \<inter> pl_name ` set ps. path_to ps ?s d"
    if "deps = pl_inject p \<or> deps = pl_softInject p" for deps
    using that path_to_dep [OF hyps(5,4)] by (auto simp: known_deps_def)
  show ?case
  proof (cases "map_get (to_marks st) (pl_name p)")
    case None
    have v: "visiting ?st = set ?s" using hyps(6) by simp
    show ?thesis
    proof (cases "visit_deps fuel ps True (pl_inject p) ?s ?st")
      case (Some r)
      show ?thesis
      proof (cases r)
        case (Inl e')
        then show ?thesis using hyps(1) [OF None, of e'] hyps(3,7) None Some inj d [of "pl_inject p"] v by simp
      next
        case (Inr st1)
        have v1: "visiting st1 = set ?s" using visit_keeps_visiting(2) Some Inr v by blast
        have "visit_deps fuel ps False (pl_softInject p) ?s st1 = Some (Inl e)"
          using hyps(3) None Some Inr by (simp split: option.splits sum.splits)
        then show ?thesis using hyps(2) [OF None Some Inr, of e] hyps(7) d [of "pl_softInject p"] v1 by simp
      qed
    qed (use hyps(3) None in simp)
  next
    case (Some m)
    then have m: "m = Visiting" "e = CyclicPlugins ?s" using hyps(3) by (cases m; simp)+
    then have "pl_name p \<in> set stack" using Some hyps(6) by (auto simp: visiting_def)
    then show ?thesis using m hyps(5) by (simp add: dep_cycle_def path_to_def)
  qed
next
  case (4 fuel ps required dep deps stack st)
  note hyps = 4
  show ?case
  proof (cases "by_name ps dep")
    case None
    then have "\<not> required" using hyps(5) by (auto simp: by_name_None)
    then show ?thesis using hyps(1) [OF None, of e] hyps(4-) None by simp
  next
    case (Some target)
    have t: "target \<in> set ps" "pl_name target = dep" using by_name_SomeD [OF Some] by auto
    then have p: "path_to ps stack (pl_name target)" using hyps(6) by auto
    show ?thesis
    proof (cases "visit fuel ps target stack st")
      case r: (Some r)
      show ?thesis
      proof (cases r)
        case (Inl e')
        then show ?thesis using hyps(2) [OF Some, of e'] hyps(4,7,8) Some r t(1) p by simp
      next
        case (Inr st1)
        have "visiting st1 = set stack" using visit_keeps_visiting(1) r Inr hyps(7) by blast
        moreover have "visit_deps fuel ps required deps stack st1 = Some (Inl e)"
          using hyps(4) Some r Inr by simp
        ultimately show ?thesis using hyps(3) [OF Some r Inr, of e] hyps(5,6,8) by auto
      qed
    qed (use hyps(4) Some in simp)
  qed
qed simp_all

subsection \<open>The loop over the plugins\<close>

lemma visit_each_Inr:
  "visit_each fuel ps qs st = Some (Inr st') \<Longrightarrow> set qs \<subseteq> set ps \<Longrightarrow> topo_inv ps st \<Longrightarrow>
     topo_inv ps st' \<and> extends st st' \<and> pl_name ` set qs \<subseteq> pl_name ` set (to_ordered st')"
proof (induction qs arbitrary: st)
  case (Cons p qs)
  then obtain st1 where s: "visit fuel ps p [] st = Some (Inr st1)" "visit_each fuel ps qs st1 = Some (Inr st')"
    by (auto split: option.splits sum.splits)
  have a: "topo_inv ps st1" "extends st st1" "pl_name p \<in> pl_name ` set (to_ordered st1)"
    using visit_inv(1) [OF s(1)] Cons.prems(2,3) by auto
  have b: "topo_inv ps st'" "extends st1 st'" "pl_name ` set qs \<subseteq> pl_name ` set (to_ordered st')"
    using Cons.IH [OF s(2) _ a(1)] Cons.prems(2) by auto
  show ?case
    using a b extends_names [OF b(2)] by (auto simp: extends_def intro: prefix_order.trans)
qed (simp add: extends_def)

lemma visit_each_Inl:
  assumes "plugins_ok ps"
  shows "visit_each fuel ps qs st = Some (Inl e) \<Longrightarrow> set qs \<subseteq> set ps \<Longrightarrow> visiting st = {} \<Longrightarrow>
     \<exists>c. e = CyclicPlugins c \<and> dep_cycle ps c"
proof (induction qs arbitrary: st)
  case (Cons p qs)
  show ?case
  proof (cases "visit fuel ps p [] st")
    case r: (Some r)
    show ?thesis
    proof (cases r)
      case (Inl e')
      then show ?thesis
        using visit_Inl(1) [OF assms, of fuel p "[]" st e'] Cons.prems r by (simp add: path_to_def)
    next
      case (Inr st1)
      then have "visiting st1 = {}" using visit_keeps_visiting(1) r Cons.prems(3) by blast
      then show ?thesis using Cons.IH [of st1] Cons.prems r Inr by simp
    qed
  qed (use Cons.prems in simp)
qed simp

lemma visit_each_returns:
  "set qs \<subseteq> set ps \<Longrightarrow> visiting st = {} \<Longrightarrow> visit_each (topo_fuel ps) ps qs st \<noteq> None"
proof (induction qs arbitrary: st)
  case (Cons p qs)
  have "card (pl_name ` set ps) \<le> length ps"
    using card_image_le [of "set ps" pl_name] card_length [of ps] by simp
  then have "visit (topo_fuel ps) ps p [] st \<noteq> None"
    using visit_enough_fuel(1) [of ps p st "topo_fuel ps" "[]"] Cons.prems by (simp add: topo_fuel_def)
  then obtain r where r: "visit (topo_fuel ps) ps p [] st = Some r" by blast
  show ?case
  proof (cases r)
    case (Inr st1)
    then have "visiting st1 = {}" using visit_keeps_visiting(1) r Cons.prems(2) by blast
    then show ?thesis using Cons.IH [of st1] Cons.prems r Inr by simp
  qed (simp add: r)
qed simp

lemma topo_start: "topo_inv ps \<lparr>to_marks = [], to_ordered = []\<rparr>" "visiting \<lparr>to_marks = [], to_ordered = []\<rparr> = {}"
  by (auto simp: topo_inv_def visiting_def map_get_def)

lemma topoOrder_Some:
  "topoOrder ps = Some r \<longleftrightarrow>
     (\<exists>z. visit_each (topo_fuel ps) ps ps \<lparr>to_marks = [], to_ordered = []\<rparr> = Some z \<and> r = map_sum id to_ordered z)"
  by (auto simp: topoOrder_def)

lemma map_sum_Inr: "Inr y = map_sum f g z \<Longrightarrow> (\<And>x. z = Inr x \<Longrightarrow> y = g x \<Longrightarrow> P) \<Longrightarrow> P"
  by (cases z) auto

lemma map_sum_Inl: "Inl y = map_sum f g z \<Longrightarrow> (\<And>x. z = Inl x \<Longrightarrow> y = f x \<Longrightarrow> P) \<Longrightarrow> P"
  by (cases z) auto

lemma topoOrder_Inr:
  assumes "topoOrder ps = Some (Inr os)" "plugins_ok ps"
  shows "distinct os" "set os = set ps" "deps_first ps {} os"
proof -
  obtain z where z: "visit_each (topo_fuel ps) ps ps \<lparr>to_marks = [], to_ordered = []\<rparr> = Some z"
    "Inr os = map_sum id to_ordered z"
    using assms(1) unfolding topoOrder_Some by blast
  from z(2) obtain st where s: "z = Inr st" "os = to_ordered st" by (rule map_sum_Inr)
  note st = z(1) [unfolded s(1)] s(2)
  have inv: "topo_inv ps st" "pl_name ` set ps \<subseteq> pl_name ` set os"
    using visit_each_Inr [OF st(1) _ topo_start(1)] st(2) by auto
  then show "distinct os" "deps_first ps {} os" using st(2) by (auto simp: topo_inv_def distinct_map)
  have sub: "set os \<subseteq> set ps" using inv(1) st(2) by (auto simp: topo_inv_def)
  moreover have "set ps \<subseteq> set os"
  proof
    fix p assume p: "p \<in> set ps"
    then have "pl_name p \<in> pl_name ` set os" using inv(2) by blast
    then obtain q where q: "q \<in> set os" "pl_name q = pl_name p" by auto
    have "inj_on pl_name (set ps)" using assms(2) by (simp add: plugins_ok_def distinct_map)
    then have "q = p" using q p sub by (auto dest: inj_onD)
    then show "p \<in> set os" using q(1) by simp
  qed
  ultimately show "set os = set ps" by blast
qed

lemma topoOrder_Inl:
  assumes "topoOrder ps = Some (Inl e)" "plugins_ok ps"
  shows "\<exists>c. e = CyclicPlugins c \<and> dep_cycle ps c"
proof -
  have "visit_each (topo_fuel ps) ps ps \<lparr>to_marks = [], to_ordered = []\<rparr> = Some (Inl e)"
    using assms(1) unfolding topoOrder_Some by (auto elim!: map_sum_Inl)
  then show ?thesis using visit_each_Inl [OF assms(2)] topo_start(2) by blast
qed

lemma topoOrder_returns: "topoOrder ps \<noteq> None"
  using visit_each_returns [OF subset_refl topo_start(2), of ps] by (simp add: topoOrder_def)

subsection \<open>An order has no cycle\<close>

lemma deps_first_names:
  "deps_first ps seen os \<Longrightarrow> p \<in> set os \<Longrightarrow> known_deps ps p \<subseteq> seen \<union> pl_name ` set os"
  by (induction os arbitrary: seen) auto

fun position :: "string \<Rightarrow> plugin list \<Rightarrow> nat" where
  "position n [] = 0"
| "position n (p # os) = (if pl_name p = n then 0 else Suc (position n os))"

lemma position_less: "n \<in> pl_name ` set os \<Longrightarrow> position n os < length os"
  by (induction os) auto

lemma deps_first_position:
  "deps_first ps seen os \<Longrightarrow> distinct (map pl_name os) \<Longrightarrow> p \<in> set os \<Longrightarrow> d \<in> known_deps ps p \<Longrightarrow>
     d \<in> seen \<or> position d os < position (pl_name p) os"
proof (induction os arbitrary: seen)
  case (Cons q os)
  show ?case
  proof (cases "p = q")
    case False
    then have "p \<in> set os" "pl_name q \<noteq> pl_name p" using Cons.prems(2,3) by force+
    then show ?thesis using Cons.IH [of "insert (pl_name q) seen"] Cons.prems by auto
  qed (use Cons.prems in auto)
qed simp

lemma path_positions:
  assumes "\<And>a b. dep_edge ps a b \<Longrightarrow> f b < (f a :: nat)"
  shows "successively (dep_edge ps) (a # c) \<Longrightarrow> b \<in> set c \<Longrightarrow> f b < f a"
proof (induction c arbitrary: a)
  case (Cons x c)
  then have "f x < f a" "b = x \<or> f b < f x" using assms by auto
  then show ?case by auto
qed simp

lemma dep_cycle_descends:
  assumes "dep_cycle ps c" and f: "\<And>a b. dep_edge ps a b \<Longrightarrow> f b < (f a :: nat)"
  shows False
proof -
  have c: "c \<noteq> []" "last c \<in> set (butlast c)" "successively (dep_edge ps) c"
    using assms(1) by (auto simp: dep_cycle_def)
  then obtain xs ys where b: "butlast c = xs @ last c # ys" by (meson split_list)
  then have "c = xs @ last c # (ys @ [last c])" using append_butlast_last_id [OF c(1)] by simp
  then have "successively (dep_edge ps) (last c # (ys @ [last c]))"
    using c(3) by (metis successively_append_iff)
  from path_positions [OF f this, where b = "last c"] show False by simp
qed

lemma order_no_cycle:
  assumes "plugins_ok ps" "distinct os" "set os = set ps" "deps_first ps {} os"
  shows "\<not> dep_cycle ps c"
proof
  assume "dep_cycle ps c"
  moreover have "distinct (map pl_name os)"
    using assms(1-3) by (simp add: plugins_ok_def distinct_map)
  then have "position b os < position a os" if "dep_edge ps a b" for a b
    using that deps_first_position [OF assms(4)] assms(3) by (fastforce simp: dep_edge_def list_ex_iff)
  ultimately show False by (rule dep_cycle_descends)
qed

subsection \<open>The properties\<close>

text \<open>C8: Loading a list of plugins computes, for every list, one of three outcomes, each justified: an
  order that holds exactly the plugins given, each once, after every listed plugin it injects, hard or
  soft; an error naming a real cycle of dependencies; or an error of the list itself, exactly when it
  is not a list of applicable plugins with distinct names and known injections.\<close>

theorem load_order_correct:
  "case load_order ps of
     None \<Rightarrow> False
   | Some (Inr os) \<Rightarrow> plugins_ok ps \<and> distinct os \<and> set os = set ps \<and> deps_first ps {} os
   | Some (Inl (CyclicPlugins c)) \<Rightarrow> plugins_ok ps \<and> dep_cycle ps c
   | Some (Inl e) \<Rightarrow> \<not> plugins_ok ps \<and> assertValid ps = Some e"
proof (cases "plugins_ok ps")
  case True
  then have l: "load_order ps = topoOrder ps" using assertValid_None [of ps] by (simp add: load_order_def)
  obtain r where r: "topoOrder ps = Some r" using topoOrder_returns [of ps] by blast
  show ?thesis
  proof (cases r)
    case (Inl e)
    then show ?thesis using topoOrder_Inl [of ps e] r l True by auto
  next
    case (Inr os)
    then show ?thesis using topoOrder_Inr [of ps os] r l True by simp
  qed
next
  case False
  then obtain e where e: "assertValid ps = Some e" using assertValid_None [of ps] by auto
  have "e \<noteq> CyclicPlugins c" for c
    using e check_names_error [of ps "[]"] check_injects_error
    by (auto simp: assertValid_def dest!: first_some_SomeD split: option.splits)
  then show ?thesis using e False by (auto simp: load_order_def split: plugin_error.splits)
qed

text \<open>A list of plugins loads exactly when it is well formed and no chain of its dependencies comes
  back to where it started: the depth-first search neither misses a cycle nor reports one that the
  dependencies do not have.\<close>

theorem loads_iff_acyclic:
  "(\<exists>os. load_order ps = Some (Inr os)) \<longleftrightarrow> plugins_ok ps \<and> (\<nexists>c. dep_cycle ps c)"
proof (cases "plugins_ok ps")
  case True
  then have l: "load_order ps = topoOrder ps" using assertValid_None [of ps] by (simp add: load_order_def)
  obtain r where r: "topoOrder ps = Some r" using topoOrder_returns [of ps] by blast
  show ?thesis
  proof (cases r)
    case (Inl e)
    then show ?thesis using topoOrder_Inl [of ps e] r l True by auto
  next
    case (Inr os)
    then show ?thesis
      using order_no_cycle [OF True topoOrder_Inr [OF _ True]] r l True by auto
  qed
next
  case False
  then show ?thesis using assertValid_None [of ps] by (auto simp: load_order_def split: option.splits)
qed

end
