(* ===== verification/KernelContext.thy ===== *)
theory KernelContext
  imports JsValues JsMap "HOL-Library.Sublist"
begin

text \<open>
  The kernel context (\<open>core/context/src/context/create-context.ts\<close>, \<open>tokens.ts\<close>, \<open>vocab.ts\<close>): its state and the
  operations that call no function of a plugin. Objects are compared by identity, so tokens, layers,
  listener entries, waiters and disposers carry the number under which they were made. \<open>services\<close> is a map
  from tokens to tables, and a disposer keeps the table it was made for: the tables are an explicit store,
  and \<open>services\<close> holds references into it. A promise of \<open>waitFor\<close> is settled by appending its outcome to
  \<open>k_settled\<close>. Freezing a payload is the identity on values.
\<close>

subsection \<open>Tokens\<close>

record token =
  tk_ref :: nat \<comment> \<open>which token object\<close>
  tk_kind :: string
  tk_name :: string
  tk_mode :: "string option" \<comment> \<open>\<open>None\<close> when it is not a string\<close>
  tk_freeze :: "string option"

datatype layer_state = Live | Disposing | Disposed

datatype kernel_error =
    EmptyTokenName
  | LayerNotLive string layer_state string
  | ChainNotLive string layer_state string
  | NotAServiceToken string
  | AlreadyProvided string
  | NotProvided string
  | CannotWait string layer_state
  | NotEventLike string
  | BadTokenShape string
  | NotAnEvent string string
  | NotAChain
  | FinalRequired string
  | NotDispatchable string string
  | NeverArrived string

definition assertTokenName :: "string \<Rightarrow> kernel_error option" where
  "assertTokenName name = (if name = [] then Some EmptyTokenName else None)"

definition define_token :: "nat \<Rightarrow> string \<Rightarrow> string option \<Rightarrow> string \<Rightarrow> string option \<Rightarrow> kernel_error + token" where
  "define_token ref kind mode name freeze =
     (case assertTokenName name of
        Some e \<Rightarrow> Inl e
      | None \<Rightarrow> Inr \<lparr>tk_ref = ref, tk_kind = kind, tk_name = name, tk_mode = mode, tk_freeze = freeze\<rparr>)"

definition defineService :: "nat \<Rightarrow> string \<Rightarrow> kernel_error + token" where
  "defineService ref name = define_token ref ''service'' None name None"

definition defineEvent :: "nat \<Rightarrow> string \<Rightarrow> string option \<Rightarrow> kernel_error + token" where
  "defineEvent ref name freeze =
     define_token ref ''event'' (Some ''emit'') name (Some (case freeze of None \<Rightarrow> ''deep'' | Some f \<Rightarrow> f))"

definition defineWaterfall :: "nat \<Rightarrow> string \<Rightarrow> kernel_error + token" where
  "defineWaterfall ref name = define_token ref ''waterfall'' (Some ''waterfall'') name None"

definition defineSerial :: "nat \<Rightarrow> string \<Rightarrow> kernel_error + token" where
  "defineSerial ref name = define_token ref ''serial'' (Some ''serial'') name None"

definition defineGuard :: "nat \<Rightarrow> string \<Rightarrow> kernel_error + token" where
  "defineGuard ref name = define_token ref ''guard'' (Some ''guard'') name None"

definition defineParallel :: "nat \<Rightarrow> string \<Rightarrow> kernel_error + token" where
  "defineParallel ref name = define_token ref ''parallel'' (Some ''parallel'') name None"

definition event_token :: "nat \<Rightarrow> string \<Rightarrow> token" where
  "event_token ref name =
     \<lparr>tk_ref = ref, tk_kind = ''event'', tk_name = name, tk_mode = Some ''emit'', tk_freeze = Some ''deep''\<rparr>"

definition serviceProvided :: token where "serviceProvided = event_token 0 ''service/provided''"
definition pluginLoaded :: token where "pluginLoaded = event_token 1 ''plugin/loaded''"
definition pluginUnloaded :: token where "pluginUnloaded = event_token 2 ''plugin/unloaded''"
definition pluginError :: token where "pluginError = event_token 3 ''plugin/error''"
definition contextDisposing :: token where "contextDisposing = event_token 4 ''context/disposing''"

subsection \<open>The state\<close>

text \<open>
  An effect is a disposer that \<open>registerEffect\<close> made, with its number and its teardown; a function given to
  \<open>effect\<close>; or the disposal of a child scope. \<open>'v\<close> is the type of services, \<open>'f\<close> of the functions plugins
  hand in.
\<close>

datatype 'v teardown =
    ServiceOff token nat nat 'v \<comment> \<open>token, table, layer, implementation\<close>
  | ListenerOff token nat \<comment> \<open>token, entry\<close>
  | ChainOff nat nat \<comment> \<open>chain, entry\<close>

datatype ('v, 'f) effect =
    Registered nat "'v teardown"
  | RawEffect 'f
  | ChildScope nat

record ('v, 'f) layer =
  ly_parent :: "nat option"
  ly_depth :: nat
  ly_filter :: "string option" \<comment> \<open>the agent of the filter\<close>
  ly_effects :: "('v, 'f) effect list"
  ly_state :: layer_state

record 'f entry =
  en_ref :: nat
  en_layer :: nat
  en_mode :: string
  en_fn :: 'f

record waiter =
  w_ref :: nat
  w_token :: token
  w_layer :: nat

record ('v, 'f) kernel =
  k_layers :: "(nat, ('v, 'f) layer) jsmap"
  k_services :: "(token, nat) jsmap"
  k_tables :: "(nat, (nat, 'v) jsmap) jsmap"
  k_listeners :: "(token, 'f entry list) jsmap"
  k_chains :: "(nat, 'f entry list) jsmap"
  k_waiters :: "waiter list"
  k_settled :: "(nat \<times> (kernel_error + 'v)) list"
  k_later :: "(string \<times> token) list" \<comment> \<open>rejections of listeners not reported yet\<close>
  k_next :: nat \<comment> \<open>the number of the next object\<close>

definition root_layer :: "('v, 'f) layer" where
  "root_layer = \<lparr>ly_parent = None, ly_depth = 0, ly_filter = None, ly_effects = [], ly_state = Live\<rparr>"

definition createContext :: "('v, 'f) kernel" where
  \<comment> \<open>the root is layer 0\<close>
  "createContext =
     \<lparr>k_layers = [(0, root_layer)], k_services = [], k_tables = [], k_listeners = [], k_chains = [],
      k_waiters = [], k_settled = [], k_later = [], k_next = 1\<rparr>"

definition layer_of :: "('v, 'f) kernel \<Rightarrow> nat \<Rightarrow> ('v, 'f) layer" where
  \<comment> \<open>a context always refers to a layer that exists\<close>
  "layer_of k l = (case map_get (k_layers k) l of Some ly \<Rightarrow> ly | None \<Rightarrow> root_layer)"

definition set_layer :: "nat \<Rightarrow> (('v, 'f) layer \<Rightarrow> ('v, 'f) layer) \<Rightarrow> ('v, 'f) kernel \<Rightarrow> ('v, 'f) kernel" where
  "set_layer l f k = k\<lparr>k_layers := map_set (k_layers k) l (f (layer_of k l))\<rparr>"

definition effects_of :: "('v, 'f) kernel \<Rightarrow> nat \<Rightarrow> ('v, 'f) effect list" where
  "effects_of k l = ly_effects (layer_of k l)"

definition set_effects :: "nat \<Rightarrow> ('v, 'f) effect list \<Rightarrow> ('v, 'f) kernel \<Rightarrow> ('v, 'f) kernel" where
  "set_effects l es = set_layer l (\<lambda>ly. ly\<lparr>ly_effects := es\<rparr>)"

definition set_state :: "nat \<Rightarrow> layer_state \<Rightarrow> ('v, 'f) kernel \<Rightarrow> ('v, 'f) kernel" where
  "set_state l s = set_layer l (\<lambda>ly. ly\<lparr>ly_state := s\<rparr>)"

definition state_of :: "('v, 'f) kernel \<Rightarrow> nat \<Rightarrow> layer_state" where
  "state_of k l = ly_state (layer_of k l)"

definition agent_name :: "('v, 'f) kernel \<Rightarrow> nat \<Rightarrow> string" where
  "agent_name k l = (case ly_filter (layer_of k l) of None \<Rightarrow> ''root'' | Some a \<Rightarrow> a)"

definition assertLive :: "('v, 'f) kernel \<Rightarrow> nat \<Rightarrow> string \<Rightarrow> kernel_error option" where
  "assertLive k l verb =
     (if state_of k l \<noteq> Live then Some (LayerNotLive (agent_name k l) (state_of k l) verb) else None)"

subsection \<open>The chain of scopes\<close>

fun chain_up :: "nat \<Rightarrow> ('v, 'f) kernel \<Rightarrow> nat \<Rightarrow> nat list" where
  "chain_up 0 k l = []"
| "chain_up (Suc fuel) k l =
     l # (case ly_parent (layer_of k l) of None \<Rightarrow> [] | Some p \<Rightarrow> chain_up fuel k p)"

definition chainSet :: "('v, 'f) kernel \<Rightarrow> nat \<Rightarrow> nat list" where
  \<comment> \<open>the layer and its ancestors, nearest first; a parent is made before its child\<close>
  "chainSet k l = chain_up (Suc l) k l"

definition assertChainLive :: "('v, 'f) kernel \<Rightarrow> nat \<Rightarrow> string \<Rightarrow> kernel_error option" where
  "assertChainLive k l verb =
     first_some (\<lambda>c. if state_of k c \<noteq> Live then Some (ChainNotLive (agent_name k c) (state_of k c) verb) else None)
       (chainSet k l)"

subsection \<open>Services\<close>

definition table_of :: "('v, 'f) kernel \<Rightarrow> nat \<Rightarrow> (nat, 'v) jsmap" where
  "table_of k t = (case map_get (k_tables k) t of Some m \<Rightarrow> m | None \<Rightarrow> [])"

definition findVisibleEntry :: "('v, 'f) kernel \<Rightarrow> token \<Rightarrow> nat \<Rightarrow> 'v option" where
  "findVisibleEntry k token l =
     (case map_get (k_services k) token of
        None \<Rightarrow> None
      | Some t \<Rightarrow> first_some (map_get (table_of k t)) (chainSet k l))"

definition use_service :: "('v, 'f) kernel \<Rightarrow> token \<Rightarrow> nat \<Rightarrow> kernel_error + 'v" where
  "use_service k token l =
     (case findVisibleEntry k token l of Some v \<Rightarrow> Inr v | None \<Rightarrow> Inl (NotProvided (tk_name token)))"

definition tryUse :: "('v, 'f) kernel \<Rightarrow> token \<Rightarrow> nat \<Rightarrow> 'v option" where
  "tryUse k token l = findVisibleEntry k token l"

definition settle_waiter :: "token \<Rightarrow> nat \<Rightarrow> waiter \<Rightarrow> ('v, 'f) kernel \<Rightarrow> ('v, 'f) kernel" where
  "settle_waiter token providing w k =
     (if w_token w \<noteq> token \<or> providing \<notin> set (chainSet k (w_layer w)) then k
      else case findVisibleEntry k (w_token w) (w_layer w) of
             None \<Rightarrow> k
           | Some v \<Rightarrow> k\<lparr>k_waiters := filter (\<lambda>x. x \<noteq> w) (k_waiters k),
                         k_settled := k_settled k @ [(w_ref w, Inr v)]\<rparr>)"

definition settleWaiters :: "token \<Rightarrow> nat \<Rightarrow> ('v, 'f) kernel \<Rightarrow> ('v, 'f) kernel" where
  "settleWaiters token providing k = fold (settle_waiter token providing) (k_waiters k) k"

datatype 'v promise = RejectedNow kernel_error | ResolvedNow 'v | Pending nat

definition waitFor :: "token \<Rightarrow> nat \<Rightarrow> ('v, 'f) kernel \<Rightarrow> 'v promise \<times> ('v, 'f) kernel" where
  "waitFor token l k =
     (if state_of k l \<noteq> Live then (RejectedNow (CannotWait (tk_name token) (state_of k l)), k)
      else case findVisibleEntry k token l of
             Some v \<Rightarrow> (ResolvedNow v, k)
           | None \<Rightarrow>
               (Pending (k_next k),
                k\<lparr>k_waiters := k_waiters k @ [\<lparr>w_ref = k_next k, w_token = token, w_layer = l\<rparr>],
                  k_next := Suc (k_next k)\<rparr>))"

subsection \<open>Disposers\<close>

type_synonym 'v disposer = "nat \<times> nat \<times> 'v teardown" \<comment> \<open>the layer, the number, the teardown\<close>

definition registerEffect :: "nat \<Rightarrow> 'v teardown \<Rightarrow> ('v, 'f) kernel \<Rightarrow> 'v disposer \<times> ('v, 'f) kernel" where
  "registerEffect l td k =
     ((l, k_next k, td),
      (set_effects l (effects_of k l @ [Registered (k_next k) td]) k)\<lparr>k_next := Suc (k_next k)\<rparr>)"

definition set_entries :: "token \<Rightarrow> 'f entry list \<Rightarrow> ('v, 'f) kernel \<Rightarrow> ('v, 'f) kernel" where
  \<comment> \<open>the list without the entry, dropped when it is empty\<close>
  "set_entries token es k =
     k\<lparr>k_listeners := (if es = [] then map_delete (k_listeners k) token else map_set (k_listeners k) token es)\<rparr>"

definition drop_entry :: "nat \<Rightarrow> 'f entry list \<Rightarrow> 'f entry list" where
  "drop_entry ref es = filter (\<lambda>e. en_ref e \<noteq> ref) es"

definition drop_provided :: "nat \<Rightarrow> 'v \<Rightarrow> (nat, 'v) jsmap \<Rightarrow> (nat, 'v) jsmap" where
  "drop_provided l v m = (if map_get m l = Some v then map_delete m l else m)"

definition write_table :: "nat \<Rightarrow> (nat, 'v) jsmap \<Rightarrow> ('v, 'f) kernel \<Rightarrow> ('v, 'f) kernel" where
  "write_table t m k = k\<lparr>k_tables := map_set (k_tables k) t m\<rparr>"

definition run_teardown :: "'v teardown \<Rightarrow> ('v, 'f) kernel \<Rightarrow> ('v, 'f) kernel" where
  "run_teardown td k =
     (case td of
        ServiceOff token t l v \<Rightarrow>
          let m = drop_provided l v (table_of k t);
              k = write_table t m k
          in if m = [] then k\<lparr>k_services := map_delete (k_services k) token\<rparr> else k
      | ListenerOff token ref \<Rightarrow>
          (case map_get (k_listeners k) token of
             None \<Rightarrow> k
           | Some es \<Rightarrow> set_entries token (drop_entry ref es) k)
      | ChainOff c ref \<Rightarrow>
          (case map_get (k_chains k) c of
             None \<Rightarrow> k
           | Some es \<Rightarrow> k\<lparr>k_chains := map_set (k_chains k) c (drop_entry ref es)\<rparr>))"

fun is_disposer :: "nat \<Rightarrow> ('v, 'f) effect \<Rightarrow> bool" where
  "is_disposer ref (Registered r td) = (r = ref)"
| "is_disposer ref _ = False"

definition run_disposer :: "'v disposer \<Rightarrow> ('v, 'f) kernel \<Rightarrow> ('v, 'f) kernel" where
  "run_disposer d k =
     (case d of (l, ref, td) \<Rightarrow>
        run_teardown td (set_effects l (filter (\<lambda>e. \<not> is_disposer ref e) (effects_of k l)) k))"

subsection \<open>Registering\<close>

fun front_at :: "('e \<Rightarrow> nat) \<Rightarrow> nat \<Rightarrow> 'e list \<Rightarrow> nat" where
  "front_at depth d [] = 0"
| "front_at depth d (x # xs) = (if d \<le> depth x then 0 else Suc (front_at depth d xs))"

fun back_at :: "('e \<Rightarrow> nat) \<Rightarrow> nat \<Rightarrow> 'e list \<Rightarrow> nat \<Rightarrow> nat" where
  "back_at depth d xs 0 = 0"
| "back_at depth d xs (Suc at) = (if depth (xs ! at) \<le> d then Suc at else back_at depth d xs at)"

definition insertByLayerDepth :: "('e \<Rightarrow> nat) \<Rightarrow> 'e list \<Rightarrow> 'e \<Rightarrow> bool \<Rightarrow> 'e list" where
  "insertByLayerDepth depth es e prepend =
     (let at = (if prepend then front_at depth (depth e) es else back_at depth (depth e) es (length es))
      in take at es @ e # drop at es)"

definition entry_depth :: "('v, 'f) kernel \<Rightarrow> 'f entry \<Rightarrow> nat" where
  "entry_depth k e = ly_depth (layer_of k (en_layer e))"

definition entries_of :: "('v, 'f) kernel \<Rightarrow> token \<Rightarrow> 'f entry list" where
  "entries_of k token = (case map_get (k_listeners k) token of Some es \<Rightarrow> es | None \<Rightarrow> [])"

definition on_token :: "token \<Rightarrow> 'f \<Rightarrow> bool \<Rightarrow> nat \<Rightarrow> ('v, 'f) kernel \<Rightarrow> kernel_error + 'v disposer \<times> ('v, 'f) kernel" where
  "on_token token fn prepend l k =
     (case assertLive k l ''on'' of
        Some e \<Rightarrow> Inl e
      | None \<Rightarrow>
          (case tk_mode token of
             None \<Rightarrow> Inl (NotEventLike (tk_name token))
           | Some mode \<Rightarrow>
               if tk_kind token = ''service'' then Inl (NotEventLike (tk_name token))
               else let e = \<lparr>en_ref = k_next k, en_layer = l, en_mode = mode, en_fn = fn\<rparr>;
                        es = insertByLayerDepth (entry_depth k) (entries_of k token) e prepend
                    in Inr (registerEffect l (ListenerOff token (k_next k))
                              (k\<lparr>k_listeners := map_set (k_listeners k) token es, k_next := Suc (k_next k)\<rparr>))))"

definition service_table :: "token \<Rightarrow> ('v, 'f) kernel \<Rightarrow> nat \<times> ('v, 'f) kernel" where
  \<comment> \<open>the table of the token, made when there is none\<close>
  "service_table token k =
     (case map_get (k_services k) token of
        Some t \<Rightarrow> (t, k)
      | None \<Rightarrow> (k_next k, k\<lparr>k_services := map_set (k_services k) token (k_next k),
                             k_tables := map_set (k_tables k) (k_next k) [], k_next := Suc (k_next k)\<rparr>))"

definition provide_core :: "token \<Rightarrow> 'v \<Rightarrow> nat \<Rightarrow> ('v, 'f) kernel \<Rightarrow> kernel_error + 'v disposer \<times> ('v, 'f) kernel" where
  \<comment> \<open>\<open>provide\<close> up to the event\<close>
  "provide_core token impl l k =
     (case assertLive k l ''provide'' of
        Some e \<Rightarrow> Inl e
      | None \<Rightarrow>
          if tk_kind token \<noteq> ''service'' then Inl (NotAServiceToken (tk_kind token))
          else case service_table token k of (t, k) \<Rightarrow>
                 if map_has (table_of k t) l then Inl (AlreadyProvided (tk_name token))
                 else Inr (registerEffect l (ServiceOff token t l impl)
                             (settleWaiters token l (write_table t (map_set (table_of k t) l impl) k))))"

definition createChain :: "nat \<Rightarrow> ('v, 'f) kernel \<Rightarrow> kernel_error + nat \<times> ('v, 'f) kernel" where
  "createChain l k =
     (case assertLive k l ''createChain'' of
        Some e \<Rightarrow> Inl e
      | None \<Rightarrow> Inr (k_next k, k\<lparr>k_chains := map_set (k_chains k) (k_next k) [], k_next := Suc (k_next k)\<rparr>))"

definition onChain :: "nat \<Rightarrow> 'f \<Rightarrow> bool \<Rightarrow> nat \<Rightarrow> ('v, 'f) kernel \<Rightarrow> kernel_error + 'v disposer \<times> ('v, 'f) kernel" where
  "onChain c fn prepend l k =
     (case assertLive k l ''onChain'' of
        Some e \<Rightarrow> Inl e
      | None \<Rightarrow>
          (case map_get (k_chains k) c of
             None \<Rightarrow> Inl NotAChain
           | Some es \<Rightarrow>
               let e = \<lparr>en_ref = k_next k, en_layer = l, en_mode = ''chain'', en_fn = fn\<rparr>;
                   es = insertByLayerDepth (entry_depth k) es e prepend
               in Inr (registerEffect l (ChainOff c (k_next k))
                         (k\<lparr>k_chains := map_set (k_chains k) c es, k_next := Suc (k_next k)\<rparr>))))"

definition effect_raw :: "'f \<Rightarrow> nat \<Rightarrow> ('v, 'f) kernel \<Rightarrow> kernel_error + ('v, 'f) kernel" where
  "effect_raw fn l k =
     (case assertLive k l ''effect'' of
        Some e \<Rightarrow> Inl e
      | None \<Rightarrow> Inr (set_effects l (effects_of k l @ [RawEffect fn]) k))"

definition scope :: "string \<Rightarrow> nat \<Rightarrow> ('v, 'f) kernel \<Rightarrow> kernel_error + nat \<times> ('v, 'f) kernel" where
  "scope agent l k =
     (case assertLive k l ''scope'' of
        Some e \<Rightarrow> Inl e
      | None \<Rightarrow>
          let child = \<lparr>ly_parent = Some l, ly_depth = Suc (ly_depth (layer_of k l)), ly_filter = Some agent,
                       ly_effects = [], ly_state = Live\<rparr>
          in Inr (k_next k,
                  set_effects l (effects_of k l @ [ChildScope (k_next k)])
                    (k\<lparr>k_layers := map_set (k_layers k) (k_next k) child, k_next := Suc (k_next k)\<rparr>)))"

end
