(* ===== verification/KernelContextProps.thy ===== *)
theory KernelContextProps
  imports KernelContext
begin

text \<open>
  The invariant of the kernel context and the facts about its operations: every listener, middleware and
  service that can be found has its disposer among the effects of its layer, lists of listeners are sorted
  by depth, and no waiter waits for a service it could see.
\<close>

subsection \<open>Insertion by depth\<close>

lemma filter_none: "(\<And>x. x \<in> set xs \<Longrightarrow> \<not> P x) \<Longrightarrow> filter P xs = []"
  by (simp add: filter_empty_conv)

lemma back_at_bound: "n \<le> length xs \<Longrightarrow> back_at depth d xs n \<le> n"
  by (induction n) auto

lemma back_at_snoc: "n \<le> length xs \<Longrightarrow> back_at depth d (xs @ [x]) n = back_at depth d xs n"
  by (induction n) (auto simp: nth_append)

lemma sorted_front:
  "sorted (map depth xs) \<Longrightarrow>
     take (front_at depth d xs) xs = filter (\<lambda>x. depth x < d) xs \<and>
     drop (front_at depth d xs) xs = filter (\<lambda>x. d \<le> depth x) xs"
  by (induction xs) (auto intro!: filter_none [symmetric] filter_True [symmetric] dest: bspec)

lemma sorted_back:
  "sorted (map depth xs) \<Longrightarrow>
     take (back_at depth d xs (length xs)) xs = filter (\<lambda>x. depth x \<le> d) xs \<and>
     drop (back_at depth d xs (length xs)) xs = filter (\<lambda>x. d < depth x) xs"
proof (induction xs rule: rev_induct)
  case (snoc x xs)
  then have s: "sorted (map depth xs)" "\<forall>y \<in> set xs. depth y \<le> depth x" by (auto simp: sorted_append)
  show ?case
  proof (cases "depth x \<le> d")
    case True
    then show ?thesis using s(2) by (auto intro!: filter_none [symmetric] filter_True [symmetric] dest: bspec)
  next
    case False
    then show ?thesis
      using snoc.IH [OF s(1)] back_at_bound [of "length xs" xs depth d]
      by (simp add: back_at_snoc)
  qed
qed simp

lemma insert_split:
  assumes "sorted (map depth es)"
  shows "insertByLayerDepth depth es e prepend =
    (if prepend then filter (\<lambda>x. depth x < depth e) es @ e # filter (\<lambda>x. depth e \<le> depth x) es
     else filter (\<lambda>x. depth x \<le> depth e) es @ e # filter (\<lambda>x. depth e < depth x) es)"
  using sorted_front [OF assms, of "depth e"] sorted_back [OF assms, of "depth e"]
  by (simp add: insertByLayerDepth_def)

lemma set_insertByLayerDepth [simp]: "set (insertByLayerDepth depth es e prepend) = insert e (set es)"
proof -
  have "set (take n es) \<union> set (drop n es) = set es" for n
    by (metis append_take_drop_id set_append)
  then show ?thesis by (auto simp: insertByLayerDepth_def Let_def)
qed

lemma sorted_insertByLayerDepth:
  "sorted (map depth es) \<Longrightarrow> sorted (map depth (insertByLayerDepth depth es e prepend))"
  by (auto simp: insert_split sorted_append sorted_filter intro: less_imp_le order.trans)

lemma insert_drop:
  assumes "en_ref e \<notin> en_ref ` set es"
  shows "drop_entry (en_ref e) (insertByLayerDepth depth es e prepend) = es"
proof -
  have "x \<in> set es \<Longrightarrow> en_ref x \<noteq> en_ref e" for x using assms by (metis image_eqI)
  then have "filter (\<lambda>x. en_ref x \<noteq> en_ref e) (take n es) = take n es"
    "filter (\<lambda>x. en_ref x \<noteq> en_ref e) (drop n es) = drop n es" for n
    by (auto intro!: filter_True dest: in_set_takeD in_set_dropD)
  then show ?thesis by (simp add: drop_entry_def insertByLayerDepth_def Let_def)
qed

lemma sorted_filters:
  "sorted (map depth es) \<Longrightarrow>
     filter (\<lambda>x. depth x \<le> d) es = filter (\<lambda>x. depth x < d) es @ filter (\<lambda>x. depth x = d) es \<and>
     filter (\<lambda>x. d \<le> depth x) es = filter (\<lambda>x. depth x = d) es @ filter (\<lambda>x. d < depth x) es"
  for d :: nat
proof (induction es)
  case (Cons a es)
  then have a: "\<forall>x \<in> set es. depth a \<le> depth x" by simp
  have "d \<le> depth a \<Longrightarrow> filter (\<lambda>x. depth x < d) es = []" using a by (intro filter_none) auto
  moreover have "d < depth a \<Longrightarrow> filter (\<lambda>x. depth x = d) es = []" using a by (intro filter_none) auto
  ultimately show ?case using Cons by auto
qed simp

text \<open>A listener joins the listeners of its own layer, after the layers above it and before the layers
  below: last of them, or first of them when it asks to be prepended; the others keep their order.\<close>

theorem listeners_stay_by_depth:
  assumes "sorted (map depth es)"
  shows "insertByLayerDepth depth es e prepend =
      filter (\<lambda>x. depth x < depth e) es @
      (if prepend then e # filter (\<lambda>x. depth x = depth e) es else filter (\<lambda>x. depth x = depth e) es @ [e]) @
      filter (\<lambda>x. depth e < depth x) es"
  using insert_split [OF assms] sorted_filters [OF assms, of "depth e"] by simp

lemma listeners_stay_by_depth_witness:
  "insertByLayerDepth fst [(0::nat, ''a''), (1, ''b''), (1, ''c''), (2, ''d'')] (1, ''x'') False =
     [(0, ''a''), (1, ''b''), (1, ''c''), (1, ''x''), (2, ''d'')]"
  using listeners_stay_by_depth [of fst "[(0::nat, ''a''), (1, ''b''), (1, ''c''), (2, ''d'')]" "(1, ''x'')" False]
  by simp


subsection \<open>The invariant\<close>

definition has_layer :: "('v, 'f) kernel \<Rightarrow> nat \<Rightarrow> bool" where
  "has_layer k l \<longleftrightarrow> map_get (k_layers k) l \<noteq> None"

definition layers_ok :: "('v, 'f) kernel \<Rightarrow> bool" where
  \<comment> \<open>a parent is older than its children, and a disposed layer has no effects left\<close>
  "layers_ok k \<longleftrightarrow>
     (\<forall>l. has_layer k l \<longrightarrow> l < k_next k \<and> (\<forall>p. ly_parent (layer_of k l) = Some p \<longrightarrow> p < l \<and> has_layer k p) \<and>
        (state_of k l = Disposed \<longrightarrow> effects_of k l = []))"

definition effects_ok :: "('v, 'f) kernel \<Rightarrow> bool" where
  \<comment> \<open>a disposer is the effect of one layer\<close>
  "effects_ok k \<longleftrightarrow>
     (\<forall>l r td. Registered r td \<in> set (effects_of k l) \<longrightarrow> r < k_next k \<and>
        (\<forall>l' td'. Registered r td' \<in> set (effects_of k l') \<longrightarrow> l' = l \<and> td' = td))"

definition has_effect :: "('v, 'f) kernel \<Rightarrow> nat \<Rightarrow> 'v teardown \<Rightarrow> bool" where
  "has_effect k l td \<longleftrightarrow> has_layer k l \<and> (\<exists>r. Registered r td \<in> set (effects_of k l))"

definition entries_ok :: "('v, 'f) kernel \<Rightarrow> (nat \<Rightarrow> 'v teardown) \<Rightarrow> 'f entry list \<Rightarrow> bool" where
  \<comment> \<open>sorted by depth, and every entry has its disposer among the effects of its layer\<close>
  "entries_ok k td es \<longleftrightarrow> sorted (map (entry_depth k) es) \<and> distinct (map en_ref es) \<and>
     (\<forall>e \<in> set es. en_ref e < k_next k \<and> has_effect k (en_layer e) (td (en_ref e)))"

definition listeners_ok :: "('v, 'f) kernel \<Rightarrow> bool" where
  "listeners_ok k \<longleftrightarrow> (\<forall>token es. map_get (k_listeners k) token = Some es \<longrightarrow> entries_ok k (ListenerOff token) es)"

definition chains_ok :: "('v, 'f) kernel \<Rightarrow> bool" where
  "chains_ok k \<longleftrightarrow> (\<forall>c es. map_get (k_chains k) c = Some es \<longrightarrow> c < k_next k \<and> entries_ok k (ChainOff c) es)"

definition tables_ok :: "('v, 'f) kernel \<Rightarrow> bool" where
  \<comment> \<open>a table belongs to one token, and what it holds has its disposer among the effects of the layer\<close>
  "tables_ok k \<longleftrightarrow>
     (\<forall>token t. map_get (k_services k) token = Some t \<longrightarrow> t < k_next k \<and>
        (\<forall>token'. map_get (k_services k) token' = Some t \<longrightarrow> token' = token) \<and>
        (\<forall>l v. map_get (table_of k t) l = Some v \<longrightarrow> has_effect k l (ServiceOff token t l v)))"

definition waiters_ok :: "('v, 'f) kernel \<Rightarrow> bool" where
  \<comment> \<open>no waiter waits for a service that it could see\<close>
  "waiters_ok k \<longleftrightarrow> distinct (map w_ref (k_waiters k)) \<and>
     (\<forall>w \<in> set (k_waiters k). w_ref w < k_next k \<and> has_layer k (w_layer w) \<and> state_of k (w_layer w) \<noteq> Disposed \<and>
        findVisibleEntry k (w_token w) (w_layer w) = None)"

definition kernel_ok :: "('v, 'f) kernel \<Rightarrow> bool" where
  "kernel_ok k \<longleftrightarrow> layers_ok k \<and> effects_ok k \<and> listeners_ok k \<and> chains_ok k \<and> tables_ok k \<and> waiters_ok k"

definition disposer_ok :: "'v disposer \<Rightarrow> ('v, 'f) kernel \<Rightarrow> bool" where
  \<comment> \<open>made by \<open>registerEffect\<close> in this context\<close>
  "disposer_ok d k =
     (case d of (l, ref, td) \<Rightarrow> has_layer k l \<and> ref < k_next k \<and>
        (\<forall>l' td'. Registered ref td' \<in> set (effects_of k l') \<longrightarrow> l' = l \<and> td' = td))"

subsection \<open>Reading what was written\<close>

lemma layer_of_set: "layer_of (set_layer l f k) l' = (if l' = l then f (layer_of k l) else layer_of k l')"
  by (simp add: layer_of_def set_layer_def js_map.get_put)

lemma has_layer_set [simp]: "has_layer (set_layer l f k) l' \<longleftrightarrow> l' = l \<or> has_layer k l'"
  by (auto simp: has_layer_def set_layer_def js_map.get_put)

lemma set_effects_simps [simp]:
  "effects_of (set_effects l es k) l' = (if l' = l then es else effects_of k l')"
  "state_of (set_effects l es k) l' = state_of k l'"
  "ly_parent (layer_of (set_effects l es k) l') = ly_parent (layer_of k l')"
  "ly_depth (layer_of (set_effects l es k) l') = ly_depth (layer_of k l')"
  "has_layer (set_effects l es k) l' \<longleftrightarrow> l' = l \<or> has_layer k l'"
  "k_next (set_effects l es k) = k_next k"
  "k_services (set_effects l es k) = k_services k"
  "k_tables (set_effects l es k) = k_tables k"
  "k_listeners (set_effects l es k) = k_listeners k"
  "k_chains (set_effects l es k) = k_chains k"
  "k_waiters (set_effects l es k) = k_waiters k"
  "k_settled (set_effects l es k) = k_settled k"
  by (auto simp: effects_of_def state_of_def set_effects_def layer_of_set) (auto simp: set_layer_def)

lemma set_state_simps [simp]:
  "state_of (set_state l s k) l' = (if l' = l then s else state_of k l')"
  "effects_of (set_state l s k) l' = effects_of k l'"
  "ly_parent (layer_of (set_state l s k) l') = ly_parent (layer_of k l')"
  "ly_depth (layer_of (set_state l s k) l') = ly_depth (layer_of k l')"
  "has_layer (set_state l s k) l' \<longleftrightarrow> l' = l \<or> has_layer k l'"
  "k_next (set_state l s k) = k_next k"
  "k_services (set_state l s k) = k_services k"
  "k_tables (set_state l s k) = k_tables k"
  "k_listeners (set_state l s k) = k_listeners k"
  "k_chains (set_state l s k) = k_chains k"
  "k_waiters (set_state l s k) = k_waiters k"
  "k_settled (set_state l s k) = k_settled k"
  by (auto simp: effects_of_def state_of_def set_state_def layer_of_set) (auto simp: set_layer_def)

lemma same_layers [simp]:
  "layer_of (k\<lparr>k_services := a\<rparr>) = layer_of k" "layer_of (k\<lparr>k_tables := b\<rparr>) = layer_of k"
  "layer_of (k\<lparr>k_listeners := c\<rparr>) = layer_of k" "layer_of (k\<lparr>k_chains := d\<rparr>) = layer_of k"
  "layer_of (k\<lparr>k_waiters := e\<rparr>) = layer_of k" "layer_of (k\<lparr>k_settled := f\<rparr>) = layer_of k"
  "layer_of (k\<lparr>k_next := n\<rparr>) = layer_of k" "layer_of (k\<lparr>k_later := g\<rparr>) = layer_of k"
  by (auto simp: layer_of_def fun_eq_iff)

lemma same_has_layer [simp]:
  "has_layer (k\<lparr>k_services := a\<rparr>) = has_layer k" "has_layer (k\<lparr>k_tables := b\<rparr>) = has_layer k"
  "has_layer (k\<lparr>k_listeners := c\<rparr>) = has_layer k" "has_layer (k\<lparr>k_chains := d\<rparr>) = has_layer k"
  "has_layer (k\<lparr>k_waiters := e\<rparr>) = has_layer k" "has_layer (k\<lparr>k_settled := f\<rparr>) = has_layer k"
  "has_layer (k\<lparr>k_next := n\<rparr>) = has_layer k" "has_layer (k\<lparr>k_later := g\<rparr>) = has_layer k"
  by (auto simp: has_layer_def fun_eq_iff)

subsection \<open>Scopes\<close>

lemma chain_up_cong:
  "(\<And>l. ly_parent (layer_of k' l) = ly_parent (layer_of k l)) \<Longrightarrow> chain_up n k' l = chain_up n k l"
  by (induction n arbitrary: l) (auto split: option.splits)

lemma chainSet_cong:
  "(\<And>l. ly_parent (layer_of k' l) = ly_parent (layer_of k l)) \<Longrightarrow> chainSet k' l = chainSet k l"
  unfolding chainSet_def by (rule chain_up_cong)

lemma chain_up_old:
  assumes "layers_ok k" "\<And>l. has_layer k l \<Longrightarrow> ly_parent (layer_of k' l) = ly_parent (layer_of k l)"
  shows "has_layer k l \<Longrightarrow> chain_up n k' l = chain_up n k l"
  using assms by (induction n arbitrary: l) (auto simp: layers_ok_def split: option.splits)

lemma chainSet_old:
  assumes "layers_ok k" "\<And>l. has_layer k l \<Longrightarrow> ly_parent (layer_of k' l) = ly_parent (layer_of k l)"
    "has_layer k l"
  shows "chainSet k' l = chainSet k l"
  using chain_up_old [OF assms(1,2), of l "Suc l"] assms(3) by (simp add: chainSet_def del: chain_up.simps)

lemma chain_up_has: "layers_ok k \<Longrightarrow> has_layer k l \<Longrightarrow> c \<in> set (chain_up n k l) \<Longrightarrow> has_layer k c \<and> c \<le> l"
proof (induction n arbitrary: l)
  case (Suc n)
  show ?case
  proof (cases "ly_parent (layer_of k l)")
    case (Some p)
    then have "p < l" "has_layer k p" using Suc.prems(1,2) by (auto simp: layers_ok_def)
    then show ?thesis using Suc.IH [of p] Suc.prems Some by fastforce
  qed (use Suc.prems in auto)
qed simp

lemma chainSet_has: "layers_ok k \<Longrightarrow> has_layer k l \<Longrightarrow> c \<in> set (chainSet k l) \<Longrightarrow> has_layer k c \<and> c \<le> l"
  unfolding chainSet_def by (rule chain_up_has)

lemma chain_up_enough: "layers_ok k \<Longrightarrow> has_layer k l \<Longrightarrow> l < n \<Longrightarrow> chain_up n k l = chain_up (Suc l) k l"
proof (induction l arbitrary: n rule: less_induct)
  case (less l)
  then obtain m where n: "n = Suc m" by (cases n) auto
  show ?case
  proof (cases "ly_parent (layer_of k l)")
    case (Some p)
    then have "p < l" "has_layer k p" using less.prems(1,2) by (auto simp: layers_ok_def)
    then show ?thesis using less.IH [of p m] less.IH [of p l] less.prems n Some by simp
  qed (use n in simp)
qed

lemma chainSet_unfold:
  assumes "layers_ok k" "has_layer k l"
  shows "chainSet k l = l # (case ly_parent (layer_of k l) of None \<Rightarrow> [] | Some p \<Rightarrow> chainSet k p)"
proof (cases "ly_parent (layer_of k l)")
  case (Some p)
  then have "p < l" "has_layer k p" using assms by (auto simp: layers_ok_def)
  then show ?thesis using chain_up_enough [OF assms(1), of p l] Some by (simp add: chainSet_def)
qed (simp add: chainSet_def)


subsection \<open>Growing\<close>

definition grows :: "('v, 'f) kernel \<Rightarrow> ('v, 'f) kernel \<Rightarrow> bool" where
  \<comment> \<open>layers and effects are kept, others may be new\<close>
  "grows k k' \<longleftrightarrow> k_next k \<le> k_next k' \<and>
     (\<forall>l. has_layer k l \<longrightarrow> has_layer k' l \<and> ly_parent (layer_of k' l) = ly_parent (layer_of k l) \<and>
        ly_depth (layer_of k' l) = ly_depth (layer_of k l) \<and> set (effects_of k l) \<subseteq> set (effects_of k' l))"

lemma has_effect_grows: "grows k k' \<Longrightarrow> has_effect k l td \<Longrightarrow> has_effect k' l td"
  unfolding grows_def has_effect_def by blast

lemma entries_ok_grows:
  assumes "grows k k'" "entries_ok k td es"
  shows "entries_ok k' td es"
proof -
  have "\<forall>e \<in> set es. entry_depth k' e = entry_depth k e"
    using assms by (auto simp: grows_def entries_ok_def has_effect_def entry_depth_def)
  then have "map (entry_depth k') es = map (entry_depth k) es" by simp
  then show ?thesis
    using assms has_effect_grows [OF assms(1)] unfolding entries_ok_def grows_def
    by (metis order_less_le_trans)
qed

lemma entries_ok_insert:
  assumes "grows k k'" "entries_ok k td es" "has_effect k' (en_layer e) (td (en_ref e))"
    and "en_ref e \<notin> en_ref ` set es" "en_ref e < k_next k'" "has_layer k (en_layer e)"
  shows "entries_ok k' td (insertByLayerDepth (entry_depth k) es e prepend)"
proof -
  have ok: "entries_ok k' td es" using entries_ok_grows [OF assms(1,2)] .
  have "\<forall>x \<in> insert e (set es). entry_depth k' x = entry_depth k x"
    using assms(1,2,6) by (auto simp: grows_def entries_ok_def has_effect_def entry_depth_def)
  then have m: "map (entry_depth k') (insertByLayerDepth (entry_depth k) es e prepend) =
      map (entry_depth k) (insertByLayerDepth (entry_depth k) es e prepend)" by simp
  have s: "sorted (map (entry_depth k) (insertByLayerDepth (entry_depth k) es e prepend))"
    using assms(2) by (simp add: entries_ok_def sorted_insertByLayerDepth)
  have "distinct (map en_ref (take n es @ e # drop n es))" for n
  proof -
    have "distinct (map en_ref (take n es @ drop n es))" using assms(2) by (simp add: entries_ok_def)
    moreover have "en_ref e \<notin> en_ref ` set (take n es @ drop n es)" using assms(4) by simp
    ultimately show ?thesis by (auto simp del: append_take_drop_id)
  qed
  then have "distinct (map en_ref (insertByLayerDepth (entry_depth k) es e prepend))"
    by (simp only: insertByLayerDepth_def Let_def)
  then show ?thesis unfolding entries_ok_def m using s ok assms(3,5) by (auto simp: entries_ok_def)
qed

subsection \<open>Registering an effect\<close>

lemma registerEffect_simps [simp]:
  "k_services (snd (registerEffect l td k)) = k_services k"
  "k_tables (snd (registerEffect l td k)) = k_tables k"
  "k_listeners (snd (registerEffect l td k)) = k_listeners k"
  "k_chains (snd (registerEffect l td k)) = k_chains k"
  "k_waiters (snd (registerEffect l td k)) = k_waiters k"
  "k_settled (snd (registerEffect l td k)) = k_settled k"
  "k_next (snd (registerEffect l td k)) = Suc (k_next k)"
  "has_layer (snd (registerEffect l td k)) l' \<longleftrightarrow> l' = l \<or> has_layer k l'"
  "ly_parent (layer_of (snd (registerEffect l td k)) l') = ly_parent (layer_of k l')"
  "ly_depth (layer_of (snd (registerEffect l td k)) l') = ly_depth (layer_of k l')"
  "state_of (snd (registerEffect l td k)) l' = state_of k l'"
  "effects_of (snd (registerEffect l td k)) l' =
     (if l' = l then effects_of k l @ [Registered (k_next k) td] else effects_of k l')"
  "fst (registerEffect l td k) = (l, k_next k, td)"
proof -
  have s: "state_of (k\<lparr>k_next := n\<rparr>) = state_of k" "effects_of (k\<lparr>k_next := n\<rparr>) = effects_of k"
    for k :: "('a, 'b) kernel" and n by (auto simp: state_of_def effects_of_def fun_eq_iff)
  show "state_of (snd (registerEffect l td k)) l' = state_of k l'"
    "effects_of (snd (registerEffect l td k)) l' =
      (if l' = l then effects_of k l @ [Registered (k_next k) td] else effects_of k l')"
    by (simp_all add: registerEffect_def s)
qed (simp_all add: registerEffect_def)

lemma registerEffect_grows: "has_layer k l \<Longrightarrow> grows k (snd (registerEffect l td k))"
  by (auto simp: grows_def)

lemma registerEffect_layers: "layers_ok k \<Longrightarrow> has_layer k l \<Longrightarrow> state_of k l \<noteq> Disposed \<Longrightarrow>
    layers_ok (snd (registerEffect l td k))"
  by (auto simp: layers_ok_def less_Suc_eq)

lemma registerEffect_effects: "effects_ok k \<Longrightarrow> effects_ok (snd (registerEffect l td k))"
  by (fastforce simp: effects_ok_def less_Suc_eq split: if_splits)

lemma registerEffect_disposer:
  "effects_ok k \<Longrightarrow> has_layer k l \<Longrightarrow> disposer_ok (fst (registerEffect l td k)) (snd (registerEffect l td k))"
  by (fastforce simp: effects_ok_def disposer_ok_def split: if_splits)

lemma registerEffect_has: "has_layer k l \<Longrightarrow> has_effect (snd (registerEffect l td k)) l td"
  by (auto simp: has_effect_def)


subsection \<open>What an operation leaves alone\<close>

lemma listeners_frame:
  "listeners_ok k \<Longrightarrow> grows k k' \<Longrightarrow> k_listeners k' = k_listeners k \<Longrightarrow> listeners_ok k'"
  unfolding listeners_ok_def using entries_ok_grows by metis

lemma chains_frame:
  assumes "chains_ok k" "grows k k'" "k_chains k' = k_chains k"
  shows "chains_ok k'"
  using assms entries_ok_grows [OF assms(2)] unfolding chains_ok_def grows_def
  by (metis order_less_le_trans)

lemma tables_frame:
  assumes "tables_ok k" "grows k k'" "k_services k' = k_services k" "k_tables k' = k_tables k"
  shows "tables_ok k'"
proof -
  have "table_of k' = table_of k" using assms(4) by (simp add: table_of_def fun_eq_iff)
  then show ?thesis
    using assms has_effect_grows [OF assms(2)] unfolding tables_ok_def grows_def
    by (metis order_less_le_trans)
qed

lemma findVisibleEntry_cong:
  assumes "k_services k' = k_services k" "k_tables k' = k_tables k" "chainSet k' l = chainSet k l"
  shows "findVisibleEntry k' token l = findVisibleEntry k token l"
proof -
  have "table_of k' = table_of k" using assms(2) by (simp add: table_of_def fun_eq_iff)
  then show ?thesis using assms by (simp add: findVisibleEntry_def split: option.split)
qed

lemma waiters_frame:
  assumes "waiters_ok k" "layers_ok k" "grows k k'" "k_waiters k' = k_waiters k"
    and "k_services k' = k_services k" "k_tables k' = k_tables k"
    and "\<And>l. has_layer k l \<Longrightarrow> state_of k' l = state_of k l"
  shows "waiters_ok k'"
proof -
  have "chainSet k' l = chainSet k l" if "has_layer k l" for l
    using chainSet_old [OF assms(2) _ that, of k'] assms(3) by (auto simp: grows_def)
  then show ?thesis
    using assms findVisibleEntry_cong [OF assms(5,6)]
    unfolding waiters_ok_def grows_def by (metis order_less_le_trans)
qed

subsection \<open>on\<close>

lemma on_token_Inr:
  "on_token token fn prepend l k = Inr (d, k') \<longleftrightarrow>
     state_of k l = Live \<and> tk_kind token \<noteq> ''service'' \<and>
     (\<exists>mode. tk_mode token = Some mode \<and>
        (d, k') = registerEffect l (ListenerOff token (k_next k))
          (k\<lparr>k_listeners := map_set (k_listeners k) token
               (insertByLayerDepth (entry_depth k) (entries_of k token)
                 \<lparr>en_ref = k_next k, en_layer = l, en_mode = mode, en_fn = fn\<rparr> prepend),
             k_next := Suc (k_next k)\<rparr>))"
  by (auto simp: on_token_def assertLive_def Let_def split: option.split)

lemma same_effects [simp]:
  "effects_of (k\<lparr>k_services := a\<rparr>) = effects_of k" "effects_of (k\<lparr>k_tables := b\<rparr>) = effects_of k"
  "effects_of (k\<lparr>k_listeners := c\<rparr>) = effects_of k" "effects_of (k\<lparr>k_chains := d\<rparr>) = effects_of k"
  "effects_of (k\<lparr>k_waiters := e\<rparr>) = effects_of k" "effects_of (k\<lparr>k_settled := f\<rparr>) = effects_of k"
  "effects_of (k\<lparr>k_next := n\<rparr>) = effects_of k" "effects_of (k\<lparr>k_later := g\<rparr>) = effects_of k"
  by (auto simp: effects_of_def fun_eq_iff)

lemma same_state [simp]:
  "state_of (k\<lparr>k_services := a\<rparr>) = state_of k" "state_of (k\<lparr>k_tables := b\<rparr>) = state_of k"
  "state_of (k\<lparr>k_listeners := c\<rparr>) = state_of k" "state_of (k\<lparr>k_chains := d\<rparr>) = state_of k"
  "state_of (k\<lparr>k_waiters := e\<rparr>) = state_of k" "state_of (k\<lparr>k_settled := f\<rparr>) = state_of k"
  "state_of (k\<lparr>k_next := n\<rparr>) = state_of k" "state_of (k\<lparr>k_later := g\<rparr>) = state_of k"
  by (auto simp: state_of_def fun_eq_iff)

lemma layers_ok_later:
  assumes "layers_ok k" "has_layer k' = has_layer k" "layer_of k' = layer_of k" "k_next k \<le> k_next k'"
  shows "layers_ok k'"
  using assms unfolding layers_ok_def state_of_def effects_of_def by (metis order_less_le_trans)

lemma effects_ok_later:
  assumes "effects_ok k" "layer_of k' = layer_of k" "k_next k \<le> k_next k'"
  shows "effects_ok k'"
  using assms unfolding effects_ok_def effects_of_def by (metis order_less_le_trans)

text \<open>Registering under a new number, after writing to a part of the state that is not about layers.\<close>

lemma register_step:
  assumes "layers_ok k" "effects_ok k" "has_layer k l" "state_of k l = Live"
    and k1: "has_layer k1 = has_layer k" "layer_of k1 = layer_of k" "k_next k \<le> k_next k1"
    and d: "(d, k') = registerEffect l td k1"
  shows "layers_ok k'" "effects_ok k'" "disposer_ok d k'" "grows k k'" "has_effect k' l td"
    and "\<And>l. state_of k' l = state_of k l" "k_next k1 < k_next k'"
proof -
  have k': "k' = snd (registerEffect l td k1)" "d = fst (registerEffect l td k1)" using d by (metis fst_conv snd_conv)+
  have s: "state_of k1 = state_of k" "effects_of k1 = effects_of k"
    using k1(2) by (auto simp: state_of_def effects_of_def fun_eq_iff)
  have l: "layers_ok k1" "effects_ok k1"
    using layers_ok_later [OF assms(1) k1] effects_ok_later [OF assms(2) k1(2,3)] .
  have h: "has_layer k1 l" "state_of k1 l \<noteq> Disposed" using assms(3,4) k1(1) s by simp_all
  show "layers_ok k'" "effects_ok k'" "has_effect k' l td"
    unfolding k' using registerEffect_layers [OF l(1) h] registerEffect_effects [OF l(2)] registerEffect_has [OF h(1)]
    by simp_all
  show "disposer_ok d k'" unfolding k' by (rule registerEffect_disposer [OF l(2) h(1)])
  show "grows k k'" using registerEffect_grows [of k1 l td] k1 assms(3) s unfolding k' by (simp add: grows_def)
  show "state_of k' x = state_of k x" for x unfolding k' using s by simp
  show "k_next k1 < k_next k'" unfolding k' by simp
qed

lemma entries_of_ok:
  assumes "listeners_ok k"
  shows "entries_ok k (ListenerOff token) (entries_of k token)"
  using assms by (auto simp: listeners_ok_def entries_of_def entries_ok_def split: option.splits)

lemma fresh_entry: "entries_ok k td es \<Longrightarrow> k_next k \<notin> en_ref ` set es"
  by (auto simp: entries_ok_def)

lemma on_token_ok:
  assumes "kernel_ok k" "has_layer k l" "on_token token fn prepend l k = Inr (d, k')"
  shows "kernel_ok k'" "disposer_ok d k'" "grows k k'"
proof -
  have ok: "layers_ok k" "effects_ok k" "listeners_ok k" "chains_ok k" "tables_ok k" "waiters_ok k"
    using assms(1) by (auto simp: kernel_ok_def)
  obtain mode where live: "state_of k l = Live" and d: "(d, k') = registerEffect l (ListenerOff token (k_next k))
      (k\<lparr>k_listeners := map_set (k_listeners k) token
           (insertByLayerDepth (entry_depth k) (entries_of k token)
             \<lparr>en_ref = k_next k, en_layer = l, en_mode = mode, en_fn = fn\<rparr> prepend),
         k_next := Suc (k_next k)\<rparr>)" (is "_ = registerEffect l ?td ?k1")
    using assms(3) by (auto simp: on_token_Inr)
  note step = register_step [OF ok(1,2) assms(2) live _ _ _ d]
  have g: "layers_ok k'" "effects_ok k'" "disposer_ok d k'" "grows k k'" "has_effect k' l ?td"
    "\<And>l. state_of k' l = state_of k l" "Suc (k_next k) < k_next k'"
    using step by simp_all
  have k': "k' = snd (registerEffect l ?td ?k1)" using d by (metis snd_conv)
  have f: "k_chains k' = k_chains k" "k_services k' = k_services k" "k_tables k' = k_tables k"
    "k_waiters k' = k_waiters k" unfolding k' by simp_all
  have "entries_ok k' (ListenerOff token)
      (insertByLayerDepth (entry_depth k) (entries_of k token)
        \<lparr>en_ref = k_next k, en_layer = l, en_mode = mode, en_fn = fn\<rparr> prepend)"
    by (rule entries_ok_insert [OF g(4) entries_of_ok [OF ok(3)]])
      (use g(5,7) fresh_entry [OF entries_of_ok [OF ok(3)]] assms(2) in auto)
  moreover have "k_listeners k' = map_set (k_listeners k) token (insertByLayerDepth (entry_depth k)
      (entries_of k token) \<lparr>en_ref = k_next k, en_layer = l, en_mode = mode, en_fn = fn\<rparr> prepend)"
    unfolding k' by simp
  ultimately have "listeners_ok k'"
    using ok(3) entries_ok_grows [OF g(4)] by (auto simp: listeners_ok_def js_map.get_put)
  then show "kernel_ok k'"
    unfolding kernel_ok_def
    using g(1,2) chains_frame [OF ok(4) g(4) f(1)] tables_frame [OF ok(5) g(4) f(2,3)]
      waiters_frame [OF ok(6,1) g(4) f(4,2,3) g(6)] by simp
  show "disposer_ok d k'" "grows k k'" using g by auto
qed


subsection \<open>Chains\<close>

lemma onChain_Inr:
  "onChain c fn prepend l k = Inr (d, k') \<longleftrightarrow>
     state_of k l = Live \<and>
     (\<exists>es. map_get (k_chains k) c = Some es \<and>
        (d, k') = registerEffect l (ChainOff c (k_next k))
          (k\<lparr>k_chains := map_set (k_chains k) c
               (insertByLayerDepth (entry_depth k) es
                 \<lparr>en_ref = k_next k, en_layer = l, en_mode = ''chain'', en_fn = fn\<rparr> prepend),
             k_next := Suc (k_next k)\<rparr>))"
  by (auto simp: onChain_def assertLive_def Let_def split: option.split)

lemma onChain_ok:
  assumes "kernel_ok k" "has_layer k l" "onChain c fn prepend l k = Inr (d, k')"
  shows "kernel_ok k'" "disposer_ok d k'" "grows k k'"
proof -
  have ok: "layers_ok k" "effects_ok k" "listeners_ok k" "chains_ok k" "tables_ok k" "waiters_ok k"
    using assms(1) by (auto simp: kernel_ok_def)
  obtain es where live: "state_of k l = Live" and es: "map_get (k_chains k) c = Some es"
    and d: "(d, k') = registerEffect l (ChainOff c (k_next k))
      (k\<lparr>k_chains := map_set (k_chains k) c
           (insertByLayerDepth (entry_depth k) es
             \<lparr>en_ref = k_next k, en_layer = l, en_mode = ''chain'', en_fn = fn\<rparr> prepend),
         k_next := Suc (k_next k)\<rparr>)" (is "_ = registerEffect l ?td ?k1")
    using assms(3) by (auto simp: onChain_Inr)
  note step = register_step [OF ok(1,2) assms(2) live _ _ _ d]
  have g: "layers_ok k'" "effects_ok k'" "disposer_ok d k'" "grows k k'" "has_effect k' l ?td"
    "\<And>l. state_of k' l = state_of k l" "Suc (k_next k) < k_next k'"
    using step by simp_all
  have k': "k' = snd (registerEffect l ?td ?k1)" using d by (metis snd_conv)
  have f: "k_listeners k' = k_listeners k" "k_services k' = k_services k" "k_tables k' = k_tables k"
    "k_waiters k' = k_waiters k" unfolding k' by simp_all
  have eo: "entries_ok k (ChainOff c) es" "c < k_next k" using ok(4) es by (auto simp: chains_ok_def)
  have "entries_ok k' (ChainOff c)
      (insertByLayerDepth (entry_depth k) es
        \<lparr>en_ref = k_next k, en_layer = l, en_mode = ''chain'', en_fn = fn\<rparr> prepend)"
    by (rule entries_ok_insert [OF g(4) eo(1)]) (use g(5,7) fresh_entry [OF eo(1)] assms(2) in auto)
  moreover have "k_chains k' = map_set (k_chains k) c (insertByLayerDepth (entry_depth k)
      es \<lparr>en_ref = k_next k, en_layer = l, en_mode = ''chain'', en_fn = fn\<rparr> prepend)"
    unfolding k' by simp
  ultimately have "chains_ok k'"
    using ok(4) entries_ok_grows [OF g(4)] g(7) eo(2)
    by (fastforce simp: chains_ok_def js_map.get_put split: if_splits)
  then show "kernel_ok k'"
    unfolding kernel_ok_def
    using g(1,2) listeners_frame [OF ok(3) g(4) f(1)] tables_frame [OF ok(5) g(4) f(2,3)]
      waiters_frame [OF ok(6,1) g(4) f(4,2,3) g(6)] by simp
  show "disposer_ok d k'" "grows k k'" using g by auto
qed

text \<open>Writing that leaves the layers alone.\<close>

lemma same_layers_grows:
  "has_layer k' = has_layer k \<Longrightarrow> layer_of k' = layer_of k \<Longrightarrow> k_next k \<le> k_next k' \<Longrightarrow> grows k k'"
  by (simp add: grows_def effects_of_def)

lemma createChain_ok:
  assumes "kernel_ok k" "createChain l k = Inr (c, k')"
  shows "kernel_ok k'" "grows k k'"
proof -
  have ok: "layers_ok k" "effects_ok k" "listeners_ok k" "chains_ok k" "tables_ok k" "waiters_ok k"
    using assms(1) by (auto simp: kernel_ok_def)
  have k': "k' = k\<lparr>k_chains := map_set (k_chains k) (k_next k) [], k_next := Suc (k_next k)\<rparr>"
    using assms(2) by (auto simp: createChain_def assertLive_def split: if_splits)
  have h: "has_layer k' = has_layer k" "layer_of k' = layer_of k" "k_next k \<le> k_next k'" by (simp_all add: k')
  note g = same_layers_grows [OF h]
  have f: "k_listeners k' = k_listeners k" "k_services k' = k_services k" "k_tables k' = k_tables k"
    "k_waiters k' = k_waiters k" by (simp_all add: k')
  have "chains_ok k'"
    using ok(4) entries_ok_grows [OF g] unfolding chains_ok_def k'
    by (fastforce simp: js_map.get_put entries_ok_def split: if_splits)
  then show "kernel_ok k'"
    unfolding kernel_ok_def
    using layers_ok_later [OF ok(1) h] effects_ok_later [OF ok(2) h(2,3)] listeners_frame [OF ok(3) g f(1)]
      tables_frame [OF ok(5) g f(2,3)] waiters_frame [OF ok(6,1) g f(4,2,3)] h(2) by (simp add: state_of_def)
  show "grows k k'" by (rule g)
qed

subsection \<open>effect, scope, waitFor\<close>

lemma effect_raw_ok:
  assumes "kernel_ok k" "has_layer k l" "effect_raw fn l k = Inr k'"
  shows "kernel_ok k'" "grows k k'"
proof -
  have ok: "layers_ok k" "effects_ok k" "listeners_ok k" "chains_ok k" "tables_ok k" "waiters_ok k"
    using assms(1) by (auto simp: kernel_ok_def)
  have k': "state_of k l = Live" "k' = set_effects l (effects_of k l @ [RawEffect fn]) k"
    using assms(3) by (auto simp: effect_raw_def assertLive_def split: if_splits)
  have g: "grows k k'" using assms(2) by (auto simp: grows_def k')
  have l: "layers_ok k'" using ok(1) assms(2) k'(1) by (auto simp: layers_ok_def k')
  have "Registered r td \<in> set (effects_of k' x) \<longleftrightarrow> Registered r td \<in> set (effects_of k x)" for r td x
    by (auto simp: k')
  then have e: "effects_ok k'" using ok(2) by (simp add: effects_ok_def k')
  show "kernel_ok k'"
    unfolding kernel_ok_def
    using l e listeners_frame [OF ok(3) g] chains_frame [OF ok(4) g] tables_frame [OF ok(5) g]
      waiters_frame [OF ok(6,1) g] by (simp add: k')
  show "grows k k'" by (rule g)
qed

lemma scope_ok:
  assumes "kernel_ok k" "has_layer k l" "scope agent l k = Inr (c, k')"
  shows "kernel_ok k'" "grows k k'" "has_layer k' c" "ly_parent (layer_of k' c) = Some l" "state_of k' c = Live"
    and "findVisibleEntry k' token c = findVisibleEntry k token l"
proof -
  have ok: "layers_ok k" "effects_ok k" "listeners_ok k" "chains_ok k" "tables_ok k" "waiters_ok k"
    using assms(1) by (auto simp: kernel_ok_def)
  define child :: "('a, 'b) layer" where "child = \<lparr>ly_parent = Some l, ly_depth = Suc (ly_depth (layer_of k l)),
    ly_filter = Some agent, ly_effects = [], ly_state = Live\<rparr>"
  have k': "state_of k l = Live" "c = k_next k"
    "k' = set_effects l (effects_of k l @ [ChildScope (k_next k)])
        (k\<lparr>k_layers := map_set (k_layers k) (k_next k) child, k_next := Suc (k_next k)\<rparr>)"
    using assms(3) by (auto simp: scope_def assertLive_def Let_def child_def split: if_splits)
  have new: "\<not> has_layer k (k_next k)" using ok(1) by (auto simp: layers_ok_def)
  have lk: "l \<noteq> k_next k" using new assms(2) by blast
  have ly: "layer_of (k\<lparr>k_layers := map_set (k_layers k) (k_next k) child\<rparr>) x =
      (if x = k_next k then child else layer_of k x)"
    "has_layer (k\<lparr>k_layers := map_set (k_layers k) (k_next k) child\<rparr>) x \<longleftrightarrow> x = k_next k \<or> has_layer k x" for x
    by (auto simp: layer_of_def has_layer_def js_map.get_put)
  have cf: "ly_parent child = Some l" "ly_depth child = Suc (ly_depth (layer_of k l))" "ly_effects child = []"
    "ly_state child = Live" by (simp_all add: child_def)
  have le: "effects_of (k\<lparr>k_layers := map_set (k_layers k) (k_next k) child\<rparr>) x =
      (if x = k_next k then [] else effects_of k x)"
    "state_of (k\<lparr>k_layers := map_set (k_layers k) (k_next k) child\<rparr>) x =
      (if x = k_next k then Live else state_of k x)" for x
    by (simp_all add: effects_of_def state_of_def ly cf)
  have es: "effects_of k' x = (if x = l then effects_of k l @ [ChildScope (k_next k)]
      else if x = k_next k then [] else effects_of k x)"
    "state_of k' x = (if x = k_next k then Live else state_of k x)"
    "has_layer k' x \<longleftrightarrow> x = k_next k \<or> has_layer k x"
    "ly_parent (layer_of k' x) = (if x = k_next k then Some l else ly_parent (layer_of k x))"
    "ly_depth (layer_of k' x) = (if x = k_next k then Suc (ly_depth (layer_of k l)) else ly_depth (layer_of k x))"
    "k_next k' = Suc (k_next k)" for x
    unfolding k' using assms(2) lk by (auto simp: ly cf le)
  have g: "grows k k'" using new assms(2) by (auto simp: grows_def es)
  have l: "layers_ok k'" using ok(1) assms(2) k'(1) lk new by (auto simp: layers_ok_def es less_Suc_eq)
  have e0: "effects_of k (k_next k) = []"
    using new by (simp add: effects_of_def layer_of_def has_layer_def root_layer_def split: option.split)
  have "Registered r td \<in> set (effects_of k' x) \<longleftrightarrow> Registered r td \<in> set (effects_of k x)" for r td x
    using e0 by (auto simp: es)
  then have e: "effects_ok k'" using ok(2) by (auto simp: effects_ok_def es(6) less_Suc_eq)
  have f: "k_listeners k' = k_listeners k" "k_services k' = k_services k" "k_tables k' = k_tables k"
    "k_waiters k' = k_waiters k" "k_chains k' = k_chains k" by (simp_all add: k')
  have st: "has_layer k x \<Longrightarrow> state_of k' x = state_of k x" for x using new by (auto simp: es)
  show "kernel_ok k'"
    unfolding kernel_ok_def
    using l e listeners_frame [OF ok(3) g f(1)] chains_frame [OF ok(4) g f(5)] tables_frame [OF ok(5) g f(2,3)]
      waiters_frame [OF ok(6,1) g f(4,2,3) st] by simp
  show "grows k k'" "has_layer k' c" "ly_parent (layer_of k' c) = Some l" "state_of k' c = Live"
    using g k'(2) by (simp_all add: es)
  have "chainSet k' c = c # chainSet k' l" using chainSet_unfold [OF l, of c] k'(2) by (simp add: es)
  moreover have "chainSet k' l = chainSet k l"
    by (rule chainSet_old [OF ok(1) _ assms(2)]) (use g in \<open>simp add: grows_def\<close>)
  moreover have "map_get (table_of k t) c = None" if "map_get (k_services k) token = Some t" for t
  proof (rule ccontr)
    assume "map_get (table_of k t) c \<noteq> None"
    then show False using ok(5) that new k'(2) by (auto simp: tables_ok_def has_effect_def)
  qed
  ultimately show "findVisibleEntry k' token c = findVisibleEntry k token l"
    by (auto simp: findVisibleEntry_def f table_of_def split: option.split)
qed

lemma waitFor_ok:
  assumes "kernel_ok k" "has_layer k l" "waitFor token l k = (p, k')"
  shows "kernel_ok k'" "grows k k'"
proof -
  have ok: "layers_ok k" "effects_ok k" "listeners_ok k" "chains_ok k" "tables_ok k" "waiters_ok k"
    using assms(1) by (auto simp: kernel_ok_def)
  let ?k = "k\<lparr>k_waiters := k_waiters k @ [\<lparr>w_ref = k_next k, w_token = token, w_layer = l\<rparr>], k_next := Suc (k_next k)\<rparr>"
  have h: "has_layer ?k = has_layer k" "layer_of ?k = layer_of k" "k_next k \<le> k_next ?k" by simp_all
  note g = same_layers_grows [OF h]
  consider "k' = k" | "k' = ?k" "state_of k l = Live" "findVisibleEntry k token l = None"
    using assms(3) by (auto simp: waitFor_def split: if_splits option.splits)
  then have "kernel_ok k' \<and> grows k k'"
  proof cases
    case 2
    have fv: "findVisibleEntry ?k a x = findVisibleEntry k a x" for a x
      by (rule findVisibleEntry_cong) (simp_all add: chainSet_cong [of ?k k])
    have "waiters_ok ?k"
      using ok(6) 2(2,3) assms(2) unfolding waiters_ok_def fv by (auto simp: less_Suc_eq)
    then show ?thesis
      unfolding kernel_ok_def 2(1)
      using g layers_ok_later [OF ok(1) h] effects_ok_later [OF ok(2) h(2,3)] listeners_frame [OF ok(3) g]
        chains_frame [OF ok(4) g] tables_frame [OF ok(5) g] by simp
  qed (use assms(1) in \<open>simp add: grows_def\<close>)
  then show "kernel_ok k'" "grows k k'" by simp_all
qed


subsection \<open>Services\<close>

definition provided :: "('v, 'f) kernel \<Rightarrow> token \<Rightarrow> nat \<Rightarrow> 'v option" where
  \<comment> \<open>what a layer itself provides: the abstract state of the services\<close>
  "provided k token l = (case map_get (k_services k) token of None \<Rightarrow> None | Some t \<Rightarrow> map_get (table_of k t) l)"

lemma first_some_const: "first_some (\<lambda>_. None) xs = None"
  by simp

lemma findVisibleEntry_provided: "findVisibleEntry k token l = first_some (provided k token) (chainSet k l)"
  by (cases "map_get (k_services k) token") (simp_all add: findVisibleEntry_def provided_def [abs_def] first_some_const)

lemma first_some_cong: "(\<And>x. x \<in> set xs \<Longrightarrow> f x = g x) \<Longrightarrow> first_some f xs = first_some g xs"
  by (induction xs) (auto split: option.split)

lemma table_of_simps [simp]:
  "table_of (write_table t m k) t' = (if t' = t then m else table_of k t')"
  "table_of (k\<lparr>k_services := a\<rparr>) t' = table_of k t'"
  "table_of (k\<lparr>k_next := n\<rparr>) t' = table_of k t'"
  "table_of (snd (registerEffect l td k)) t' = table_of k t'"
  by (auto simp: table_of_def write_table_def js_map.get_put)

lemma write_table_simps [simp]:
  "layer_of (write_table t m k) = layer_of k" "has_layer (write_table t m k) = has_layer k"
  "k_next (write_table t m k) = k_next k" "k_services (write_table t m k) = k_services k"
  "k_listeners (write_table t m k) = k_listeners k" "k_chains (write_table t m k) = k_chains k"
  "k_waiters (write_table t m k) = k_waiters k" "k_settled (write_table t m k) = k_settled k"
  by (simp_all add: write_table_def)

text \<open>Settling: who is resolved, and with what.\<close>

definition resolves :: "token \<Rightarrow> nat \<Rightarrow> ('v, 'f) kernel \<Rightarrow> waiter \<Rightarrow> bool" where
  "resolves token l k w \<longleftrightarrow>
     w_token w = token \<and> l \<in> set (chainSet k (w_layer w)) \<and> findVisibleEntry k token (w_layer w) \<noteq> None"

lemma settle_fold:
  "fold (settle_waiter token l) ws k =
     k\<lparr>k_waiters := filter (\<lambda>w. \<not> (w \<in> set ws \<and> resolves token l k w)) (k_waiters k),
       k_settled := k_settled k @
         map (\<lambda>w. (w_ref w, Inr (the (findVisibleEntry k token (w_layer w))))) (filter (resolves token l k) ws)\<rparr>"
proof (induction ws arbitrary: k)
  case (Cons w ws)
  let ?k = "k\<lparr>k_waiters := filter (\<lambda>x. x \<noteq> w) (k_waiters k),
              k_settled := k_settled k @ [(w_ref w, Inr (the (findVisibleEntry k token (w_layer w))))]\<rparr>"
  have c: "chainSet ?k x = chainSet k x" "findVisibleEntry ?k token x = findVisibleEntry k token x" for x
  proof -
    show "chainSet ?k x = chainSet k x" by (rule chainSet_cong) simp
    then show "findVisibleEntry ?k token x = findVisibleEntry k token x" by (intro findVisibleEntry_cong) simp_all
  qed
  then have r: "resolves token l ?k = resolves token l k" by (simp add: resolves_def fun_eq_iff)
  show ?case
  proof (cases "resolves token l k w")
    case True
    then have "settle_waiter token l w k = ?k" by (auto simp: settle_waiter_def resolves_def)
    then have "fold (settle_waiter token l) (w # ws) k = fold (settle_waiter token l) ws ?k" by simp
    also have "\<dots> = ?k\<lparr>k_waiters := filter (\<lambda>x. \<not> (x \<in> set ws \<and> resolves token l k x)) (k_waiters ?k),
       k_settled := k_settled ?k @
         map (\<lambda>w. (w_ref w, Inr (the (findVisibleEntry k token (w_layer w))))) (filter (resolves token l k) ws)\<rparr>"
      unfolding Cons.IH r c ..
    finally show ?thesis using True by (simp add: conj_commute) (rule arg_cong [where f = "\<lambda>x. k\<lparr>k_waiters := x, k_settled := _\<rparr>"], rule filter_cong, auto)
  next
    case False
    then have "settle_waiter token l w k = k" by (auto simp: settle_waiter_def resolves_def split: option.split)
    then have "fold (settle_waiter token l) (w # ws) k = fold (settle_waiter token l) ws k" by simp
    also have "\<dots> = k\<lparr>k_waiters := filter (\<lambda>x. \<not> (x \<in> set ws \<and> resolves token l k x)) (k_waiters k),
       k_settled := k_settled k @
         map (\<lambda>w. (w_ref w, Inr (the (findVisibleEntry k token (w_layer w))))) (filter (resolves token l k) ws)\<rparr>"
      by (rule Cons.IH)
    moreover have "filter (\<lambda>x. \<not> (x \<in> set ws \<and> resolves token l k x)) (k_waiters k) =
        filter (\<lambda>x. \<not> (x \<in> set (w # ws) \<and> resolves token l k x)) (k_waiters k)"
      using False by (intro filter_cong) auto
    ultimately show ?thesis using False by simp
  qed
qed simp

lemma settleWaiters_simps [simp]:
  "layer_of (settleWaiters token l k) = layer_of k" "has_layer (settleWaiters token l k) = has_layer k"
  "k_next (settleWaiters token l k) = k_next k" "k_services (settleWaiters token l k) = k_services k"
  "k_tables (settleWaiters token l k) = k_tables k" "table_of (settleWaiters token l k) = table_of k"
  "k_listeners (settleWaiters token l k) = k_listeners k" "k_chains (settleWaiters token l k) = k_chains k"
  "k_waiters (settleWaiters token l k) = filter (\<lambda>w. \<not> resolves token l k w) (k_waiters k)"
  by (simp_all add: settleWaiters_def settle_fold table_of_def fun_eq_iff cong: filter_cong)


lemma provide_core_Inr:
  "provide_core token impl l k = Inr (d, k') \<longleftrightarrow>
     state_of k l = Live \<and> tk_kind token = ''service'' \<and>
     (\<exists>t k0. service_table token k = (t, k0) \<and> map_get (table_of k0 t) l = None \<and>
        (d, k') = registerEffect l (ServiceOff token t l impl)
          (settleWaiters token l (write_table t (map_set (table_of k0 t) l impl) k0)))"
  by (auto simp: provide_core_def assertLive_def map_has_get split: prod.split)

lemma service_table_cases:
  assumes "tables_ok k" "service_table token k = (t, k0)"
  shows "has_layer k0 = has_layer k" "layer_of k0 = layer_of k" "k_next k \<le> k_next k0" "t < k_next k0"
    and "k_listeners k0 = k_listeners k" "k_chains k0 = k_chains k" "k_waiters k0 = k_waiters k"
    and "map_get (k_services k0) token = Some t" "provided k0 = provided k"
    and "map_get (k_services k0) token' = Some t \<Longrightarrow> token' = token"
    and "token' \<noteq> token \<Longrightarrow> map_get (k_services k0) token' = map_get (k_services k) token'"
    and "t' \<noteq> t \<Longrightarrow> table_of k0 t' = table_of k t'"
    and "map_get (table_of k0 t) l = Some v \<Longrightarrow> map_get (k_services k) token = Some t \<and> map_get (table_of k t) l = Some v"
proof -
  consider "map_get (k_services k) token = Some t" "k0 = k"
    | "map_get (k_services k) token = None" "t = k_next k"
      "k0 = k\<lparr>k_services := map_set (k_services k) token t, k_tables := map_set (k_tables k) t [], k_next := Suc t\<rparr>"
    using assms(2) by (auto simp: service_table_def split: option.splits)
  note c = this
  have t: "map_get (k_services k) token'' = Some t'' \<Longrightarrow> t'' < k_next k" for token'' t''
    using assms(1) by (auto simp: tables_ok_def)
  show "has_layer k0 = has_layer k" "layer_of k0 = layer_of k" "k_next k \<le> k_next k0" "t < k_next k0"
    "k_listeners k0 = k_listeners k" "k_chains k0 = k_chains k" "k_waiters k0 = k_waiters k"
    "map_get (k_services k0) token = Some t"
    by (rule c; use t in simp)+
  show "provided k0 = provided k"
  proof (rule c)
    assume n: "map_get (k_services k) token = None" "t = k_next k"
      "k0 = k\<lparr>k_services := map_set (k_services k) token t, k_tables := map_set (k_tables k) t [], k_next := Suc t\<rparr>"
    have "provided k0 a b = provided k a b" for a b
      using t [of a] n
      by (auto simp: provided_def table_of_def js_map.get_put map_get_def [of "[]"] split: option.splits)
    then show ?thesis by (simp add: fun_eq_iff)
  qed simp
  show "map_get (k_services k0) token' = Some t \<Longrightarrow> token' = token"
    by (rule c) (use assms(1) t in \<open>auto simp: tables_ok_def js_map.get_put split: if_splits\<close>)
  show "token' \<noteq> token \<Longrightarrow> map_get (k_services k0) token' = map_get (k_services k) token'"
    "t' \<noteq> t \<Longrightarrow> table_of k0 t' = table_of k t'"
    by (rule c; simp add: js_map.get_put table_of_def)+
  show "map_get (table_of k0 t) l = Some v \<Longrightarrow> map_get (k_services k) token = Some t \<and> map_get (table_of k t) l = Some v"
    by (rule c) (simp_all add: js_map.get_put table_of_def map_get_def [of "[]"])
qed

lemma provided_write:
  assumes "map_get (k_services k) token = Some t" "\<And>a. map_get (k_services k) a = Some t \<Longrightarrow> a = token"
  shows "provided (write_table t (map_set (table_of k t) l v) k) a b =
    (if a = token \<and> b = l then Some v else provided k a b)"
proof (cases "a = token")
  case False
  then have "map_get (k_services k) a \<noteq> Some t" using assms(2) by blast
  then show ?thesis using False by (auto simp: provided_def split: option.split)
qed (simp add: provided_def js_map.get_put assms(1))

lemma provided_cong:
  "k_services k' = k_services k \<Longrightarrow> table_of k' = table_of k \<Longrightarrow> provided k' = provided k"
  by (simp add: provided_def fun_eq_iff split: option.split)

lemma find_after_provide:
  assumes "\<And>a b. provided k' a b = (if a = token \<and> b = l then Some v else provided k a b)"
    and "chainSet k' m = chainSet k m"
  shows "findVisibleEntry k' token m \<noteq> None \<longleftrightarrow> l \<in> set (chainSet k m) \<or> findVisibleEntry k token m \<noteq> None"
    and "a \<noteq> token \<or> l \<notin> set (chainSet k m) \<Longrightarrow> findVisibleEntry k' a m = findVisibleEntry k a m"
proof -
  show "findVisibleEntry k' token m \<noteq> None \<longleftrightarrow> l \<in> set (chainSet k m) \<or> findVisibleEntry k token m \<noteq> None"
    using assms by (auto simp: findVisibleEntry_provided)
  show "a \<noteq> token \<or> l \<notin> set (chainSet k m) \<Longrightarrow> findVisibleEntry k' a m = findVisibleEntry k a m"
    unfolding findVisibleEntry_provided assms(2) by (rule first_some_cong) (auto simp: assms(1))
qed

lemma provide_core_ok:
  assumes "kernel_ok k" "has_layer k l" "provide_core token impl l k = Inr (d, k')"
  shows "kernel_ok k'" "disposer_ok d k'" "grows k k'"
    and "provided k' a b = (if a = token \<and> b = l then Some impl else provided k a b)"
proof -
  have ok: "layers_ok k" "effects_ok k" "listeners_ok k" "chains_ok k" "tables_ok k" "waiters_ok k"
    using assms(1) by (auto simp: kernel_ok_def)
  obtain t k0 where live: "state_of k l = Live" and st: "service_table token k = (t, k0)"
    and free: "map_get (table_of k0 t) l = None"
    and d: "(d, k') = registerEffect l (ServiceOff token t l impl)
      (settleWaiters token l (write_table t (map_set (table_of k0 t) l impl) k0))"
    (is "_ = registerEffect l ?td (settleWaiters token l ?k1)")
    using assms(3) by (auto simp: provide_core_Inr)
  note c = service_table_cases [OF ok(5) st]
  have k1: "has_layer (settleWaiters token l ?k1) = has_layer k" "layer_of (settleWaiters token l ?k1) = layer_of k"
    "k_next k \<le> k_next (settleWaiters token l ?k1)" using c(1-3) by simp_all
  note g = register_step [OF ok(1,2) assms(2) live k1 d]
  have k': "k' = snd (registerEffect l ?td (settleWaiters token l ?k1))" using d by (metis snd_conv)
  have f: "k_listeners k' = k_listeners k" "k_chains k' = k_chains k" "k_services k' = k_services k0"
    "table_of k' = table_of ?k1" unfolding k' using c(5,6) by (simp_all add: fun_eq_iff)
  have p1: "provided ?k1 a b = (if a = token \<and> b = l then Some impl else provided k a b)" for a b
    using provided_write [OF c(8,10), of l impl a b] c(9) by simp
  have p: "provided k' a b = (if a = token \<and> b = l then Some impl else provided k a b)" for a b
    using p1 provided_cong [of k' ?k1] f by simp
  have ch: "chainSet ?k1 m = chainSet k m" for m by (rule chainSet_cong) (simp add: c(2))
  have chk: "chainSet k' m = chainSet k m" if "has_layer k m" for m
    by (rule chainSet_old [OF ok(1) _ that]) (use g(4) in \<open>simp add: grows_def\<close>)
  have "tables_ok k'"
    unfolding tables_ok_def
  proof (intro allI impI conjI)
    fix tok u assume u: "map_get (k_services k') tok = Some u"
    then have u0: "map_get (k_services k0) tok = Some u" using f by simp
    have old: "tok \<noteq> token \<Longrightarrow> map_get (k_services k) tok = Some u" using u0 c(11) by simp
    have same: "tok = token \<Longrightarrow> u = t" using u0 c(8) by simp
    show "u < k_next k'"
    proof (cases "tok = token")
      case True
      then show ?thesis using same c(4) g(7) by simp
    next
      case False
      then have "u < k_next k" using old ok(5) by (simp add: tables_ok_def)
      then show ?thesis using g(4) by (simp add: grows_def)
    qed
    show "tok' = tok" if "map_get (k_services k') tok' = Some u" for tok'
    proof (cases "u = t")
      case True
      then have "tok' = token" using c(10) [of tok'] that f by simp
      moreover have "tok = token" using c(10) [of tok] u0 True by simp
      ultimately show ?thesis by simp
    next
      case False
      then have "tok \<noteq> token" "tok' \<noteq> token" using same that c(8) f by auto
      then show ?thesis using old that c(11) f ok(5) by (simp add: tables_ok_def)
    qed
    fix m v assume "map_get (table_of k' u) m = Some v"
    then have v: "map_get (table_of ?k1 u) m = Some v" using f by simp
    show "has_effect k' m (ServiceOff tok u m v)"
    proof (cases "u = t \<and> m = l")
      case True
      then have "tok = token" "v = impl" using u0 c(10) v by (auto simp: js_map.get_put)
      then show ?thesis using g(5) True by simp
    next
      case False
      have "map_get (k_services k) tok = Some u \<and> map_get (table_of k u) m = Some v"
      proof (cases "u = t")
        case True
        then have "map_get (table_of k0 t) m = Some v" "tok = token" using v False u0 c(10) by (auto simp: js_map.get_put)
        then show ?thesis using c(13) True by simp
      next
        case ut: False
        then have "tok \<noteq> token" using same by blast
        then show ?thesis using old v ut c(12) by simp
      qed
      then show ?thesis using ok(5) has_effect_grows [OF g(4)] by (simp add: tables_ok_def)
    qed
  qed
  moreover have "waiters_ok k'"
  proof -
    have "findVisibleEntry k' (w_token w) (w_layer w) = None"
      if w: "w \<in> set (k_waiters k)" "\<not> resolves token l ?k1 w" for w
    proof -
      have h: "has_layer k (w_layer w)" "findVisibleEntry k (w_token w) (w_layer w) = None"
        using w(1) ok(6) by (auto simp: waiters_ok_def)
      have "w_token w \<noteq> token \<or> l \<notin> set (chainSet k (w_layer w))"
        using w(2) find_after_provide(1) [OF p1 ch, of "w_layer w"] unfolding resolves_def ch by blast
      then show ?thesis using find_after_provide(2) [OF p chk [OF h(1)]] h(2) by simp
    qed
    moreover have "k_waiters k' = filter (\<lambda>w. \<not> resolves token l ?k1 w) (k_waiters k)"
      unfolding k' by (simp add: c(7))
    ultimately show ?thesis
      using ok(6) g(4,6) by (fastforce simp: waiters_ok_def grows_def distinct_map inj_on_def)
  qed
  ultimately show "kernel_ok k'"
    unfolding kernel_ok_def
    using g(1,2) listeners_frame [OF ok(3) g(4) f(1)] chains_frame [OF ok(4) g(4) f(2)] by simp
  show "disposer_ok d k'" "grows k k'" using g by auto
  show "provided k' a b = (if a = token \<and> b = l then Some impl else provided k a b)" by (rule p)
qed


subsection \<open>Disposers\<close>

lemma first_some_shrinks:
  "(\<And>x. x \<in> set xs \<Longrightarrow> f x = None \<or> f x = g x) \<Longrightarrow> first_some g xs = None \<Longrightarrow> first_some f xs = None"
  by (auto simp: first_some_None_iff)

lemma entries_ok_drop:
  assumes "entries_ok k td es" "\<And>l. ly_depth (layer_of k' l) = ly_depth (layer_of k l)" "k_next k' = k_next k"
    and "\<And>e. e \<in> set es \<Longrightarrow> en_ref e \<noteq> ref \<Longrightarrow> has_effect k' (en_layer e) (td (en_ref e))"
  shows "entries_ok k' td (drop_entry ref es)"
proof -
  have "entry_depth k' = entry_depth k" using assms(2) by (simp add: entry_depth_def fun_eq_iff)
  then show ?thesis
    using assms(1,3,4) by (auto simp: entries_ok_def drop_entry_def sorted_filter distinct_map_filter)
qed

lemma entries_ok_keep:
  assumes "entries_ok k td es" "\<And>l. ly_depth (layer_of k' l) = ly_depth (layer_of k l)" "k_next k' = k_next k"
    and "\<And>e. e \<in> set es \<Longrightarrow> has_effect k' (en_layer e) (td (en_ref e))"
  shows "entries_ok k' td es"
proof -
  have "entry_depth k' = entry_depth k" using assms(2) by (simp add: entry_depth_def fun_eq_iff)
  then show ?thesis using assms(1,3,4) by (auto simp: entries_ok_def)
qed

lemma run_teardown_simps [simp]:
  "layer_of (run_teardown td k) = layer_of k" "has_layer (run_teardown td k) = has_layer k"
  "k_next (run_teardown td k) = k_next k" "k_waiters (run_teardown td k) = k_waiters k"
  "k_settled (run_teardown td k) = k_settled k"
  by (cases td; simp add: run_teardown_def set_entries_def Let_def split: option.split)+

lemma run_teardown_layer [simp]:
  "state_of (run_teardown td k) = state_of k" "effects_of (run_teardown td k) = effects_of k"
  by (simp_all add: state_of_def effects_of_def fun_eq_iff)

lemma has_effect_layers: "layer_of k' = layer_of k \<Longrightarrow> has_layer k' = has_layer k \<Longrightarrow> has_effect k' = has_effect k"
  by (simp add: has_effect_def effects_of_def fun_eq_iff)

lemma teardown_listeners:
  "map_get (k_listeners (run_teardown td k)) token =
     (case td of
        ListenerOff a ref \<Rightarrow>
          if token = a then
            (case map_get (k_listeners k) a of
               None \<Rightarrow> None
             | Some es \<Rightarrow> if drop_entry ref es = [] then None else Some (drop_entry ref es))
          else map_get (k_listeners k) token
      | _ \<Rightarrow> map_get (k_listeners k) token)"
  by (auto simp: run_teardown_def set_entries_def Let_def js_map.get_put js_map.get_del split: teardown.split option.split)

lemma teardown_chains:
  "map_get (k_chains (run_teardown td k)) c =
     (case td of
        ChainOff a ref \<Rightarrow>
          if c = a then map_option (drop_entry ref) (map_get (k_chains k) c) else map_get (k_chains k) c
      | _ \<Rightarrow> map_get (k_chains k) c)"
  by (auto simp: run_teardown_def set_entries_def Let_def js_map.get_put split: teardown.split option.split)

lemma drop_provided_get:
  "map_get (drop_provided l v m) a = (if a = l \<and> map_get m l = Some v then None else map_get m a)"
  by (auto simp: drop_provided_def js_map.get_del)

lemma teardown_services:
  "map_get (k_services (run_teardown td k)) token = None \<or>
   map_get (k_services (run_teardown td k)) token = map_get (k_services k) token"
  by (auto simp: run_teardown_def set_entries_def Let_def js_map.get_del split: teardown.split option.split)

lemma teardown_tables:
  "table_of (run_teardown td k) t =
     (case td of ServiceOff _ u l v \<Rightarrow> if t = u then drop_provided l v (table_of k t) else table_of k t
      | _ \<Rightarrow> table_of k t)"
  by (auto simp: run_teardown_def set_entries_def Let_def table_of_def write_table_def js_map.get_put
      split: teardown.split option.split)

lemma provided_teardown: "provided (run_teardown td k) a b = None \<or> provided (run_teardown td k) a b = provided k a b"
  using teardown_services [of td k a]
  by (auto simp: provided_def teardown_tables drop_provided_get split: option.split teardown.split)

lemma effects_ok_sub:
  assumes "effects_ok k" "\<And>a. set (effects_of k' a) \<subseteq> set (effects_of k a)" "k_next k \<le> k_next k'"
  shows "effects_ok k'"
  unfolding effects_ok_def
proof (intro allI impI conjI)
  fix l r td assume r: "Registered r td \<in> set (effects_of k' l)"
  then have o: "Registered r td \<in> set (effects_of k l)" using assms(2) by blast
  show "r < k_next k'" using o assms(1,3) unfolding effects_ok_def by (meson order_less_le_trans)
  fix l' td' assume "Registered r td' \<in> set (effects_of k' l')"
  then have "Registered r td' \<in> set (effects_of k l')" using assms(2) by blast
  then show "l' = l" "td' = td" using o assms(1) unfolding effects_ok_def by blast+
qed

lemma disposer_effects:
  assumes "disposer_ok (l, ref, td) k" "has_effect k a td'" "td' \<noteq> td"
  shows "has_effect (set_effects l (filter (\<lambda>e. \<not> is_disposer ref e) (effects_of k l)) k) a td'"
proof -
  obtain r where r: "Registered r td' \<in> set (effects_of k a)" "has_layer k a" using assms(2) by (auto simp: has_effect_def)
  then have "r \<noteq> ref" using assms(1,3) by (auto simp: disposer_ok_def)
  then show ?thesis using r by (auto simp: has_effect_def)
qed

lemma run_disposer_ok:
  assumes "kernel_ok k" "disposer_ok d k"
  shows "kernel_ok (run_disposer d k)"
proof -
  have ok: "layers_ok k" "effects_ok k" "listeners_ok k" "chains_ok k" "tables_ok k" "waiters_ok k"
    using assms(1) by (auto simp: kernel_ok_def)
  obtain l ref td where d: "d = (l, ref, td)" by (cases d)
  let ?k = "set_effects l (filter (\<lambda>e. \<not> is_disposer ref e) (effects_of k l)) k"
  let ?k' = "run_teardown td ?k"
  have r: "run_disposer d k = ?k'" by (simp add: run_disposer_def d)
  have hl: "has_layer k l" using assms(2) by (simp add: d disposer_ok_def)
  have sub: "set (effects_of ?k a) \<subseteq> set (effects_of k a)" for a by auto
  have he: "has_effect ?k' a td'" if "has_effect k a td'" "td' \<noteq> td" for a td'
    using disposer_effects [of l ref td k a td'] that assms(2) d has_effect_layers [of ?k' ?k] by simp
  have dep: "ly_depth (layer_of ?k' a) = ly_depth (layer_of k a)" for a by simp
  have nx: "k_next ?k' = k_next k" by simp
  have "layers_ok ?k"
    unfolding layers_ok_def
  proof (intro allI impI)
    fix a assume "has_layer ?k a"
    then have "has_layer k a" using hl by auto
    then have "a < k_next k" "\<forall>p. ly_parent (layer_of k a) = Some p \<longrightarrow> p < a \<and> has_layer k p"
      "state_of k a = Disposed \<longrightarrow> effects_of k a = []"
      using ok(1) by (simp_all add: layers_ok_def)
    then show "a < k_next ?k \<and> (\<forall>p. ly_parent (layer_of ?k a) = Some p \<longrightarrow> p < a \<and> has_layer ?k p) \<and>
        (state_of ?k a = Disposed \<longrightarrow> effects_of ?k a = [])" by auto
  qed
  then have L: "layers_ok ?k'" by (rule layers_ok_later) simp_all
  have "effects_ok ?k" by (rule effects_ok_sub [OF ok(2) sub]) simp
  then have E: "effects_ok ?k'" by (rule effects_ok_later) simp_all
  have Li: "listeners_ok ?k'"
    unfolding listeners_ok_def
  proof (intro allI impI)
    fix token es assume es: "map_get (k_listeners ?k') token = Some es"
    show "entries_ok ?k' (ListenerOff token) es"
    proof (cases "\<exists>x. td = ListenerOff token x")
      case True
      then obtain x where x: "td = ListenerOff token x" by blast
      then obtain fs where fs: "map_get (k_listeners k) token = Some fs" "es = drop_entry x fs"
        using es by (auto simp: teardown_listeners split: option.splits if_splits)
      show ?thesis unfolding fs(2)
        by (rule entries_ok_drop [OF _ dep nx])
          (use ok(3) fs(1) he x in \<open>auto simp: listeners_ok_def entries_ok_def\<close>)
    next
      case False
      then have "map_get (k_listeners k) token = Some es"
        using es by (auto simp: teardown_listeners split: teardown.splits if_splits)
      then show ?thesis
        using ok(3) False by (intro entries_ok_keep [OF _ dep nx] he) (auto simp: listeners_ok_def entries_ok_def)
    qed
  qed
  have Ch: "chains_ok ?k'"
    unfolding chains_ok_def
  proof (intro allI impI)
    fix c es assume es: "map_get (k_chains ?k') c = Some es"
    show "c < k_next ?k' \<and> entries_ok ?k' (ChainOff c) es"
    proof (cases "\<exists>x. td = ChainOff c x")
      case True
      then obtain x where x: "td = ChainOff c x" by blast
      then obtain fs where fs: "map_get (k_chains k) c = Some fs" "es = drop_entry x fs"
        using es by (auto simp: teardown_chains)
      have "entries_ok ?k' (ChainOff c) es" unfolding fs(2)
        by (rule entries_ok_drop [OF _ dep nx])
          (use ok(4) fs(1) he x in \<open>auto simp: chains_ok_def entries_ok_def\<close>)
      then show ?thesis using ok(4) fs(1) by (simp add: chains_ok_def)
    next
      case False
      then have g: "map_get (k_chains k) c = Some es"
        using es by (auto simp: teardown_chains split: teardown.splits if_splits)
      then have "entries_ok ?k' (ChainOff c) es"
        using ok(4) False by (intro entries_ok_keep [OF _ dep nx] he) (auto simp: chains_ok_def entries_ok_def)
      then show ?thesis using ok(4) g by (simp add: chains_ok_def)
    qed
  qed
  have T: "tables_ok ?k'"
    unfolding tables_ok_def
  proof (intro allI impI conjI)
    fix tok u assume u: "map_get (k_services ?k') tok = Some u"
    have sv: "map_get (k_services ?k') a = Some u \<Longrightarrow> map_get (k_services k) a = Some u" for a
      using teardown_services [of td ?k a] by auto
    show "u < k_next ?k'" using sv [OF u] ok(5) by (simp add: tables_ok_def)
    show "tok' = tok" if "map_get (k_services ?k') tok' = Some u" for tok'
      using sv [OF u] sv [OF that] ok(5) by (simp add: tables_ok_def)
    fix m v assume v: "map_get (table_of ?k' u) m = Some v"
    have tab: "table_of ?k = table_of k" by (simp add: table_of_def fun_eq_iff)
    have "map_get (table_of k u) m = Some v" "ServiceOff tok u m v \<noteq> td"
      using v by (auto simp: teardown_tables drop_provided_get tab split: teardown.splits if_splits)
    then show "has_effect ?k' m (ServiceOff tok u m v)"
      using he sv [OF u] ok(5) by (simp add: tables_ok_def)
  qed
  have "findVisibleEntry ?k' a b = None" if "findVisibleEntry k a b = None" for a b
  proof -
    have ch: "chainSet ?k' b = chainSet k b" by (rule chainSet_cong) simp
    have pr: "provided ?k = provided k"
      by (rule provided_cong) (simp_all add: table_of_def fun_eq_iff)
    show ?thesis
      unfolding findVisibleEntry_provided ch
    proof (rule first_some_shrinks)
      show "first_some (provided k a) (chainSet k b) = None" using that by (simp only: findVisibleEntry_provided)
      show "provided ?k' a x = None \<or> provided ?k' a x = provided k a x" for x
        using provided_teardown [of td ?k a x] pr by simp
    qed
  qed
  then have W: "waiters_ok ?k'"
    using ok(6) by (auto simp: waiters_ok_def)
  show ?thesis unfolding r kernel_ok_def using L E Li Ch T W by simp
qed

end
