(* ===== verification/KernelDispose.thy ===== *)
theory KernelDispose
  imports KernelContextProps
begin

text \<open>
  The operations of the kernel context that call functions of plugins: events, \<open>provide\<close> and \<open>dispose\<close>
  (\<open>create-context.ts\<close>). What such a function does is a parameter: a function from its argument and the state
  to its result and the next state, so it may itself use the context. The loop of \<open>dispose\<close> reads the effects
  of the layer at every index anew, since an unwinding function may have taken some away; the recursion into
  child scopes is bounded by fuel.
\<close>

subsection \<open>Calling plugins\<close>

datatype listener_result =
    Returned jsval
  | Threw string
  | PromiseOf "string + jsval" \<comment> \<open>what the promise it returned settles to\<close>

record ('v, 'f) calls =
  call_listener :: "'f \<Rightarrow> jsval \<Rightarrow> ('v, 'f) kernel \<Rightarrow> listener_result \<times> ('v, 'f) kernel"
  call_sink :: "string \<Rightarrow> token \<Rightarrow> ('v, 'f) kernel \<Rightarrow> ('v, 'f) kernel" \<comment> \<open>\<open>onListenerError\<close>; what it throws is dropped\<close>
  call_raw :: "'f \<Rightarrow> ('v, 'f) kernel \<Rightarrow> string option \<times> ('v, 'f) kernel" \<comment> \<open>a function given to \<open>effect\<close>, awaited\<close>

definition reportListenerError :: "('v, 'f) calls \<Rightarrow> string \<Rightarrow> token \<Rightarrow> ('v, 'f) kernel \<Rightarrow> ('v, 'f) kernel" where
  "reportListenerError env error token k = call_sink env error token k"

definition assertEventTokenShape :: "token \<Rightarrow> kernel_error option" where
  "assertEventTokenShape token =
     (if tk_kind token \<noteq> ''event'' \<or> tk_mode token = None \<or> tk_freeze token = None
      then Some (BadTokenShape (tk_name token)) else None)"

definition emit_one :: "('v, 'f) calls \<Rightarrow> token \<Rightarrow> jsval \<Rightarrow> 'f entry \<Rightarrow> ('v, 'f) kernel \<Rightarrow> ('v, 'f) kernel" where
  "emit_one env token payload e k =
     (case call_listener env (en_fn e) payload k of
        (Returned _, k) \<Rightarrow> k
      | (Threw error, k) \<Rightarrow> reportListenerError env error token k
      | (PromiseOf (Inl error), k) \<Rightarrow> k\<lparr>k_later := k_later k @ [(error, token)]\<rparr>
      | (PromiseOf (Inr _), k) \<Rightarrow> k)"

definition emitFrom :: "('v, 'f) calls \<Rightarrow> nat \<Rightarrow> token \<Rightarrow> jsval \<Rightarrow> ('v, 'f) kernel \<Rightarrow> kernel_error + ('v, 'f) kernel" where
  \<comment> \<open>the listeners that are called are those registered when the event is emitted\<close>
  "emitFrom env l token payload k =
     (case assertEventTokenShape token of
        Some e \<Rightarrow> Inl e
      | None \<Rightarrow>
          Inr (fold (emit_one env token payload)
                 (filter (\<lambda>e. en_layer e \<in> set (chainSet k l)) (entries_of k token)) k))"

definition report_later :: "('v, 'f) calls \<Rightarrow> ('v, 'f) kernel \<Rightarrow> ('v, 'f) kernel" where
  \<comment> \<open>the microtask in which the rejection of a listener is reported\<close>
  "report_later env k =
     (case k_later k of
        [] \<Rightarrow> k
      | (error, token) # rest \<Rightarrow> reportListenerError env error token (k\<lparr>k_later := rest\<rparr>))"

definition emit :: "('v, 'f) calls \<Rightarrow> token \<Rightarrow> jsval \<Rightarrow> nat \<Rightarrow> ('v, 'f) kernel \<Rightarrow> kernel_error + ('v, 'f) kernel" where
  "emit env token payload l k =
     (if tk_kind token \<noteq> ''event'' then Inl (NotAnEvent (tk_kind token) (tk_name token))
      else emitFrom env l token payload k)"

definition provide :: "('v, 'f) calls \<Rightarrow> token \<Rightarrow> 'v \<Rightarrow> nat \<Rightarrow> ('v, 'f) kernel \<Rightarrow> kernel_error + 'v disposer \<times> ('v, 'f) kernel" where
  "provide env token impl l k =
     (case provide_core token impl l k of
        Inl e \<Rightarrow> Inl e
      | Inr (d, k) \<Rightarrow>
          (case emitFrom env l serviceProvided (JObj [(''service'', JStr (tk_name token))]) k of
             Inl e \<Rightarrow> Inl e
           | Inr k \<Rightarrow> Inr (d, k)))"

subsection \<open>dispose\<close>

datatype failure = Failure string | AggregateFailure "failure list"

definition thrown :: "failure list \<Rightarrow> failure option" where
  "thrown failures =
     (case failures of [] \<Rightarrow> None | [f] \<Rightarrow> Some f | _ \<Rightarrow> Some (AggregateFailure failures))"

definition reject_parked :: "nat \<Rightarrow> ('v, 'f) kernel \<Rightarrow> ('v, 'f) kernel" where
  "reject_parked l k =
     k\<lparr>k_waiters := filter (\<lambda>w. w_layer w \<noteq> l) (k_waiters k),
       k_settled := k_settled k @
         map (\<lambda>w. (w_ref w, Inl (NeverArrived (tk_name (w_token w))))) (filter (\<lambda>w. w_layer w = l) (k_waiters k))\<rparr>"

definition finish_dispose :: "nat \<Rightarrow> ('v, 'f) kernel \<Rightarrow> ('v, 'f) kernel" where
  "finish_dispose l k = reject_parked l (set_state l Disposed (set_effects l [] k))"

definition start_dispose :: "('v, 'f) calls \<Rightarrow> nat \<Rightarrow> ('v, 'f) kernel \<Rightarrow> ('v, 'f) kernel" where
  "start_dispose env l k =
     (case emitFrom env l contextDisposing (JObj []) (set_state l Disposing k) of
        Inl e \<Rightarrow> set_state l Disposing k
      | Inr k \<Rightarrow> k)"

definition effect_at :: "('v, 'f) kernel \<Rightarrow> nat \<Rightarrow> nat \<Rightarrow> ('v, 'f) effect option" where
  "effect_at k l i = (if i < length (effects_of k l) then Some (effects_of k l ! i) else None)"

fun dispose :: "nat \<Rightarrow> ('v, 'f) calls \<Rightarrow> nat \<Rightarrow> ('v, 'f) kernel \<Rightarrow> (failure option \<times> ('v, 'f) kernel) option"
  and unwind :: "nat \<Rightarrow> ('v, 'f) calls \<Rightarrow> nat \<Rightarrow> nat \<Rightarrow> failure list \<Rightarrow> ('v, 'f) kernel \<Rightarrow>
    (failure list \<times> ('v, 'f) kernel) option"
where
  "dispose 0 env l k = None"
| "dispose (Suc fuel) env l k =
     (if state_of k l \<noteq> Live then Some (None, k)
      else case unwind fuel env l (length (effects_of (start_dispose env l k) l)) [] (start_dispose env l k) of
             None \<Rightarrow> None
           | Some (failures, k') \<Rightarrow> Some (thrown failures, finish_dispose l k'))"
| "unwind fuel env l 0 failures k = Some (failures, k)"
| "unwind fuel env l (Suc i) failures k =
     (case effect_at k l i of
        None \<Rightarrow> unwind fuel env l i failures k
      | Some (Registered ref td) \<Rightarrow> unwind fuel env l i failures (run_disposer (l, ref, td) k)
      | Some (RawEffect f) \<Rightarrow>
          (case call_raw env f k of
             (None, k') \<Rightarrow> unwind fuel env l i failures k'
           | (Some e, k') \<Rightarrow> unwind fuel env l i (failures @ [Failure e]) k')
      | Some (ChildScope c) \<Rightarrow>
          (case dispose fuel env c k of
             None \<Rightarrow> None
           | Some (None, k') \<Rightarrow> unwind fuel env l i failures k'
           | Some (Some e, k') \<Rightarrow> unwind fuel env l i (failures @ [e]) k'))"

end
