(* ===== verification/KernelDisposeProps.thy ===== *)
theory KernelDisposeProps
  imports KernelDispose
begin

text \<open>
  What \<open>dispose\<close> does, whatever the functions of the plugins do with the context, as long as they keep the
  invariant and bring nothing back: the locale \<open>tame_calls\<close>. The locale is interpreted for plugins whose
  functions are scripts of operations of the context itself.
\<close>

subsection \<open>Sound states and steps between them\<close>

definition scopes_ok :: "('v, 'f) kernel \<Rightarrow> bool" where
  \<comment> \<open>a live scope is an effect of its parent\<close>
  "scopes_ok k \<longleftrightarrow>
     (\<forall>c p. ChildScope c \<in> set (effects_of k p) \<longrightarrow> has_layer k c) \<and>
     (\<forall>c p. has_layer k c \<and> ly_parent (layer_of k c) = Some p \<and> state_of k c = Live \<longrightarrow> ChildScope c \<in> set (effects_of k p))"

definition sound :: "('v, 'f) kernel \<Rightarrow> bool" where
  "sound k \<longleftrightarrow> kernel_ok k \<and> scopes_ok k"

definition follows :: "('v, 'f) kernel \<Rightarrow> ('v, 'f) kernel \<Rightarrow> bool" where
  \<comment> \<open>a layer that is not live stays so, and its effects only become fewer\<close>
  "follows k k' \<longleftrightarrow> k_next k \<le> k_next k' \<and>
     (\<forall>l. has_layer k l \<longrightarrow> has_layer k' l \<and> ly_parent (layer_of k' l) = ly_parent (layer_of k l) \<and>
        (state_of k l \<noteq> Live \<longrightarrow> state_of k' l \<noteq> Live \<and> subseq (effects_of k' l) (effects_of k l)) \<and>
        (state_of k l = Disposed \<longrightarrow> state_of k' l = Disposed))"

lemma follows_refl [simp]: "follows k k"
  by (simp add: follows_def)

lemma follows_trans: "follows k1 k2 \<Longrightarrow> follows k2 k3 \<Longrightarrow> follows k1 k3"
  unfolding follows_def by (auto intro: order.trans subseq_order.trans)

definition safe_step :: "('v, 'f) kernel \<Rightarrow> ('v, 'f) kernel \<Rightarrow> bool" where
  "safe_step k k' \<longleftrightarrow> sound k' \<and> follows k k'"

lemma safe_step_refl: "sound k \<Longrightarrow> safe_step k k"
  by (simp add: safe_step_def)

lemma safe_step_trans: "safe_step k1 k2 \<Longrightarrow> (sound k2 \<Longrightarrow> safe_step k2 k3) \<Longrightarrow> safe_step k1 k3"
  by (auto simp: safe_step_def intro: follows_trans)

lemma safe_step_sound: "safe_step k k' \<Longrightarrow> sound k'"
  by (simp add: safe_step_def)

lemma scopes_ok_keep:
  assumes "scopes_ok k" "\<And>c. has_layer k' c \<longleftrightarrow> has_layer k c"
    and "\<And>c. has_layer k c \<Longrightarrow> ly_parent (layer_of k' c) = ly_parent (layer_of k c)"
    and "\<And>c. has_layer k c \<Longrightarrow> state_of k' c = Live \<Longrightarrow> state_of k c = Live"
    and "\<And>p c. ChildScope c \<in> set (effects_of k' p) \<longleftrightarrow> ChildScope c \<in> set (effects_of k p)"
  shows "scopes_ok k'"
  using assms unfolding scopes_ok_def by metis

text \<open>An operation that adds effects to a live layer only.\<close>

lemma live_step:
  assumes "sound k" "kernel_ok k'" "state_of k l = Live" "k_next k \<le> k_next k'"
    and "\<And>x. has_layer k' x \<longleftrightarrow> has_layer k x"
    and "\<And>x. ly_parent (layer_of k' x) = ly_parent (layer_of k x)"
    and "\<And>x. state_of k' x = state_of k x"
    and "\<And>x. x \<noteq> l \<Longrightarrow> effects_of k' x = effects_of k x"
    and "\<And>c. ChildScope c \<in> set (effects_of k' l) \<longleftrightarrow> ChildScope c \<in> set (effects_of k l)"
  shows "safe_step k k'"
proof -
  have sub: "ChildScope c \<in> set (effects_of k' p) \<longleftrightarrow> ChildScope c \<in> set (effects_of k p)" for p c
    using assms(8,9) by (cases "p = l") auto
  have "scopes_ok k'"
    by (rule scopes_ok_keep [of k]) (use assms(1,5-7) sub in \<open>simp_all add: sound_def\<close>)
  moreover have "follows k k'"
    unfolding follows_def
  proof (intro conjI allI impI)
    fix x assume "state_of k x \<noteq> Live"
    then have "x \<noteq> l" using assms(3) by blast
    then show "subseq (effects_of k' x) (effects_of k x)" using assms(8) by simp
  qed (use assms(4-7) in simp_all)
  ultimately show ?thesis using assms(2) by (simp add: safe_step_def sound_def)
qed

lemma snd_eq: "(a, b) = p \<Longrightarrow> b = snd p"
  by auto

lemma on_token_step:
  assumes "sound k" "has_layer k l" "on_token token fn prepend l k = Inr (d, k')"
  shows "safe_step k k'"
proof -
  obtain mode where live: "state_of k l = Live" and d: "(d, k') = registerEffect l (ListenerOff token (k_next k))
      (k\<lparr>k_listeners := map_set (k_listeners k) token
           (insertByLayerDepth (entry_depth k) (entries_of k token)
             \<lparr>en_ref = k_next k, en_layer = l, en_mode = mode, en_fn = fn\<rparr> prepend),
         k_next := Suc (k_next k)\<rparr>)"
    using assms(3) by (auto simp: on_token_Inr)
  show ?thesis
    by (rule live_step [OF assms(1) _ live])
      (use on_token_ok(1) [OF _ assms(2,3)] assms(1,2) in \<open>auto simp: snd_eq [OF d] sound_def\<close>)
qed

lemma onChain_step:
  assumes "sound k" "has_layer k l" "onChain c fn prepend l k = Inr (d, k')"
  shows "safe_step k k'"
proof -
  obtain es where live: "state_of k l = Live" and d: "(d, k') = registerEffect l (ChainOff c (k_next k))
      (k\<lparr>k_chains := map_set (k_chains k) c
           (insertByLayerDepth (entry_depth k) es
             \<lparr>en_ref = k_next k, en_layer = l, en_mode = ''chain'', en_fn = fn\<rparr> prepend),
         k_next := Suc (k_next k)\<rparr>)"
    using assms(3) by (auto simp: onChain_Inr)
  show ?thesis
    by (rule live_step [OF assms(1) _ live])
      (use onChain_ok(1) [OF _ assms(2,3)] assms(1,2) in \<open>auto simp: snd_eq [OF d] sound_def\<close>)
qed

lemma provide_core_step:
  assumes "sound k" "has_layer k l" "provide_core token impl l k = Inr (d, k')"
  shows "safe_step k k'"
proof -
  have t: "tables_ok k" using assms(1) by (simp add: sound_def kernel_ok_def)
  obtain t k0 where live: "state_of k l = Live" and st: "service_table token k = (t, k0)"
    and d: "(d, k') = registerEffect l (ServiceOff token t l impl)
      (settleWaiters token l (write_table t (map_set (table_of k0 t) l impl) k0))"
    using assms(3) by (auto simp: provide_core_Inr)
  note c = service_table_cases [OF t st]
  have s: "state_of (settleWaiters token l (write_table t m k0)) = state_of k"
    "effects_of (settleWaiters token l (write_table t m k0)) = effects_of k" for m
    using c(2) by (simp_all add: state_of_def effects_of_def fun_eq_iff)
  show ?thesis
    by (rule live_step [OF assms(1) _ live])
      (use provide_core_ok(1) [OF _ assms(2,3)] assms(1,2) c(1-3) in \<open>auto simp: snd_eq [OF d] sound_def s\<close>)
qed

lemma effect_raw_step:
  assumes "sound k" "has_layer k l" "effect_raw fn l k = Inr k'"
  shows "safe_step k k'"
proof -
  have k': "state_of k l = Live" "k' = set_effects l (effects_of k l @ [RawEffect fn]) k"
    using assms(3) by (auto simp: effect_raw_def assertLive_def split: if_splits)
  show ?thesis
    by (rule live_step [OF assms(1) _ k'(1)])
      (use effect_raw_ok(1) [OF _ assms(2,3)] assms(1,2) in \<open>auto simp: k'(2) sound_def\<close>)
qed

lemma waitFor_step:
  assumes "sound k" "has_layer k l" "waitFor token l k = (p, k')"
  shows "safe_step k k'"
proof (cases "k' = k")
  case False
  then have k': "state_of k l = Live"
    "k' = k\<lparr>k_waiters := k_waiters k @ [\<lparr>w_ref = k_next k, w_token = token, w_layer = l\<rparr>], k_next := Suc (k_next k)\<rparr>"
    using assms(3) by (auto simp: waitFor_def split: if_splits option.splits)
  show ?thesis
    by (rule live_step [OF assms(1) _ k'(1)])
      (use waitFor_ok(1) [OF _ assms(2,3)] assms(1,2) in \<open>auto simp: k'(2) sound_def\<close>)
qed (use assms(1) safe_step_refl in simp)

lemma createChain_step:
  assumes "sound k" "createChain l k = Inr (c, k')"
  shows "safe_step k k'"
proof -
  have k': "state_of k l = Live"
    "k' = k\<lparr>k_chains := map_set (k_chains k) (k_next k) [], k_next := Suc (k_next k)\<rparr>"
    using assms(2) by (auto simp: createChain_def assertLive_def split: if_splits)
  show ?thesis
    by (rule live_step [OF assms(1) _ k'(1)])
      (use createChain_ok(1) [OF _ assms(2)] assms(1) in \<open>auto simp: k'(2) sound_def\<close>)
qed


lemma fresh_layer: "layers_ok k \<Longrightarrow> \<not> has_layer k (k_next k)"
  by (auto simp: layers_ok_def)

lemma scope_state:
  assumes "layers_ok k" "has_layer k l" "scope agent l k = Inr (c, k')"
  shows "c = k_next k" "state_of k l = Live" "has_layer k' x \<longleftrightarrow> x = c \<or> has_layer k x"
    and "state_of k' x = (if x = c then Live else state_of k x)"
    and "effects_of k' x = (if x = l then effects_of k l @ [ChildScope c] else if x = c then [] else effects_of k x)"
    and "ly_parent (layer_of k' x) = (if x = c then Some l else ly_parent (layer_of k x))" "k_next k' = Suc (k_next k)"
proof -
  define child :: "('a, 'b) layer" where "child = \<lparr>ly_parent = Some l, ly_depth = Suc (ly_depth (layer_of k l)),
    ly_filter = Some agent, ly_effects = [], ly_state = Live\<rparr>"
  have k': "state_of k l = Live" "c = k_next k"
    "k' = set_effects l (effects_of k l @ [ChildScope (k_next k)])
        (k\<lparr>k_layers := map_set (k_layers k) (k_next k) child, k_next := Suc (k_next k)\<rparr>)"
    using assms(3) by (auto simp: scope_def assertLive_def Let_def child_def split: if_splits)
  have lk: "l \<noteq> k_next k" using fresh_layer [OF assms(1)] assms(2) by blast
  have ly: "layer_of (k\<lparr>k_layers := map_set (k_layers k) (k_next k) child\<rparr>) x =
      (if x = k_next k then child else layer_of k x)"
    "has_layer (k\<lparr>k_layers := map_set (k_layers k) (k_next k) child\<rparr>) x \<longleftrightarrow> x = k_next k \<or> has_layer k x" for x
    by (auto simp: layer_of_def has_layer_def js_map.get_put)
  have cf: "ly_parent child = Some l" "ly_effects child = []" "ly_state child = Live" by (simp_all add: child_def)
  have le: "effects_of (k\<lparr>k_layers := map_set (k_layers k) (k_next k) child\<rparr>) x =
      (if x = k_next k then [] else effects_of k x)"
    "state_of (k\<lparr>k_layers := map_set (k_layers k) (k_next k) child\<rparr>) x =
      (if x = k_next k then Live else state_of k x)" for x
    by (simp_all add: effects_of_def state_of_def ly cf)
  show "c = k_next k" "state_of k l = Live" by fact+
  show "has_layer k' x \<longleftrightarrow> x = c \<or> has_layer k x"
    "state_of k' x = (if x = c then Live else state_of k x)"
    "effects_of k' x = (if x = l then effects_of k l @ [ChildScope c] else if x = c then [] else effects_of k x)"
    "ly_parent (layer_of k' x) = (if x = c then Some l else ly_parent (layer_of k x))" "k_next k' = Suc (k_next k)"
    unfolding k'(2,3) using assms(2) lk by (auto simp: ly cf le)
qed

lemma scope_step:
  assumes "sound k" "has_layer k l" "scope agent l k = Inr (c, k')"
  shows "safe_step k k'"
proof -
  have ok: "layers_ok k" "kernel_ok k" "scopes_ok k" using assms(1) by (auto simp: sound_def kernel_ok_def)
  note s = scope_state [OF ok(1) assms(2,3)]
  have new: "\<not> has_layer k c" using fresh_layer [OF ok(1)] s(1) by simp
  have "scopes_ok k'"
    unfolding scopes_ok_def
  proof (intro conjI allI impI)
    fix x p assume "ChildScope x \<in> set (effects_of k' p)"
    then show "has_layer k' x" using ok(3) by (auto simp: s(3,5) scopes_ok_def split: if_splits)
  next
    fix x p assume "has_layer k' x \<and> ly_parent (layer_of k' x) = Some p \<and> state_of k' x = Live"
    then have x: "has_layer k' x" "ly_parent (layer_of k' x) = Some p" "state_of k' x = Live" by simp_all
    show "ChildScope x \<in> set (effects_of k' p)"
    proof (cases "x = c")
      case True
      then show ?thesis using x(2) by (simp add: s)
    next
      case False
      then have o: "has_layer k x" "ly_parent (layer_of k x) = Some p" "state_of k x = Live" using x by (simp_all add: s)
      then have "ChildScope x \<in> set (effects_of k p)" using ok(3) by (simp add: scopes_ok_def)
      moreover have "p \<noteq> c" using o(1,2) ok(1) new by (auto simp: layers_ok_def)
      ultimately show ?thesis by (auto simp: s(5))
    qed
  qed
  moreover have "follows k k'"
    unfolding follows_def using s(2) new by (auto simp: s)
  ultimately show ?thesis using scope_ok(1) [OF ok(2) assms(2,3)] by (simp add: safe_step_def sound_def)
qed

subsection \<open>Disposing\<close>

lemma run_disposer_simps:
  "effects_of (run_disposer (l, ref, td) k) x =
     (if x = l then filter (\<lambda>e. \<not> is_disposer ref e) (effects_of k l) else effects_of k x)"
  "state_of (run_disposer (l, ref, td) k) x = state_of k x"
  "has_layer (run_disposer (l, ref, td) k) x \<longleftrightarrow> x = l \<or> has_layer k x"
  "ly_parent (layer_of (run_disposer (l, ref, td) k) x) = ly_parent (layer_of k x)"
  "k_next (run_disposer (l, ref, td) k) = k_next k"
  by (simp_all add: run_disposer_def)

lemma run_disposer_step:
  assumes "sound k" "disposer_ok d k"
  shows "safe_step k (run_disposer d k)"
proof -
  obtain l ref td where d: "d = (l, ref, td)" by (cases d)
  have hl: "has_layer k l" using assms(2) by (simp add: d disposer_ok_def)
  have "scopes_ok (run_disposer d k)"
    by (rule scopes_ok_keep [of k]) (use assms(1) hl in \<open>auto simp: d run_disposer_simps sound_def\<close>)
  moreover have "follows k (run_disposer d k)"
    using hl by (auto simp: follows_def d run_disposer_simps)
  ultimately show ?thesis
    using run_disposer_ok [OF _ assms(2)] assms(1) by (simp add: safe_step_def sound_def)
qed

lemma set_state_has_effect [simp]: "has_layer k l \<Longrightarrow> has_effect (set_state l s k) x td \<longleftrightarrow> has_effect k x td"
  by (auto simp: has_effect_def)

lemma table_of_set_state [simp]: "table_of (set_state l s k) = table_of k" "table_of (set_effects l es k) = table_of k"
  by (simp_all add: table_of_def fun_eq_iff)

lemma entries_ok_set_state: "has_layer k l \<Longrightarrow> entries_ok k td es \<Longrightarrow> entries_ok (set_state l s k) td es"
  by (rule entries_ok_keep) (auto simp: entries_ok_def)

lemma find_set_state: "findVisibleEntry (set_state l s k) token x = findVisibleEntry k token x"
  by (rule findVisibleEntry_cong) (simp_all add: chainSet_cong [of "set_state l s k" k])

lemma set_disposing_step:
  assumes "sound k" "has_layer k l" "state_of k l = Live"
  shows "safe_step k (set_state l Disposing k)"
proof -
  let ?k = "set_state l Disposing k"
  have ok: "layers_ok k" "effects_ok k" "listeners_ok k" "chains_ok k" "tables_ok k" "waiters_ok k" "scopes_ok k"
    using assms(1) by (auto simp: sound_def kernel_ok_def)
  have "layers_ok ?k" using ok(1) assms(2) by (auto simp: layers_ok_def)
  moreover have "effects_ok ?k" by (rule effects_ok_sub [OF ok(2)]) simp_all
  moreover have "listeners_ok ?k" "chains_ok ?k"
    using ok(3,4) entries_ok_set_state [OF assms(2)] by (auto simp: listeners_ok_def chains_ok_def)
  moreover have "tables_ok ?k" using ok(5) assms(2) by (simp add: tables_ok_def)
  moreover have "waiters_ok ?k" using ok(6) by (auto simp: waiters_ok_def find_set_state)
  moreover have "scopes_ok ?k"
    by (rule scopes_ok_keep [of k]) (use ok(7) assms(2) in \<open>auto split: if_splits\<close>)
  moreover have "follows k ?k" using assms(2,3) by (auto simp: follows_def)
  ultimately show ?thesis by (simp add: safe_step_def sound_def kernel_ok_def)
qed

definition no_registered :: "('v, 'f) effect list \<Rightarrow> bool" where
  "no_registered es \<longleftrightarrow> (\<forall>ref td. Registered ref td \<notin> set es)"

definition no_live_child :: "('v, 'f) kernel \<Rightarrow> ('v, 'f) effect list \<Rightarrow> bool" where
  "no_live_child k es \<longleftrightarrow> (\<forall>c. ChildScope c \<in> set es \<longrightarrow> state_of k c \<noteq> Live)"

lemma finish_dispose_simps:
  "effects_of (finish_dispose l k) x = (if x = l then [] else effects_of k x)"
  "state_of (finish_dispose l k) x = (if x = l then Disposed else state_of k x)"
  "has_layer (finish_dispose l k) x \<longleftrightarrow> x = l \<or> has_layer k x"
  "ly_parent (layer_of (finish_dispose l k) x) = ly_parent (layer_of k x)"
  "ly_depth (layer_of (finish_dispose l k) x) = ly_depth (layer_of k x)"
  "k_next (finish_dispose l k) = k_next k" "k_listeners (finish_dispose l k) = k_listeners k"
  "k_chains (finish_dispose l k) = k_chains k" "k_services (finish_dispose l k) = k_services k"
  "k_tables (finish_dispose l k) = k_tables k" "table_of (finish_dispose l k) = table_of k"
  "k_waiters (finish_dispose l k) = filter (\<lambda>w. w_layer w \<noteq> l) (k_waiters k)"
  by (auto simp: finish_dispose_def reject_parked_def table_of_def fun_eq_iff)

lemma finish_dispose_step:
  assumes "sound k" "has_layer k l" "state_of k l \<noteq> Live" "no_registered (effects_of k l)" "no_live_child k (effects_of k l)"
  shows "safe_step k (finish_dispose l k)"
proof -
  let ?k = "finish_dispose l k"
  note f = finish_dispose_simps
  have ok: "layers_ok k" "effects_ok k" "listeners_ok k" "chains_ok k" "tables_ok k" "waiters_ok k" "scopes_ok k"
    using assms(1) by (auto simp: sound_def kernel_ok_def)
  have he: "has_effect ?k x td" if "has_effect k x td" for x td
    using that assms(4) by (auto simp: has_effect_def f no_registered_def)
  have en: "entries_ok ?k td es" if "entries_ok k td es" for td es
    by (rule entries_ok_keep [OF that]) (use that he in \<open>auto simp: f entries_ok_def\<close>)
  have "layers_ok ?k" using ok(1) assms(2) by (auto simp: layers_ok_def f)
  moreover have "effects_ok ?k" by (rule effects_ok_sub [OF ok(2)]) (simp_all add: f)
  moreover have "listeners_ok ?k" "chains_ok ?k"
    using ok(3,4) en by (auto simp: listeners_ok_def chains_ok_def f)
  moreover have "tables_ok ?k" using ok(5) he by (simp add: tables_ok_def f)
  moreover have "findVisibleEntry ?k token x = findVisibleEntry k token x" for token x
    by (rule findVisibleEntry_cong) (simp_all add: f chainSet_cong [of ?k k])
  then have "waiters_ok ?k" using ok(6) by (auto simp: waiters_ok_def f distinct_map_filter)
  moreover have "scopes_ok ?k"
    unfolding scopes_ok_def
  proof (intro conjI allI impI)
    fix c p assume "ChildScope c \<in> set (effects_of ?k p)"
    then have "ChildScope c \<in> set (effects_of k p)" by (simp add: f split: if_splits)
    then show "has_layer ?k c" using ok(7) by (auto simp: scopes_ok_def f)
  next
    fix c p assume "has_layer ?k c \<and> ly_parent (layer_of ?k c) = Some p \<and> state_of ?k c = Live"
    then have c: "has_layer k c" "ly_parent (layer_of k c) = Some p" "state_of k c = Live"
      using assms(2) by (auto simp: f split: if_splits)
    then have "ChildScope c \<in> set (effects_of k p)" using ok(7) by (simp add: scopes_ok_def)
    moreover from this c(3) have "p \<noteq> l" using assms(5) by (auto simp: no_live_child_def)
    ultimately show "ChildScope c \<in> set (effects_of ?k p)" by (simp add: f)
  qed
  moreover have "follows k ?k" using assms(2,3) by (auto simp: follows_def f)
  ultimately show ?thesis by (simp add: safe_step_def sound_def kernel_ok_def)
qed


subsection \<open>Plugins that bring nothing back\<close>

definition settled_from :: "('v, 'f) kernel \<Rightarrow> nat \<Rightarrow> nat \<Rightarrow> bool" where
  \<comment> \<open>from this index on, the effects of the layer have been unwound\<close>
  "settled_from k l i \<longleftrightarrow> no_registered (drop i (effects_of k l)) \<and> no_live_child k (drop i (effects_of k l))"

lemma subseq_tl: "subseq (tl xs) xs"
  by (cases xs) auto

lemma subseq_drop: "subseq xs ys \<Longrightarrow> subseq (drop i xs) (drop i ys)"
proof (induction arbitrary: i rule: list_emb.induct)
  case (list_emb_Cons xs ys y)
  show ?case
  proof (cases i)
    case (Suc j)
    have "subseq (drop i xs) (drop j xs)" using subseq_tl [of "drop j xs"] by (simp add: Suc drop_Suc tl_drop)
    then show ?thesis using list_emb_Cons.IH [of j] Suc by (auto intro: subseq_order.trans)
  qed (use list_emb_Cons in auto)
next
  case (list_emb_Cons2 x y xs ys)
  then show ?case by (cases i) auto
qed simp

lemma subseq_set: "subseq xs ys \<Longrightarrow> set xs \<subseteq> set ys"
  by (induction rule: list_emb.induct) auto

lemma settled_from_follows:
  assumes "settled_from k l i" "sound k" "follows k k'" "has_layer k l" "state_of k l \<noteq> Live"
  shows "settled_from k' l i"
proof -
  have "subseq (effects_of k' l) (effects_of k l)" using assms(3-5) by (simp add: follows_def)
  from subseq_set [OF subseq_drop [OF this]]
  have sub: "set (drop i (effects_of k' l)) \<subseteq> set (drop i (effects_of k l))" .
  have "state_of k' c \<noteq> Live" if "ChildScope c \<in> set (drop i (effects_of k l))" for c
  proof -
    have "has_layer k c" using that assms(2) in_set_dropD by (fastforce simp: sound_def scopes_ok_def)
    moreover have "state_of k c \<noteq> Live" using that assms(1) by (auto simp: settled_from_def no_live_child_def)
    ultimately show ?thesis using assms(3) by (simp add: follows_def)
  qed
  then show ?thesis using assms(1) sub by (auto simp: settled_from_def no_registered_def no_live_child_def)
qed

locale tame_calls =
  fixes env :: "('v, 'f) calls"
  assumes listener_tame: "sound k \<Longrightarrow> safe_step k (snd (call_listener env f p k))"
    and sink_tame: "sound k \<Longrightarrow> safe_step k (call_sink env e token k)"
    and raw_tame: "sound k \<Longrightarrow> safe_step k (snd (call_raw env f k))"
begin

lemma later_step: "sound k \<Longrightarrow> safe_step k (k\<lparr>k_later := xs\<rparr>)"
proof -
  assume s: "sound k"
  let ?k = "k\<lparr>k_later := xs\<rparr>"
  have ok: "layers_ok k" "effects_ok k" "listeners_ok k" "chains_ok k" "tables_ok k" "waiters_ok k" "scopes_ok k"
    using s by (auto simp: sound_def kernel_ok_def)
  have h: "has_layer ?k = has_layer k" "layer_of ?k = layer_of k" "k_next k \<le> k_next ?k" by simp_all
  note g = same_layers_grows [OF h]
  have "kernel_ok ?k"
    unfolding kernel_ok_def
    using layers_ok_later [OF ok(1) h] effects_ok_later [OF ok(2) h(2,3)] listeners_frame [OF ok(3) g]
      chains_frame [OF ok(4) g] tables_frame [OF ok(5) g] waiters_frame [OF ok(6,1) g] by simp
  then show ?thesis using ok(7) by (simp add: safe_step_def sound_def scopes_ok_def follows_def)
qed

lemma emit_one_step: "sound k \<Longrightarrow> safe_step k (emit_one env token p e k)"
proof -
  assume s: "sound k"
  obtain r k1 where c: "call_listener env (en_fn e) p k = (r, k1)" by (cases "call_listener env (en_fn e) p k")
  then have s1: "safe_step k k1" using listener_tame [OF s, of "en_fn e" p] by simp
  have sk: "sound k1" using s1 by (rule safe_step_sound)
  show ?thesis
    using s1 c safe_step_trans [OF s1 sink_tame [OF sk]] safe_step_trans [OF s1 later_step [OF sk]]
    by (auto simp: emit_one_def reportListenerError_def split: listener_result.split sum.split)
qed

lemma emit_all_step: "sound k \<Longrightarrow> safe_step k (fold (emit_one env token p) es k)"
proof (induction es arbitrary: k)
  case (Cons e es)
  then show ?case using safe_step_trans [OF emit_one_step [OF Cons.prems]] by fastforce
qed (simp add: safe_step_refl)

lemma emitFrom_step: "sound k \<Longrightarrow> emitFrom env l token p k = Inr k' \<Longrightarrow> safe_step k k'"
  by (auto simp: emitFrom_def emit_all_step split: option.splits)

lemma provide_step:
  assumes "sound k" "has_layer k l" "provide env token impl l k = Inr (d, k')"
  shows "safe_step k k'"
proof -
  obtain k1 where c: "provide_core token impl l k = Inr (d, k1)"
    "emitFrom env l serviceProvided (JObj [(''service'', JStr (tk_name token))]) k1 = Inr k'"
    using assms(3) by (auto simp: provide_def split: sum.splits)
  show ?thesis using safe_step_trans [OF provide_core_step [OF assms(1,2) c(1)]] emitFrom_step [OF _ c(2)] by blast
qed

lemma start_dispose_step:
  assumes "sound k" "has_layer k l" "state_of k l = Live"
  shows "safe_step k (start_dispose env l k)" "state_of (start_dispose env l k) l \<noteq> Live"
    "has_layer (start_dispose env l k) l"
proof -
  note d = set_disposing_step [OF assms]
  have s: "safe_step (set_state l Disposing k) (start_dispose env l k)"
    using emitFrom_step [OF safe_step_sound [OF d]] safe_step_refl [OF safe_step_sound [OF d]]
    by (auto simp: start_dispose_def split: sum.split)
  then show "safe_step k (start_dispose env l k)" using safe_step_trans [OF d] by blast
  show "state_of (start_dispose env l k) l \<noteq> Live" "has_layer (start_dispose env l k) l"
    using s by (auto simp: safe_step_def follows_def)
qed

text \<open>Disposing, for every fuel: the induction over the mutual recursion.\<close>

lemma effect_at_Some: "effect_at k l i = Some e \<longleftrightarrow> i < length (effects_of k l) \<and> e = effects_of k l ! i"
  by (auto simp: effect_at_def)

lemma settled_from_Suc:
  assumes "effect_at k l i = Some e"
  shows "settled_from k l i \<longleftrightarrow>
    (case e of Registered _ _ \<Rightarrow> False | RawEffect _ \<Rightarrow> True | ChildScope c \<Rightarrow> state_of k c \<noteq> Live) \<and> settled_from k l (Suc i)"
proof -
  have "drop i (effects_of k l) = e # drop (Suc i) (effects_of k l)"
    using assms by (simp add: effect_at_Some Cons_nth_drop_Suc)
  then show ?thesis
    by (cases e) (auto simp: settled_from_def no_registered_def no_live_child_def)
qed

lemma settled_from_end: "effect_at k l i = None \<Longrightarrow> settled_from k l i"
  by (simp add: effect_at_def settled_from_def no_registered_def no_live_child_def split: if_splits)

lemma effect_disposer_ok:
  assumes "sound k" "has_layer k l" "effect_at k l i = Some (Registered ref td)"
  shows "disposer_ok (l, ref, td) k"
proof -
  have "Registered ref td \<in> set (effects_of k l)" using assms(3) by (metis effect_at_Some nth_mem)
  moreover have "effects_ok k" using assms(1) by (simp add: sound_def kernel_ok_def)
  ultimately show ?thesis using assms(2) by (auto simp: effects_ok_def disposer_ok_def)
qed

lemma settled_run_disposer:
  assumes "settled_from k l (Suc i)" "effect_at k l i = Some (Registered ref td)"
  shows "settled_from (run_disposer (l, ref, td) k) l i"
proof -
  let ?es = "effects_of k l" and ?k = "run_disposer (l, ref, td) k"
  have es: "effects_of ?k l = filter (\<lambda>e. \<not> is_disposer ref e) ?es" by (simp add: run_disposer_simps)
  have "set (drop i (effects_of ?k l)) \<subseteq> set (drop i ?es)"
    unfolding es by (rule subseq_set [OF subseq_drop]) simp
  moreover have "drop i ?es = Registered ref td # drop (Suc i) ?es"
    using assms(2) by (simp add: effect_at_Some Cons_nth_drop_Suc)
  moreover have "Registered ref td \<notin> set (drop i (effects_of ?k l))"
    using in_set_dropD by (fastforce simp: es)
  ultimately have "set (drop i (effects_of ?k l)) \<subseteq> set (drop (Suc i) ?es)" by auto
  then show ?thesis
    using assms(1) by (auto simp: settled_from_def no_registered_def no_live_child_def run_disposer_simps)
qed

lemma unwind_safe:
  assumes child: "\<And>c k r k'. dispose fuel env c k = Some (r, k') \<Longrightarrow> sound k \<Longrightarrow> has_layer k c \<Longrightarrow>
      safe_step k k' \<and> state_of k' c \<noteq> Live"
  shows "unwind fuel env l i fs k = Some (fs', k') \<Longrightarrow> sound k \<Longrightarrow> has_layer k l \<Longrightarrow> state_of k l \<noteq> Live \<Longrightarrow>
     settled_from k l i \<Longrightarrow> safe_step k k' \<and> settled_from k' l 0"
proof (induction i arbitrary: fs k)
  case 0
  then show ?case by (auto simp: safe_step_refl)
next
  case (Suc i)
  have go: "safe_step k k' \<and> settled_from k' l 0"
    if "unwind fuel env l i gs k1 = Some (fs', k')" "safe_step k k1" "settled_from k1 l i" for gs k1
  proof -
    have "sound k1" "has_layer k1 l" "state_of k1 l \<noteq> Live"
      using that(2) Suc.prems(3,4) by (auto simp: safe_step_def follows_def)
    then show ?thesis using Suc.IH [OF that(1)] that(2,3) safe_step_trans by blast
  qed
  have keep: "settled_from k1 l (Suc i)" if "safe_step k k1" for k1
    using settled_from_follows [OF Suc.prems(5,2) _ Suc.prems(3,4)] that by (simp add: safe_step_def)
  show ?case
  proof (cases "effect_at k l i")
    case None
    then show ?thesis
      using go [of fs k] Suc.prems(1,2) settled_from_end [OF None] by (simp add: safe_step_refl)
  next
    case (Some x)
    have ndrop: "settled_from k1 l i"
      if "safe_step k k1" "\<And>c. x = ChildScope c \<Longrightarrow> state_of k1 c \<noteq> Live" "\<And>ref td. x \<noteq> Registered ref td" for k1
    proof -
      have "subseq (effects_of k1 l) (effects_of k l)"
        using that(1) Suc.prems(3,4) by (simp add: safe_step_def follows_def)
      from subseq_set [OF subseq_drop [OF this, of i]]
      have sub: "set (drop i (effects_of k1 l)) \<subseteq> insert x (set (drop (Suc i) (effects_of k l)))"
        using Some by (simp add: effect_at_Some Cons_nth_drop_Suc [symmetric])
      have "state_of k1 c \<noteq> Live" if "ChildScope c \<in> set (drop (Suc i) (effects_of k l))" for c
      proof -
        have "has_layer k c" using that Suc.prems(2) in_set_dropD by (fastforce simp: sound_def scopes_ok_def)
        moreover have "state_of k c \<noteq> Live" using that Suc.prems(5) by (auto simp: settled_from_def no_live_child_def)
        ultimately show ?thesis using \<open>safe_step k k1\<close> by (simp add: safe_step_def follows_def)
      qed
      then show ?thesis
        using sub that(2,3) Suc.prems(5) unfolding settled_from_def no_registered_def no_live_child_def
        by (metis insertE subsetD)
    qed
    show ?thesis
    proof (cases x)
      case (Registered ref td)
      have "safe_step k (run_disposer (l, ref, td) k)"
        using run_disposer_step [OF Suc.prems(2)] effect_disposer_ok [OF Suc.prems(2,3)] Some Registered by blast
      moreover have "settled_from (run_disposer (l, ref, td) k) l i"
        using settled_run_disposer [OF Suc.prems(5)] Some Registered by blast
      ultimately show ?thesis using go Suc.prems(1) Some Registered by simp
    next
      case (RawEffect f)
      obtain res k1 where c: "call_raw env f k = (res, k1)" by (cases "call_raw env f k")
      then have s: "safe_step k k1" using raw_tame [OF Suc.prems(2), of f] by simp
      show ?thesis
        using go [OF _ s ndrop [OF s]] Suc.prems(1) Some RawEffect c by (cases res) auto
    next
      case (ChildScope c)
      obtain r k1 where d: "dispose fuel env c k = Some (r, k1)"
        using Suc.prems(1) Some ChildScope by (auto split: option.splits)
      have "has_layer k c"
        using Suc.prems(2) Some ChildScope by (metis effect_at_Some nth_mem scopes_ok_def sound_def)
      then have s: "safe_step k k1" "state_of k1 c \<noteq> Live" using child [OF d Suc.prems(2)] by auto
      show ?thesis
        using go [OF _ s(1) ndrop [OF s(1)]] Suc.prems(1) Some ChildScope d s(2) by (cases r) auto
    qed
  qed
qed

lemma dispose_safe:
  "dispose fuel env l k = Some (r, k') \<Longrightarrow> sound k \<Longrightarrow> has_layer k l \<Longrightarrow>
     safe_step k k' \<and> state_of k' l \<noteq> Live \<and> (state_of k l = Live \<longrightarrow> state_of k' l = Disposed)"
proof (induction fuel arbitrary: l k r k')
  case (Suc fuel)
  show ?case
  proof (cases "state_of k l = Live")
    case True
    let ?s = "start_dispose env l k"
    note s = start_dispose_step [OF Suc.prems(2,3) True]
    obtain fs k1 where u: "unwind fuel env l (length (effects_of ?s l)) [] ?s = Some (fs, k1)"
      and k': "k' = finish_dispose l k1"
      using Suc.prems(1) True by (auto split: option.splits)
    have "settled_from ?s l (length (effects_of ?s l))"
      by (rule settled_from_end) (simp add: effect_at_def)
    then have w: "safe_step ?s k1" "settled_from k1 l 0"
      using unwind_safe [OF _ u safe_step_sound [OF s(1)] s(3,2)] Suc.IH by blast+
    have l: "has_layer k1 l" "state_of k1 l \<noteq> Live" using w(1) s(2,3) by (auto simp: safe_step_def follows_def)
    have "safe_step k1 k'"
      unfolding k' using w(2) finish_dispose_step [OF safe_step_sound [OF w(1)] l] by (simp add: settled_from_def)
    then have "safe_step k k'" using safe_step_trans s(1) w(1) by blast
    then show ?thesis by (simp add: k' finish_dispose_simps)
  qed (use Suc.prems safe_step_refl in simp)
qed simp

end

subsection \<open>Disposing returns\<close>

definition live :: "('v, 'f) kernel \<Rightarrow> nat set" where
  "live k = {l. has_layer k l \<and> state_of k l = Live}"

definition no_new_layer :: "('v, 'f) kernel \<Rightarrow> ('v, 'f) kernel \<Rightarrow> bool" where
  "no_new_layer k k' \<longleftrightarrow> (\<forall>l. has_layer k' l \<longrightarrow> has_layer k l)"

lemma finite_layers: "finite {l. has_layer k l}"
proof -
  have "{l. has_layer k l} = set (map_keys (k_layers k))" by (auto simp: has_layer_def js_map.keys_get)
  then show ?thesis by simp
qed

lemma finite_live [simp]: "finite (live k)"
  by (rule finite_subset [OF _ finite_layers [of k]]) (auto simp: live_def)

lemma live_follows: "follows k k' \<Longrightarrow> no_new_layer k k' \<Longrightarrow> live k' \<subseteq> live k"
  by (auto simp: live_def follows_def no_new_layer_def)

lemma no_new_layer_trans: "no_new_layer k1 k2 \<Longrightarrow> no_new_layer k2 k3 \<Longrightarrow> no_new_layer k1 k3"
  by (auto simp: no_new_layer_def)

lemma no_new_layer_refl [simp]: "no_new_layer k k"
  by (simp add: no_new_layer_def)

locale closed_calls = tame_calls +
  assumes listener_closed: "no_new_layer k (snd (call_listener env f p k))"
    and sink_closed: "no_new_layer k (call_sink env e token k)"
    and raw_closed: "no_new_layer k (snd (call_raw env f k))"
begin

lemma emit_one_closed: "no_new_layer k (emit_one env token p e k)"
proof -
  obtain r k1 where c: "call_listener env (en_fn e) p k = (r, k1)" by (cases "call_listener env (en_fn e) p k")
  then have s1: "no_new_layer k k1" using listener_closed [of k "en_fn e" p] by simp
  then show ?thesis
    using c no_new_layer_trans [OF s1 sink_closed]
    by (auto simp: emit_one_def reportListenerError_def no_new_layer_def split: listener_result.split sum.split)
qed

lemma emit_all_closed: "no_new_layer k (fold (emit_one env token p) es k)"
proof (induction es arbitrary: k)
  case (Cons e es)
  show ?case using no_new_layer_trans [OF emit_one_closed Cons] by simp
qed simp

lemma start_dispose_closed: "has_layer k l \<Longrightarrow> no_new_layer k (start_dispose env l k)"
  using emit_all_closed [of "set_state l Disposing k"]
  by (auto simp: start_dispose_def emitFrom_def no_new_layer_def split: option.split sum.split)

lemma unwind_closed:
  assumes child: "\<And>c k r k'. dispose fuel env c k = Some (r, k') \<Longrightarrow> has_layer k c \<Longrightarrow> sound k \<Longrightarrow>
      no_new_layer k k' \<and> safe_step k k'"
  shows "unwind fuel env l i fs k = Some (fs', k') \<Longrightarrow> sound k \<Longrightarrow> has_layer k l \<Longrightarrow> no_new_layer k k'"
proof (induction i arbitrary: fs k)
  case (Suc i)
  have go: "no_new_layer k k'"
    if "unwind fuel env l i gs k1 = Some (fs', k')" "safe_step k k1" "no_new_layer k k1" for gs k1
  proof -
    have "sound k1" "has_layer k1 l" using that(2) Suc.prems(3) by (auto simp: safe_step_def follows_def)
    then show ?thesis using Suc.IH [OF that(1)] that(3) no_new_layer_trans by blast
  qed
  show ?case
  proof (cases "effect_at k l i")
    case None
    then show ?thesis using go [of fs k] Suc.prems by (simp add: safe_step_refl)
  next
    case (Some x)
    show ?thesis
    proof (cases x)
      case (Registered ref td)
      have "safe_step k (run_disposer (l, ref, td) k)"
        using run_disposer_step [OF Suc.prems(2)] effect_disposer_ok [OF Suc.prems(2,3)] Some Registered by blast
      moreover have "no_new_layer k (run_disposer (l, ref, td) k)"
        using Suc.prems(3) by (auto simp: no_new_layer_def run_disposer_simps)
      ultimately show ?thesis using go Suc.prems(1) Some Registered by simp
    next
      case (RawEffect f)
      obtain res k1 where c: "call_raw env f k = (res, k1)" by (cases "call_raw env f k")
      then have s: "safe_step k k1" "no_new_layer k k1"
        using raw_tame [OF Suc.prems(2), of f] raw_closed [of k f] by simp_all
      show ?thesis using go [OF _ s] Suc.prems(1) Some RawEffect c by (cases res) auto
    next
      case (ChildScope c)
      obtain r k1 where d: "dispose fuel env c k = Some (r, k1)"
        using Suc.prems(1) Some ChildScope by (auto split: option.splits)
      have "has_layer k c"
        using Suc.prems(2) Some ChildScope by (metis effect_at_Some nth_mem scopes_ok_def sound_def)
      then have s: "safe_step k k1" "no_new_layer k k1" using child [OF d _ Suc.prems(2)] by auto
      show ?thesis using go [OF _ s] Suc.prems(1) Some ChildScope d by (cases r) auto
    qed
  qed
qed simp

lemma dispose_closed:
  "dispose fuel env l k = Some (r, k') \<Longrightarrow> has_layer k l \<Longrightarrow> sound k \<Longrightarrow> no_new_layer k k'"
proof (induction fuel arbitrary: l k r k')
  case (Suc fuel)
  show ?case
  proof (cases "state_of k l = Live")
    case True
    let ?s = "start_dispose env l k"
    note s = start_dispose_step [OF Suc.prems(3,2) True]
    obtain fs k1 where u: "unwind fuel env l (length (effects_of ?s l)) [] ?s = Some (fs, k1)"
      and k': "k' = finish_dispose l k1"
      using Suc.prems(1) True by (auto split: option.splits)
    have "no_new_layer ?s k1"
      using unwind_closed [OF _ u safe_step_sound [OF s(1)] s(3)] Suc.IH dispose_safe by blast
    moreover have "has_layer k1 l" using unwind_safe [OF _ u safe_step_sound [OF s(1)] s(3,2)] dispose_safe s(3)
      settled_from_end [of ?s l "length (effects_of ?s l)"]
      by (metis (no_types, lifting) effect_at_def follows_def less_irrefl safe_step_def)
    then have "no_new_layer k1 k'" by (auto simp: k' no_new_layer_def finish_dispose_simps)
    ultimately show ?thesis using start_dispose_closed [OF Suc.prems(2)] no_new_layer_trans by blast
  qed (use Suc.prems in simp)
qed simp

lemma unwind_returns:
  assumes child: "\<And>c k. sound k \<Longrightarrow> has_layer k c \<Longrightarrow> card (live k) < fuel \<Longrightarrow> dispose fuel env c k \<noteq> None"
  shows "sound k \<Longrightarrow> has_layer k l \<Longrightarrow> card (live k) < fuel \<Longrightarrow> unwind fuel env l i fs k \<noteq> None"
proof (induction i arbitrary: fs k)
  case (Suc i)
  have go: "unwind fuel env l i gs k1 \<noteq> None" if "safe_step k k1" "no_new_layer k k1" for gs k1
  proof -
    have "sound k1" "has_layer k1 l" "follows k k1" using that(1) Suc.prems(2) by (auto simp: safe_step_def follows_def)
    moreover have "card (live k1) \<le> card (live k)"
      using live_follows [OF \<open>follows k k1\<close> that(2)] by (intro card_mono) simp_all
    ultimately show ?thesis using Suc.IH [of k1 gs] Suc.prems(3) by simp
  qed
  show ?case
  proof (cases "effect_at k l i")
    case None
    then show ?thesis using go [of k fs] Suc.prems by (simp add: safe_step_refl)
  next
    case (Some x)
    show ?thesis
    proof (cases x)
      case (Registered ref td)
      have "safe_step k (run_disposer (l, ref, td) k)"
        using run_disposer_step [OF Suc.prems(1)] effect_disposer_ok [OF Suc.prems(1,2)] Some Registered by blast
      moreover have "no_new_layer k (run_disposer (l, ref, td) k)"
        using Suc.prems(2) by (auto simp: no_new_layer_def run_disposer_simps)
      ultimately show ?thesis using go Some Registered by simp
    next
      case (RawEffect f)
      obtain res k1 where c: "call_raw env f k = (res, k1)" by (cases "call_raw env f k")
      then have s: "safe_step k k1" "no_new_layer k k1"
        using raw_tame [OF Suc.prems(1), of f] raw_closed [of k f] by simp_all
      show ?thesis using go [OF s] Some RawEffect c by (cases res) auto
    next
      case (ChildScope c)
      have hc: "has_layer k c"
        using Suc.prems(1) Some ChildScope by (metis effect_at_Some nth_mem scopes_ok_def sound_def)
      then obtain r k1 where d: "dispose fuel env c k = Some (r, k1)" using child [OF Suc.prems(1)] Suc.prems(3) by fastforce
      have s: "safe_step k k1" "no_new_layer k k1"
        using dispose_safe [OF d Suc.prems(1) hc] dispose_closed [OF d hc Suc.prems(1)] by auto
      show ?thesis using go [OF s] Some ChildScope d by (cases r) auto
    qed
  qed
qed simp

lemma dispose_returns: "sound k \<Longrightarrow> has_layer k l \<Longrightarrow> card (live k) < fuel \<Longrightarrow> dispose fuel env l k \<noteq> None"
proof (induction fuel arbitrary: l k)
  case (Suc fuel)
  show ?case
  proof (cases "state_of k l = Live")
    case True
    let ?s = "start_dispose env l k"
    note s = start_dispose_step [OF Suc.prems(1,2) True]
    have "live ?s \<subseteq> live k"
      by (intro live_follows start_dispose_closed [OF Suc.prems(2)]) (use s(1) in \<open>simp add: safe_step_def\<close>)
    moreover have "l \<in> live k" "l \<notin> live ?s" using Suc.prems(2) True s(2) by (auto simp: live_def)
    ultimately have "live ?s \<subset> live k" by blast
    then have "card (live ?s) < card (live k)" by (intro psubset_card_mono) simp_all
    then have "card (live ?s) < fuel" using Suc.prems(3) by simp
    then have "unwind fuel env l (length (effects_of ?s l)) [] ?s \<noteq> None"
      using unwind_returns [OF _ safe_step_sound [OF s(1)] s(3)] Suc.IH by blast
    then show ?thesis using True by (auto split: option.split)
  qed simp
qed simp

end

end
