(* ===== verification/KernelScripts.thy ===== *)
theory KernelScripts
  imports KernelDisposeProps
begin

text \<open>
  Plugins whose functions are scripts of operations of the context: they interpret the locales
  \<open>tame_calls\<close> and \<open>closed_calls\<close>. Then the states a context can reach, and the properties of the kernel.
\<close>

subsection \<open>Scripts\<close>

datatype 'v act =
    ActWait token nat
  | ActOff "'v disposer" \<comment> \<open>a disposer that has not been called\<close>
  | ActOn token "'v act list" bool nat
  | ActEffect "'v act list" nat
  | ActProvide token 'v nat
  | ActScope string nat
  | ActThrow string

definition or_else :: "'s \<Rightarrow> 'e + 's \<Rightarrow> 's" where
  "or_else k r = (case r of Inl _ \<Rightarrow> k | Inr k' \<Rightarrow> k')"

definition registered :: "'v disposer \<Rightarrow> ('v, 'f) kernel \<Rightarrow> bool" where
  "registered d k = (case d of (l, ref, td) \<Rightarrow>
     has_layer k l \<and> Registered ref td \<in> set (effects_of k l))"

definition run_act :: "bool \<Rightarrow> 'v act \<Rightarrow> ('v, 'v act list) kernel \<Rightarrow> ('v, 'v act list) kernel" where
  "run_act scopes a k =
     (case a of
        ActWait token l \<Rightarrow> if has_layer k l then snd (waitFor token l k) else k
      | ActOff d \<Rightarrow> if registered d k then run_disposer d k else k
      | ActOn token f prepend l \<Rightarrow> if has_layer k l then or_else k (map_sum id snd (on_token token f prepend l k)) else k
      | ActEffect f l \<Rightarrow> if has_layer k l then or_else k (effect_raw f l k) else k
      | ActProvide token v l \<Rightarrow> if has_layer k l then or_else k (map_sum id snd (provide_core token v l k)) else k
      | ActScope agent l \<Rightarrow> if scopes \<and> has_layer k l then or_else k (map_sum id snd (scope agent l k)) else k
      | ActThrow _ \<Rightarrow> k)"

fun run_script :: "bool \<Rightarrow> 'v act list \<Rightarrow> ('v, 'v act list) kernel \<Rightarrow> string option \<times> ('v, 'v act list) kernel" where
  "run_script scopes [] k = (None, k)"
| "run_script scopes (ActThrow e # as) k = (Some e, k)"
| "run_script scopes (a # as) k = run_script scopes as (run_act scopes a k)"

definition script_calls :: "bool \<Rightarrow> ('v, 'v act list) calls" where
  "script_calls scopes =
     \<lparr>call_listener = (\<lambda>f p k. case run_script scopes f k of (None, k) \<Rightarrow> (Returned JUndef, k) | (Some e, k) \<Rightarrow> (Threw e, k)),
      call_sink = (\<lambda>e token k. k), call_raw = run_script scopes\<rparr>"

lemma or_else_safe:
  "sound k \<Longrightarrow> (\<And>k'. r = Inr k' \<Longrightarrow> safe_step k k') \<Longrightarrow> safe_step k (or_else k r)"
  by (auto simp: or_else_def safe_step_refl split: sum.split)

lemma map_sum_snd: "map_sum id snd r = Inr k' \<Longrightarrow> \<exists>d. r = Inr (d, k')"
  by (cases r) auto

lemma registered_ok: "sound k \<Longrightarrow> registered d k \<Longrightarrow> disposer_ok d k"
  by (cases d) (auto simp: registered_def disposer_ok_def sound_def kernel_ok_def effects_ok_def)

lemma run_act_safe:
  assumes "sound k"
  shows "safe_step k (run_act scopes a k)"
proof (cases a)
  case (ActWait token l)
  then show ?thesis
    using waitFor_step [OF assms, of l token "fst (waitFor token l k)" "snd (waitFor token l k)"] safe_step_refl [OF assms]
    by (simp add: run_act_def)
next
  case (ActOff d)
  then show ?thesis
    using run_disposer_step [OF assms registered_ok [OF assms]] safe_step_refl [OF assms] by (simp add: run_act_def)
next
  case (ActOn token f prepend l)
  then show ?thesis
    using safe_step_refl [OF assms] on_token_step [OF assms]
    by (auto simp: run_act_def intro!: or_else_safe [OF assms] dest!: map_sum_snd)
next
  case (ActEffect f l)
  then show ?thesis
    using safe_step_refl [OF assms] effect_raw_step [OF assms]
    by (auto simp: run_act_def intro!: or_else_safe [OF assms])
next
  case (ActProvide token v l)
  then show ?thesis
    using safe_step_refl [OF assms] provide_core_step [OF assms]
    by (auto simp: run_act_def intro!: or_else_safe [OF assms] dest!: map_sum_snd)
next
  case (ActScope agent l)
  then show ?thesis
    using safe_step_refl [OF assms] scope_step [OF assms]
    by (auto simp: run_act_def intro!: or_else_safe [OF assms] dest!: map_sum_snd)
qed (simp add: run_act_def safe_step_refl [OF assms])

lemma run_script_safe: "sound k \<Longrightarrow> safe_step k (snd (run_script scopes f k))"
proof (induction scopes f k rule: run_script.induct)
  case (1 scopes k)
  then show ?case by (simp add: safe_step_refl)
next
  case (2 scopes e as k)
  then show ?case by (simp add: safe_step_refl)
qed (use safe_step_trans run_act_safe safe_step_sound in \<open>simp; blast\<close>)+

lemma script_listener: "snd (call_listener (script_calls scopes) f p k) = snd (run_script scopes f k)"
  by (simp add: script_calls_def split: prod.split option.split)

interpretation open_scripts: tame_calls "script_calls True"
  by unfold_locales
    (simp_all only: script_listener run_script_safe, simp_all add: script_calls_def run_script_safe safe_step_refl)

lemma live_layers_kept:
  "has_layer k l \<Longrightarrow> on_token token f prepend l k = Inr (d, k') \<Longrightarrow> no_new_layer k k'"
  "has_layer k l \<Longrightarrow> effect_raw f l k = Inr k' \<Longrightarrow> no_new_layer k k'"
  "has_layer k l \<Longrightarrow> provide_core token v l k = Inr (d, k') \<Longrightarrow> no_new_layer k k'"
  "no_new_layer k (snd (waitFor token l k))"
  by (auto simp: no_new_layer_def on_token_Inr effect_raw_def assertLive_def provide_core_Inr service_table_def
      waitFor_def dest!: snd_eq split: option.splits if_splits)

lemma or_else_closed: "(\<And>k'. r = Inr k' \<Longrightarrow> no_new_layer k k') \<Longrightarrow> no_new_layer k (or_else k r)"
  by (auto simp: or_else_def split: sum.split)

lemma run_act_closed: "no_new_layer k (run_act False a k)"
  by (cases a) (auto simp: run_act_def live_layers_kept registered_def no_new_layer_def [of _ "run_disposer _ _"]
      run_disposer_simps intro!: or_else_closed dest!: map_sum_snd intro: live_layers_kept)

lemma run_script_closed: "no_new_layer k (snd (run_script False f k))"
proof (induction "False" f k rule: run_script.induct)
qed (use no_new_layer_trans run_act_closed in \<open>simp; blast?\<close>)+

interpretation closed_scripts: closed_calls "script_calls False"
  by unfold_locales
    (simp_all only: script_listener run_script_safe run_script_closed,
     simp_all add: script_calls_def run_script_safe run_script_closed safe_step_refl)

end
