(* ===== verification/KernelProps.thy ===== *)
theory KernelProps
  imports KernelScripts
begin

text \<open>
  The states a context can reach by its operations, and the properties of the kernel: the invariant, what
  \<open>dispose\<close> releases and that it returns, what a disposer undoes, and two ways in which a disposer or a
  function given to \<open>effect\<close> acts twice.
\<close>

subsection \<open>Reachable states\<close>

inductive reaches :: "('v, 'f) calls \<Rightarrow> ('v, 'f) kernel \<Rightarrow> bool" for env where
  created: "reaches env createContext"
| listened: "reaches env k \<Longrightarrow> has_layer k l \<Longrightarrow> on_token token fn prepend l k = Inr (d, k') \<Longrightarrow> reaches env k'"
| provided_service: "reaches env k \<Longrightarrow> has_layer k l \<Longrightarrow> provide env token v l k = Inr (d, k') \<Longrightarrow> reaches env k'"
| chained: "reaches env k \<Longrightarrow> createChain l k = Inr (c, k') \<Longrightarrow> reaches env k'"
| joined: "reaches env k \<Longrightarrow> has_layer k l \<Longrightarrow> onChain c fn prepend l k = Inr (d, k') \<Longrightarrow> reaches env k'"
| effect_given: "reaches env k \<Longrightarrow> has_layer k l \<Longrightarrow> effect_raw fn l k = Inr k' \<Longrightarrow> reaches env k'"
| scoped: "reaches env k \<Longrightarrow> has_layer k l \<Longrightarrow> scope agent l k = Inr (c, k') \<Longrightarrow> reaches env k'"
| waited: "reaches env k \<Longrightarrow> has_layer k l \<Longrightarrow> waitFor token l k = (p, k') \<Longrightarrow> reaches env k'"
| emitted: "reaches env k \<Longrightarrow> emit env token payload l k = Inr k' \<Longrightarrow> reaches env k'"
| reported: "reaches env k \<Longrightarrow> reaches env (report_later env k)"
| undone: "reaches env k \<Longrightarrow> disposer_ok d k \<Longrightarrow> reaches env (run_disposer d k)"
| disposed: "reaches env k \<Longrightarrow> has_layer k l \<Longrightarrow> dispose fuel env l k = Some (r, k') \<Longrightarrow> reaches env k'"

lemma map_get_Nil [simp]: "map_get [] x = None"
  by (simp add: map_get_def)

lemma created_simps [simp]:
  "has_layer createContext l \<longleftrightarrow> l = 0" "layer_of createContext l = root_layer"
  "effects_of createContext l = []" "state_of createContext l = Live" "k_next createContext = 1"
  "k_listeners createContext = []" "k_chains createContext = []" "k_services createContext = []"
  "k_waiters createContext = []"
  by (auto simp: createContext_def has_layer_def layer_of_def effects_of_def state_of_def root_layer_def map_get_def
      split: if_splits)

lemma created_sound: "sound createContext"
  by (simp add: sound_def kernel_ok_def layers_ok_def effects_ok_def listeners_ok_def chains_ok_def tables_ok_def
      waiters_ok_def scopes_ok_def root_layer_def)

lemma provided_has_effect:
  assumes "tables_ok k" "provided k token l = Some v"
  shows "\<exists>t. has_effect k l (ServiceOff token t l v)"
proof -
  obtain t where "map_get (k_services k) token = Some t" "map_get (table_of k t) l = Some v"
    using assms(2) by (auto simp: provided_def split: option.splits)
  then have "has_effect k l (ServiceOff token t l v)" using assms(1) by (simp add: tables_ok_def)
  then show ?thesis by blast
qed

lemma has_effect_not_disposed: "layers_ok k \<Longrightarrow> has_effect k l td \<Longrightarrow> state_of k l \<noteq> Disposed"
  by (auto simp: has_effect_def layers_ok_def)

context tame_calls
begin

lemma report_later_step:
  assumes "sound k"
  shows "safe_step k (report_later env k)"
proof (cases "k_later k")
  case (Cons x rest)
  obtain error token where x: "x = (error, token)" by (cases x)
  note l = later_step [OF assms, of rest]
  show ?thesis
    using safe_step_trans [OF l sink_tame [OF safe_step_sound [OF l], of error token]]
    by (simp add: report_later_def reportListenerError_def Cons x)
qed (simp add: report_later_def safe_step_refl [OF assms])

lemma reaches_sound: "reaches env k \<Longrightarrow> sound k"
proof (induction rule: reaches.induct)
  case created
  show ?case by (rule created_sound)
next
  case (listened k l token fn prepend d k')
  show ?case by (rule safe_step_sound [OF on_token_step [OF listened.IH listened.hyps(2,3)]])
next
  case (provided_service k l token v d k')
  show ?case by (rule safe_step_sound [OF provide_step [OF provided_service.IH provided_service.hyps(2,3)]])
next
  case (chained k l c k')
  show ?case by (rule safe_step_sound [OF createChain_step [OF chained.IH chained.hyps(2)]])
next
  case (joined k l c fn prepend d k')
  show ?case by (rule safe_step_sound [OF onChain_step [OF joined.IH joined.hyps(2,3)]])
next
  case (effect_given k l fn k')
  show ?case by (rule safe_step_sound [OF effect_raw_step [OF effect_given.IH effect_given.hyps(2,3)]])
next
  case (scoped k l agent c k')
  show ?case by (rule safe_step_sound [OF scope_step [OF scoped.IH scoped.hyps(2,3)]])
next
  case (waited k l token p k')
  show ?case by (rule safe_step_sound [OF waitFor_step [OF waited.IH waited.hyps(2,3)]])
next
  case (emitted k token payload l k')
  then have "emitFrom env l token payload k = Inr k'" by (simp add: emit_def split: if_splits)
  then show ?case by (rule safe_step_sound [OF emitFrom_step [OF emitted.IH]])
next
  case (reported k)
  show ?case by (rule safe_step_sound [OF report_later_step [OF reported.IH]])
next
  case (undone k d)
  show ?case by (rule safe_step_sound [OF run_disposer_step [OF undone.IH undone.hyps(2)]])
next
  case (disposed k l fuel r k')
  show ?case using dispose_safe [OF disposed.hyps(3) disposed.IH disposed.hyps(2)] safe_step_sound by blast
qed

end


subsection \<open>A context to try things on\<close>

definition greeter :: token where \<comment> \<open>a service\<close>
  "greeter = \<lparr>tk_ref = 10, tk_kind = ''service'', tk_name = ''greeter'', tk_mode = None, tk_freeze = None\<rparr>"

definition tick :: token where \<comment> \<open>an event\<close>
  "tick = event_token 11 ''tick''"

definition state_after :: "('v, 'f) kernel \<Rightarrow> kernel_error + 'a \<times> ('v, 'f) kernel \<Rightarrow> ('v, 'f) kernel" where
  "state_after k r = or_else k (map_sum id snd r)"

definition with_listener :: "(nat, nat act list) kernel" where
  \<comment> \<open>a listener of the root that provides nothing and throws\<close>
  "with_listener = state_after createContext (on_token tick [ActThrow ''bad listener''] False 0 createContext)"

definition with_scope :: "(nat, nat act list) kernel" where
  \<comment> \<open>layer 3, for one agent\<close>
  "with_scope = state_after with_listener (scope ''agent'' 0 with_listener)"

definition with_inner :: "(nat, nat act list) kernel" where
  "with_inner = state_after with_scope (on_token tick [ActProvide greeter 7 0] True 3 with_scope)"

definition with_waiter :: "(nat, nat act list) kernel" where
  "with_waiter = snd (waitFor greeter 3 with_inner)"

lemma sample_reaches: "reaches (script_calls True) with_waiter"
proof -
  let ?on = "\<lambda>f b l k. on_token tick f b l (k :: (nat, nat act list) kernel)"
  have 1: "?on [ActThrow ''bad listener''] False 0 createContext = Inr ((0, 2, ListenerOff tick 1), with_listener)"
    by code_simp
  have 2: "scope ''agent'' 0 with_listener = Inr (3, with_scope)" by code_simp
  have 3: "?on [ActProvide greeter 7 0] True 3 with_scope = Inr ((3, 5, ListenerOff tick 4), with_inner)" by code_simp
  have 4: "waitFor greeter 3 with_inner = (Pending 6, with_waiter)" by code_simp
  have h: "has_layer with_listener 0" "has_layer with_scope 3" "has_layer with_inner 3"
    unfolding has_layer_def by code_simp+
  have "reaches (script_calls True) with_listener" by (rule reaches.listened [OF reaches.created _ 1]) simp
  then have "reaches (script_calls True) with_scope" by (rule reaches.scoped [OF _ h(1) 2])
  then have "reaches (script_calls True) with_inner" by (rule reaches.listened [OF _ h(2) 3])
  then show ?thesis by (rule reaches.waited [OF _ h(3) 4])
qed


subsection \<open>Disposal\<close>


text \<open>C3: Disposing returns when the functions of the plugins make no scopes: nested disposals go down one live
  scope at a time, so fuel above the number of live layers is enough.\<close>

theorem dispose_terminates:
  assumes "closed_calls env" "sound k" "has_layer k l" "card (live k) < fuel"
  shows "\<exists>r k'. dispose fuel env l k = Some (r, k')"
  using closed_calls.dispose_returns [OF assms] by auto


lemma sample_sound: "sound with_waiter"
  by (rule open_scripts.reaches_sound [OF sample_reaches])

lemma sample_layer: "has_layer with_waiter 3" "state_of with_waiter 3 = Live"
  unfolding has_layer_def by code_simp+



lemma live_sample: "card (live with_waiter) < 3"
proof -
  have "live with_waiter \<subseteq> set (map_keys (k_layers with_waiter))"
    by (auto simp: live_def has_layer_def js_map.keys_get)
  moreover have "map_keys (k_layers with_waiter) = [0, 3]" by code_simp
  ultimately have "live with_waiter \<subseteq> {0, 3}" by simp
  then have "card (live with_waiter) \<le> card {0 :: nat, 3}" by (intro card_mono) simp_all
  then show ?thesis by simp
qed

lemma dispose_terminates_witness:
  "\<exists>r k'. dispose 3 (script_calls False) 3 with_waiter = Some (r, k')"
  by (rule dispose_terminates [OF closed_scripts.closed_calls_axioms sample_sound sample_layer(1) live_sample])

subsection \<open>What a disposer undoes\<close>

lemma provided_service_off:
  assumes "map_get (k_services k) token = Some t" "map_get (table_of k t) l = Some v"
    and "\<And>a. map_get (k_services k) a = Some t \<Longrightarrow> a = token"
  shows "provided (run_teardown (ServiceOff token t l v) k) a b = (if a = token \<and> b = l then None else provided k a b)"
proof -
  let ?m = "map_delete (table_of k t) l"
  have m: "drop_provided l v (table_of k t) = ?m" using assms(2) by (simp add: drop_provided_def)
  have empty: "?m = [] \<Longrightarrow> b \<noteq> l \<Longrightarrow> map_get (table_of k t) b = None" for b
    using js_map.get_del [of "table_of k t" l b] by simp
  show ?thesis
  proof (cases "a = token")
    case True
    then show ?thesis
      using assms(1) empty [of b]
      by (auto simp: run_teardown_def Let_def m provided_def js_map.get_del)
  next
    case False
    then have "map_get (k_services k) a \<noteq> Some t" using assms(3) by blast
    then show ?thesis
      using False
      by (auto simp: run_teardown_def m Let_def provided_def js_map.get_del split: option.split)
  qed
qed

lemma run_disposer_teardown: "provided (run_disposer (l, ref, td) k) = provided (run_teardown td k)"
proof -
  have "k_services (run_teardown td (set_effects l es k)) = k_services (run_teardown td k)"
    "table_of (run_teardown td (set_effects l es k)) = table_of (run_teardown td k)" for es
    by (auto simp: run_teardown_def set_entries_def Let_def write_table_def table_of_def fun_eq_iff
        split: teardown.split option.split)
  then show ?thesis unfolding run_disposer_def by (intro provided_cong) simp_all
qed


text \<open>C4: Registering and disposing is a round trip. Providing a service and calling the disposer leaves every
  look-up, of every service from every layer, as it was before; listening and calling the disposer leaves
  the listeners of every event as they were.\<close>

theorem disposer_undoes:
  assumes "sound k" "has_layer k l"
  shows "(case provide_core token v l k of
            Inr (d, k') \<Rightarrow> has_layer k m \<longrightarrow> findVisibleEntry (run_disposer d k') a m = findVisibleEntry k a m
          | Inl _ \<Rightarrow> True) \<and>
         (case on_token token fn prepend l k of
            Inr (d, k') \<Rightarrow> entries_of (run_disposer d k') a = entries_of k a
          | Inl _ \<Rightarrow> True)"
proof -
  have ok: "kernel_ok k" "layers_ok k" "tables_ok k" "listeners_ok k" using assms(1) by (auto simp: sound_def kernel_ok_def)
  have "findVisibleEntry (run_disposer d k') a m = findVisibleEntry k a m"
    if p: "provide_core token v l k = Inr (d, k')" and m: "has_layer k m" for d k'
  proof -
    obtain t k0 where st: "service_table token k = (t, k0)" and free: "map_get (table_of k0 t) l = None"
      and d: "(d, k') = registerEffect l (ServiceOff token t l v)
        (settleWaiters token l (write_table t (map_set (table_of k0 t) l v) k0))"
      using p by (auto simp: provide_core_Inr)
    note c = service_table_cases [OF ok(3) st]
    have k': "k_services k' = k_services k0" "map_get (table_of k' t) l = Some v" "\<exists>ref. d = (l, ref, ServiceOff token t l v)"
      using d by (auto simp: registerEffect_def js_map.get_put table_of_def write_table_def settleWaiters_def settle_fold)
    then obtain ref where dd: "d = (l, ref, ServiceOff token t l v)" by blast
    have "provided k0 token l = None" using free c(8) by (simp add: provided_def)
    then have "provided k token l = None" using c(9) by simp
    have off: "provided (run_teardown (ServiceOff token t l v) k') b x =
        (if b = token \<and> x = l then None else provided k' b x)" for b x
    proof (rule provided_service_off)
      show "map_get (k_services k') token = Some t" using k'(1) c(8) by simp
      show "map_get (table_of k' t) l = Some v" by (rule k'(2))
      show "c = token" if "map_get (k_services k') c = Some t" for c using that k'(1) c(10) by simp
    qed
    have "provided (run_disposer d k') = provided k"
      unfolding dd run_disposer_teardown fun_eq_iff off provide_core_ok(4) [OF ok(1) assms(2) p]
      using \<open>provided k token l = None\<close> by simp
    moreover have "chainSet (run_disposer d k') m = chainSet k m"
      by (rule chainSet_old [OF ok(2) _ m])
        (use provide_core_ok(3) [OF ok(1) assms(2) p] in \<open>simp add: dd run_disposer_simps grows_def\<close>)
    ultimately show ?thesis by (simp only: findVisibleEntry_provided)
  qed
  moreover have "entries_of (run_disposer d k') a = entries_of k a" if o: "on_token token fn prepend l k = Inr (d, k')" for d k'
  proof -
    obtain mode where d: "(d, k') = registerEffect l (ListenerOff token (k_next k))
      (k\<lparr>k_listeners := map_set (k_listeners k) token
           (insertByLayerDepth (entry_depth k) (entries_of k token)
             \<lparr>en_ref = k_next k, en_layer = l, en_mode = mode, en_fn = fn\<rparr> prepend),
         k_next := Suc (k_next k)\<rparr>)"
      using o by (auto simp: on_token_Inr)
    have "drop_entry (k_next k) (insertByLayerDepth (entry_depth k) (entries_of k token)
        \<lparr>en_ref = k_next k, en_layer = l, en_mode = mode, en_fn = fn\<rparr> prepend) = entries_of k token"
      using insert_drop [of "\<lparr>en_ref = k_next k, en_layer = l, en_mode = mode, en_fn = fn\<rparr>" "entries_of k token"]
        fresh_entry [OF entries_of_ok [OF ok(4), of token]] by simp
    moreover have "d = (l, Suc (k_next k), ListenerOff token (k_next k))" using d by (simp add: registerEffect_def)
    moreover have "k_listeners k' = map_set (k_listeners k) token (insertByLayerDepth (entry_depth k) (entries_of k token)
             \<lparr>en_ref = k_next k, en_layer = l, en_mode = mode, en_fn = fn\<rparr> prepend)"
      using snd_eq [OF d] by simp
    ultimately show ?thesis
      by (auto simp: entries_of_def [of _ a] run_disposer_def teardown_listeners js_map.get_put entries_of_def split: option.split)
  qed
  ultimately show ?thesis by (auto split: sum.split)
qed

lemma disposer_undoes_witness:
  "(case provide_core greeter 5 3 with_waiter of
      Inr (d, k') \<Rightarrow> findVisibleEntry k' greeter 3 = Some 5 \<and> findVisibleEntry (run_disposer d k') greeter 3 = None
    | Inl _ \<Rightarrow> False)"
proof -
  have "case provide_core greeter 5 3 with_waiter of Inr (d, k') \<Rightarrow> findVisibleEntry k' greeter 3 = Some 5 | Inl _ \<Rightarrow> False"
    by code_simp
  moreover have "findVisibleEntry with_waiter greeter 3 = None" by code_simp
  ultimately show ?thesis
    using disposer_undoes [OF sample_sound sample_layer(1), where token = greeter and v = 5 and m = 3 and a = greeter] sample_layer(1)
    by (auto split: sum.splits)
qed

subsection \<open>Disposers called twice\<close>

text \<open>A disposer of a service that is called a second time, after its token was provided anew, takes the new
  service away: the table it was made for is empty, and on finding that it drops the table the token has now,
  whoever filled it.\<close>

theorem stale_disposer_removes_successor:
  assumes "sound k" "has_layer k l" "has_layer k m" "map_get (k_services k) token = None"
    and "provide_core token v l k = Inr (d, k1)" "provide_core token w m (run_disposer d k1) = Inr (d', k2)"
  shows "tryUse k2 token m = Some w \<and> tryUse (run_disposer d k2) token x = None"
proof -
  have ok: "kernel_ok k" "tables_ok k" using assms(1) by (auto simp: sound_def kernel_ok_def)
  obtain t k0 where st: "service_table token k = (t, k0)"
    and d: "(d, k1) = registerEffect l (ServiceOff token t l v)
      (settleWaiters token l (write_table t (map_set (table_of k0 t) l v) k0))"
    using assms(5) by (auto simp: provide_core_Inr)
  have k0: "t = k_next k" "k0 = k\<lparr>k_services := map_set (k_services k) token t, k_tables := map_set (k_tables k) t [],
      k_next := Suc t\<rparr>"
    using st assms(4) by (auto simp: service_table_def)
  let ?r = "run_disposer d k1"
  obtain ref where dd: "d = (l, ref, ServiceOff token t l v)" using d by (auto simp: registerEffect_def)
  have k1: "k_services k1 = map_set (k_services k) token t" "table_of k1 t = [(l, v)]" "t < k_next k1"
    using snd_eq [OF d] by (simp_all add: k0 table_of_def [of _ t] js_map.get_put) (simp_all add: write_table_def js_map.get_put table_of_def)
  have m1: "drop_provided l v [(l, v)] = []" by (simp add: drop_provided_def map_get_def map_delete_def)
  have r: "map_get (k_services ?r) token = None" "table_of ?r t = []" "k_next ?r = k_next k1"
    using k1 m1 by (simp_all add: dd run_disposer_def run_teardown_def Let_def js_map.get_del)
  obtain u k3 where st': "service_table token ?r = (u, k3)"
    and d': "(d', k2) = registerEffect m (ServiceOff token u m w)
      (settleWaiters token m (write_table u (map_set (table_of k3 u) m w) k3))"
    using assms(6) by (auto simp: provide_core_Inr)
  have k3: "u = k_next k1" "table_of k3 t = []"
    using st' r k1(3) by (auto simp: service_table_def table_of_def js_map.get_put)
  have s1: "kernel_ok k1" "disposer_ok d k1" using provide_core_ok [OF ok(1) assms(2,5)] by auto
  then have "kernel_ok ?r" by (rule run_disposer_ok)
  moreover have hm: "has_layer ?r m"
    using provide_core_ok(3) [OF ok(1) assms(2,5)] assms(3) by (simp add: dd run_disposer_simps grows_def)
  ultimately have p2: "kernel_ok k2" "provided k2 token m = Some w"
    using provide_core_ok [OF _ _ assms(6)] by simp_all
  have "has_layer k2 m" using provide_core_ok(3) [OF \<open>kernel_ok ?r\<close> hm assms(6)] hm by (simp add: grows_def)
  then have "tryUse k2 token m = Some w"
    using p2 chainSet_unfold [of k2 m] by (simp add: tryUse_def findVisibleEntry_provided kernel_ok_def)
  moreover have "table_of k2 t = []" using snd_eq [OF d'] k3 k1(3) by simp
  then have "map_get (k_services (run_disposer d k2)) token = None"
    by (simp add: dd run_disposer_def run_teardown_def drop_provided_def map_get_def [of "[]"] Let_def js_map.get_del)
  then have "tryUse (run_disposer d k2) token x = None" by (simp add: tryUse_def findVisibleEntry_def)
  ultimately show ?thesis by blast
qed


lemma stale_disposer_removes_successor_witness:
  "case provide_core greeter (1 :: nat) 0 (createContext :: (nat, nat act list) kernel) of
     Inr (d, k1) \<Rightarrow>
       (case provide_core greeter 2 0 (run_disposer d k1) of
          Inr (d', k2) \<Rightarrow> tryUse k2 greeter 0 = Some 2 \<and> tryUse (run_disposer d k2) greeter 0 = None
        | Inl _ \<Rightarrow> False)
   | Inl _ \<Rightarrow> False"
proof -
  let ?k = "createContext :: (nat, nat act list) kernel"
  have e: "isl (provide_core greeter (1 :: nat) 0 ?k) = False"
    "isl (provide_core greeter 2 0 (case provide_core greeter (1 :: nat) 0 ?k of Inr (d, k1) \<Rightarrow> run_disposer d k1 | Inl _ \<Rightarrow> ?k)) = False"
    by code_simp+
  from e(1) obtain d k1 where p: "provide_core greeter (1 :: nat) 0 ?k = Inr (d, k1)"
    by (cases "provide_core greeter (1 :: nat) 0 ?k") auto
  from e(2) p obtain d' k2 where q: "provide_core greeter 2 0 (run_disposer d k1) = Inr (d', k2)"
    by (cases "provide_core greeter 2 0 (run_disposer d k1)") auto
  show ?thesis
    using stale_disposer_removes_successor [OF created_sound _ _ _ p q] p q by (simp add: created_simps)
qed

definition off_and_throw :: "nat act list" where
  "off_and_throw = [ActOff (0, 2, ListenerOff tick 1), ActThrow ''boom'']"

definition with_raw :: "(nat, nat act list) kernel" where
  \<comment> \<open>a listener, and after it an effect that stops it\<close>
  "with_raw = or_else with_listener (effect_raw off_and_throw 0 with_listener)"

text \<open>A function given to \<open>effect\<close> can run twice in one disposal: when it calls the disposer of something
  registered before it, that disposer leaves the list of effects, the function itself moves one place down,
  and the loop comes to it again.\<close>

theorem effect_runs_twice:
  "effects_of with_raw 0 = [Registered 2 (ListenerOff tick 1), RawEffect off_and_throw] \<and>
   map_option fst (dispose 1 (script_calls True) 0 with_raw) =
     Some (Some (AggregateFailure [Failure ''boom'', Failure ''boom'']))"
  by (intro conjI) code_simp+

subsection \<open>The order of disposal\<close>

definition unwind_one ::
  "('v, 'f) calls \<Rightarrow> nat \<Rightarrow> ('v, 'f) effect \<Rightarrow> failure list \<times> ('v, 'f) kernel \<Rightarrow> failure list \<times> ('v, 'f) kernel" where
  "unwind_one env l e s =
     (case e of
        Registered ref td \<Rightarrow> (fst s, run_disposer (l, ref, td) (snd s))
      | RawEffect f \<Rightarrow>
          (case call_raw env f (snd s) of (None, k) \<Rightarrow> (fst s, k) | (Some err, k) \<Rightarrow> (fst s @ [Failure err], k))
      | ChildScope c \<Rightarrow> s)"

lemma unwind_one_simps:
  "unwind_one env l (Registered ref td) (fs, k) = (fs, run_disposer (l, ref, td) k)"
  "unwind_one env l (RawEffect f) (fs, k) =
     (case call_raw env f k of (None, k) \<Rightarrow> (fs, k) | (Some err, k) \<Rightarrow> (fs @ [Failure err], k))"
  by (simp_all add: unwind_one_def split: prod.split option.split)

definition leaves_effects :: "('v, 'f) calls \<Rightarrow> nat \<Rightarrow> ('v, 'f) effect \<Rightarrow> bool" where
  \<comment> \<open>not a scope, and its function does not touch the effects of the layer\<close>
  "leaves_effects env l e \<longleftrightarrow>
     (case e of
        Registered _ _ \<Rightarrow> True
      | RawEffect f \<Rightarrow> (\<forall>k. effects_of (snd (call_raw env f k)) l = effects_of k l)
      | ChildScope _ \<Rightarrow> False)"

fun disposer_refs :: "('v, 'f) effect list \<Rightarrow> nat list" where
  "disposer_refs [] = []"
| "disposer_refs (Registered ref td # es) = ref # disposer_refs es"
| "disposer_refs (e # es) = disposer_refs es"

lemma disposer_refs_append [simp]: "disposer_refs (es @ fs) = disposer_refs es @ disposer_refs fs"
  by (induction es rule: disposer_refs.induct) auto

lemma refs_not_disposer: "ref \<notin> set (disposer_refs es) \<Longrightarrow> filter (\<lambda>e. \<not> is_disposer ref e) es = es"
  by (induction es rule: disposer_refs.induct) auto

lemma unwind_fold:
  assumes "\<forall>e \<in> set es. leaves_effects env l e" "distinct (disposer_refs es)" "set (disposer_refs es) \<inter> set (disposer_refs fs) = {}"
    and "effects_of k l = es @ fs"
  shows "unwind fuel env l (length es) failures k = Some (fold (unwind_one env l) (rev es) (failures, k))"
  using assms
proof (induction es arbitrary: fs failures k rule: rev_induct)
  case (snoc e es)
  have at: "effect_at k l (length es) = Some e" using snoc.prems(4) by (simp add: effect_at_def nth_append)
  have es: "\<forall>e \<in> set es. leaves_effects env l e" "distinct (disposer_refs es)" using snoc.prems(1,2) by simp_all
  show ?case
  proof (cases e)
    case (Registered ref td)
    have refs: "ref \<notin> set (disposer_refs es)" "ref \<notin> set (disposer_refs fs)"
      using snoc.prems(2,3) Registered by auto
    have "effects_of (run_disposer (l, ref, td) k) l = es @ fs"
      using snoc.prems(4) Registered refs by (simp add: run_disposer_simps refs_not_disposer)
    then have "unwind fuel env l (length es) failures (run_disposer (l, ref, td) k) =
        Some (fold (unwind_one env l) (rev es) (failures, run_disposer (l, ref, td) k))"
      using snoc.IH [OF es _] snoc.prems(3) by auto
    then show ?thesis using at Registered by (simp add: unwind_one_simps)
  next
    case (RawEffect f)
    obtain res k1 where c: "call_raw env f k = (res, k1)" by (cases "call_raw env f k")
    have "effects_of k1 l = es @ e # fs"
      using snoc.prems(1,4) RawEffect c by (auto simp: leaves_effects_def) (metis snd_conv)
    then have "unwind fuel env l (length es) gs k1 = Some (fold (unwind_one env l) (rev es) (gs, k1))" for gs
      using snoc.IH [OF es, of "e # fs"] snoc.prems(3) RawEffect by simp
    then show ?thesis using at RawEffect c by (cases res) (simp_all add: unwind_one_simps)
  qed (use snoc.prems(1) in \<open>simp add: leaves_effects_def\<close>)
qed simp

text \<open>C5: The effects of a layer are unwound once each, the last registered first, and a failing one does not
  stop the others: the loop over the changing list is a fold over the reversed list it started with, when the
  functions given to \<open>effect\<close> do not touch that list and the layer has no scopes under it.\<close>

theorem unwinds_in_reverse:
  assumes "\<forall>e \<in> set (effects_of k l). leaves_effects env l e" "distinct (disposer_refs (effects_of k l))"
  shows "unwind fuel env l (length (effects_of k l)) failures k =
    Some (fold (unwind_one env l) (rev (effects_of k l)) (failures, k))"
  using unwind_fold [OF assms, of "[]"] by simp

definition with_failing :: "(nat, nat act list) kernel" where
  "with_failing = or_else with_listener (effect_raw [ActThrow ''boom''] 0 with_listener)"

lemma unwinds_in_reverse_witness:
  "map_option fst (unwind 1 (script_calls True) 0 (length (effects_of with_failing 0)) [] with_failing) =
     Some [Failure ''boom'']"
proof -
  have e: "effects_of with_failing 0 = [Registered 2 (ListenerOff tick 1), RawEffect [ActThrow ''boom'']]" by code_simp
  have u: "unwind 1 (script_calls True) 0 (length (effects_of with_failing 0)) [] with_failing =
    Some (fold (unwind_one (script_calls True) 0) (rev (effects_of with_failing 0)) ([], with_failing))"
    by (rule unwinds_in_reverse) (simp_all add: e leaves_effects_def script_calls_def)
  show ?thesis unfolding u by (simp add: e unwind_one_simps script_calls_def)
qed

end
