(* ===== verification/KernelDispatch.thy ===== *)
theory KernelDispatch
  imports KernelScripts
begin

text \<open>
  Dispatching (\<open>core/context/src/context/create-context.ts\<close>): waterfalls, with the protocol of \<open>next\<close>, and the
  serial, parallel and guard dispatches. A middleware is a tree: it settles, or calls \<open>next\<close>, waits for the
  outcome and goes on with it. What \<open>next\<close> does when it is not waited for is the small machine \<open>next_call\<close>,
  \<open>next_settles\<close>, \<open>body_returns\<close>. The state that plugins share is the type variable \<open>'s\<close> of the waterfall.
\<close>

subsection \<open>Waterfalls\<close>

type_synonym outcome = "string + jsval" \<comment> \<open>what was thrown, or the result\<close>

datatype 's middleware =
    Settles outcome 's
  | CallsNext jsval 's "outcome \<Rightarrow> 's \<Rightarrow> 's middleware"

primrec run_middleware :: "(jsval \<Rightarrow> 's \<Rightarrow> outcome \<times> 's) \<Rightarrow> bool \<Rightarrow> 's middleware \<Rightarrow> outcome \<times> bool \<times> 's" where
  \<comment> \<open>the flag is \<open>called\<close>\<close>
  "run_middleware next called (Settles out s) = (out, called, s)"
| "run_middleware next called (CallsNext arg s k) =
     run_middleware next True (k (fst (next arg s)) (snd (next arg s)))"

definition not_called :: "string \<Rightarrow> string" where
  "not_called name = ''waterfall \"'' @ name @ ''\": middleware returned without calling next()''"

primrec runWaterfall ::
  "string \<Rightarrow> (jsval \<Rightarrow> 's \<Rightarrow> outcome \<times> 's) \<Rightarrow> (jsval \<Rightarrow> 's \<Rightarrow> 's middleware) list \<Rightarrow> jsval \<Rightarrow> 's \<Rightarrow> outcome \<times> 's"
where
  "runWaterfall name final [] input s = final input s"
| "runWaterfall name final (m # ms) input s =
     (case run_middleware (runWaterfall name final ms) False (m input s) of
        (Inl e, called, s') \<Rightarrow> (Inl e, s')
      | (Inr out, called, s') \<Rightarrow> if called then (Inr out, s') else (Inl (not_called name), s'))"

record next_state =
  nx_inFlight :: bool
  nx_called :: bool
  nx_closed :: bool

datatype next_error = AfterReturn | Concurrent

definition next_fresh :: next_state where
  "next_fresh = \<lparr>nx_inFlight = False, nx_called = False, nx_closed = False\<rparr>"

definition next_call :: "next_state \<Rightarrow> next_error + next_state" where
  "next_call st =
     (if nx_closed st then Inl AfterReturn
      else if nx_inFlight st then Inl Concurrent
      else Inr (st\<lparr>nx_called := True, nx_inFlight := True\<rparr>))"

definition next_settles :: "next_state \<Rightarrow> next_state" where
  "next_settles st = st\<lparr>nx_inFlight := False\<rparr>"

definition body_returns :: "next_state \<Rightarrow> next_state" where
  "body_returns st = st\<lparr>nx_closed := True\<rparr>"

subsection \<open>Listeners\<close>

definition collectListeners :: "('v, 'f) kernel \<Rightarrow> nat \<Rightarrow> token \<Rightarrow> string \<Rightarrow> 'f list" where
  "collectListeners k l token mode =
     map en_fn (filter (\<lambda>e. en_mode e = mode \<and> en_layer e \<in> set (chainSet k l)) (entries_of k token))"

definition awaited :: "listener_result \<Rightarrow> outcome" where
  \<comment> \<open>\<open>await listener(payload)\<close> inside a \<open>try\<close>\<close>
  "awaited r = (case r of Returned v \<Rightarrow> Inr v | Threw e \<Rightarrow> Inl e | PromiseOf out \<Rightarrow> out)"

definition serial_one :: "('v, 'f) calls \<Rightarrow> token \<Rightarrow> jsval \<Rightarrow> 'f \<Rightarrow> ('v, 'f) kernel \<Rightarrow> ('v, 'f) kernel" where
  "serial_one env token payload fn k =
     (case call_listener env fn payload k of
        (r, k) \<Rightarrow> (case awaited r of Inl e \<Rightarrow> reportListenerError env e token k | Inr _ \<Rightarrow> k))"

definition dispatchSerial :: "('v, 'f) calls \<Rightarrow> token \<Rightarrow> jsval \<Rightarrow> nat \<Rightarrow> ('v, 'f) kernel \<Rightarrow> ('v, 'f) kernel" where
  "dispatchSerial env token payload l k = fold (serial_one env token payload) (collectListeners k l token ''serial'') k"

definition is_deny :: "jsval \<Rightarrow> bool" where
  "is_deny v = (field v ''kind'' = JStr ''deny'')"

definition guard_one ::
  "('v, 'f) calls \<Rightarrow> token \<Rightarrow> jsval \<Rightarrow> 'f \<Rightarrow> jsval option \<times> ('v, 'f) kernel \<Rightarrow> jsval option \<times> ('v, 'f) kernel" where
  "guard_one env token payload fn s =
     (case call_listener env fn payload (snd s) of
        (r, k) \<Rightarrow>
          (case awaited r of
             Inl e \<Rightarrow> (fst s, reportListenerError env e token k)
           | Inr verdict \<Rightarrow> (if fst s = None \<and> is_deny verdict then Some verdict else fst s, k)))"

definition dispatchGuard :: "('v, 'f) calls \<Rightarrow> token \<Rightarrow> jsval \<Rightarrow> nat \<Rightarrow> ('v, 'f) kernel \<Rightarrow> jsval option \<times> ('v, 'f) kernel" where
  "dispatchGuard env token payload l k =
     fold (guard_one env token payload) (collectListeners k l token ''guard'') (None, k)"

fun call_all :: "('v, 'f) calls \<Rightarrow> jsval \<Rightarrow> 'f list \<Rightarrow> ('v, 'f) kernel \<Rightarrow> (string + outcome list) \<times> ('v, 'f) kernel" where
  \<comment> \<open>\<open>registered.map((listener) => listener(frozen))\<close>: a listener that throws ends it\<close>
  "call_all env payload [] k = (Inr [], k)"
| "call_all env payload (fn # fns) k =
     (case call_listener env fn payload k of
        (Threw e, k) \<Rightarrow> (Inl e, k)
      | (Returned v, k) \<Rightarrow> (case call_all env payload fns k of (r, k) \<Rightarrow> (map_sum id ((#) (Inr v)) r, k))
      | (PromiseOf out, k) \<Rightarrow> (case call_all env payload fns k of (r, k) \<Rightarrow> (map_sum id ((#) out) r, k)))"

definition reasons :: "outcome list \<Rightarrow> string list" where
  "reasons results = List.map_filter (\<lambda>r. case r of Inl e \<Rightarrow> Some e | Inr _ \<Rightarrow> None) results"

definition dispatchParallel :: "('v, 'f) calls \<Rightarrow> token \<Rightarrow> jsval \<Rightarrow> nat \<Rightarrow> ('v, 'f) kernel \<Rightarrow> failure option \<times> ('v, 'f) kernel" where
  "dispatchParallel env token payload l k =
     (case call_all env payload (collectListeners k l token ''parallel'') k of
        (Inl e, k) \<Rightarrow> (Some (Failure e), k)
      | (Inr results, k) \<Rightarrow> (thrown (map Failure (reasons results)), k))"

subsection \<open>dispatch\<close>

datatype dispatch_error = Refused kernel_error | Failed failure

type_synonym ('v, 'f) middleware_of = "'f \<Rightarrow> jsval \<Rightarrow> ('v, 'f) kernel \<Rightarrow> ('v, 'f) kernel middleware"

definition dispatchWaterfall ::
  "('v, 'f) middleware_of \<Rightarrow> token \<Rightarrow> jsval \<Rightarrow> (jsval \<Rightarrow> ('v, 'f) kernel \<Rightarrow> outcome \<times> ('v, 'f) kernel) option \<Rightarrow>
    nat \<Rightarrow> ('v, 'f) kernel \<Rightarrow> (dispatch_error + jsval) \<times> ('v, 'f) kernel" where
  "dispatchWaterfall mw token input final l k =
     (case final of
        None \<Rightarrow> (Inl (Refused (FinalRequired (tk_name token))), k)
      | Some f \<Rightarrow>
          (case runWaterfall (tk_name token) f (map mw (collectListeners k l token ''waterfall'')) input k of
             (Inl e, k) \<Rightarrow> (Inl (Failed (Failure e)), k)
           | (Inr v, k) \<Rightarrow> (Inr v, k)))"

definition dispatchImpl ::
  "('v, 'f) calls \<Rightarrow> ('v, 'f) middleware_of \<Rightarrow> token \<Rightarrow> jsval \<Rightarrow>
    (jsval \<Rightarrow> ('v, 'f) kernel \<Rightarrow> outcome \<times> ('v, 'f) kernel) option \<Rightarrow> nat \<Rightarrow> ('v, 'f) kernel \<Rightarrow>
    (dispatch_error + jsval) \<times> ('v, 'f) kernel" where
  "dispatchImpl env mw token payload final l k =
     (case assertChainLive k l ''dispatch'' of
        Some e \<Rightarrow> (Inl (Refused e), k)
      | None \<Rightarrow>
          if tk_kind token = ''waterfall'' then dispatchWaterfall mw token payload final l k
          else if tk_kind token = ''parallel'' then
            (case dispatchParallel env token payload l k of
               (None, k) \<Rightarrow> (Inr JUndef, k) | (Some f, k) \<Rightarrow> (Inl (Failed f), k))
          else if tk_kind token = ''serial'' then (Inr JUndef, dispatchSerial env token payload l k)
          else if tk_kind token = ''guard'' then
            (case dispatchGuard env token payload l k of
               (None, k) \<Rightarrow> (Inr JUndef, k) | (Some deny, k) \<Rightarrow> (Inr deny, k))
          else (Inl (Refused (NotDispatchable (tk_kind token) (tk_name token))), k))"

definition dispatch_chain ::
  "('v, 'f) middleware_of \<Rightarrow> nat \<Rightarrow> (jsval \<Rightarrow> ('v, 'f) kernel \<Rightarrow> outcome \<times> ('v, 'f) kernel) \<Rightarrow> jsval \<Rightarrow>
    ('v, 'f) kernel \<Rightarrow> outcome \<times> ('v, 'f) kernel" where
  \<comment> \<open>\<open>dispatch\<close> of the chain that \<open>createChain\<close> returned\<close>
  "dispatch_chain mw c final input k =
     runWaterfall ''chain'' final
       (map (\<lambda>e. mw (en_fn e)) (case map_get (k_chains k) c of Some es \<Rightarrow> es | None \<Rightarrow> [])) input k"

subsection \<open>The middlewares between the caller and the final\<close>

primrec passes_errors :: "'s middleware \<Rightarrow> bool" where
  \<comment> \<open>when \<open>next\<close> throws, the middleware throws\<close>
  "passes_errors (Settles out s) = True"
| "passes_errors (CallsNext arg s k) =
     (\<forall>out s'. passes_errors (k out s') \<and> (isl out \<longrightarrow> (\<exists>e s''. k out s' = Settles (Inl e) s'')))"

lemma run_middleware_fails:
  assumes "passes_errors m" "\<And>arg s. isl (fst (next arg s))"
  shows "isl (fst (run_middleware next called m)) \<or> (run_middleware next called m = (fst (run_middleware next called m), called, snd (snd (run_middleware next called m))))"
proof (cases m)
  case (CallsNext arg s k)
  obtain e s'' where "k (fst (next arg s)) (snd (next arg s)) = Settles (Inl e) s''"
    using assms CallsNext by fastforce
  then show ?thesis using CallsNext by simp
qed simp

text \<open>C6: A waterfall gives no answer that its final did not give rise to: when the final only throws, the
  dispatch throws, however many middlewares are in front of it and whatever they return, as long as they let
  the errors of \<open>next\<close> through. A middleware cannot answer in place of those below it by not calling \<open>next\<close>.\<close>

theorem waterfall_needs_final:
  assumes "\<forall>m \<in> set ms. \<forall>input s. passes_errors (m input s)" "\<forall>input s. isl (fst (final input s))"
  shows "isl (fst (runWaterfall name final ms input s))"
  using assms
proof (induction ms arbitrary: input s)
  case (Cons m ms)
  have f: "isl (fst (runWaterfall name final ms arg s))" for arg s using Cons.IH Cons.prems by simp
  have p: "passes_errors (m input s)" using Cons.prems(1) by simp
  show ?case
    using run_middleware_fails [OF p, of "runWaterfall name final ms" False] f
    by (auto split: prod.split sum.split)
qed simp


definition pass_on :: "jsval \<Rightarrow> nat \<Rightarrow> nat middleware" where
  "pass_on input s = CallsNext input (Suc s) (\<lambda>out s'. Settles out s')"

definition answers_itself :: "jsval \<Rightarrow> nat \<Rightarrow> nat middleware" where
  "answers_itself input s = Settles (Inr (JStr ''mine'')) s"

lemma pass_on_passes: "passes_errors (pass_on input s)"
  by (auto simp: pass_on_def isl_def)

lemma waterfall_needs_final_witness:
  "isl (fst (runWaterfall ''w'' (\<lambda>_ s. (Inl ''down'', s)) [pass_on, answers_itself] JUndef (0 :: nat))) \<and>
   runWaterfall ''w'' (\<lambda>i s. (Inr i, s)) [pass_on, pass_on] (JStr ''q'') (0 :: nat) = (Inr (JStr ''q''), 2)"
proof
  show "isl (fst (runWaterfall ''w'' (\<lambda>_ s. (Inl ''down'', s)) [pass_on, answers_itself] JUndef (0 :: nat)))"
    by (rule waterfall_needs_final) (auto simp: pass_on_passes answers_itself_def)
qed (simp add: pass_on_def)

subsection \<open>The protocol of next\<close>

inductive next_reaches :: "next_state \<Rightarrow> nat \<Rightarrow> bool" where
  \<comment> \<open>the flags, and how many runs of the rest of the waterfall are going on\<close>
  fresh: "next_reaches next_fresh 0"
| calls: "next_reaches st n \<Longrightarrow> next_call st = Inr st' \<Longrightarrow> next_reaches st' (Suc n)"
| refused: "next_reaches st n \<Longrightarrow> next_call st = Inl e \<Longrightarrow> next_reaches st n"
| settles: "next_reaches st (Suc n) \<Longrightarrow> next_reaches (next_settles st) n"
| returns: "next_reaches st n \<Longrightarrow> next_reaches (body_returns st) n"

inductive_cases next_callE: "next_reaches st (Suc n)"

text \<open>A middleware never has two runs of the rest of the waterfall going on at once, whether or not it waits
  for them, and none starts after it returned; a call is noted before its run is, so that a run going on
  counts as a call of \<open>next\<close>.\<close>

theorem next_runs_one_at_a_time:
  assumes "next_reaches st n"
  shows "n \<le> 1 \<and> (nx_inFlight st \<longleftrightarrow> n = 1) \<and> (n = 1 \<longrightarrow> nx_called st) \<and>
    (next_call st = Inl AfterReturn \<longleftrightarrow> nx_closed st) \<and> (next_call st = Inl Concurrent \<longleftrightarrow> \<not> nx_closed st \<and> n = 1)"
  using assms
proof induction
  case (calls st n st')
  then show ?case by (auto simp: next_call_def split: if_splits)
qed (auto simp: next_fresh_def next_call_def next_settles_def body_returns_def)

lemma next_runs_one_at_a_time_witness:
  "next_call \<lparr>nx_inFlight = True, nx_called = True, nx_closed = False\<rparr> = Inl Concurrent"
proof -
  have "next_reaches \<lparr>nx_inFlight = True, nx_called = True, nx_closed = False\<rparr> (Suc 0)"
    by (rule next_reaches.calls [OF next_reaches.fresh]) (simp add: next_call_def next_fresh_def)
  from next_runs_one_at_a_time [OF this] show ?thesis by simp
qed

subsection \<open>Guards\<close>

fun ask_each :: "('v, 'f) calls \<Rightarrow> token \<Rightarrow> jsval \<Rightarrow> 'f list \<Rightarrow> ('v, 'f) kernel \<Rightarrow> jsval list \<times> ('v, 'f) kernel" where
  \<comment> \<open>every listener in turn, its error reported: the verdicts given, and the state after all of them\<close>
  "ask_each env token payload [] k = ([], k)"
| "ask_each env token payload (fn # fns) k =
     (let (r, k1) = call_listener env fn payload k in
      case awaited r of
        Inl e \<Rightarrow> ask_each env token payload fns (reportListenerError env e token k1)
      | Inr v \<Rightarrow> (let (vs, k2) = ask_each env token payload fns k1 in (v # vs, k2)))"

lemma guard_fold:
  "fold (guard_one env token payload) fns (found, k) =
     (case ask_each env token payload fns k of
        (vs, k') \<Rightarrow> (case found of Some d \<Rightarrow> Some d | None \<Rightarrow> List.find is_deny vs, k'))"
proof (induction fns arbitrary: found k)
  case (Cons fn fns)
  obtain r k1 where c: "call_listener env fn payload k = (r, k1)" by (cases "call_listener env fn payload k")
  show ?case
  proof (cases "awaited r")
    case (Inl e)
    then have "guard_one env token payload fn (found, k) = (found, reportListenerError env e token k1)"
      by (simp add: guard_one_def c)
    then show ?thesis using Cons [of found "reportListenerError env e token k1"] c Inl by simp
  next
    case (Inr v)
    then have "guard_one env token payload fn (found, k) = (if found = None \<and> is_deny v then Some v else found, k1)"
      by (simp add: guard_one_def c)
    then show ?thesis
      using Cons [of "if found = None \<and> is_deny v then Some v else found" k1] c Inr
      by (cases found) (simp_all split: prod.split)
  qed
qed (simp split: option.split)

lemma serial_fold: "fold (serial_one env token payload) fns k = snd (ask_each env token payload fns k)"
proof (induction fns arbitrary: k)
  case (Cons fn fns)
  obtain r k1 where c: "call_listener env fn payload k = (r, k1)" by (cases "call_listener env fn payload k")
  then have "serial_one env token payload fn k = (case awaited r of Inl e \<Rightarrow> reportListenerError env e token k1 | Inr _ \<Rightarrow> k1)"
    by (simp add: serial_one_def)
  then show ?case using Cons c by (cases "awaited r") (simp_all split: prod.split)
qed simp

text \<open>C7: A guard asks every listener, in order, and answers with the first denial any of them gave: a denial
  does not stop the listeners after it, and a listener that throws is reported and neither denies nor keeps
  the others from being asked. A serial dispatch runs its listeners the same way.\<close>

theorem guard_asks_everyone:
  "dispatchGuard env token payload l k =
     (let (vs, k') = ask_each env token payload (collectListeners k l token ''guard'') k in (List.find is_deny vs, k')) \<and>
   dispatchSerial env token payload l k = snd (ask_each env token payload (collectListeners k l token ''serial'') k)"
  by (simp_all add: dispatchGuard_def dispatchSerial_def guard_fold serial_fold split: prod.split)

lemma parallel_throw_stops:
  assumes "collectListeners k l token ''parallel'' = fn # fns" "call_listener env fn payload k = (Threw e, k1)"
  shows "dispatchParallel env token payload l k = (Some (Failure e), k1)"
  using assms by (simp add: dispatchParallel_def)

end
