(* ===== verification/LoopInbox.thy ===== *)
theory LoopInbox
  imports SessionReload "HOL-Library.Multiset"
begin

text \<open>
  The inbox of an agent (\<open>agent-loop/src/inbox.ts\<close>): two queues, folded from the splice events of the
  session log, and the batches a turn or a step claims from them. An entry is the value that was inserted;
  its identity is its \<open>id\<close>.
\<close>

subsection \<open>The fold\<close>

record inbox =
  ib_nextTurn :: "jsval list"
  ib_nextStep :: "jsval list"

definition entry_id :: "jsval \<Rightarrow> jsval" where
  "entry_id e = field e ''id''"

fun items :: "jsval \<Rightarrow> jsval list" where
  \<comment> \<open>the elements of an array; the gates leave nothing else here\<close>
  "items (JArr vs) = vs"
| "items _ = []"

definition queueOf :: "inbox \<Rightarrow> jsval \<Rightarrow> jsval list" where
  "queueOf st target = (if target = JStr ''next-turn'' then ib_nextTurn st else ib_nextStep st)"

definition set_queue :: "jsval \<Rightarrow> jsval list \<Rightarrow> inbox \<Rightarrow> inbox" where
  "set_queue target q st =
     (if target = JStr ''next-turn'' then st\<lparr>ib_nextTurn := q\<rparr> else st\<lparr>ib_nextStep := q\<rparr>)"

definition in_queue :: "jsval \<Rightarrow> jsval list \<Rightarrow> bool" where
  "in_queue i q = list_ex (\<lambda>e. entry_id e = i) q"

fun remove_first :: "jsval \<Rightarrow> jsval list \<Rightarrow> jsval list" where
  \<comment> \<open>\<open>findIndex\<close> and \<open>splice\<close>\<close>
  "remove_first i [] = []"
| "remove_first i (e # es) = (if entry_id e = i then es else e # remove_first i es)"

definition dropEntries :: "inbox \<Rightarrow> jsval \<Rightarrow> inbox" where
  "dropEntries st data =
     fold (\<lambda>i st. set_queue (field data ''target'') (remove_first i (queueOf st (field data ''target''))) st)
       (items (field data ''dropped'')) st"

definition retargetEntry :: "inbox \<Rightarrow> jsval \<Rightarrow> inbox" where
  "retargetEntry st data =
     (let i = field data ''id'';
          from = (if in_queue i (ib_nextTurn st) then Some (JStr ''next-turn'')
                  else if in_queue i (ib_nextStep st) then Some (JStr ''next-step'') else None)
      in case from of
           None \<Rightarrow> st
         | Some f \<Rightarrow>
             (case List.find (\<lambda>e. entry_id e = i) (queueOf st f) of
                None \<Rightarrow> st
              | Some e \<Rightarrow>
                  let st1 = set_queue f (remove_first i (queueOf st f)) st
                  in set_queue (field data ''to'') (queueOf st1 (field data ''to'') @ [e]) st1))"

definition in_inbox :: "inbox \<Rightarrow> jsval \<Rightarrow> bool" where
  "in_inbox st i = (in_queue i (ib_nextTurn st) \<or> in_queue i (ib_nextStep st))"

definition insert_entry :: "jsval \<Rightarrow> jsval \<Rightarrow> inbox \<Rightarrow> inbox" where
  "insert_entry target e st =
     (if in_inbox st (entry_id e) then st else set_queue target (queueOf st target @ [e]) st)"

definition remove_id :: "jsval \<Rightarrow> inbox \<Rightarrow> inbox" where
  "remove_id i st =
     st\<lparr>ib_nextTurn := filter (\<lambda>e. entry_id e \<noteq> i) (ib_nextTurn st),
        ib_nextStep := filter (\<lambda>e. entry_id e \<noteq> i) (ib_nextStep st)\<rparr>"

definition splice :: "jsval \<Rightarrow> inbox \<Rightarrow> inbox" where
  "splice data st =
     (let op = field data ''op'' in
      if op = JStr ''insert'' then fold (insert_entry (field data ''target'')) (items (field data ''entries'')) st
      else if op = JStr ''claim'' then fold remove_id (items (field data ''claimed'')) st
      else if op = JStr ''drop'' then dropEntries st data
      else if op = JStr ''retarget'' then retargetEntry st data
      else \<lparr>ib_nextTurn = [], ib_nextStep = []\<rparr>)"

definition is_splice :: "sevent \<Rightarrow> bool" where
  "is_splice ev = (ev_type ev = ''agent/inbox/spliced'')"

definition fold_event :: "sevent \<Rightarrow> inbox \<Rightarrow> inbox" where
  "fold_event ev st = (if is_splice ev then splice (ev_data ev) st else st)"

definition foldInbox :: "sevent list \<Rightarrow> inbox" where
  "foldInbox events = fold fold_event events \<lparr>ib_nextTurn = [], ib_nextStep = []\<rparr>"

subsection \<open>Inserting\<close>

record insert_spec =
  is_target :: string
  is_contents :: "jsval list"
  is_origin :: "(string \<times> string) option" \<comment> \<open>source and kind\<close>
  is_user :: bool

definition insertData :: "string \<Rightarrow> insert_spec \<Rightarrow> jsval" where
  \<comment> \<open>the first argument is what \<open>crypto.randomUUID()\<close> returns\<close>
  "insertData uuid spec =
     JObj [(''op'', JStr ''insert''), (''target'', JStr (is_target spec)),
           (''entries'',
            JArr (if is_contents spec = [] then []
                  else [JObj ([(''id'', JStr uuid), (''content'', JArr (is_contents spec))] @
                          (case is_origin spec of
                             None \<Rightarrow> []
                           | Some (source, kind) \<Rightarrow> [(''origin'', JObj [(''source'', JStr source), (''kind'', JStr kind)])]) @
                          (if is_user spec then [(''user'', JBool True)] else []))]))]"

subsection \<open>Claiming\<close>

definition LEADING_ORIGIN_BATCH_LIMIT :: nat where
  "LEADING_ORIGIN_BATCH_LIMIT = 8"

definition isOriginEntry :: "jsval \<Rightarrow> bool" where
  "isOriginEntry e = (field e ''origin'' \<noteq> JUndef)"

fun batch_loop :: "nat \<Rightarrow> jsval list \<Rightarrow> jsval list" where
  "batch_loop originCount [] = []"
| "batch_loop originCount (e # es) =
     (if isOriginEntry e then
        (if originCount \<ge> LEADING_ORIGIN_BATCH_LIMIT then batch_loop originCount es
         else e # batch_loop (Suc originCount) es)
      else [e])"

definition turnClaimBatch :: "jsval list \<Rightarrow> jsval list" where
  "turnClaimBatch nextTurn =
     (let batch = batch_loop 0 nextTurn
      in if batch \<noteq> [] \<and> \<not> list_ex (\<lambda>e. \<not> isOriginEntry e) batch then [] else batch)"

definition claimTurnBatch :: "inbox \<Rightarrow> jsval list \<times> jsval list" where
  "claimTurnBatch st =
     (let entries = turnClaimBatch (ib_nextTurn st) @ ib_nextStep st in (entries, map entry_id entries))"

definition claimStepBatch :: "inbox \<Rightarrow> jsval list \<times> jsval list" where
  "claimStepBatch st = (ib_nextStep st, map entry_id (ib_nextStep st))"

subsection \<open>Identities stay distinct\<close>

definition ids :: "inbox \<Rightarrow> jsval list" where
  "ids st = map entry_id (ib_nextTurn st @ ib_nextStep st)"

lemma in_queue_iff: "in_queue i q \<longleftrightarrow> i \<in> entry_id ` set q"
  by (auto simp: in_queue_def list_ex_iff)

lemma in_inbox_iff: "in_inbox st i \<longleftrightarrow> i \<in> set (ids st)"
  by (auto simp: in_inbox_def in_queue_iff ids_def)

lemma set_queue_sets:
  "set (ids (set_queue t q st)) = entry_id ` set q \<union> entry_id ` set (if t = JStr ''next-turn'' then ib_nextStep st else ib_nextTurn st)"
  by (auto simp: set_queue_def ids_def)

lemma ids_set: "set (ids st) = entry_id ` set (ib_nextTurn st) \<union> entry_id ` set (ib_nextStep st)"
  by (simp add: ids_def image_Un)

lemma remove_first_sub: "set (remove_first i q) \<subseteq> set q"
  by (induction q) auto

lemma filter_other: "i \<notin> entry_id ` set xs \<Longrightarrow> filter (\<lambda>e. entry_id e \<noteq> i) xs = xs"
  by (induction xs) auto

lemma remove_first_distinct_eq:
  "distinct (map entry_id q) \<Longrightarrow> remove_first i q = filter (\<lambda>e. entry_id e \<noteq> i) q"
  by (induction q) (auto simp: filter_other)

lemma remove_first_turn: "distinct (ids st) \<Longrightarrow>
    remove_first i (ib_nextTurn st) = filter (\<lambda>e. entry_id e \<noteq> i) (ib_nextTurn st)"
  and remove_first_step: "distinct (ids st) \<Longrightarrow>
    remove_first i (ib_nextStep st) = filter (\<lambda>e. entry_id e \<noteq> i) (ib_nextStep st)"
  by (simp_all add: remove_first_distinct_eq ids_def)

lemma set_queue_shrinks:
  assumes "distinct (ids st)" "distinct (map entry_id q)" "set q \<subseteq> set (queueOf st t)"
  shows "distinct (ids (set_queue t q st))" "set (ids (set_queue t q st)) \<subseteq> set (ids st)"
  using assms by (auto simp: ids_def set_queue_def queueOf_def split: if_splits)

lemma queue_distinct: "distinct (ids st) \<Longrightarrow> distinct (map entry_id (queueOf st t))"
  by (simp add: ids_def queueOf_def)

lemma push_distinct:
  "distinct (ids st) \<Longrightarrow> entry_id e \<notin> set (ids st) \<Longrightarrow> distinct (ids (set_queue t (queueOf st t @ [e]) st))"
  by (auto simp: ids_def set_queue_def queueOf_def)

lemma insert_entry_distinct: "distinct (ids st) \<Longrightarrow> distinct (ids (insert_entry t e st))"
  by (simp add: insert_entry_def in_inbox_iff push_distinct)

lemma remove_id_ids: "ids (remove_id i st) = filter (\<lambda>j. j \<noteq> i) (ids st)"
  by (simp add: ids_def remove_id_def filter_map comp_def)

lemma fold_keeps: "(\<And>x s. P s \<Longrightarrow> P (f x s)) \<Longrightarrow> P s \<Longrightarrow> P (fold f xs s)"
  by (induction xs arbitrary: s) auto

lemma retarget_distinct:
  assumes "distinct (ids st)"
  shows "distinct (ids (retargetEntry st data)) \<and> set (ids (retargetEntry st data)) = set (ids st)"
proof -
  let ?i = "field data ''id''"
  have move: "distinct (ids (set_queue t (queueOf st1 t @ [e]) st1)) \<and>
      set (ids (set_queue t (queueOf st1 t @ [e]) st1)) = set (ids st)"
    if e: "List.find (\<lambda>e. entry_id e = ?i) (queueOf st f) = Some e"
      and st1: "st1 = set_queue f (remove_first ?i (queueOf st f)) st"
    for f t e st1
  proof -
    note d = queue_distinct [OF assms, of f]
    have ei: "e \<in> set (queueOf st f)" "entry_id e = ?i" using e by (auto dest: find_SomeD)
    have s1: "ids st1 = filter (\<lambda>j. j \<noteq> ?i) (ids st)"
    proof (cases "f = JStr ''next-turn''")
      case True
      then have "?i \<notin> entry_id ` set (ib_nextStep st)" using assms ei by (auto simp: ids_def queueOf_def)
      then show ?thesis using True
        by (simp add: st1 remove_first_turn [OF assms] remove_first_step [OF assms] ids_def set_queue_def queueOf_def filter_map comp_def filter_other)
    next
      case False
      then have "?i \<notin> entry_id ` set (ib_nextTurn st)" using assms ei imageI [of e "set (ib_nextStep st)" entry_id] by (simp add: ids_def queueOf_def disjoint_iff) blast
      then show ?thesis using False
        by (simp add: st1 remove_first_turn [OF assms] remove_first_step [OF assms] ids_def set_queue_def queueOf_def filter_map comp_def filter_other)
    qed
    have "entry_id e \<in> set (ids st)" using ei(1) by (auto simp: ids_def queueOf_def split: if_splits)
    moreover have "set (ids (set_queue t (queueOf st1 t @ [e]) st1)) = insert (entry_id e) (set (ids st1))"
      by (auto simp: ids_set set_queue_def queueOf_def)
    ultimately have "set (ids (set_queue t (queueOf st1 t @ [e]) st1)) = set (ids st)"
      using ei(2) by (simp only: s1) auto
    moreover have "distinct (ids st1)" "entry_id e \<notin> set (ids st1)" using s1 assms ei(2) by simp_all
    ultimately show ?thesis using push_distinct by blast
  qed
  then show ?thesis using assms by (auto simp: retargetEntry_def Let_def split: option.split)
qed


lemma drop_distinct:
  assumes "distinct (ids st)"
  shows "distinct (ids (dropEntries st data))"
  unfolding dropEntries_def
proof (rule fold_keeps [where P = "\<lambda>st. distinct (ids st)"])
  fix i st assume d: "distinct (ids st)"
  let ?q = "queueOf st (field data ''target'')"
  have "remove_first i ?q = filter (\<lambda>e. entry_id e \<noteq> i) ?q" by (rule remove_first_distinct_eq [OF queue_distinct [OF d]])
  then show "distinct (ids (set_queue (field data ''target'') (remove_first i ?q) st))"
    using set_queue_shrinks(1) [OF d, of "remove_first i ?q"] queue_distinct [OF d]
    by (simp add: distinct_map_filter)
qed (rule assms)

lemma splice_distinct: "distinct (ids st) \<Longrightarrow> distinct (ids (splice data st))"
proof -
  assume d: "distinct (ids st)"
  have "distinct (ids (fold (insert_entry t) es st))" for t es
    by (rule fold_keeps [where P = "\<lambda>st. distinct (ids st)"]) (simp_all add: insert_entry_distinct d)
  moreover have "distinct (ids (fold remove_id is st))" for "is"
    by (rule fold_keeps [where P = "\<lambda>st. distinct (ids st)"]) (simp_all add: remove_id_ids d)
  ultimately show ?thesis
    using drop_distinct [OF d] retarget_distinct [OF d] by (simp add: splice_def Let_def) (simp add: ids_def)
qed

lemma foldInbox_snoc: "foldInbox (es @ [ev]) = fold_event ev (foldInbox es)"
  by (simp add: foldInbox_def)

lemma foldInbox_distinct: "distinct (ids (foldInbox es))"
proof (induction es rule: rev_induct)
  case (snoc ev es)
  then show ?case by (simp add: foldInbox_snoc fold_event_def splice_distinct)
qed (simp add: foldInbox_def ids_def)

subsection \<open>What leaves the inbox\<close>

definition takes_out :: "jsval \<Rightarrow> jsval \<Rightarrow> bool" where
  \<comment> \<open>the splice claims or drops this entry, or clears the inbox\<close>
  "takes_out data i \<longleftrightarrow>
     field data ''op'' = JStr ''claim'' \<and> i \<in> set (items (field data ''claimed'')) \<or>
     field data ''op'' = JStr ''drop'' \<and> i \<in> set (items (field data ''dropped'')) \<or>
     field data ''op'' \<notin> {JStr ''insert'', JStr ''claim'', JStr ''drop'', JStr ''retarget''}"

lemma claim_ids: "ids (fold remove_id is st) = filter (\<lambda>j. j \<notin> set is) (ids st)"
  by (induction "is" arbitrary: st) (auto simp: remove_id_ids intro: filter_cong)

lemma insert_keeps: "i \<in> set (ids st) \<Longrightarrow> i \<in> set (ids (fold (insert_entry t) es st))"
proof (rule fold_keeps [where P = "\<lambda>st. i \<in> set (ids st)"])
  fix e s assume "i \<in> set (ids s)"
  then show "i \<in> set (ids (insert_entry t e s))"
    unfolding insert_entry_def ids_set by (simp add: set_queue_def queueOf_def) blast
qed

lemma drop_keeps:
  "i \<in> set (ids st) \<Longrightarrow> i \<notin> set is \<Longrightarrow>
     i \<in> set (ids (fold (\<lambda>j st. set_queue t (remove_first j (queueOf st t)) st) is st))"
proof (induction "is" arbitrary: st)
  case (Cons j "is")
  have keep: "i \<in> entry_id ` set (remove_first j q)" if "i \<in> entry_id ` set q" for q
    using Cons.prems(2) that by (induction q) auto
  have "i \<in> set (ids (set_queue t (remove_first j (queueOf st t)) st))"
  proof (cases "i \<in> entry_id ` set (ib_nextTurn st)")
    case True
    then show ?thesis using keep [OF True] by (simp add: ids_set set_queue_def queueOf_def)
  next
    case False
    then have "i \<in> entry_id ` set (ib_nextStep st)" using Cons.prems(1) by (simp add: ids_set)
    then show ?thesis using keep by (simp add: ids_set set_queue_def queueOf_def)
  qed
  then show ?case using Cons by simp
qed simp

lemma splice_keeps:
  assumes "distinct (ids st)" "i \<in> set (ids st)" "\<not> takes_out data i"
  shows "i \<in> set (ids (splice data st))"
  using assms(2,3) insert_keeps drop_keeps retarget_distinct [OF assms(1), of data]
  by (auto simp: splice_def takes_out_def Let_def claim_ids dropEntries_def)

text \<open>C29: An inbox never holds two entries with the same identity, whatever was logged, and an entry
  leaves it only by a splice that claims it, drops it or clears the inbox: inserting, retargeting and all
  other events of the log keep what is there.\<close>

theorem inbox_loses_nothing:
  assumes "i \<in> set (ids (foldInbox es))"
  shows "distinct (ids (foldInbox (es @ [ev]))) \<and>
    (i \<in> set (ids (foldInbox (es @ [ev]))) \<or> is_splice ev \<and> takes_out (ev_data ev) i)"
  using assms foldInbox_distinct [of "es @ [ev]"] splice_keeps [OF foldInbox_distinct, of i es "ev_data ev"]
  by (auto simp: foldInbox_snoc fold_event_def)

definition entry_of :: "string \<Rightarrow> bool \<Rightarrow> jsval" where
  \<comment> \<open>an entry as \<open>insertData\<close> makes it\<close>
  "entry_of i origin =
     JObj ([(''id'', JStr i), (''content'', JArr [JStr ''hi''])] @
           (if origin then [(''origin'', JObj [(''source'', JStr ''a''), (''kind'', JStr ''b'')])] else []))"

definition splice_event :: "nat \<Rightarrow> (string \<times> jsval) list \<Rightarrow> sevent" where
  "splice_event i d =
     \<lparr>ev_type = ''agent/inbox/spliced'', ev_seq = i, ev_time = NInt 0, ev_data = JObj d, ev_op = None\<rparr>"

definition insert_event :: "nat \<Rightarrow> string \<Rightarrow> jsval list \<Rightarrow> sevent" where
  "insert_event i target es =
     splice_event i [(''op'', JStr ''insert''), (''target'', JStr target), (''entries'', JArr es)]"

lemma inbox_loses_nothing_witness:
  "distinct (ids (foldInbox [insert_event 0 ''next-turn'' [entry_of ''x'' False],
      splice_event 1 [(''op'', JStr ''retarget''), (''id'', JStr ''x''), (''to'', JStr ''next-step'')]])) \<and>
   JStr ''x'' \<in> set (ids (foldInbox [insert_event 0 ''next-turn'' [entry_of ''x'' False],
      splice_event 1 [(''op'', JStr ''retarget''), (''id'', JStr ''x''), (''to'', JStr ''next-step'')]]))"
proof -
  let ?r = "splice_event 1 [(''op'', JStr ''retarget''), (''id'', JStr ''x''), (''to'', JStr ''next-step'')]"
  have "JStr ''x'' \<in> set (ids (foldInbox [insert_event 0 ''next-turn'' [entry_of ''x'' False]]))"
    "\<not> takes_out (ev_data ?r) (JStr ''x'')"
    by code_simp+
  then show ?thesis
    using inbox_loses_nothing [of "JStr ''x''" "[insert_event 0 ''next-turn'' [entry_of ''x'' False]]" ?r] by simp
qed

subsection \<open>The batch of a turn\<close>

lemma batch_loop_split:
  "list_all isOriginEntry pre \<Longrightarrow> \<not> isOriginEntry u \<Longrightarrow>
     batch_loop n (pre @ u # rest) = take (LEADING_ORIGIN_BATCH_LIMIT - n) pre @ [u]"
  by (induction pre arbitrary: n) (auto simp: take_Cons' Suc_diff_Suc not_le split: nat.split)

lemma batch_loop_all: "list_all isOriginEntry es \<Longrightarrow> list_all isOriginEntry (batch_loop n es)"
  by (induction es arbitrary: n) auto

lemma turnClaimBatch_split:
  assumes "list_all isOriginEntry pre" "\<not> isOriginEntry u"
  shows "turnClaimBatch (pre @ u # rest) = take LEADING_ORIGIN_BATCH_LIMIT pre @ [u]"
  using batch_loop_split [OF assms, of 0 rest] assms(2) by (simp add: turnClaimBatch_def Let_def list_ex_iff)

lemma turnClaimBatch_none:
  assumes "list_all isOriginEntry es"
  shows "turnClaimBatch es = []"
  using batch_loop_all [OF assms, of 0] by (auto simp: turnClaimBatch_def Let_def list_all_iff list_ex_iff)

lemma claim_queues:
  "ib_nextTurn (fold remove_id is st) = filter (\<lambda>e. entry_id e \<notin> set is) (ib_nextTurn st) \<and>
   ib_nextStep (fold remove_id is st) = filter (\<lambda>e. entry_id e \<notin> set is) (ib_nextStep st)"
  by (induction "is" arbitrary: st) (auto simp: remove_id_def intro: filter_cong)

lemma claimed_two:
  assumes "distinct (map entry_id (a @ b @ c @ d))"
  shows "filter (\<lambda>e. entry_id e \<notin> set (map entry_id (a @ c))) (a @ b @ c @ d) = b @ d"
proof -
  have keep: "filter (\<lambda>e. entry_id e \<notin> set (map entry_id (a @ c))) xs = xs"
    if "\<forall>x\<in>set xs. entry_id x \<notin> entry_id ` set (a @ c)" for xs
    using that by (auto intro!: filter_True)
  have lose: "filter (\<lambda>e. entry_id e \<notin> set (map entry_id (a @ c))) xs = []" if "set xs \<subseteq> set (a @ c)" for xs
    using that by (auto simp: filter_empty_conv)
  have bd: "\<forall>x\<in>set b. entry_id x \<notin> entry_id ` set (a @ c)" "\<forall>x\<in>set d. entry_id x \<notin> entry_id ` set (a @ c)"
    using assms by (auto simp: image_iff)
  show ?thesis unfolding filter_append using keep [OF bd(1)] keep [OF bd(2)] lose [of a] lose [of c] by simp
qed

text \<open>A turn takes from its queue the first entry of the user, with the injected entries before it, at
  most eight of those, and takes nothing when no entry of the user waits. Together with all that waits for
  the next step this is what it claims, and the splice that records the claim leaves exactly the rest, in
  order: nothing is lost or taken twice.\<close>

theorem turn_claim_takes_batch:
  assumes "ev_type ev = ''agent/inbox/spliced''" "field (ev_data ev) ''op'' = JStr ''claim''"
    and "field (ev_data ev) ''claimed'' = JArr (snd (claimTurnBatch (foldInbox es)))"
  shows "(case List.extract (\<lambda>e. \<not> isOriginEntry e) (ib_nextTurn (foldInbox es)) of
      None \<Rightarrow> fst (claimTurnBatch (foldInbox es)) = ib_nextStep (foldInbox es) \<and>
        ib_nextTurn (foldInbox (es @ [ev])) = ib_nextTurn (foldInbox es)
    | Some (pre, u, rest) \<Rightarrow> fst (claimTurnBatch (foldInbox es)) = take 8 pre @ [u] @ ib_nextStep (foldInbox es) \<and>
        ib_nextTurn (foldInbox (es @ [ev])) = drop 8 pre @ rest) \<and>
    ib_nextStep (foldInbox (es @ [ev])) = []"
proof -
  let ?st = "foldInbox es"
  let ?es = "fst (claimTurnBatch ?st)"
  let ?out = "\<lambda>b. filter (\<lambda>e. entry_id e \<notin> set (map entry_id (b @ ib_nextStep ?st)))"
  have after: "foldInbox (es @ [ev]) = fold remove_id (map entry_id ?es) ?st"
    using assms by (simp add: foldInbox_snoc fold_event_def is_splice_def splice_def claimTurnBatch_def Let_def)
  have entries: "?es = turnClaimBatch (ib_nextTurn ?st) @ ib_nextStep ?st" by (simp add: claimTurnBatch_def Let_def)
  have d: "distinct (map entry_id (ib_nextTurn ?st @ ib_nextStep ?st))" using foldInbox_distinct [of es] by (simp add: ids_def)
  have step: "ib_nextStep (foldInbox (es @ [ev])) = []"
    by (auto simp: after entries claim_queues filter_empty_conv)
  have turn: "ib_nextTurn (foldInbox (es @ [ev])) = ?out (turnClaimBatch (ib_nextTurn ?st)) (ib_nextTurn ?st)"
    by (simp only: after entries claim_queues)
  have apart: "?out b xs = filter (\<lambda>e. entry_id e \<notin> set (map entry_id b)) xs" if "set xs \<subseteq> set (ib_nextTurn ?st)" for b xs
    using d that by (auto intro!: filter_cong)
  show ?thesis
  proof (cases "List.extract (\<lambda>e. \<not> isOriginEntry e) (ib_nextTurn ?st)")
    case None
    then have "turnClaimBatch (ib_nextTurn ?st) = []"
      by (intro turnClaimBatch_none) (simp add: extract_None_iff list_all_iff)
    then show ?thesis using None step turn entries apart [of "ib_nextTurn ?st" "[]"] by simp
  next
    case (Some r)
    obtain pre u rest where r: "r = (pre, u, rest)" by (cases r)
    have parts: "ib_nextTurn ?st = pre @ u # rest" "list_all isOriginEntry pre" "\<not> isOriginEntry u"
      using Some r by (auto simp: extract_Some_iff list_all_iff)
    have b: "turnClaimBatch (ib_nextTurn ?st) = take 8 pre @ [u]"
      using turnClaimBatch_split [OF parts(2,3), of rest] parts(1) by (simp add: LEADING_ORIGIN_BATCH_LIMIT_def)
    have dn: "distinct (map entry_id (ib_nextTurn ?st))" using d by simp
    have "filter (\<lambda>e. entry_id e \<notin> set (map entry_id (take 8 pre @ [u]))) (ib_nextTurn ?st) = drop 8 pre @ rest"
    proof -
      have split: "ib_nextTurn ?st = take 8 pre @ drop 8 pre @ [u] @ rest" using parts(1) by simp
      have dt: "distinct (map entry_id (take 8 pre @ drop 8 pre @ [u] @ rest))" using dn by (simp only: split)
      show ?thesis unfolding split using claimed_two [OF dt] by simp
    qed
    then show ?thesis using Some r step turn entries b apart [of "ib_nextTurn ?st" "take 8 pre @ [u]"] by simp
  qed
qed

lemma turn_claim_takes_batch_witness:
  "fst (claimTurnBatch (foldInbox [insert_event 0 ''next-turn'' [entry_of ''a'' True, entry_of ''b'' False, entry_of ''c'' False]]))
     = [entry_of ''a'' True, entry_of ''b'' False] \<and>
   ib_nextTurn (foldInbox ([insert_event 0 ''next-turn'' [entry_of ''a'' True, entry_of ''b'' False, entry_of ''c'' False]] @
     [splice_event 1 [(''op'', JStr ''claim''), (''target'', JStr ''next-turn''),
        (''claimed'', JArr [JStr ''a'', JStr ''b''])]])) = [entry_of ''c'' False]"
proof -
  let ?es = "[insert_event 0 ''next-turn'' [entry_of ''a'' True, entry_of ''b'' False, entry_of ''c'' False]]"
  let ?c = "splice_event 1 [(''op'', JStr ''claim''), (''target'', JStr ''next-turn''),
    (''claimed'', JArr [JStr ''a'', JStr ''b''])]"
  have h: "ev_type ?c = ''agent/inbox/spliced''" "field (ev_data ?c) ''op'' = JStr ''claim''"
    "field (ev_data ?c) ''claimed'' = JArr (snd (claimTurnBatch (foldInbox ?es)))"
    by code_simp+
  have x: "List.extract (\<lambda>e. \<not> isOriginEntry e) (ib_nextTurn (foldInbox ?es)) =
      Some ([entry_of ''a'' True], entry_of ''b'' False, [entry_of ''c'' False])"
    "ib_nextStep (foldInbox ?es) = []"
    by code_simp+
  show ?thesis using turn_claim_takes_batch [OF h] by (simp only: x option.case prod.case) simp
qed

end
