(* ===== verification/LoopRepair.thy ===== *)
theory LoopRepair
  imports LoopInbox JsMap
begin

text \<open>
  The repair of an interrupted log (\<open>agent-loop/src/repair.ts\<close>): the events that \<open>resume\<close> appends to
  what the archive holds, so that every tool call has a result, no turn and no step is open, and what was
  claimed from the inbox without becoming a message is queued again. The closure that numbers the events is
  written as a list of what is minted, in the order of the calls, numbered at the end.
\<close>

type_synonym closer = "string \<times> jsval \<times> surface_op option"

subsection \<open>Tool calls without a result\<close>

record pending_call =
  pc_callId :: jsval
  pc_callIndex :: nat
  pc_turn :: jsval
  pc_step :: jsval

record tool_scan =
  ts_answered :: "jsval list"
  ts_dispatched :: "jsval list"
  ts_pending :: "pending_call list"

definition isToolUse :: "jsval \<Rightarrow> bool" where
  "isToolUse block = (field block ''type'' = JStr ''tool_use'')"

fun pending_uses :: "nat \<Rightarrow> jsval \<Rightarrow> nat \<Rightarrow> jsval list \<Rightarrow> pending_call list" where
  "pending_uses i data callIndex [] = []"
| "pending_uses i data callIndex (block # blocks) =
     (if isToolUse block then
        \<lparr>pc_callId = field block ''callId'', pc_callIndex = i + callIndex,
         pc_turn = field data ''turn'', pc_step = field data ''step''\<rparr> # pending_uses i data (Suc callIndex) blocks
      else pending_uses i data callIndex blocks)"

definition scan_tool :: "nat \<times> sevent \<Rightarrow> tool_scan \<Rightarrow> tool_scan" where
  "scan_tool iev sc =
     (let ev = snd iev; data = ev_data ev in
      if ev_type ev = ''assistant/message'' then
        sc\<lparr>ts_pending := ts_pending sc @ pending_uses (fst iev) data 0 (items (field data ''content''))\<rparr>
      else if ev_type ev = ''tool/result'' then
        sc\<lparr>ts_answered := ts_answered sc @ [field data ''callId'']\<rparr>
      else if ev_type ev = ''tool/call'' then
        sc\<lparr>ts_dispatched := ts_dispatched sc @ [field data ''callId'']\<rparr>
      else sc)"

definition tool_scan_of :: "sevent list \<Rightarrow> tool_scan" where
  "tool_scan_of events =
     fold scan_tool (enumerate 0 events) \<lparr>ts_answered = [], ts_dispatched = [], ts_pending = []\<rparr>"

definition tool_closer :: "tool_scan \<Rightarrow> pending_call \<Rightarrow> closer" where
  "tool_closer sc call =
     (let content = (if pc_callId call \<in> set (ts_dispatched sc) then ''tool outcome unknown'' else ''tool call not started'')
      in (''tool/result'',
          JObj [(''turn'', pc_turn call), (''step'', pc_step call), (''callId'', pc_callId call),
                (''content'', JStr content), (''isError'', JBool True)],
          Some OpAppend))"

definition danglingToolClosers :: "sevent list \<Rightarrow> closer list" where
  "danglingToolClosers events =
     (let sc = tool_scan_of events in
      map (tool_closer sc)
        (sort_key pc_callIndex (filter (\<lambda>call. pc_callId call \<notin> set (ts_answered sc)) (ts_pending sc))))"

subsection \<open>Open turns and steps\<close>

record brackets =
  openTurn :: jsval \<comment> \<open>\<open>JUndef\<close>: no turn is open\<close>
  openStep :: "(jsval \<times> jsval) option"

definition bracket_event :: "sevent \<Rightarrow> brackets \<Rightarrow> brackets" where
  "bracket_event ev b =
     (let data = ev_data ev in
      if ev_type ev = ''turn/start'' then b\<lparr>openTurn := field data ''turn'', openStep := None\<rparr>
      else if ev_type ev = ''step/start'' then b\<lparr>openStep := Some (field data ''turn'', field data ''step'')\<rparr>
      else if ev_type ev = ''step/end'' then b\<lparr>openStep := None\<rparr>
      else if ev_type ev = ''turn/end'' then b\<lparr>openTurn := JUndef, openStep := None\<rparr>
      else b)"

definition brackets_of :: "sevent list \<Rightarrow> brackets" where
  "brackets_of events = fold bracket_event events \<lparr>openTurn = JUndef, openStep = None\<rparr>"

definition bracketClosers :: "sevent list \<Rightarrow> closer list" where
  "bracketClosers events =
     (let b = brackets_of events in
      (case openStep b of
         None \<Rightarrow> []
       | Some (turn, step) \<Rightarrow> [(''step/end'', JObj [(''turn'', turn), (''step'', step)], None)]) @
      (if openTurn b = JUndef then []
       else [(''turn/end'',
              JObj [(''turn'', openTurn b), (''reason'', JObj [(''kind'', JStr ''interrupted'')])], None)]))"

subsection \<open>Claims that became no message\<close>

record claim_scan =
  lastUserIndex :: int
  cs_claims :: "(jsval \<times> jsval list) list" \<comment> \<open>target and claimed ids\<close>

definition claim_event :: "nat \<times> sevent \<Rightarrow> claim_scan \<Rightarrow> claim_scan" where
  "claim_event iev sc =
     (let i = fst iev; ev = snd iev; data = ev_data ev; op = field data ''op'' in
      if is_splice ev then
        (let sc1 = (if op = JStr ''claim'' \<and> int i > lastUserIndex sc
                    then sc\<lparr>cs_claims := cs_claims sc @ [(field data ''target'', items (field data ''claimed''))]\<rparr>
                    else sc)
         in if op = JStr ''clear'' then sc1\<lparr>cs_claims := []\<rparr> else sc1)
      else if ev_type ev = ''user/message'' \<or> ev_type ev = ''agent/message'' then
        sc\<lparr>lastUserIndex := int i, cs_claims := []\<rparr>
      else sc)"

definition trailingClaims :: "sevent list \<Rightarrow> (jsval \<times> jsval list) list" where
  "trailingClaims events =
     cs_claims (fold claim_event (enumerate 0 events) \<lparr>lastUserIndex = - 1, cs_claims = []\<rparr>)"

type_synonym inserts = "(jsval, jsval \<times> jsval) jsmap" \<comment> \<open>by id: target and entry\<close>

definition note_insert :: "sevent \<Rightarrow> inserts \<Rightarrow> inserts" where
  "note_insert ev m =
     (if is_splice ev \<and> field (ev_data ev) ''op'' = JStr ''insert'' then
        fold (\<lambda>entry m. map_set m (entry_id entry) (field (ev_data ev) ''target'', entry))
          (items (field (ev_data ev) ''entries'')) m
      else m)"

definition insertsById :: "sevent list \<Rightarrow> inserts" where
  "insertsById events = fold note_insert events []"

definition reinsert_id :: "inserts \<Rightarrow> jsval \<Rightarrow> (jsval, jsval) jsmap \<Rightarrow> (jsval, jsval) jsmap" where
  "reinsert_id ins i m = (case map_get ins i of None \<Rightarrow> m | Some found \<Rightarrow> map_set m i (snd found))"

definition by_target :: "inserts \<Rightarrow> jsval \<Rightarrow> (jsval, jsval list) jsmap \<Rightarrow> (jsval, jsval list) jsmap" where
  \<comment> \<open>\<open>includes\<close> compares references; entries of different ids are different values\<close>
  "by_target ins i m =
     (case map_get ins i of
        None \<Rightarrow> m
      | Some (target, entry) \<Rightarrow>
          let list = (case map_get m target of None \<Rightarrow> [] | Some l \<Rightarrow> l)
          in map_set m target (if entry \<in> set list then list else list @ [entry]))"

definition claimReinserts :: "sevent list \<Rightarrow> (jsval \<times> jsval list) list" where
  "claimReinserts events =
     (let ins = insertsById events;
          reinsert = fold (\<lambda>claim. fold (reinsert_id ins) (snd claim)) (trailingClaims events) []
      in fold (by_target ins) (map_keys reinsert) [])"

subsection \<open>The closing events\<close>

definition reinsert_closer :: "jsval \<times> jsval list \<Rightarrow> closer" where
  "reinsert_closer te =
     (''agent/inbox/spliced'',
      JObj [(''op'', JStr ''insert''), (''target'', fst te), (''entries'', JArr (snd te))], None)"

definition mint :: "jsnum \<Rightarrow> nat \<times> closer \<Rightarrow> sevent" where
  "mint lastTime sc =
     (case sc of (seq, ty, data, op) \<Rightarrow>
        \<lparr>ev_type = ty, ev_seq = seq, ev_time = lastTime, ev_data = data, ev_op = op\<rparr>)"

definition interruptedTurnClosers :: "sevent list \<Rightarrow> sevent list" where
  "interruptedTurnClosers events =
     (if events = [] then []
      else map (mint (ev_time (last events)))
        (enumerate (length events)
          (danglingToolClosers events @ bracketClosers events @ map reinsert_closer (claimReinserts events))))"

definition repaired :: "sevent list \<Rightarrow> sevent list" where
  \<comment> \<open>the seed \<open>resume\<close> gives to \<open>store.create\<close>\<close>
  "repaired events = events @ interruptedTurnClosers events"

subsection \<open>What the scans find\<close>

definition result_ids :: "sevent list \<Rightarrow> jsval list" where
  "result_ids evs = map (\<lambda>ev. field (ev_data ev) ''callId'') (filter (\<lambda>ev. ev_type ev = ''tool/result'') evs)"

definition call_ids :: "sevent list \<Rightarrow> jsval list" where
  "call_ids evs = map (\<lambda>ev. field (ev_data ev) ''callId'') (filter (\<lambda>ev. ev_type ev = ''tool/call'') evs)"

definition use_ids :: "sevent list \<Rightarrow> jsval list" where
  "use_ids evs = concat (map (\<lambda>ev. map (\<lambda>b. field b ''callId'') (filter isToolUse (items (field (ev_data ev) ''content''))))
     (filter (\<lambda>ev. ev_type ev = ''assistant/message'') evs))"

lemma pending_uses_ids: "map pc_callId (pending_uses i d k bs) = map (\<lambda>b. field b ''callId'') (filter isToolUse bs)"
  by (induction bs arbitrary: k) auto

lemma tool_scan_ids:
  "ts_answered (fold scan_tool (enumerate n evs) sc) = ts_answered sc @ result_ids evs \<and>
   ts_dispatched (fold scan_tool (enumerate n evs) sc) = ts_dispatched sc @ call_ids evs \<and>
   map pc_callId (ts_pending (fold scan_tool (enumerate n evs) sc)) = map pc_callId (ts_pending sc) @ use_ids evs"
  by (induction evs arbitrary: n sc)
    (simp_all add: scan_tool_def Let_def result_ids_def call_ids_def use_ids_def pending_uses_ids)

lemma tool_scan_of_ids:
  "ts_answered (tool_scan_of evs) = result_ids evs" "ts_dispatched (tool_scan_of evs) = call_ids evs"
  "map pc_callId (ts_pending (tool_scan_of evs)) = use_ids evs"
  using tool_scan_ids [of 0 evs "\<lparr>ts_answered = [], ts_dispatched = [], ts_pending = []\<rparr>"]
  by (simp_all add: tool_scan_of_def)

lemma closers_of:
  "evs \<noteq> [] \<Longrightarrow> map (\<lambda>ev. (ev_type ev, ev_data ev, ev_op ev)) (interruptedTurnClosers evs) =
     danglingToolClosers evs @ bracketClosers evs @ map reinsert_closer (claimReinserts evs)"
proof -
  have "map (\<lambda>ev. (ev_type ev, ev_data ev, ev_op ev)) (map (mint t) (enumerate n cs)) = cs" for t n and cs :: "closer list"
    by (induction cs arbitrary: n) (auto simp: mint_def split: prod.splits)
  then show "evs \<noteq> [] \<Longrightarrow> ?thesis" by (simp only: interruptedTurnClosers_def if_False)
qed

end
