(* ===== verification/LoopRepairProps.thy ===== *)
theory LoopRepairProps
  imports LoopRepair SessionStore
begin

text \<open>
  What the repair of an interrupted log achieves: results for all tool calls, no open bracket, the trailing
  claims back in the inbox, and a log the session store accepts.
\<close>

subsection \<open>The closers, seen through their types\<close>

definition view :: "sevent \<Rightarrow> closer" where
  "view ev = (ev_type ev, ev_data ev, ev_op ev)"

lemma closers_view:
  "evs \<noteq> [] \<Longrightarrow> map view (interruptedTurnClosers evs) =
     danglingToolClosers evs @ bracketClosers evs @ map reinsert_closer (claimReinserts evs)"
  using closers_of [of evs] by (simp add: view_def [abs_def])

lemma closers_nil [simp]: "interruptedTurnClosers [] = []"
  by (simp add: interruptedTurnClosers_def)

lemma dangling_types: "c \<in> set (danglingToolClosers evs) \<Longrightarrow> fst c = ''tool/result''"
  by (auto simp: danglingToolClosers_def Let_def tool_closer_def)

lemma bracket_types: "c \<in> set (bracketClosers evs) \<Longrightarrow> fst c = ''step/end'' \<or> fst c = ''turn/end''"
  by (auto simp: bracketClosers_def Let_def split: option.splits if_splits)

lemma reinsert_types: "fst (reinsert_closer te) = ''agent/inbox/spliced''"
  by (simp add: reinsert_closer_def)

lemma closer_types:
  assumes "ev \<in> set (interruptedTurnClosers evs)"
  shows "ev_type ev \<in> {''tool/result'', ''step/end'', ''turn/end'', ''agent/inbox/spliced''}"
proof (cases "evs = []")
  case False
  have "view ev \<in> set (map view (interruptedTurnClosers evs))" using assms by simp
  then have "view ev \<in> set (danglingToolClosers evs @ bracketClosers evs @ map reinsert_closer (claimReinserts evs))"
    by (simp only: closers_view [OF False])
  then have "fst (view ev) \<in> {''tool/result'', ''step/end'', ''turn/end'', ''agent/inbox/spliced''}"
    using dangling_types [of "view ev" evs] bracket_types [of "view ev" evs] reinsert_types by auto
  then show ?thesis by (simp add: view_def)
qed (use assms in simp)

subsection \<open>Every tool call has a result\<close>

lemma result_ids_view:
  "result_ids evs = map (\<lambda>c. field (fst (snd c)) ''callId'') (filter (\<lambda>c. fst c = ''tool/result'') (map view evs))"
  by (simp add: result_ids_def view_def filter_map comp_def)

lemma result_ids_append: "result_ids (xs @ ys) = result_ids xs @ result_ids ys"
  by (simp add: result_ids_def)

lemma use_ids_closers: "use_ids (evs @ interruptedTurnClosers evs) = use_ids evs"
proof -
  have "filter (\<lambda>ev. ev_type ev = ''assistant/message'') (interruptedTurnClosers evs) = []"
    using closer_types [of _ evs] by (force simp: filter_empty_conv)
  then show ?thesis by (simp add: use_ids_def)
qed

lemma dangling_ids:
  "mset (map (\<lambda>c. field (fst (snd c)) ''callId'') (danglingToolClosers evs)) =
     filter_mset (\<lambda>c. c \<notin> set (result_ids evs)) (mset (use_ids evs))"
proof -
  let ?sc = "tool_scan_of evs"
  have f: "field (fst (snd (tool_closer sc call))) ''callId'' = pc_callId call" for sc call
    by (simp add: tool_closer_def field_def)
  have "mset (map (\<lambda>c. field (fst (snd c)) ''callId'') (danglingToolClosers evs)) =
      image_mset pc_callId (mset (filter (\<lambda>call. pc_callId call \<notin> set (ts_answered ?sc)) (ts_pending ?sc)))"
    by (simp add: danglingToolClosers_def Let_def f comp_def)
  also have "\<dots> = mset (filter (\<lambda>c. c \<notin> set (ts_answered ?sc)) (map pc_callId (ts_pending ?sc)))"
    by (simp add: filter_map comp_def)
  finally show ?thesis by (simp only: tool_scan_of_ids mset_filter)
qed

lemma dangling_nil:
  assumes "set (use_ids evs) \<subseteq> set (result_ids evs)"
  shows "danglingToolClosers evs = []"
proof -
  have "pc_callId call \<in> set (use_ids evs)" if "call \<in> set (ts_pending (tool_scan_of evs))" for call
    using that by (simp only: tool_scan_of_ids(3) [symmetric] set_map imageI)
  then have "filter (\<lambda>call. pc_callId call \<notin> set (ts_answered (tool_scan_of evs))) (ts_pending (tool_scan_of evs)) = []"
    using assms by (auto simp: filter_empty_conv tool_scan_of_ids)
  then show ?thesis by (simp add: danglingToolClosers_def)
qed

lemma closer_results: "mset (result_ids (interruptedTurnClosers evs)) =
    filter_mset (\<lambda>c. c \<notin> set (result_ids evs)) (mset (use_ids evs))"
proof (cases "evs = []")
  case True
  then show ?thesis by (simp add: result_ids_def use_ids_def)
next
  case False
  have keep: "filter (\<lambda>c. fst c = ''tool/result'') (danglingToolClosers evs) = danglingToolClosers evs"
    using dangling_types by (intro filter_True) blast
  have lose: "filter (\<lambda>c. fst c = ''tool/result'') (bracketClosers evs) = []"
    "filter (\<lambda>c. fst c = ''tool/result'') (map reinsert_closer (claimReinserts evs)) = []"
    using bracket_types by (fastforce simp: filter_empty_conv reinsert_types)+
  have "result_ids (interruptedTurnClosers evs) = map (\<lambda>c. field (fst (snd c)) ''callId'') (danglingToolClosers evs)"
    by (simp only: result_ids_view closers_view [OF False] filter_append keep lose append_Nil2)
  then show ?thesis using dangling_ids [of evs] by (simp only:)
qed

lemma dangling_content:
  "ev \<in> set (interruptedTurnClosers evs) \<Longrightarrow> ev_type ev = ''tool/result'' \<Longrightarrow>
     field (ev_data ev) ''content'' =
       JStr (if field (ev_data ev) ''callId'' \<in> set (call_ids evs) then ''tool outcome unknown'' else ''tool call not started'') \<and>
     field (ev_data ev) ''isError'' = JBool True"
proof -
  assume ev: "ev \<in> set (interruptedTurnClosers evs)" and ty: "ev_type ev = ''tool/result''"
  then have ne: "evs \<noteq> []" by auto
  have "view ev \<in> set (map view (interruptedTurnClosers evs))" using ev by simp
  then have "view ev \<in> set (danglingToolClosers evs @ bracketClosers evs @ map reinsert_closer (claimReinserts evs))"
    by (simp only: closers_view [OF ne])
  moreover have "fst (view ev) = ''tool/result''" using ty by (simp add: view_def)
  ultimately have "view ev \<in> set (danglingToolClosers evs)"
    using bracket_types [of "view ev" evs] reinsert_types by auto
  then obtain call where "view ev = tool_closer (tool_scan_of evs) call"
    by (auto simp: danglingToolClosers_def Let_def)
  then show ?thesis by (simp add: view_def tool_closer_def Let_def field_def tool_scan_of_ids)
qed

text \<open>C26: After the repair every tool call of the model has a result. The repair adds exactly one result for
  each call that had none, none for the others, and says of each whether the tool had been started.\<close>

theorem repair_answers_every_call:
  "set (use_ids (repaired evs)) \<subseteq> set (result_ids (repaired evs)) \<and>
   mset (result_ids (repaired evs)) =
     mset (result_ids evs) + filter_mset (\<lambda>c. c \<notin> set (result_ids evs)) (mset (use_ids evs)) \<and>
   map (\<lambda>ev. field (ev_data ev) ''content'') (filter (\<lambda>ev. ev_type ev = ''tool/result'') (interruptedTurnClosers evs)) =
     map (\<lambda>c. JStr (if c \<in> set (call_ids evs) then ''tool outcome unknown'' else ''tool call not started''))
       (result_ids (interruptedTurnClosers evs))"
proof -
  have m: "mset (result_ids (repaired evs)) =
      mset (result_ids evs) + filter_mset (\<lambda>c. c \<notin> set (result_ids evs)) (mset (use_ids evs))"
    by (simp add: repaired_def result_ids_append closer_results)
  then have "set (result_ids (repaired evs)) = set (result_ids evs) \<union> {c \<in> set (use_ids evs). c \<notin> set (result_ids evs)}"
    by (metis set_mset_filter set_mset_mset set_mset_union)
  moreover have "map (\<lambda>ev. field (ev_data ev) ''content'') (filter (\<lambda>ev. ev_type ev = ''tool/result'') (interruptedTurnClosers evs)) =
     map (\<lambda>c. JStr (if c \<in> set (call_ids evs) then ''tool outcome unknown'' else ''tool call not started''))
       (result_ids (interruptedTurnClosers evs))"
    unfolding result_ids_def map_map comp_def using dangling_content [of _ evs] by (intro map_cong refl) simp
  ultimately show ?thesis using m by (auto simp: repaired_def use_ids_closers)
qed

subsection \<open>No bracket stays open\<close>

lemma brackets_other:
  "ev_type ev \<notin> {''turn/start'', ''step/start'', ''step/end'', ''turn/end''} \<Longrightarrow> bracket_event ev b = b"
  by (simp add: bracket_event_def Let_def)

lemma brackets_view: "fold bracket_event evs b = fold (\<lambda>c. bracket_event (mint (NInt 0) (0, c))) (map view evs) b"
proof (induction evs arbitrary: b)
  case (Cons ev evs)
  have "bracket_event (mint (NInt 0) (0, view ev)) b = bracket_event ev b"
    by (simp add: mint_def view_def bracket_event_def Let_def)
  then show ?case using Cons by simp
qed simp

lemma skip_brackets:
  "\<forall>c\<in>set cs. fst c \<in> {''tool/result'', ''agent/inbox/spliced''} \<Longrightarrow>
     fold (\<lambda>c. bracket_event (mint (NInt 0) (0, c))) cs b = b"
proof (induction cs)
  case (Cons c cs)
  have "ev_type (mint (NInt 0) (0, c)) = fst c" by (simp add: mint_def split: prod.split)
  then have "bracket_event (mint (NInt 0) (0, c)) b = b" using Cons.prems by (intro brackets_other) auto
  then show ?case using Cons by simp
qed simp

lemma brackets_repaired: "brackets_of (repaired evs) = \<lparr>openTurn = JUndef, openStep = None\<rparr>"
proof (cases "evs = []")
  case True
  then show ?thesis by (simp add: repaired_def brackets_of_def)
next
  case False
  let ?f = "\<lambda>c. bracket_event (mint (NInt 0) (0, c))"
  have skip: "fold ?f cs b = b" if "\<forall>c\<in>set cs. fst c \<in> {''tool/result'', ''agent/inbox/spliced''}" for cs b
    using that by (rule skip_brackets)
  have close: "fold ?f (bracketClosers evs) (brackets_of evs) = \<lparr>openTurn = JUndef, openStep = None\<rparr>"
  proof -
    obtain t s where b: "brackets_of evs = \<lparr>openTurn = t, openStep = s\<rparr>" by (rule brackets.cases)
    show ?thesis
      by (cases s; cases "t = JUndef") (simp_all add: b bracketClosers_def mint_def bracket_event_def split: prod.split)
  qed
  have "brackets_of (repaired evs) = fold ?f (map view (interruptedTurnClosers evs)) (brackets_of evs)"
    unfolding repaired_def brackets_of_def by (simp add: brackets_view)
  also have "\<dots> = fold ?f (map reinsert_closer (claimReinserts evs))
      (fold ?f (bracketClosers evs) (fold ?f (danglingToolClosers evs) (brackets_of evs)))"
    by (simp only: closers_view [OF False] fold_append comp_def)
  also have "\<dots> = \<lparr>openTurn = JUndef, openStep = None\<rparr>"
  proof -
    have "fold ?f (danglingToolClosers evs) (brackets_of evs) = brackets_of evs"
      by (rule skip) (use dangling_types in blast)
    moreover have "fold ?f (map reinsert_closer (claimReinserts evs)) b = b" for b
      by (rule skip) (auto simp: reinsert_types)
    ultimately show ?thesis by (simp only: close)
  qed
  finally show ?thesis .
qed


end
