(* ===== verification/LoopClaims.thy ===== *)
theory LoopClaims
  imports LoopRepairProps
begin

text \<open>
  The claims an interrupted turn leaves behind: which entries the repair of \<open>repair.ts\<close> queues again,
  and what becomes of them when the log is repaired a second time.
\<close>

subsection \<open>The trailing claims, as a suffix of the log\<close>

definition settles :: "sevent \<Rightarrow> bool" where
  \<comment> \<open>what ends the responsibility for the claims before it\<close>
  "settles ev \<longleftrightarrow> ev_type ev = ''user/message'' \<or> ev_type ev = ''agent/message'' \<or>
     is_splice ev \<and> field (ev_data ev) ''op'' = JStr ''clear''"

definition claimed_by :: "sevent \<Rightarrow> jsval list" where
  "claimed_by ev =
     (if is_splice ev \<and> field (ev_data ev) ''op'' = JStr ''claim'' then items (field (ev_data ev) ''claimed'') else [])"

definition uncommitted :: "sevent list \<Rightarrow> jsval list" where
  \<comment> \<open>the ids claimed after the last event that settles\<close>
  "uncommitted evs = concat (map claimed_by (rev (takeWhile (\<lambda>ev. \<not> settles ev) (rev evs))))"

lemma uncommitted_nil [simp]: "uncommitted [] = []"
  by (simp add: uncommitted_def)

lemma uncommitted_snoc: "uncommitted (evs @ [ev]) = (if settles ev then [] else uncommitted evs @ claimed_by ev)"
  by (simp add: uncommitted_def)

lemma uncommitted_append:
  "list_all (\<lambda>ev. \<not> settles ev) later \<Longrightarrow>
     uncommitted (evs @ later) = uncommitted evs @ concat (map claimed_by later)"
proof (induction later rule: rev_induct)
  case (snoc ev later)
  then show ?case using uncommitted_snoc [of "evs @ later" ev] by simp
qed simp

lemma claim_scan_snoc:
  assumes "lastUserIndex sc < int n"
  shows "lastUserIndex (claim_event (n, ev) sc) < int (Suc n) \<and>
    concat (map snd (cs_claims (claim_event (n, ev) sc))) =
      (if settles ev then [] else concat (map snd (cs_claims sc)) @ claimed_by ev)"
proof (cases "is_splice ev")
  case True
  then have "ev_type ev \<noteq> ''user/message''" "ev_type ev \<noteq> ''agent/message''" by (simp_all add: is_splice_def)
  then show ?thesis using True assms by (simp add: claim_event_def Let_def settles_def claimed_by_def)
qed (use assms in \<open>simp add: claim_event_def Let_def settles_def claimed_by_def\<close>)

lemma trailing_claims: "concat (map snd (trailingClaims evs)) = uncommitted evs"
proof -
  let ?init = "\<lparr>lastUserIndex = - 1, cs_claims = []\<rparr>"
  have "lastUserIndex (fold claim_event (enumerate 0 evs) ?init) < int (length evs) \<and>
      concat (map snd (cs_claims (fold claim_event (enumerate 0 evs) ?init))) = uncommitted evs"
  proof (induction evs rule: rev_induct)
    case (snoc ev evs)
    have step: "fold claim_event (enumerate 0 (evs @ [ev])) ?init =
        claim_event (length evs, ev) (fold claim_event (enumerate 0 evs) ?init)"
      by (simp add: enumerate_append_eq)
    show ?case
      using claim_scan_snoc [OF conjunct1 [OF snoc.IH], of ev] snoc.IH
      by (simp only: step length_append_singleton uncommitted_snoc simp_thms)
  qed simp
  then show ?thesis by (simp add: trailingClaims_def)
qed

subsection \<open>The inserts of the log\<close>

definition insert_entries :: "sevent \<Rightarrow> jsval list" where
  "insert_entries ev =
     (if is_splice ev \<and> field (ev_data ev) ''op'' = JStr ''insert'' then items (field (ev_data ev) ''entries'') else [])"

definition inserted_ids :: "sevent list \<Rightarrow> jsval list" where
  "inserted_ids evs = map entry_id (concat (map insert_entries evs))"

definition faithful_inserts :: "inserts \<Rightarrow> jsval set \<Rightarrow> bool" where
  "faithful_inserts m I \<longleftrightarrow>
     (\<forall>i. map_get m i \<noteq> None \<longleftrightarrow> i \<in> I) \<and> (\<forall>i t e. map_get m i = Some (t, e) \<longrightarrow> entry_id e = i)"

lemma faithful_put: "faithful_inserts m I \<Longrightarrow> faithful_inserts (map_set m (entry_id e) (t, e)) (insert (entry_id e) I)"
  by (auto simp: faithful_inserts_def js_map.get_put)

lemma faithful_puts:
  "faithful_inserts m I \<Longrightarrow>
     faithful_inserts (fold (\<lambda>e m. map_set m (entry_id e) (t, e)) es m) (I \<union> entry_id ` set es)"
proof (induction es arbitrary: m I)
  case (Cons e es)
  show ?case using Cons.IH [OF faithful_put [OF Cons.prems, of e t]] by simp
qed simp

lemma faithful_insertsById: "faithful_inserts (insertsById evs) (set (inserted_ids evs))"
proof (induction evs rule: rev_induct)
  case Nil
  then show ?case by (simp add: insertsById_def inserted_ids_def faithful_inserts_def map_get_def)
next
  case (snoc ev evs)
  have "faithful_inserts (note_insert ev (insertsById evs)) (set (inserted_ids evs) \<union> entry_id ` set (insert_entries ev))"
  proof (cases "is_splice ev \<and> field (ev_data ev) ''op'' = JStr ''insert''")
    case True
    then show ?thesis using faithful_puts [OF snoc] by (simp add: note_insert_def insert_entries_def)
  next
    case False
    then have "note_insert ev (insertsById evs) = insertsById evs" "insert_entries ev = []"
      by (auto simp: note_insert_def insert_entries_def)
    then show ?thesis using snoc by simp
  qed
  then show ?case by (simp add: insertsById_def inserted_ids_def Un_commute image_Un)
qed

subsection \<open>What is queued again\<close>

lemma reinsert_keys:
  "set (map_keys (fold (reinsert_id ins) is m)) = set (map_keys m) \<union> {i \<in> set is. map_get ins i \<noteq> None}"
proof (induction "is" arbitrary: m)
  case (Cons i "is")
  have "set (map_keys (reinsert_id ins i m)) = set (map_keys m) \<union> {j. j = i \<and> map_get ins i \<noteq> None}"
    by (auto simp: reinsert_id_def js_map.keys_put map_keys_get split: option.split)
  then show ?case using Cons.IH by (auto simp only: fold_simps comp_def Un_iff mem_Collect_eq list.set insert_iff set_eq_iff)
qed simp

lemma reinsert_claims_keys:
  "set (map_keys (fold (\<lambda>claim. fold (reinsert_id ins) (snd claim)) cs m)) =
     set (map_keys m) \<union> {i \<in> set (concat (map snd cs)). map_get ins i \<noteq> None}"
  by (induction cs arbitrary: m) (auto simp: reinsert_keys)

definition target_ids :: "(jsval, jsval list) jsmap \<Rightarrow> jsval set" where
  "target_ids m = (\<Union>te \<in> set m. entry_id ` set (snd te))"

lemma target_ids_Cons: "target_ids ((k, v) # m) = entry_id ` set v \<union> target_ids m"
  by (simp add: target_ids_def)

lemma target_ids_set:
  "set (case map_get m k of None \<Rightarrow> [] | Some l \<Rightarrow> l) \<subseteq> set v \<Longrightarrow> target_ids (map_set m k v) = target_ids m \<union> entry_id ` set v"
proof (induction m k v rule: map_set.induct)
  case (2 k' v' m k v)
  show ?case
  proof (cases "k' = k")
    case True
    then have "set v' \<subseteq> set v" using "2.prems" by (simp add: map_get_def)
    then show ?thesis using True by (auto simp: target_ids_Cons)
  next
    case False
    then have "target_ids (map_set m k v) = target_ids m \<union> entry_id ` set v"
      using "2.IH" "2.prems" by (simp add: map_get_def)
    then show ?thesis using False by (simp add: target_ids_Cons Un_ac)
  qed
qed (simp add: target_ids_def)

lemma by_target_ids:
  assumes "faithful_inserts ins I"
  shows "target_ids (by_target ins i m) = target_ids m \<union> ({i} \<inter> I)"
proof (cases "map_get ins i")
  case None
  then have "i \<notin> I" using assms unfolding faithful_inserts_def by blast
  then show ?thesis using None by (simp add: by_target_def)
next
  case (Some te)
  obtain t e where te: "te = (t, e)" by (cases te)
  have i: "entry_id e = i" "i \<in> I" using assms Some te by (auto simp: faithful_inserts_def)
  let ?l = "case map_get m t of None \<Rightarrow> [] | Some l \<Rightarrow> l"
  have old: "entry_id ` set ?l \<subseteq> target_ids m"
  proof (cases "map_get m t")
    case (Some l)
    then have "(t, l) \<in> set m" by (simp add: map_get_def map_of_SomeD)
    then show ?thesis using Some by (force simp: target_ids_def)
  qed simp
  have "target_ids (map_set m t (if e \<in> set ?l then ?l else ?l @ [e])) =
      target_ids m \<union> entry_id ` set (if e \<in> set ?l then ?l else ?l @ [e])"
    by (rule target_ids_set) auto
  then show ?thesis using Some te i old by (auto simp: by_target_def Let_def split: if_splits)
qed

lemma by_target_all:
  "faithful_inserts ins I \<Longrightarrow> target_ids (fold (by_target ins) is m) = target_ids m \<union> (set is \<inter> I)"
  by (induction "is" arbitrary: m) (auto simp: by_target_ids)

lemma claimReinserts_ids: "target_ids (claimReinserts evs) = set (uncommitted evs) \<inter> set (inserted_ids evs)"
proof -
  note f = faithful_insertsById [of evs]
  have k: "set (map_keys (fold (\<lambda>claim. fold (reinsert_id (insertsById evs)) (snd claim)) (trailingClaims evs) [])) =
      {i \<in> set (uncommitted evs). map_get (insertsById evs) i \<noteq> None}"
    by (simp only: reinsert_claims_keys trailing_claims) (simp add: map_keys_def)
  have g: "map_get (insertsById evs) i \<noteq> None \<longleftrightarrow> i \<in> set (inserted_ids evs)" for i
    using f unfolding faithful_inserts_def by blast
  have "target_ids (claimReinserts evs) = target_ids [] \<union>
      ({i \<in> set (uncommitted evs). map_get (insertsById evs) i \<noteq> None} \<inter> set (inserted_ids evs))"
    unfolding claimReinserts_def Let_def by_target_all [OF f] k ..
  then show ?thesis using g by (auto simp: target_ids_def)
qed

subsection \<open>The inbox after the repair\<close>

lemma insert_entry_ids: "set (ids (insert_entry t e st)) = insert (entry_id e) (set (ids st))"
  by (auto simp: insert_entry_def in_inbox_iff ids_set set_queue_def queueOf_def)

lemma insert_entries_ids: "set (ids (fold (insert_entry t) es st)) = set (ids st) \<union> entry_id ` set es"
  by (induction es arbitrary: st) (auto simp: insert_entry_ids)

lemma fold_view: "fold fold_event evs st = fold (\<lambda>c. fold_event (mint (NInt 0) (0, c))) (map view evs) st"
proof (induction evs arbitrary: st)
  case (Cons ev evs)
  have "fold_event (mint (NInt 0) (0, view ev)) st = fold_event ev st"
    by (simp add: mint_def view_def fold_event_def is_splice_def)
  then show ?case using Cons by simp
qed simp

lemma other_closers:
  "\<forall>c\<in>set cs. fst c \<noteq> ''agent/inbox/spliced'' \<Longrightarrow> fold (\<lambda>c. fold_event (mint (NInt 0) (0, c))) cs st = st"
proof (induction cs)
  case (Cons c cs)
  have "ev_type (mint (NInt 0) (0, c)) = fst c" by (simp add: mint_def split: prod.split)
  then have "fold_event (mint (NInt 0) (0, c)) st = st" using Cons.prems by (simp add: fold_event_def is_splice_def)
  then show ?case using Cons by simp
qed simp

lemma reinsert_closer_ids:
  "set (ids (fold (\<lambda>c. fold_event (mint (NInt 0) (0, c))) (map reinsert_closer tes) st)) = set (ids st) \<union> target_ids tes"
proof (induction tes arbitrary: st)
  case (Cons te tes)
  have "set (ids (fold_event (mint (NInt 0) (0, reinsert_closer te)) st)) = set (ids st) \<union> entry_id ` set (snd te)"
    by (simp add: mint_def reinsert_closer_def fold_event_def is_splice_def splice_def field_def insert_entries_ids)
  then show ?case using Cons by (auto simp: target_ids_def)
qed (simp add: target_ids_def)

lemma repaired_inbox:
  "set (ids (foldInbox (repaired evs))) = set (ids (foldInbox evs)) \<union> target_ids (claimReinserts evs)"
proof (cases "evs = []")
  case True
  then show ?thesis by (simp add: repaired_def foldInbox_def claimReinserts_ids)
next
  case False
  have "foldInbox (repaired evs) = fold fold_event (interruptedTurnClosers evs) (foldInbox evs)"
    by (simp add: repaired_def foldInbox_def)
  moreover have "fold (\<lambda>c. fold_event (mint (NInt 0) (0, c))) (danglingToolClosers evs) st = st" for st
    using dangling_types by (intro other_closers) force
  moreover have "fold (\<lambda>c. fold_event (mint (NInt 0) (0, c))) (bracketClosers evs) st = st" for st
    using bracket_types by (intro other_closers) force
  ultimately show ?thesis
    by (simp only: fold_view closers_view [OF False] fold_append comp_def reinsert_closer_ids)
qed


subsection \<open>The second repair\<close>

lemma closers_not_settling: "list_all (\<lambda>ev. \<not> settles ev) (interruptedTurnClosers evs)"
proof (cases "evs = []")
  case False
  have "\<not> settles ev" if ev: "ev \<in> set (interruptedTurnClosers evs)" for ev
  proof
    assume "settles ev"
    then have "is_splice ev" and c: "field (ev_data ev) ''op'' = JStr ''clear''"
      using closer_types [OF ev] by (auto simp: settles_def)
    have "view ev \<in> set (map view (interruptedTurnClosers evs))" using ev by simp
    then have "view ev \<in> set (danglingToolClosers evs @ bracketClosers evs @ map reinsert_closer (claimReinserts evs))"
      by (simp only: closers_view [OF False])
    moreover have "fst (view ev) = ''agent/inbox/spliced''" using \<open>is_splice ev\<close> by (simp add: view_def is_splice_def)
    ultimately obtain te where "view ev = reinsert_closer te"
      using dangling_types [of "view ev" evs] bracket_types [of "view ev" evs] by auto
    then show False using c by (simp add: view_def reinsert_closer_def field_def)
  qed
  then show ?thesis by (simp add: list_all_iff)
qed simp

text \<open>A claim stays open until a message is written: whatever happens to its entries after the repair, a
  drop by the user included, the next repair queues them once more.\<close>

theorem dropped_claim_comes_back:
  assumes "i \<in> set (uncommitted evs)" "i \<in> set (inserted_ids evs)" "list_all (\<lambda>ev. \<not> settles ev) later"
  shows "i \<in> set (ids (foldInbox (repaired (repaired evs @ later))))"
proof -
  have "list_all (\<lambda>ev. \<not> settles ev) (interruptedTurnClosers evs @ later)"
    using assms(3) closers_not_settling [of evs] by simp
  from uncommitted_append [OF this, of evs] have "i \<in> set (uncommitted (repaired evs @ later))"
    using assms(1) by (simp add: repaired_def)
  moreover have "i \<in> set (inserted_ids (repaired evs @ later))" using assms(2) by (auto simp: repaired_def inserted_ids_def)
  ultimately show ?thesis by (simp add: repaired_inbox claimReinserts_ids)
qed

lemma dropped_claim_comes_back_witness:
  "JStr ''x'' \<in> set (ids (foldInbox (repaired (repaired
     [insert_event 0 ''next-turn'' [entry_of ''x'' False],
      splice_event 1 [(''op'', JStr ''claim''), (''target'', JStr ''next-turn''), (''claimed'', JArr [JStr ''x''])]] @
     [splice_event 3 [(''op'', JStr ''drop''), (''target'', JStr ''next-turn''), (''dropped'', JArr [JStr ''x''])]])))) \<and>
   JStr ''x'' \<notin> set (ids (foldInbox (repaired
     [insert_event 0 ''next-turn'' [entry_of ''x'' False],
      splice_event 1 [(''op'', JStr ''claim''), (''target'', JStr ''next-turn''), (''claimed'', JArr [JStr ''x''])]] @
     [splice_event 3 [(''op'', JStr ''drop''), (''target'', JStr ''next-turn''), (''dropped'', JArr [JStr ''x''])]])))"
proof
  let ?evs = "[insert_event 0 ''next-turn'' [entry_of ''x'' False],
      splice_event 1 [(''op'', JStr ''claim''), (''target'', JStr ''next-turn''), (''claimed'', JArr [JStr ''x''])]]"
  show "JStr ''x'' \<in> set (ids (foldInbox (repaired (repaired ?evs @
     [splice_event 3 [(''op'', JStr ''drop''), (''target'', JStr ''next-turn''), (''dropped'', JArr [JStr ''x''])]]))))"
    by (rule dropped_claim_comes_back) code_simp+
qed code_simp

text \<open>The messages of one batch are separate events. When only the first of them was written, its claim
  counts as settled, and the repair returns none of the other entries.\<close>

lemma partial_batch_is_lost:
  assumes "ev_type ev = ''user/message'' \<or> ev_type ev = ''agent/message''"
  shows "set (ids (foldInbox (repaired (evs @ [ev])))) = set (ids (foldInbox evs))"
proof -
  have "settles ev" "\<not> is_splice ev" using assms by (auto simp: settles_def is_splice_def)
  then show ?thesis
    by (simp add: repaired_inbox claimReinserts_ids uncommitted_snoc foldInbox_snoc fold_event_def)
qed

end
