(* ===== verification/LoopResume.thy ===== *)
theory LoopResume
  imports LoopClaims
begin

text \<open>
  \<open>resume\<close> gives the events of an archive, followed by the closers of \<open>repair.ts\<close>, to the session store as
  a seed. A log the store accepts is accepted after its repair.
\<close>

subsection \<open>What validation says of each event\<close>

lemma validated_events:
  "validate_from nodes p i (map encode evs) = Inr r \<Longrightarrow> ev \<in> set evs \<Longrightarrow>
     gateEvent (ev_type ev) (ev_data ev) = Accepted \<and> time_ok (JNum (ev_time ev))"
proof (induction evs arbitrary: nodes p i)
  case (Cons e evs)
  obtain n1 p1 where v: "validate_event nodes p i (encode e) = Inr (n1, p1)"
    and rest: "validate_from n1 p1 (Suc i) (map encode evs) = Inr r"
    using Cons.prems(1) by (auto split: sum.splits)
  have "envelopeError (encode e) i = None"
    using v by (auto simp: validate_event_def split: if_splits prod.splits option.splits)
  then have "gateEvent (ev_type e) (ev_data e) = Accepted \<and> time_ok (JNum (ev_time e))"
    by (simp add: envelopeError_def no_extra_key field_encode split: gate_outcome.splits if_splits)
  then show ?case using Cons.IH [OF rest] Cons.prems(2) by auto
qed simp

lemma gate_of:
  "gateEvent ''turn/start'' d = Accepted \<longleftrightarrow> at_turn d"
  "gateEvent ''turn/end'' d = Accepted \<longleftrightarrow> gate_turn_end d"
  "gateEvent ''step/start'' d = Accepted \<longleftrightarrow> at_step d"
  "gateEvent ''step/end'' d = Accepted \<longleftrightarrow> at_step d"
  "gateEvent ''assistant/message'' d = Accepted \<longleftrightarrow> gate_assistant_message d"
  "gateEvent ''tool/result'' d = Accepted \<longleftrightarrow> gate_tool_result d"
  "gateEvent ''agent/inbox/spliced'' d = Accepted \<longleftrightarrow> isInboxSpliceData d"
  by (simp_all add: gateEvent_def shapeGates_def)

definition good_event :: "sevent \<Rightarrow> bool" where
  "good_event ev \<longleftrightarrow> gateEvent (ev_type ev) (ev_data ev) = Accepted \<and> json_safe (encode ev)"

lemma good_data: "good_event ev \<Longrightarrow> has_own (ev_data ev) k \<Longrightarrow> json_safe (field (ev_data ev) k)"
proof -
  assume g: "good_event ev" and h: "has_own (ev_data ev) k"
  then have "ev_data ev \<noteq> JUndef" by (auto simp: has_own_def)
  then have "has_own (encode ev) ''data''" by (simp add: encode_def has_own_def)
  then have "json_safe (ev_data ev)" using g json_safe_field [of "encode ev" "''data''"] by (simp add: good_event_def field_encode)
  then show ?thesis using h by (rule json_safe_field)
qed

lemma count_safe: "isCount v \<Longrightarrow> json_safe v"
  by (auto simp: isCount_iff dest!: count_ofE)

lemma str_safe: "isStr v \<Longrightarrow> json_safe v"
  by (cases v) auto

subsection \<open>Closers the store accepts\<close>

definition good_closer :: "closer \<Rightarrow> bool" where
  "good_closer c \<longleftrightarrow>
     gateEvent (fst c) (fst (snd c)) = Accepted \<and> json_safe (fst (snd c)) \<and> \<not> command_event (fst c) \<and>
     (isSurfaceEventType (fst c) \<longleftrightarrow> snd (snd c) = Some OpAppend) \<and>
     (snd (snd c) = None \<or> snd (snd c) = Some OpAppend)"

lemma minted_fields:
  "ev_type (mint t (n, c)) = fst c" "ev_data (mint t (n, c)) = fst (snd c)" "ev_op (mint t (n, c)) = snd (snd c)"
  "ev_seq (mint t (n, c)) = n" "ev_time (mint t (n, c)) = t"
  by (simp_all add: mint_def split: prod.splits)

lemma minted_wf: "good_closer c \<Longrightarrow> event_wf (mint t (n, c))"
  by (auto simp: event_wf_def minted_fields good_closer_def)

lemma minted_safe: "good_closer c \<Longrightarrow> time_ok (JNum t) \<Longrightarrow> json_safe (encode (mint t (n, c)))"
  by (rule encode_json_safe) (auto simp: good_closer_def data_ok_def minted_fields)

lemma validate_closers:
  "list_all good_closer cs \<Longrightarrow> time_ok (JNum t) \<Longrightarrow>
     \<exists>r. validate_from nodes p n (map encode (map (mint t) (enumerate n cs))) = Inr r"
proof (induction cs arbitrary: nodes n)
  case (Cons c cs)
  let ?ev = "mint t (n, c)"
  have g: "good_closer c" using Cons.prems by simp
  have "\<exists>nodes'. project_from nodes [?ev] = Inr nodes'"
    using g by (auto simp: minted_fields good_closer_def applySurfaceEvent_def)
  then obtain nodes' where p: "project_from nodes [?ev] = Inr nodes'" by blast
  have q: "pairing_check p (encode ?ev) = (p, None)"
    using g by (intro pairing_other) (simp add: minted_fields good_closer_def)
  have "validate_event nodes p n (encode ?ev) = Inr (nodes', p)"
    using g Cons.prems(2) by (intro validate_encode [OF _ _ minted_wf [OF g] _ q p]) (simp_all add: minted_fields good_closer_def)
  then show ?case using Cons.IH [of nodes' "Suc n"] Cons.prems by simp
qed simp

subsection \<open>The closers of a validated log\<close>

lemma pending_uses_wf:
  assumes "list_all (isContentBlock False) bs" "isCount (field d ''turn'')" "isCount (field d ''step'')"
    "call \<in> set (pending_uses i d k bs)"
  shows "isCount (pc_turn call) \<and> isCount (pc_step call) \<and> isStr (pc_callId call)"
  using assms by (induction bs arbitrary: k) (auto simp: isContentBlock_def isToolUse_def split: if_splits)

definition good_call :: "pending_call \<Rightarrow> bool" where
  "good_call call \<longleftrightarrow> isCount (pc_turn call) \<and> isCount (pc_step call) \<and> isStr (pc_callId call)"

lemma pending_wf:
  "\<forall>ev\<in>set evs. good_event ev \<Longrightarrow> list_all good_call (ts_pending sc) \<Longrightarrow>
     list_all good_call (ts_pending (fold scan_tool (enumerate n evs) sc))"
proof (induction evs arbitrary: n sc)
  case (Cons ev evs)
  have "list_all good_call (ts_pending (scan_tool (n, ev) sc))"
  proof (cases "ev_type ev = ''assistant/message''")
    case True
    have "gate_assistant_message (ev_data ev)"
      using Cons.prems(1) True by (simp add: good_event_def gate_of)
    then have "at_step (ev_data ev)" "arr_all (isContentBlock False) (field (ev_data ev) ''content'')"
      by (simp_all add: gate_assistant_message_def isContentBlocks_def)
    then have "list_all good_call (pending_uses n (ev_data ev) 0 (items (field (ev_data ev) ''content'')))"
      unfolding list_all_iff good_call_def
      by (cases "field (ev_data ev) ''content''") (auto simp: at_step_def dest: pending_uses_wf)
    then show ?thesis using True Cons.prems(2) by (simp add: scan_tool_def Let_def)
  next
    case False
    then show ?thesis using Cons.prems(2) by (simp add: scan_tool_def Let_def)
  qed
  then show ?case using Cons by simp
qed simp

lemma good_dangling:
  assumes "\<forall>ev\<in>set evs. good_event ev"
  shows "list_all good_closer (danglingToolClosers evs)"
proof -
  have p: "list_all good_call (ts_pending (tool_scan_of evs))"
    unfolding tool_scan_of_def by (rule pending_wf [OF assms]) simp
  have "good_closer (tool_closer sc call)" if "good_call call" for sc call
    using that
    by (simp add: good_call_def good_closer_def tool_closer_def Let_def gate_of gate_tool_result_def
        at_step_def field_def count_safe str_safe isSurfaceEventType_def SURFACE_TYPES_def command_event_def opt_ok_def isTrue_def)
  note ok = this
  have "\<forall>call\<in>set (ts_pending (tool_scan_of evs)). good_closer (tool_closer (tool_scan_of evs) call)"
  proof
    fix call assume "call \<in> set (ts_pending (tool_scan_of evs))"
    then have "good_call call" using p by (simp only: list_all_iff)
    then show "good_closer (tool_closer (tool_scan_of evs) call)" by (rule ok)
  qed
  then show ?thesis by (simp add: danglingToolClosers_def Let_def list_all_iff)
qed

definition good_brackets :: "brackets \<Rightarrow> bool" where
  "good_brackets b \<longleftrightarrow>
     (openTurn b = JUndef \<or> isCount (openTurn b)) \<and>
     (case openStep b of None \<Rightarrow> True | Some ts \<Rightarrow> isCount (fst ts) \<and> isCount (snd ts))"

lemma good_bracket_event: "good_event ev \<Longrightarrow> good_brackets b \<Longrightarrow> good_brackets (bracket_event ev b)"
proof -
  assume g: "good_event ev" and b: "good_brackets b"
  consider "ev_type ev = ''turn/start''" | "ev_type ev = ''step/start''" | "ev_type ev \<notin> {''turn/start'', ''step/start''}" by blast
  then show ?thesis
  proof cases
    case 1
    have "at_turn (ev_data ev)"
      using g by (simp add: good_event_def 1 gate_of)
    then show ?thesis using 1 b by (simp add: bracket_event_def good_brackets_def at_turn_def Let_def)
  next
    case 2
    have "at_step (ev_data ev)"
      using g by (simp add: good_event_def 2 gate_of)
    then show ?thesis using 2 b by (simp add: bracket_event_def good_brackets_def at_step_def Let_def)
  next
    case 3
    then show ?thesis using b by (simp add: bracket_event_def good_brackets_def Let_def)
  qed
qed

lemma good_bracketClosers:
  assumes "\<forall>ev\<in>set evs. good_event ev"
  shows "list_all good_closer (bracketClosers evs)"
proof -
  have "good_brackets (fold bracket_event evs b)" if "good_brackets b" for b
    using assms that by (induction evs arbitrary: b) (simp_all add: good_bracket_event)
  then have b: "good_brackets (brackets_of evs)" unfolding brackets_of_def by (simp add: good_brackets_def)
  have s: "good_closer (''step/end'', JObj [(''turn'', t), (''step'', s)], None)" if "isCount t" "isCount s" for t s
    using that by (simp add: good_closer_def gate_of at_step_def field_def count_safe
        isSurfaceEventType_def SURFACE_TYPES_def command_event_def)
  have e: "good_closer (''turn/end'', JObj [(''turn'', t), (''reason'', JObj [(''kind'', JStr ''interrupted'')])], None)"
    if "isCount t" for t
    using that by (simp add: good_closer_def gate_of gate_turn_end_def at_turn_def isTurnEndReason_def
        field_def count_safe isSurfaceEventType_def SURFACE_TYPES_def command_event_def)
  have st: "list_all good_closer (case openStep (brackets_of evs) of None \<Rightarrow> []
      | Some (turn, step) \<Rightarrow> [(''step/end'', JObj [(''turn'', turn), (''step'', step)], None)])"
  proof (cases "openStep (brackets_of evs)")
    case (Some ts)
    obtain t u where ts: "ts = (t, u)" by (cases ts)
    then have "isCount t" "isCount u" using b Some by (simp_all add: good_brackets_def)
    then show ?thesis using Some ts s by simp
  qed simp
  show ?thesis
  proof (cases "openTurn (brackets_of evs) = JUndef")
    case False
    then have "isCount (openTurn (brackets_of evs))" using b by (simp add: good_brackets_def)
    then show ?thesis using False st e by (simp add: bracketClosers_def Let_def)
  qed (use st in \<open>simp add: bracketClosers_def\<close>)
qed

definition good_insert :: "jsval \<times> jsval \<Rightarrow> bool" where
  "good_insert te \<longleftrightarrow> isInboxTarget (fst te) \<and> isInboxEntry (snd te) \<and> json_safe (snd te)"

definition good_inserts :: "inserts \<Rightarrow> bool" where
  "good_inserts m \<longleftrightarrow> (\<forall>i te. map_get m i = Some te \<longrightarrow> good_insert te)"

lemma good_note_insert:
  assumes g: "good_event ev" and m: "good_inserts m"
  shows "good_inserts (note_insert ev m)"
proof (cases "is_splice ev \<and> field (ev_data ev) ''op'' = JStr ''insert''")
  case True
  let ?d = "ev_data ev"
  have "isInboxSpliceData ?d"
    using g True by (simp add: good_event_def gate_of is_splice_def)
  then have t: "isInboxTarget (field ?d ''target'')" and es: "arr_all isInboxEntry (field ?d ''entries'')"
    using True by (simp_all add: isInboxSpliceData_def isInboxEntries_def)
  have "has_own ?d ''entries''" using es by (cases "field ?d ''entries''") (auto simp: field_def has_own_def split: option.splits dest: map_of_SomeD)
  then have "json_safe (field ?d ''entries'')" by (rule good_data [OF g])
  then have all: "\<forall>e\<in>set (items (field ?d ''entries'')). good_insert (field ?d ''target'', e)"
    using t es by (cases "field ?d ''entries''") (auto simp: good_insert_def list_all_iff)
  have "good_inserts (fold (\<lambda>e m. map_set m (entry_id e) (t, e)) es m)"
    if "\<forall>e\<in>set es. good_insert (t, e)" "good_inserts m" for t es m
    using that
  proof (induction es arbitrary: m)
    case (Cons e es)
    have "good_inserts (map_set m (entry_id e) (t, e))"
      using Cons.prems by (simp add: good_inserts_def js_map.get_put)
    then show ?case using Cons by simp
  qed simp
  then show ?thesis using True all m by (simp add: note_insert_def)
next
  case False
  then have "note_insert ev m = m" by (auto simp: note_insert_def)
  then show ?thesis using m by simp
qed

definition good_targets :: "(jsval, jsval list) jsmap \<Rightarrow> bool" where
  "good_targets m \<longleftrightarrow> (\<forall>te\<in>set m. \<forall>e\<in>set (snd te). good_insert (fst te, e)) \<and> (\<forall>te\<in>set m. isInboxTarget (fst te))"

lemma good_targets_set:
  "good_targets m \<Longrightarrow> isInboxTarget k \<Longrightarrow> \<forall>e\<in>set v. good_insert (k, e) \<Longrightarrow> good_targets (map_set m k v)"
  by (induction m k v rule: map_set.induct) (auto simp: good_targets_def)

lemma good_by_target:
  assumes "good_inserts ins" "good_targets m"
  shows "good_targets (by_target ins i m)"
proof (cases "map_get ins i")
  case (Some te)
  obtain t e where te: "te = (t, e)" by (cases te)
  have g: "good_insert (t, e)" using assms(1) Some te by (simp add: good_inserts_def)
  let ?l = "case map_get m t of None \<Rightarrow> [] | Some l \<Rightarrow> l"
  have l: "\<forall>e\<in>set ?l. good_insert (t, e)"
  proof (cases "map_get m t")
    case (Some l)
    then have "(t, l) \<in> set m" by (simp add: map_get_def map_of_SomeD)
    then show ?thesis using assms(2) Some by (force simp: good_targets_def)
  qed simp
  have "good_targets (map_set m t (if e \<in> set ?l then ?l else ?l @ [e]))"
  proof (rule good_targets_set [OF assms(2)])
    show "isInboxTarget t" using g by (simp add: good_insert_def)
    show "\<forall>e'\<in>set (if e \<in> set ?l then ?l else ?l @ [e]). good_insert (t, e')" using l g by (cases "e \<in> set ?l") auto
  qed
  then show ?thesis using Some te by (simp add: by_target_def Let_def)
qed (use assms(2) in \<open>simp add: by_target_def\<close>)

lemma good_reinserts:
  assumes "\<forall>ev\<in>set evs. good_event ev"
  shows "list_all good_closer (map reinsert_closer (claimReinserts evs))"
proof -
  have "good_inserts (fold note_insert evs m)" if "good_inserts m" for m
    using assms that by (induction evs arbitrary: m) (simp_all add: good_note_insert)
  note keep = this
  have "good_inserts []" by (simp add: good_inserts_def map_get_def)
  then have ins: "good_inserts (insertsById evs)" unfolding insertsById_def by (rule keep)
  have "good_targets (fold (by_target (insertsById evs)) is m)" if "good_targets m" for "is" m
    using that by (induction "is" arbitrary: m) (simp_all add: good_by_target [OF ins])
  note keep = this
  have "good_targets []" by (simp add: good_targets_def)
  then have t: "good_targets (claimReinserts evs)" unfolding claimReinserts_def Let_def by (rule keep)
  have "good_closer (reinsert_closer te)"
    if "isInboxTarget (fst te)" "\<forall>e\<in>set (snd te). good_insert (fst te, e)" for te
  proof -
    have "json_safe (fst te)" using that(1) by (cases "fst te") (auto simp: isInboxTarget_def str_in_def)
    then show ?thesis using that
      by (simp add: good_closer_def reinsert_closer_def gate_of isInboxSpliceData_def isInboxEntries_def
          field_def isSurfaceEventType_def SURFACE_TYPES_def command_event_def list_all_iff good_insert_def)
  qed
  then show ?thesis using t by (auto simp: list_all_iff good_targets_def)
qed

text \<open>C25: Repair keeps a log loadable: when the session store takes the events of an archive as a seed, it
  also takes them with the closers appended, unchanged, so a session that could be read can be resumed.\<close>

theorem repaired_log_is_accepted:
  assumes "read_seed (Some (map encode evs)) = Inr evs"
  shows "read_seed (Some (map encode (repaired evs))) = Inr (repaired evs)"
proof (cases "evs = []")
  case True
  then show ?thesis using assms by (simp add: repaired_def)
next
  case False
  let ?n = "length evs" and ?t = "ev_time (last evs)"
  let ?cs = "danglingToolClosers evs @ bracketClosers evs @ map reinsert_closer (claimReinserts evs)"
  let ?new = "map (mint ?t) (enumerate ?n ?cs)"
  have safe: "\<forall>v\<in>set (map encode evs). json_safe v"
    using assms by (auto simp: read_seed_def materialize_safe(2) split: if_splits option.splits)
  then have valid: "validateSessionEvents (map encode evs) = None" and dec: "decode_from 0 (map encode evs) = evs"
    using assms by (auto simp: read_seed_def materialize_safe(2) split: option.splits)
  obtain nodes p where v: "validate_from [] pairing_init 0 (map encode evs) = Inr (nodes, p)"
    using valid by (auto simp: validateSessionEvents_def split: sum.splits)
  have good: "\<forall>ev\<in>set evs. good_event ev" using validated_events [OF v] safe by (simp add: good_event_def)
  have time: "time_ok (JNum ?t)" using validated_events [OF v last_in_set [OF False]] by simp
  have cs: "list_all good_closer ?cs"
    unfolding list_all_append using good_dangling [OF good] good_bracketClosers [OF good] good_reinserts [OF good] by simp
  obtain r where r: "validate_from nodes p ?n (map encode ?new) = Inr r" using validate_closers [OF cs time] by blast
  have new: "good_closer c" if "(n, c) \<in> set (enumerate ?n ?cs)" for n c
  proof -
    have "c \<in> snd ` set (enumerate ?n ?cs)" using that by force
    then have "c \<in> set ?cs" by (metis list.set_map map_snd_enumerate)
    then show ?thesis using cs by (simp only: list_all_iff)
  qed
  have "\<forall>ev\<in>set ?new. event_wf ev" using minted_wf new by auto
  moreover have "map ev_seq (map (mint t) (enumerate n cs)) = [n..<n + length cs]" for n t and cs :: "closer list"
    by (induction cs arbitrary: n) (simp_all add: minted_fields upt_conv_Cons del: upt_Suc)
  then have "map ev_seq ?new = [?n..<?n + length ?new]" by (simp only: length_map length_enumerate)
  ultimately have "decode_from ?n (map encode ?new) = ?new" by (rule decode_log)
  then have "decode_from 0 (map encode (evs @ ?new)) = evs @ ?new"
    using dec by (simp only: map_append decode_from_append) simp
  moreover have "validateSessionEvents (map encode (evs @ ?new)) = None"
    unfolding validateSessionEvents_def map_append validate_from_append v using r by simp
  moreover have "\<forall>v\<in>set (map encode (evs @ ?new)). json_safe v"
    using safe minted_safe [OF _ time] new by auto
  moreover have "repaired evs = evs @ ?new" using False by (simp add: repaired_def interruptedTurnClosers_def)
  ultimately show ?thesis unfolding read_seed_def by (simp only: option.case materialize_safe(2) if_True refl split: if_split) simp
qed

definition interrupted_log :: "sevent list" where
  \<comment> \<open>a turn that stopped after the model had called a tool\<close>
  "interrupted_log =
     (let at = [(''turn'', JNum (NInt 0)), (''step'', JNum (NInt 0))] in
      [\<lparr>ev_type = ''turn/start'', ev_seq = 0, ev_time = NInt 7, ev_data = JObj [(''turn'', JNum (NInt 0))], ev_op = None\<rparr>,
       \<lparr>ev_type = ''step/start'', ev_seq = 1, ev_time = NInt 7, ev_data = JObj at, ev_op = None\<rparr>,
       \<lparr>ev_type = ''assistant/message'', ev_seq = 2, ev_time = NInt 8,
        ev_data = JObj (at @ [(''content'', JArr [JObj [(''type'', JStr ''tool_use''), (''callId'', JStr ''c''),
          (''name'', JStr ''Bash''), (''input'', JStr ''{}'')]])]), ev_op = Some OpAppend\<rparr>])"

lemma repaired_log_is_accepted_witness:
  "read_seed (Some (map encode (repaired interrupted_log))) = Inr (repaired interrupted_log) \<and>
   map ev_type (repaired interrupted_log) =
     [''turn/start'', ''step/start'', ''assistant/message'', ''tool/result'', ''step/end'', ''turn/end'']"
proof
  have "read_seed (Some (map encode interrupted_log)) = Inr interrupted_log" by code_simp
  then show "read_seed (Some (map encode (repaired interrupted_log))) = Inr (repaired interrupted_log)"
    by (rule repaired_log_is_accepted)
qed code_simp

end
