(* ===== verification/LoopCalls.thy ===== *)
theory LoopCalls
  imports LoopRepair ToolsDispatch "HOL-Library.Sublist"
begin

text \<open>
  The scheduling of the tool calls of one step (\<open>agent-loop/src/tool-calls.ts\<close>): each call is logged, run
  alone or in a pool of calls that may run together, and its result is logged in the order of the calls.

  The surroundings are an argument: the registry, the abort signal and the clock as functions of the session
  the scheduler sees at that time, \<open>JSON.parse\<close>, what the hooks do to each dispatch, and what other code
  appends to the session while calls run. The two append helpers end with an exception when the log refuses
  the event; a loop that does not end is \<open>None\<close>.
\<close>

record call_spec =
  cs_callId :: string
  cs_name :: string
  cs_arguments :: string

datatype sched_error = AppendFailed string append_reason | AppendException

record sched_env =
  sd_registry :: "session \<Rightarrow> tool_registry"
  sd_aborted :: "session \<Rightarrow> bool"
  sd_now :: "session \<Rightarrow> jsnum"
  sd_onAppend :: "session \<Rightarrow> callback"
  sd_dispatch :: "session \<Rightarrow> call_spec \<Rightarrow> dispatch_env"
  sd_meanwhile :: "session \<Rightarrow> call_spec list \<Rightarrow> session"
  sd_parse :: "string \<Rightarrow> jsval option" \<comment> \<open>\<open>JSON.parse\<close>; \<open>None\<close> when it throws\<close>
  sd_sessionId :: "string option"
  sd_maxParallel :: int
  sd_maxResultChars :: int
  sd_turn :: jsval
  sd_step :: jsval
  sd_allowedTools :: "string list option"

record ledger =
  lg_session :: session
  lg_contexts :: "jsval list"
  lg_concludesTurn :: bool
  lg_bodies :: "body_event list" \<comment> \<open>the tool bodies that ran\<close>

type_synonym progress = "ledger \<times> sched_error option"

definition ABORTED_BEFORE_DISPATCH :: string where
  "ABORTED_BEFORE_DISPATCH = ''tool call aborted before dispatch''"

subsection \<open>Arguments and results\<close>

definition isTruncatedArguments :: "(string \<Rightarrow> jsval option) \<Rightarrow> string \<Rightarrow> bool" where
  "isTruncatedArguments parse input = (if input = [] then True else parse input = None)"

definition parseArgs :: "(string \<Rightarrow> jsval option) \<Rightarrow> string \<Rightarrow> jsval" where
  "parseArgs parse raw =
     (if raw = [] then JObj [] else case parse raw of Some v \<Rightarrow> v | None \<Rightarrow> JStr raw)"

definition slice_to :: "string \<Rightarrow> int \<Rightarrow> string" where
  \<comment> \<open>\<open>s.slice(0, limit)\<close>: a negative limit counts from the end\<close>
  "slice_to s limit = take (if 0 \<le> limit then nat limit else length s - nat (- limit)) s"

definition truncation_mark :: string where
  \<comment> \<open>the first character stands for the ellipsis, which is outside the 8 bits of a character here\<close>
  "truncation_mark = CHR 0x85 # ''[truncated]''"

definition truncate :: "string \<Rightarrow> int \<Rightarrow> string" where
  "truncate content limit =
     (if int (length content) \<le> limit then content else slice_to content limit @ truncation_mark)"

subsection \<open>Appending\<close>

definition andThen :: "progress \<Rightarrow> (ledger \<Rightarrow> progress) \<Rightarrow> progress" where
  \<comment> \<open>the next statement, unless an exception was thrown\<close>
  "andThen p f = (case p of (led, None) \<Rightarrow> f led | (led, Some e) \<Rightarrow> (led, Some e))"

definition append_or_throw :: "sched_env \<Rightarrow> string \<Rightarrow> jsval \<Rightarrow> jsval \<Rightarrow> ledger \<Rightarrow> progress" where
  "append_or_throw env ty data intent led =
     (let s = lg_session led; r = append s (sd_now env s) ty data intent (sd_onAppend env s) in
      (led\<lparr>lg_session := fst r\<rparr>,
       (case snd r of
          Appended _ \<Rightarrow> None
        | AppendRefused reason \<Rightarrow> Some (AppendFailed ty reason)
        | AppendThrew \<Rightarrow> Some AppendException)))"

definition mustAppend :: "sched_env \<Rightarrow> string \<Rightarrow> jsval \<Rightarrow> ledger \<Rightarrow> progress" where
  "mustAppend env ty data led = append_or_throw env ty data JUndef led"

definition mustAppendSurface :: "sched_env \<Rightarrow> string \<Rightarrow> jsval \<Rightarrow> ledger \<Rightarrow> progress" where
  "mustAppendSurface env ty data led =
     append_or_throw env ty data (JObj [(''surfaceOp'', JStr ''append'')]) led"

definition log_call :: "sched_env \<Rightarrow> call_spec \<Rightarrow> ledger \<Rightarrow> progress" where
  "log_call env call led =
     mustAppend env ''tool/call''
       (JObj [(''turn'', sd_turn env), (''step'', sd_step env), (''callId'', JStr (cs_callId call)),
              (''name'', JStr (cs_name call)), (''arguments'', JStr (cs_arguments call))]) led"

definition log_error :: "sched_env \<Rightarrow> call_spec \<Rightarrow> string \<Rightarrow> (string \<times> jsval) list \<Rightarrow> ledger \<Rightarrow> progress" where
  "log_error env call content extra led =
     mustAppendSurface env ''tool/result''
       (JObj ([(''turn'', sd_turn env), (''step'', sd_step env), (''callId'', JStr (cs_callId call)),
               (''content'', JStr content), (''isError'', JBool True)] @ extra)) led"

definition mustAppendPair :: "sched_env \<Rightarrow> call_spec \<Rightarrow> string \<Rightarrow> ledger \<Rightarrow> progress" where
  "mustAppendPair env spec content led =
     andThen (log_call env spec led) (log_error env spec content [(''synthetic'', JBool True)])"

definition allowed_call :: "sched_env \<Rightarrow> call_spec \<Rightarrow> bool" where
  "allowed_call env call = (case sd_allowedTools env of None \<Rightarrow> True | Some names \<Rightarrow> cs_name call \<in> set names)"

definition denyNotAllowed :: "sched_env \<Rightarrow> call_spec \<Rightarrow> ledger \<Rightarrow> progress option" where
  \<comment> \<open>\<open>None\<close>: the call is allowed\<close>
  "denyNotAllowed env call led =
     (if allowed_call env call then None
      else Some (andThen (log_call env call led) (log_error env call (''tool-not-allowed:'' @ cs_name call) [])))"

subsection \<open>Running\<close>

fun context_texts :: "jsval \<Rightarrow> jsval list" where
  "context_texts (JArr contexts) =
     concat (map (\<lambda>c. map (\<lambda>b. JObj [(''type'', JStr ''text''), (''text'', field b ''text'')]) (items (field c ''content'')))
       contexts)"
| "context_texts _ = []"

definition commitOutcome :: "sched_env \<Rightarrow> call_spec \<Rightarrow> tool_outcome \<Rightarrow> ledger \<Rightarrow> progress" where
  "commitOutcome env call outcome led =
     andThen
       (mustAppendSurface env ''tool/result''
         (JObj ([(''turn'', sd_turn env), (''step'', sd_step env), (''callId'', JStr (cs_callId call)),
                 (''content'', JStr (truncate (oc_content outcome) (sd_maxResultChars env)))] @
                (if oc_isError outcome then [(''isError'', JBool True)] else []))) led)
       (\<lambda>led.
         (led\<lparr>lg_concludesTurn := (oc_concludesTurn outcome \<or> lg_concludesTurn led),
              lg_contexts := lg_contexts led @ context_texts (oc_additionalContexts outcome)\<rparr>, None))"

definition request_of :: "sched_env \<Rightarrow> call_spec \<Rightarrow> tool_request" where
  "request_of env call =
     \<lparr>rq_ref = 0, rq_callId = cs_callId call, rq_name = cs_name call,
      rq_args = parseArgs (sd_parse env) (cs_arguments call), rq_session = sd_sessionId env\<rparr>"

definition dispatch_calls :: "sched_env \<Rightarrow> call_spec list \<Rightarrow> ledger \<Rightarrow> ledger \<times> tool_outcome list" where
  \<comment> \<open>\<open>await Promise.all(...)\<close>: the outcomes in the order of the calls, and the session when all are there\<close>
  "dispatch_calls env calls led =
     (let s = lg_session led;
          rs = map (\<lambda>call. dispatch (sd_dispatch env s call) (sd_registry env s) (request_of env call)) calls
      in (led\<lparr>lg_session := sd_meanwhile env s calls, lg_bodies := lg_bodies led @ concat (map fst rs)\<rparr>, map snd rs))"

fun each :: "('a \<Rightarrow> ledger \<Rightarrow> progress) \<Rightarrow> 'a list \<Rightarrow> ledger \<Rightarrow> progress" where
  \<comment> \<open>a \<open>for\<close> loop over a list\<close>
  "each f [] led = (led, None)"
| "each f (x # xs) led = andThen (f x led) (each f xs)"

definition run_pool :: "sched_env \<Rightarrow> call_spec list \<Rightarrow> ledger \<Rightarrow> progress" where
  "run_pool env pool led =
     andThen (each (log_call env) pool led)
       (\<lambda>led.
         let r = dispatch_calls env pool led
         in each (\<lambda>(call, outcome). commitOutcome env call outcome) (zip pool (snd r)) (fst r))"

definition runOne :: "sched_env \<Rightarrow> call_spec \<Rightarrow> ledger \<Rightarrow> progress" where
  "runOne env call led =
     andThen (log_call env call led)
       (\<lambda>led.
         let r = dispatch_calls env [call] led
         in each (\<lambda>(call, outcome). commitOutcome env call outcome) (zip [call] (snd r)) (fst r))"

definition parallel_call :: "sched_env \<Rightarrow> session \<Rightarrow> call_spec \<Rightarrow> bool" where
  "parallel_call env s call =
     (concurrencyOf (sd_registry env s) (cs_name call) (parseArgs (sd_parse env) (cs_arguments call)) = Parallel)"

fun take_pool :: "sched_env \<Rightarrow> session \<Rightarrow> nat \<Rightarrow> call_spec list \<Rightarrow> call_spec list \<times> call_spec list" where
  \<comment> \<open>the second argument is the length of the pool so far; the pool and the calls left\<close>
  "take_pool env s n [] = ([], [])"
| "take_pool env s n (c # cs) =
     (if int n < sd_maxParallel env \<and> allowed_call env c \<and> parallel_call env s c
      then (case take_pool env s (Suc n) cs of (pool, rest) \<Rightarrow> (c # pool, rest))
      else ([], c # cs))"

definition abort_call :: "sched_env \<Rightarrow> call_spec \<Rightarrow> ledger \<Rightarrow> progress" where
  "abort_call env call led =
     andThen (log_call env call led) (log_error env call ABORTED_BEFORE_DISPATCH [])"

definition sched_step :: "sched_env \<Rightarrow> call_spec \<Rightarrow> call_spec list \<Rightarrow> ledger \<Rightarrow> progress \<times> call_spec list" where
  \<comment> \<open>one round of the loop at the call \<open>head\<close>: the state after it and the calls still to do\<close>
  "sched_step env head rest led =
     (let s = lg_session led in
      if sd_aborted env s then (each (abort_call env) (head # rest) led, [])
      else case denyNotAllowed env head led of
        Some p \<Rightarrow> (p, rest)
      | None \<Rightarrow>
          if \<not> parallel_call env s head then (runOne env head led, rest)
          else (case take_pool env s 0 (head # rest) of (pool, rest') \<Rightarrow> (run_pool env pool led, rest')))"

partial_function (option) run_calls :: "sched_env \<Rightarrow> ledger \<Rightarrow> call_spec list \<Rightarrow> progress option" where
  "run_calls env led calls =
     (case calls of
        [] \<Rightarrow> Some (led, None)
      | head # rest \<Rightarrow>
          (case sched_step env head rest led of
             ((led', Some e), _) \<Rightarrow> Some (led', Some e)
           | ((led', None), rest') \<Rightarrow> run_calls env led' rest'))"

declare run_calls.simps [code]

definition executeToolCalls :: "sched_env \<Rightarrow> session \<Rightarrow> call_spec list \<Rightarrow> progress option" where
  "executeToolCalls env s calls =
     run_calls env \<lparr>lg_session = s, lg_contexts = [], lg_concludesTurn = False, lg_bodies = []\<rparr> calls"

end
