(* ===== verification/LoopCallsProps.thy ===== *)
theory LoopCallsProps
  imports LoopCalls
begin

text \<open>
  What holds of the scheduler of \<open>tool-calls.ts\<close>: calls and results in the log are paired and in order, no
  more than the limit run at once, only allowed tools run, results are bounded, and the loop ends exactly
  when its limit lets it.
\<close>

subsection \<open>Segments of the log\<close>

definition spec_ids :: "call_spec list \<Rightarrow> jsval list" where
  "spec_ids calls = map (\<lambda>c. JStr (cs_callId c)) calls"

lemma spec_ids_simps [simp]:
  "spec_ids [] = []" "spec_ids (c # cs) = JStr (cs_callId c) # spec_ids cs" "spec_ids (cs @ ds) = spec_ids cs @ spec_ids ds"
  "length (spec_ids cs) = length cs"
  by (simp_all add: spec_ids_def)

lemma tool_ids_append:
  "call_ids (xs @ ys) = call_ids xs @ call_ids ys" "result_ids (xs @ ys) = result_ids xs @ result_ids ys"
  by (simp_all add: call_ids_def result_ids_def)

lemma tool_ids_nil [simp]: "call_ids [] = []" "result_ids [] = []"
  by (simp_all add: call_ids_def result_ids_def)

definition paced :: "nat \<Rightarrow> sevent list \<Rightarrow> jsval list \<Rightarrow> bool" where
  \<comment> \<open>the events call and answer these ids in this order, no result is before its call, and at no time more
     than \<open>n\<close> calls wait for their result\<close>
  "paced n evs is \<longleftrightarrow>
     call_ids evs = is \<and> result_ids evs = is \<and>
     (\<forall>pre. prefix pre evs \<longrightarrow> prefix (result_ids pre) (call_ids pre) \<and> length (call_ids pre) \<le> length (result_ids pre) + n)"

lemma paced_nil [simp]: "paced n [] []"
  by (simp add: paced_def)

lemma paced_append:
  assumes "paced n xs is" "paced n ys js"
  shows "paced n (xs @ ys) (is @ js)"
proof -
  have "prefix (result_ids pre) (call_ids pre) \<and> length (call_ids pre) \<le> length (result_ids pre) + n"
    if "prefix pre (xs @ ys)" for pre
  proof (cases "prefix pre xs")
    case True
    then show ?thesis using assms(1) by (simp add: paced_def)
  next
    case False
    then obtain p where p: "pre = xs @ p" "prefix p ys" using \<open>prefix pre (xs @ ys)\<close> by (auto simp: prefix_append)
    then have "prefix (result_ids p) (call_ids p) \<and> length (call_ids p) \<le> length (result_ids p) + n"
      using assms(2) by (simp add: paced_def)
    then show ?thesis using p(1) assms(1) by (simp add: tool_ids_append paced_def)
  qed
  then show ?thesis using assms by (simp add: paced_def tool_ids_append)
qed

lemma prefix_ids: "prefix xs ys \<Longrightarrow> prefix (call_ids xs) (call_ids ys) \<and> prefix (result_ids xs) (result_ids ys)"
  by (auto simp: prefix_def tool_ids_append)

lemma paced_batch:
  assumes "call_ids cs = is" "result_ids cs = []" "call_ids mid = []" "result_ids mid = []"
    and "call_ids rs = []" "result_ids rs = is" "length is \<le> n"
  shows "paced n (cs @ mid @ rs) is"
proof -
  have "prefix (result_ids pre) (call_ids pre) \<and> length (call_ids pre) \<le> length (result_ids pre) + n"
    if "prefix pre (cs @ mid @ rs)" for pre
  proof (cases "prefix pre (cs @ mid)")
    case True
    then have "prefix (call_ids pre) is" "prefix (result_ids pre) []"
      using prefix_ids [OF True] assms by (simp_all add: tool_ids_append)
    then show ?thesis using assms(7) prefix_length_le [of "call_ids pre" "is"] by simp
  next
    case False
    then obtain r where r: "pre = cs @ mid @ r" "prefix r rs"
      using \<open>prefix pre (cs @ mid @ rs)\<close> by (metis append_assoc prefix_append)
    have "prefix (call_ids r) []" "prefix (result_ids r) is" using prefix_ids [OF r(2)] assms by simp_all
    then show ?thesis using assms r(1) by (simp add: tool_ids_append)
  qed
  then show ?thesis using assms by (simp add: paced_def tool_ids_append)
qed

subsection \<open>What one append leaves\<close>

abbreviation led_log :: "ledger \<Rightarrow> sevent list" where
  "led_log led \<equiv> sess_log (lg_session led)"

lemma andThen_None: "andThen p f = (led', None) \<Longrightarrow> \<exists>led. p = (led, None) \<and> f led = (led', None)"
  by (cases p) (auto simp: andThen_def split: option.splits)

lemma appended_event:
  assumes "append_or_throw env ty data intent led = (led', None)"
  shows "\<exists>ev. led_log led' = led_log led @ [ev] \<and> ev_type ev = ty \<and> ev_data ev = data"
proof -
  let ?s = "lg_session led"
  obtain ev where a: "snd (append ?s (sd_now env ?s) ty data intent (sd_onAppend env ?s)) = Appended ev"
    and l: "lg_session led' = fst (append ?s (sd_now env ?s) ty data intent (sd_onAppend env ?s))"
    using assms by (auto simp: append_or_throw_def Let_def split: append_outcome.splits)
  show ?thesis
  proof (rule append_log_cases [of ?s "sd_now env ?s" ty data intent "sd_onAppend env ?s"])
    fix stop assume "try_append ?s (sd_now env ?s) ty data intent = Inl stop"
      and "append ?s (sd_now env ?s) ty data intent (sd_onAppend env ?s) = (?s, stop)"
    then show ?thesis using a try_append_stop by fastforce
  next
    fix e nodes assume t: "try_append ?s (sd_now env ?s) ty data intent = Inr (e, nodes)"
      and g: "sess_log (fst (append ?s (sd_now env ?s) ty data intent (sd_onAppend env ?s))) = sess_log ?s @ [e]"
    have "ev_data e = data"
      using t by (auto simp: try_append_def Let_def split: if_splits option.splits gate_outcome.splits sum.splits dest: materialize_SomeD)
    then show ?thesis using g l try_append_event(1) [OF t] by auto
  qed
qed

lemma log_call_ids:
  assumes "log_call env call led = (led', None)"
  shows "\<exists>ev. led_log led' = led_log led @ [ev] \<and> call_ids [ev] = [JStr (cs_callId call)] \<and> result_ids [ev] = []"
  using appended_event [OF assms [unfolded log_call_def mustAppend_def]]
  by (auto simp: call_ids_def result_ids_def field_def)

lemma log_error_ids:
  assumes "log_error env call content extra led = (led', None)"
  shows "\<exists>ev. led_log led' = led_log led @ [ev] \<and> call_ids [ev] = [] \<and> result_ids [ev] = [JStr (cs_callId call)]"
  using appended_event [OF assms [unfolded log_error_def mustAppendSurface_def]]
  by (auto simp: call_ids_def result_ids_def field_def)

lemma commit_ids:
  assumes "commitOutcome env call outcome led = (led', None)"
  shows "\<exists>ev. led_log led' = led_log led @ [ev] \<and> call_ids [ev] = [] \<and> result_ids [ev] = [JStr (cs_callId call)]"
proof -
  obtain l1 where a: "mustAppendSurface env ''tool/result''
      (JObj ([(''turn'', sd_turn env), (''step'', sd_step env), (''callId'', JStr (cs_callId call)),
              (''content'', JStr (truncate (oc_content outcome) (sd_maxResultChars env)))] @
             (if oc_isError outcome then [(''isError'', JBool True)] else []))) led = (l1, None)"
    and l: "led_log led' = led_log l1"
    using andThen_None [OF assms [unfolded commitOutcome_def]] by auto
  show ?thesis
    using appended_event [OF a [unfolded mustAppendSurface_def]] l
    by (auto simp: call_ids_def result_ids_def field_def)
qed

lemma each_calls:
  "each (log_call env) calls led = (led', None) \<Longrightarrow>
     \<exists>evs. led_log led' = led_log led @ evs \<and> call_ids evs = spec_ids calls \<and> result_ids evs = []"
proof (induction calls arbitrary: led)
  case (Cons c cs)
  obtain l1 where l1: "log_call env c led = (l1, None)" "each (log_call env) cs l1 = (led', None)"
    using andThen_None Cons.prems by fastforce
  obtain ev where ev: "led_log l1 = led_log led @ [ev]" "call_ids [ev] = [JStr (cs_callId c)]" "result_ids [ev] = []"
    using log_call_ids [OF l1(1)] by blast
  obtain evs where evs: "led_log led' = led_log l1 @ evs" "call_ids evs = spec_ids cs" "result_ids evs = []"
    using Cons.IH [OF l1(2)] by blast
  show ?case
    by (intro exI [of _ "[ev] @ evs"] conjI; (simp only: tool_ids_append)?) (simp_all add: ev evs)
qed simp

lemma each_results:
  "each (\<lambda>(call, outcome). commitOutcome env call outcome) cos led = (led', None) \<Longrightarrow>
     \<exists>evs. led_log led' = led_log led @ evs \<and> call_ids evs = [] \<and> result_ids evs = spec_ids (map fst cos)"
proof (induction cos arbitrary: led)
  case (Cons co cos)
  obtain c oc where co: "co = (c, oc)" by (cases co)
  obtain l1 where l1: "commitOutcome env c oc led = (l1, None)"
    "each (\<lambda>(call, outcome). commitOutcome env call outcome) cos l1 = (led', None)"
    using andThen_None Cons.prems co by fastforce
  obtain ev where ev: "led_log l1 = led_log led @ [ev]" "call_ids [ev] = []" "result_ids [ev] = [JStr (cs_callId c)]"
    using commit_ids [OF l1(1)] by blast
  obtain evs where evs: "led_log led' = led_log l1 @ evs" "call_ids evs = []" "result_ids evs = spec_ids (map fst cos)"
    using Cons.IH [OF l1(2)] by blast
  show ?case
    by (intro exI [of _ "[ev] @ evs"] conjI; (simp only: tool_ids_append)?) (simp_all add: ev evs co)
qed simp

subsection \<open>One round\<close>

definition quiet :: "sched_env \<Rightarrow> bool" where
  \<comment> \<open>while calls run, other code only appends to the log, and no calls or results of tools\<close>
  "quiet env \<longleftrightarrow>
     (\<forall>s calls. \<exists>more. sess_log (sd_meanwhile env s calls) = sess_log s @ more \<and> call_ids more = [] \<and> result_ids more = [])"

definition width :: "sched_env \<Rightarrow> nat" where
  "width env = nat (max 1 (sd_maxParallel env))"

lemma batch_paced:
  assumes q: "quiet env" and len: "length pool \<le> width env" and run: "run_pool env pool led = (led', None)"
  shows "\<exists>evs. led_log led' = led_log led @ evs \<and> paced (width env) evs (spec_ids pool)"
proof -
  obtain l1 where l1: "each (log_call env) pool led = (l1, None)"
    and r: "each (\<lambda>(call, outcome). commitOutcome env call outcome)
      (zip pool (snd (dispatch_calls env pool l1))) (fst (dispatch_calls env pool l1)) = (led', None)"
    using andThen_None [OF run [unfolded run_pool_def]] by (auto simp: Let_def)
  let ?d = "dispatch_calls env pool l1"
  obtain cs where cs: "led_log l1 = led_log led @ cs" "call_ids cs = spec_ids pool" "result_ids cs = []"
    using each_calls [OF l1] by blast
  obtain mid where mid: "led_log (fst ?d) = led_log l1 @ mid" "call_ids mid = []" "result_ids mid = []"
    using q unfolding quiet_def dispatch_calls_def Let_def by fastforce
  have "length (snd ?d) = length pool" by (simp add: dispatch_calls_def Let_def)
  then have z: "spec_ids (map fst (zip pool (snd ?d))) = spec_ids pool"
    by (simp only: map_fst_zip)
  obtain rs where rs: "led_log led' = led_log (fst ?d) @ rs" "call_ids rs = []"
      "result_ids rs = spec_ids pool"
    using each_results [OF r] z by auto
  have "paced (width env) (cs @ mid @ rs) (spec_ids pool)"
    by (rule paced_batch) (use cs mid rs len in simp_all)
  then show ?thesis using cs(1) mid(1) rs(1) by (metis append_assoc)
qed

lemma andThen_return: "andThen p (\<lambda>led. (led, None)) = p"
  by (cases p) (auto simp: andThen_def split: option.splits)

lemma each_nil: "each f [] = (\<lambda>led. (led, None))"
  by (rule ext) simp

lemma runOne_pool: "runOne env call led = run_pool env [call] led"
  by (simp only: runOne_def run_pool_def each.simps(2) each_nil andThen_return)

lemma pair_paced:
  assumes "andThen (log_call env call led) (log_error env call content extra) = (led', None)"
  shows "\<exists>evs. led_log led' = led_log led @ evs \<and> paced (width env) evs [JStr (cs_callId call)]"
proof -
  obtain l1 where l1: "log_call env call led = (l1, None)" "log_error env call content extra l1 = (led', None)"
    using andThen_None [OF assms] by blast
  obtain c where c: "led_log l1 = led_log led @ [c]" "call_ids [c] = [JStr (cs_callId call)]" "result_ids [c] = []"
    using log_call_ids [OF l1(1)] by blast
  obtain r where r: "led_log led' = led_log l1 @ [r]" "call_ids [r] = []" "result_ids [r] = [JStr (cs_callId call)]"
    using log_error_ids [OF l1(2)] by blast
  have "paced (width env) ([c] @ [] @ [r]) [JStr (cs_callId call)]"
    by (rule paced_batch) (use c r in \<open>simp_all add: width_def\<close>)
  then show ?thesis using c(1) r(1) by (intro exI [of _ "[c] @ [] @ [r]"]) simp
qed

lemma abort_paced:
  "each (abort_call env) calls led = (led', None) \<Longrightarrow>
     \<exists>evs. led_log led' = led_log led @ evs \<and> paced (width env) evs (spec_ids calls)"
proof (induction calls arbitrary: led)
  case (Cons c cs)
  obtain l1 where l1: "abort_call env c led = (l1, None)" "each (abort_call env) cs l1 = (led', None)"
    using andThen_None Cons.prems by fastforce
  obtain xs where xs: "led_log l1 = led_log led @ xs" "paced (width env) xs [JStr (cs_callId c)]"
    using pair_paced l1(1) unfolding abort_call_def by blast
  obtain ys where ys: "led_log led' = led_log l1 @ ys" "paced (width env) ys (spec_ids cs)"
    using Cons.IH [OF l1(2)] by blast
  show ?case using paced_append [OF xs(2) ys(2)] xs(1) ys(1) by (intro exI [of _ "xs @ ys"]) simp
qed simp

lemma take_pool_parts:
  "take_pool env s n calls = (pool, rest) \<Longrightarrow>
     calls = pool @ rest \<and> int (n + length pool) \<le> max (int n) (sd_maxParallel env) \<and> list_all (allowed_call env) pool"
proof (induction calls arbitrary: n pool rest)
  case (Cons c cs)
  show ?case
  proof (cases "int n < sd_maxParallel env \<and> allowed_call env c \<and> parallel_call env s c")
    case True
    obtain p r where pr: "take_pool env s (Suc n) cs = (p, r)" by (cases "take_pool env s (Suc n) cs")
    then show ?thesis using Cons.IH [OF pr] Cons.prems True by auto
  next
    case False
    then show ?thesis using Cons.prems by auto
  qed
qed simp

lemma step_paced:
  assumes "quiet env" "sched_step env head rest led = ((led', None), rest')"
  shows "\<exists>evs did. head # rest = did @ rest' \<and> led_log led' = led_log led @ evs \<and>
    paced (width env) evs (spec_ids did)"
proof -
  let ?s = "lg_session led"
  consider (aborted) "sd_aborted env ?s"
    | (denied) "\<not> sd_aborted env ?s" "\<not> allowed_call env head"
    | (one) "\<not> sd_aborted env ?s" "allowed_call env head" "\<not> parallel_call env ?s head"
    | (many) "\<not> sd_aborted env ?s" "allowed_call env head" "parallel_call env ?s head" by blast
  then show ?thesis
  proof cases
    case aborted
    then have "each (abort_call env) (head # rest) led = (led', None)" "rest' = []"
      using assms(2) by (simp_all add: sched_step_def)
    then show ?thesis using abort_paced [of env "head # rest" led led'] by auto
  next
    case denied
    then have d: "andThen (log_call env head led) (log_error env head (''tool-not-allowed:'' @ cs_name head) []) = (led', None)"
      "rest' = rest"
      using assms(2) by (simp_all add: sched_step_def denyNotAllowed_def)
    obtain evs where "led_log led' = led_log led @ evs" "paced (width env) evs [JStr (cs_callId head)]"
      using pair_paced [OF d(1)] by blast
    then show ?thesis using d(2) by (intro exI [of _ evs] exI [of _ "[head]"]) simp
  next
    case one
    then have r: "run_pool env [head] led = (led', None)" "rest' = rest"
      using assms(2) by (simp_all add: sched_step_def denyNotAllowed_def runOne_pool)
    have "length [head] \<le> width env" by (simp add: width_def)
    then obtain evs where "led_log led' = led_log led @ evs" "paced (width env) evs (spec_ids [head])"
      using batch_paced [OF assms(1) _ r(1)] by blast
    then show ?thesis using r(2) by (intro exI [of _ evs] exI [of _ "[head]"]) simp
  next
    case many
    obtain pool r where tp: "take_pool env ?s 0 (head # rest) = (pool, r)" by (cases "take_pool env ?s 0 (head # rest)")
    then have r: "run_pool env pool led = (led', None)" "rest' = r"
      using assms(2) many by (simp_all add: sched_step_def denyNotAllowed_def)
    have "head # rest = pool @ r" "length pool \<le> width env"
      using take_pool_parts [OF tp] by (auto simp: width_def)
    then show ?thesis using batch_paced [OF assms(1) _ r(1)] r(2) by blast
  qed
qed

subsection \<open>The loop\<close>

lemma run_calls_paced:
  assumes "run_calls env led calls = Some r"
  shows "quiet env \<longrightarrow> snd r = None \<longrightarrow>
    (\<exists>evs. led_log (fst r) = led_log led @ evs \<and> paced (width env) evs (spec_ids calls))"
proof (rule run_calls.raw_induct [OF _ assms, of "\<lambda>env led calls r. quiet env \<longrightarrow> snd r = None \<longrightarrow>
    (\<exists>evs. led_log (fst r) = led_log led @ evs \<and> paced (width env) evs (spec_ids calls))"])
  fix rec env led calls r
  assume IH: "\<And>env led calls r. rec env led calls = Some r \<Longrightarrow> quiet env \<longrightarrow> snd r = None \<longrightarrow>
      (\<exists>evs. led_log (fst r) = led_log led @ evs \<and> paced (width env) evs (spec_ids calls))"
    and body: "(case calls of [] \<Rightarrow> Some (led, None)
      | head # rest \<Rightarrow>
          (case sched_step env head rest led of
             ((led', Some e), _) \<Rightarrow> Some (led', Some e)
           | ((led', None), rest') \<Rightarrow> rec env led' rest')) = Some r"
  show "quiet env \<longrightarrow> snd r = None \<longrightarrow>
      (\<exists>evs. led_log (fst r) = led_log led @ evs \<and> paced (width env) evs (spec_ids calls))"
  proof (intro impI)
    assume q: "quiet env" and ok: "snd r = None"
    show "\<exists>evs. led_log (fst r) = led_log led @ evs \<and> paced (width env) evs (spec_ids calls)"
    proof (cases calls)
      case Nil
      then show ?thesis using body by auto
    next
      case (Cons head rest)
      obtain led' e rest' where st: "sched_step env head rest led = ((led', e), rest')" by (metis prod.collapse)
      have e: "e = None" using body Cons st ok by (auto split: option.splits)
      then have rc: "rec env led' rest' = Some r" using body Cons st by simp
      obtain xs did where xs: "head # rest = did @ rest'" "led_log led' = led_log led @ xs"
          "paced (width env) xs (spec_ids did)"
        using step_paced [OF q] st e by blast
      obtain ys where ys: "led_log (fst r) = led_log led' @ ys" "paced (width env) ys (spec_ids rest')"
        using IH [OF rc] q ok by blast
      have "paced (width env) (xs @ ys) (spec_ids did @ spec_ids rest')"
        by (rule paced_append [OF xs(3) ys(2)])
      then show ?thesis using xs ys(1) Cons by (intro exI [of _ "xs @ ys"]) simp
    qed
  qed
qed

text \<open>C14: When the scheduler returns without an exception, what it wrote to the log is, for each call in the
  order of the calls, the call and then its result, once each, and at no time more calls wait for their
  result than the limit allows (or one). The other code may append anything but calls and results.\<close>

theorem calls_paired_in_order:
  assumes "quiet env" "executeToolCalls env s calls = Some (led, None)"
  shows "\<exists>evs. sess_log (lg_session led) = sess_log s @ evs \<and>
    call_ids evs = spec_ids calls \<and> result_ids evs = spec_ids calls \<and>
    (\<forall>pre. prefix pre evs \<longrightarrow> prefix (result_ids pre) (call_ids pre) \<and>
       int (length (call_ids pre)) \<le> int (length (result_ids pre)) + max 1 (sd_maxParallel env))"
proof -
  obtain evs where e: "sess_log (lg_session led) = sess_log s @ evs"
    "paced (width env) evs (spec_ids calls)"
    using run_calls_paced [OF assms(2) [unfolded executeToolCalls_def]] assms(1) by auto
  have "int (length (call_ids pre)) \<le> int (length (result_ids pre)) + max 1 (sd_maxParallel env)"
    if "length (call_ids pre) \<le> length (result_ids pre) + width env" for pre
    using that by (simp add: width_def)
  then show ?thesis using e unfolding paced_def by blast
qed

subsection \<open>When the loop ends\<close>

lemma run_calls_Cons:
  "run_calls env led (head # rest) =
     (case sched_step env head rest led of
        ((led', Some e), _) \<Rightarrow> Some (led', Some e)
      | ((led', None), rest') \<Rightarrow> run_calls env led' rest')"
  by (subst run_calls.simps) simp

lemma take_pool_head:
  "1 \<le> sd_maxParallel env \<Longrightarrow> allowed_call env head \<Longrightarrow> parallel_call env s head \<Longrightarrow>
     \<exists>pool rest'. take_pool env s 0 (head # rest) = (head # pool, rest')"
  by (auto split: prod.split)

lemma step_progress:
  assumes "1 \<le> sd_maxParallel env" "sched_step env head rest led = (p, rest')"
  shows "length rest' < length (head # rest)"
proof (cases "sd_aborted env (lg_session led) \<or> \<not> allowed_call env head \<or> \<not> parallel_call env (lg_session led) head")
  case True
  then show ?thesis using assms(2)
    by (auto simp: sched_step_def denyNotAllowed_def Let_def split: if_splits)
next
  case False
  then obtain pool r where tp: "take_pool env (lg_session led) 0 (head # rest) = (head # pool, r)"
    using take_pool_head [OF assms(1)] by blast
  then have "rest' = r" using assms(2) False by (simp add: sched_step_def denyNotAllowed_def)
  moreover have "head # rest = head # pool @ r" using take_pool_parts [OF tp] by simp
  ultimately show ?thesis by simp
qed

lemma run_calls_returns:
  "1 \<le> sd_maxParallel env \<Longrightarrow> \<exists>r. run_calls env led calls = Some r"
proof (induction "length calls" arbitrary: led calls rule: less_induct)
  case less
  show ?case
  proof (cases calls)
    case Nil
    then show ?thesis by (subst run_calls.simps) simp
  next
    case (Cons head rest)
    obtain led' e rest' where st: "sched_step env head rest led = ((led', e), rest')" by (metis prod.collapse)
    have "length rest' < length calls" using step_progress [OF less.prems st] Cons by simp
    then show ?thesis using less.hyps [OF _ less.prems] st Cons by (cases e) (simp_all add: run_calls_Cons)
  qed
qed

lemma stuck_pool:
  assumes "sd_maxParallel env \<le> 0" "\<not> sd_aborted env (lg_session led)" "allowed_call env head"
    "parallel_call env (lg_session led) head" "sd_meanwhile env (lg_session led) [] = lg_session led"
  shows "sched_step env head rest led = ((led, None), head # rest)"
  using assms
  by (simp add: sched_step_def denyNotAllowed_def run_pool_def andThen_def dispatch_calls_def Let_def)

lemma stuck_forever:
  assumes "sched_step env head rest led = ((led, None), head # rest)"
  shows "run_calls env led (head # rest) = None"
proof (rule ccontr)
  assume "run_calls env led (head # rest) \<noteq> None"
  then obtain r where "run_calls env led (head # rest) = Some r" by blast
  then have "\<not> (env = env \<and> led = led \<and> head # rest = head # rest)"
  proof (rule run_calls.raw_induct [of "\<lambda>env' led' calls r. \<not> (env' = env \<and> led' = led \<and> calls = head # rest)", rotated])
    fix rec env' led' calls' r'
    assume IH: "\<And>env' led' calls' r'. rec env' led' calls' = Some r' \<Longrightarrow> \<not> (env' = env \<and> led' = led \<and> calls' = head # rest)"
      and body: "(case calls' of [] \<Rightarrow> Some (led', None)
        | head # rest \<Rightarrow>
            (case sched_step env' head rest led' of
               ((led', Some e), _) \<Rightarrow> Some (led', Some e)
             | ((led', None), rest') \<Rightarrow> rec env' led' rest')) = Some r'"
    show "\<not> (env' = env \<and> led' = led \<and> calls' = head # rest)"
    proof
      assume "env' = env \<and> led' = led \<and> calls' = head # rest"
      then have "rec env led (head # rest) = Some r'" using body assms by simp
      then show False using IH by blast
    qed
  qed
  then show False by simp
qed


subsection \<open>Which bodies run\<close>

lemma andThen_inv: "P (fst p) \<Longrightarrow> (\<And>led. P led \<Longrightarrow> P (fst (f led))) \<Longrightarrow> P (fst (andThen p f))"
  by (cases p) (auto simp: andThen_def split: option.splits)

lemma each_inv:
  assumes "\<And>x led. x \<in> set xs \<Longrightarrow> P led \<Longrightarrow> P (fst (f x led))" "P led"
  shows "P (fst (each f xs led))"
  using assms
proof (induction xs arbitrary: led)
  case (Cons x xs)
  show ?case by (simp, rule andThen_inv) (use Cons in auto)
qed simp

lemma bodies_kept:
  "lg_bodies (fst (append_or_throw env ty data intent led)) = lg_bodies led"
  "lg_bodies (fst (log_call env call led)) = lg_bodies led"
  "lg_bodies (fst (log_error env call content extra led)) = lg_bodies led"
  by (simp_all add: log_call_def log_error_def mustAppend_def mustAppendSurface_def append_or_throw_def Let_def)

lemma commit_bodies: "lg_bodies (fst (commitOutcome env call outcome led)) = lg_bodies led"
proof -
  have "lg_bodies (fst (commitOutcome env call outcome led)) = lg_bodies led"
    unfolding commitOutcome_def
    by (rule andThen_inv [where P = "\<lambda>l. lg_bodies l = lg_bodies led"])
      (simp_all add: mustAppendSurface_def bodies_kept)
  then show ?thesis .
qed

definition gated_body :: "sched_env \<Rightarrow> call_spec list \<Rightarrow> body_event \<Rightarrow> bool" where
  \<comment> \<open>the run of a tool for one of the calls, which is allowed and which the gate let pass\<close>
  "gated_body env calls b \<longleftrightarrow>
     (\<exists>call \<in> set calls. allowed_call env call \<and> xc_callId (ev_context b) = cs_callId call \<and>
        xc_name (ev_context b) = cs_name call \<and>
        (\<exists>s tool raw exec escalatable. get_tool (sd_registry env s) (cs_name call) = Some tool \<and>
           de_gate (sd_dispatch env s call) (preExecutePayload tool (request_of env call)) = Inr raw \<and>
           gateDecision raw = DecisionAllow exec escalatable))"

definition bodies_gated :: "sched_env \<Rightarrow> call_spec list \<Rightarrow> ledger \<Rightarrow> bool" where
  "bodies_gated env calls led \<longleftrightarrow> (\<forall>b \<in> set (lg_bodies led). gated_body env calls b)"

lemma dispatch_gated:
  assumes "\<forall>c\<in>set pool. allowed_call env c \<and> c \<in> set calls" "bodies_gated env calls led"
  shows "bodies_gated env calls (fst (dispatch_calls env pool led))"
proof -
  let ?s = "lg_session led"
  have "gated_body env calls b"
    if c: "c \<in> set pool" and b: "b \<in> set (fst (dispatch (sd_dispatch env ?s c) (sd_registry env ?s) (request_of env c)))" for b c
    using dispatch_events [OF b] assms(1) c
    unfolding gated_body_def by (auto simp: request_of_def event_of_def intro!: bexI [of _ c]) blast+
  then show ?thesis using assms(2) by (auto simp: bodies_gated_def dispatch_calls_def Let_def)
qed

lemma pool_gated:
  assumes "\<forall>c\<in>set pool. allowed_call env c \<and> c \<in> set calls" "bodies_gated env calls led"
  shows "bodies_gated env calls (fst (run_pool env pool led))"
  unfolding run_pool_def Let_def
proof (rule andThen_inv [where P = "bodies_gated env calls"])
  show "bodies_gated env calls (fst (each (log_call env) pool led))"
    by (rule each_inv [where P = "bodies_gated env calls"]) (use assms(2) in \<open>simp_all add: bodies_gated_def bodies_kept\<close>)
  fix l assume "bodies_gated env calls l"
  then have "bodies_gated env calls (fst (dispatch_calls env pool l))" by (rule dispatch_gated [OF assms(1)])
  then show "bodies_gated env calls (fst (each (\<lambda>(call, outcome). commitOutcome env call outcome)
      (zip pool (snd (dispatch_calls env pool l))) (fst (dispatch_calls env pool l))))"
  proof (rule each_inv [where P = "bodies_gated env calls", rotated])
    fix x m assume "bodies_gated env calls m"
    then show "bodies_gated env calls (fst ((\<lambda>(call, outcome). commitOutcome env call outcome) x m))"
      by (cases x) (simp add: bodies_gated_def commit_bodies)
  qed
qed

lemma pair_gated:
  "bodies_gated env calls led \<Longrightarrow> bodies_gated env calls (fst (andThen (log_call env c led) (log_error env c content extra)))"
  by (rule andThen_inv [where P = "bodies_gated env calls"]) (simp_all add: bodies_gated_def bodies_kept)

lemma step_gated:
  assumes "set (head # rest) \<subseteq> set calls" "bodies_gated env calls led"
  shows "bodies_gated env calls (fst (fst (sched_step env head rest led))) \<and>
    set (snd (sched_step env head rest led)) \<subseteq> set calls"
proof -
  let ?s = "lg_session led"
  consider (aborted) "sd_aborted env ?s"
    | (denied) "\<not> sd_aborted env ?s" "\<not> allowed_call env head"
    | (one) "\<not> sd_aborted env ?s" "allowed_call env head" "\<not> parallel_call env ?s head"
    | (many) "\<not> sd_aborted env ?s" "allowed_call env head" "parallel_call env ?s head" by blast
  then show ?thesis
  proof cases
    case aborted
    have "bodies_gated env calls (fst (each (abort_call env) (head # rest) led))"
      by (rule each_inv [where P = "bodies_gated env calls"]) (simp_all only: abort_call_def pair_gated assms(2))
    then show ?thesis using aborted by (simp add: sched_step_def)
  next
    case denied
    then show ?thesis using assms by (simp add: sched_step_def denyNotAllowed_def pair_gated)
  next
    case one
    then show ?thesis using assms pool_gated [of "[head]" env calls led]
      by (simp add: sched_step_def denyNotAllowed_def runOne_pool)
  next
    case many
    obtain pool r where tp: "take_pool env ?s 0 (head # rest) = (pool, r)" by (cases "take_pool env ?s 0 (head # rest)")
    note parts = take_pool_parts [OF tp]
    have "set (pool @ r) \<subseteq> set calls" using parts assms(1) by simp
    then have "\<forall>c\<in>set pool. allowed_call env c \<and> c \<in> set calls" "set r \<subseteq> set calls"
      using parts by (auto simp: list_all_iff)
    then show ?thesis using many tp pool_gated [OF _ assms(2), of pool]
      by (simp only: sched_step_def denyNotAllowed_def Let_def if_False if_True option.case simp_thms prod.case fst_conv snd_conv)
  qed
qed

lemma run_calls_gated:
  assumes "run_calls env led calls = Some r"
  shows "set calls \<subseteq> set all_calls \<longrightarrow> bodies_gated env all_calls led \<longrightarrow> bodies_gated env all_calls (fst r)"
proof (rule run_calls.raw_induct [OF _ assms, of "\<lambda>env led calls r.
    set calls \<subseteq> set all_calls \<longrightarrow> bodies_gated env all_calls led \<longrightarrow> bodies_gated env all_calls (fst r)"])
  fix rec env led calls r
  assume IH: "\<And>env led calls r. rec env led calls = Some r \<Longrightarrow>
      set calls \<subseteq> set all_calls \<longrightarrow> bodies_gated env all_calls led \<longrightarrow> bodies_gated env all_calls (fst r)"
    and body: "(case calls of [] \<Rightarrow> Some (led, None)
      | head # rest \<Rightarrow>
          (case sched_step env head rest led of
             ((led', Some e), _) \<Rightarrow> Some (led', Some e)
           | ((led', None), rest') \<Rightarrow> rec env led' rest')) = Some r"
  show "set calls \<subseteq> set all_calls \<longrightarrow> bodies_gated env all_calls led \<longrightarrow> bodies_gated env all_calls (fst r)"
  proof (intro impI)
    assume sub: "set calls \<subseteq> set all_calls" and g: "bodies_gated env all_calls led"
    show "bodies_gated env all_calls (fst r)"
    proof (cases calls)
      case Nil
      then show ?thesis using body g by auto
    next
      case (Cons head rest)
      obtain led' e rest' where st: "sched_step env head rest led = ((led', e), rest')" by (metis prod.collapse)
      have g': "bodies_gated env all_calls led'" "set rest' \<subseteq> set all_calls"
        using step_gated [OF sub [unfolded Cons] g] st by simp_all
      show ?thesis
      proof (cases e)
        case None
        then have "rec env led' rest' = Some r" using body Cons st by simp
        then show ?thesis using IH g' by blast
      next
        case (Some x)
        then show ?thesis using body Cons st g' by auto
      qed
    qed
  qed
qed

text \<open>C15: Every tool body the scheduler runs belongs to one of the calls of the model, by a tool the agent may
  use, and only after the gate of the dispatcher returned a decision to allow it, even when the run ends with
  an exception or is aborted on the way.\<close>

theorem scheduled_bodies_are_gated:
  assumes "executeToolCalls env s calls = Some (led, stop)" "b \<in> set (lg_bodies led)"
  shows "gated_body env calls b"
proof -
  have "bodies_gated env calls led"
    using run_calls_gated [OF assms(1) [unfolded executeToolCalls_def], of calls] by (simp add: bodies_gated_def)
  then show ?thesis using assms(2) by (simp add: bodies_gated_def)
qed

subsection \<open>Witnesses\<close>

definition shared_tool :: tool_def where
  \<comment> \<open>a tool that may run in parallel and answers at once\<close>
  "shared_tool =
     \<lparr>td_ref = 0, td_name = ''t'', td_description = None, td_inputSchema = JObj [],
      td_isConcurrencySafe = Some (\<lambda>_. Inr (JBool True)), td_isControlTool = False, td_kind = None,
      td_readsSubtree = NeverSubtree,
      td_execute = Some (\<lambda>_ _. \<lparr>be_result = Inr (JObj [(''content'', JStr ''ok'')]), be_aborted = False\<rparr>)\<rparr>"

definition sample_env :: "int \<Rightarrow> sched_env" where
  "sample_env limit =
     \<lparr>sd_registry = (\<lambda>_. \<lparr>tr_tools = [(''t'', shared_tool)], tr_restrictions = [], tr_next = 0\<rparr>),
      sd_aborted = (\<lambda>_. False), sd_now = (\<lambda>_. NInt 5), sd_onAppend = (\<lambda>_. ([], False)),
      sd_dispatch = (\<lambda>_ _. sample_dispatch pass_through), sd_meanwhile = (\<lambda>s _. s), sd_parse = (\<lambda>_. None),
      sd_sessionId = None, sd_maxParallel = limit, sd_maxResultChars = 100, sd_turn = JNum (NInt 0),
      sd_step = JNum (NInt 0), sd_allowedTools = Some [''t'']\<rparr>"

definition sample_call :: "string \<Rightarrow> string \<Rightarrow> call_spec" where
  "sample_call i name = \<lparr>cs_callId = i, cs_name = name, cs_arguments = []\<rparr>"

definition sample_calls :: "call_spec list" where
  "sample_calls = [sample_call ''a'' ''t'', sample_call ''b'' ''t'', sample_call ''c'' ''u'']"

definition sample_run :: "progress option" where
  "sample_run = executeToolCalls (sample_env 2) (empty_session JNull) sample_calls"

lemma sample_run_ends: "sample_run = Some (fst (the sample_run), None)"
proof -
  have "(case sample_run of Some (led, None) \<Rightarrow> True | _ \<Rightarrow> False)" by code_simp
  then obtain led where "sample_run = Some (led, None)" by (auto split: option.splits)
  then show ?thesis by (metis fst_conv option.sel)
qed

lemma calls_paired_in_order_witness:
  "(\<exists>evs. sess_log (lg_session (fst (the sample_run))) = evs \<and>
     result_ids evs = [JStr ''a'', JStr ''b'', JStr ''c'']) \<and> quiet (sample_env 2)"
proof
  show q: "quiet (sample_env 2)" unfolding quiet_def sample_env_def by simp
  show "\<exists>evs. sess_log (lg_session (fst (the sample_run))) = evs \<and> result_ids evs = [JStr ''a'', JStr ''b'', JStr ''c'']"
    using calls_paired_in_order [OF q sample_run_ends [unfolded sample_run_def]]
    by (simp add: sample_run_def sample_calls_def sample_call_def empty_session_def)
qed


lemma scheduled_bodies_are_gated_witness:
  "list_all (gated_body (sample_env 2) sample_calls) (lg_bodies (fst (the sample_run))) \<and>
   length (lg_bodies (fst (the sample_run))) = 2"
proof
  show "list_all (gated_body (sample_env 2) sample_calls) (lg_bodies (fst (the sample_run)))"
    unfolding list_all_iff
    using scheduled_bodies_are_gated [OF sample_run_ends [unfolded sample_run_def]] by (simp add: sample_run_def)
  show "length (lg_bodies (fst (the sample_run))) = 2" by code_simp
qed

end
