(* ===== verification/WorkFold.thy ===== *)
theory WorkFold
  imports JsMap JsValues SessionGates
begin

text \<open>
  \<open>workflow-core\<close>: the journal of a workflow run and the snapshot folded from it (\<open>fold.ts\<close>), and which
  tasks may start (\<open>readiness.ts\<close>). The tasks of a run are a plain object by task id, written here as a
  map in insertion order: the ids the runtime makes start with a letter, so no id is an array index, and the
  events of a journal name no member of \<open>Object.prototype\<close>. The dependencies of a task come from its author,
  and for them the lookup does reach the prototype. An exception of the code is the left of a sum.
\<close>

subsection \<open>Events\<close>

datatype outcome = Completed | Failed | Cancelled

datatype tier = TSchema | TCommand | TCritic

datatype verify_outcome = VPassed | VFailed | VUnknown

datatype task_cause =
    DispatchFailed | DependencyFailed | CircuitBreak | ChildFailed | SettleFailed | TypeDefMissing
  | VerifyUnknown | TaskStop | TaskDeadline

record task_spec =
  sp_description :: string
  sp_prompt :: string
  sp_subagentType :: "string option"
  sp_model :: "string option"
  sp_isolation :: "string option"
  sp_resultSchema :: "jsval option"
  sp_acceptance :: "(string \<times> string option) option" \<comment> \<open>command and directory\<close>
  sp_critic :: "(string \<times> string option) option" \<comment> \<open>type and focus\<close>
  sp_maxAttempts :: "int option"
  sp_dependsOn :: "string list option"

datatype wf_event =
    RunCreated string string string
  | RunSettled outcome string
  | RunRebound string string
  | TaskSubmitted string task_spec
  | TaskDispatched string string string
  | RepairIssued string tier nat "string list option" "string option"
  | VerifyStarted string tier nat
  | VerifyResult string tier nat verify_outcome "int option"
  | TaskReopened string nat
  | TaskSettled string outcome "string option" "string option" "string option" "task_cause option"
      \<comment> \<open>verdict, detail, evidence, cause\<close>
  | NotifyDelivered string string
  | UnknownEvent string \<comment> \<open>any other type a journal line may carry\<close>

fun event_type :: "wf_event \<Rightarrow> string" where
  "event_type (RunCreated _ _ _) = ''run/created''"
| "event_type (RunSettled _ _) = ''run/settled''"
| "event_type (RunRebound _ _) = ''run/rebound''"
| "event_type (TaskSubmitted _ _) = ''task/submitted''"
| "event_type (TaskDispatched _ _ _) = ''task/dispatched''"
| "event_type (RepairIssued _ _ _ _ _) = ''task/repair-issued''"
| "event_type (VerifyStarted _ _ _) = ''verify/started''"
| "event_type (VerifyResult _ _ _ _ _) = ''verify/result''"
| "event_type (TaskReopened _ _) = ''task/reopened''"
| "event_type (TaskSettled _ _ _ _ _ _) = ''task/settled''"
| "event_type (NotifyDelivered _ _) = ''notify/delivered''"
| "event_type (UnknownEvent ty) = ty"

subsection \<open>The snapshot\<close>

datatype task_status = Submitted | Dispatched | Repairing | Verifying | Settled

record task_state =
  wt_taskId :: string
  wt_spec :: task_spec
  wt_status :: task_status
  wt_agentId :: "string option"
  wt_sessionId :: "string option"
  wt_repairs :: nat
  wt_reopens :: nat
  wt_verifyAttempts :: nat
  wt_outcome :: "outcome option"
  wt_cause :: "task_cause option"
  wt_verdict :: "string option"
  wt_detail :: "string option"
  wt_evidence :: "string option"
  wt_trailing :: "wf_event list"

datatype run_status = RunOpen | RunDone \<comment> \<open>\<open>created\<close> and \<open>settled\<close>\<close>

record snapshot =
  rs_runId :: string
  rs_parentSession :: string
  rs_cwd :: string
  rs_status :: run_status
  rs_outcome :: "outcome option"
  rs_settledDetail :: "string option"
  rs_tasks :: "(string, task_state) jsmap"
  rs_notified :: "string list"
  rs_consecutiveFailures :: nat

datatype fold_error = UnknownEventError string | UnknownTask string string | MustStartWithCreated string

definition initialTask :: "string \<Rightarrow> task_spec \<Rightarrow> task_state" where
  "initialTask taskId spec =
     \<lparr>wt_taskId = taskId, wt_spec = spec, wt_status = Submitted, wt_agentId = None, wt_sessionId = None,
      wt_repairs = 0, wt_reopens = 0, wt_verifyAttempts = 0, wt_outcome = None, wt_cause = None,
      wt_verdict = None, wt_detail = None, wt_evidence = None, wt_trailing = []\<rparr>"

definition initialSnapshot :: "string \<Rightarrow> string \<Rightarrow> string \<Rightarrow> snapshot" where
  "initialSnapshot runId parentSession cwd =
     \<lparr>rs_runId = runId, rs_parentSession = parentSession, rs_cwd = cwd, rs_status = RunOpen,
      rs_outcome = None, rs_settledDetail = None, rs_tasks = [], rs_notified = [],
      rs_consecutiveFailures = 0\<rparr>"

definition put_task :: "snapshot \<Rightarrow> string \<Rightarrow> task_state \<Rightarrow> snapshot" where
  "put_task s taskId task = s\<lparr>rs_tasks := map_set (rs_tasks s) taskId task\<rparr>"

definition withTask ::
  "snapshot \<Rightarrow> string \<Rightarrow> (task_state option \<Rightarrow> fold_error + task_state) \<Rightarrow> fold_error + snapshot" where
  \<comment> \<open>the snapshot is kept as it is when the transition returns the same object\<close>
  "withTask s taskId transition = map_sum id (put_task s taskId) (transition (map_get (rs_tasks s) taskId))"

definition advance ::
  "string \<Rightarrow> wf_event \<Rightarrow> (task_state \<Rightarrow> task_state) \<Rightarrow> task_status option \<Rightarrow> task_state option \<Rightarrow>
     fold_error + task_state" where
  "advance taskId event transition fromState task =
     (case task of
        None \<Rightarrow> Inl (UnknownTask (event_type event) taskId)
      | Some t \<Rightarrow>
          if wt_status t = Settled then Inr (t\<lparr>wt_trailing := wt_trailing t @ [event]\<rparr>)
          else if fromState \<noteq> None \<and> Some (wt_status t) \<noteq> fromState
          then Inr (t\<lparr>wt_trailing := wt_trailing t @ [event]\<rparr>)
          else Inr (transition t))"

definition or_else :: "'a option \<Rightarrow> 'a option \<Rightarrow> 'a option" where
  \<comment> \<open>a field that is spread only when it is present\<close>
  "or_else new old = (if new = None then old else new)"

definition settleTask ::
  "snapshot \<Rightarrow> string \<Rightarrow> outcome \<Rightarrow> string option \<Rightarrow> string option \<Rightarrow> string option \<Rightarrow> task_cause option \<Rightarrow>
     fold_error + snapshot" where
  "settleTask s taskId outc verdict detail evidence cause =
     (case map_get (rs_tasks s) taskId of
        None \<Rightarrow> Inl (UnknownTask ''task/settled'' taskId)
      | Some t \<Rightarrow>
          if wt_status t = Settled then Inr s
          else
            let consecutive = (if outc = Failed then rs_consecutiveFailures s + 1 else 0);
                settledTask = t\<lparr>wt_status := Settled, wt_outcome := Some outc, wt_cause := or_else cause (wt_cause t),
                  wt_verdict := or_else verdict (wt_verdict t), wt_detail := or_else detail (wt_detail t),
                  wt_evidence := or_else evidence (wt_evidence t)\<rparr>
            in Inr (put_task (s\<lparr>rs_consecutiveFailures := consecutive\<rparr>) taskId settledTask))"

definition withNotified :: "snapshot \<Rightarrow> string \<Rightarrow> snapshot" where
  "withNotified s taskId =
     (if taskId \<in> set (rs_notified s) then s else s\<lparr>rs_notified := rs_notified s @ [taskId]\<rparr>)"

fun wf_step :: "snapshot \<Rightarrow> wf_event \<Rightarrow> fold_error + snapshot" where
  "wf_step s (RunCreated runId parent cwd) = Inr (initialSnapshot runId parent cwd)"
| "wf_step s (RunSettled outc detail) =
     (if rs_status s = RunDone then Inr s
      else Inr (s\<lparr>rs_status := RunDone, rs_outcome := Some outc, rs_settledDetail := Some detail\<rparr>))"
| "wf_step s (RunRebound _ to) = Inr (s\<lparr>rs_parentSession := to\<rparr>)"
| "wf_step s (TaskSubmitted taskId spec) =
     withTask s taskId (\<lambda>task. Inr (case task of None \<Rightarrow> initialTask taskId spec | Some t \<Rightarrow> t))"
| "wf_step s (TaskDispatched taskId agentId sessionId) =
     withTask s taskId
       (advance taskId (TaskDispatched taskId agentId sessionId)
         (\<lambda>t. t\<lparr>wt_status := Dispatched, wt_agentId := Some agentId, wt_sessionId := Some sessionId\<rparr>)
         (Some Submitted))"
| "wf_step s (RepairIssued taskId tier attempt violations output) =
     withTask s taskId
       (advance taskId (RepairIssued taskId tier attempt violations output)
         (\<lambda>t. t\<lparr>wt_status := Repairing, wt_repairs := wt_repairs t + 1\<rparr>) None)"
| "wf_step s (TaskReopened taskId attempt) =
     withTask s taskId
       (advance taskId (TaskReopened taskId attempt)
         (\<lambda>t. t\<lparr>wt_status := Repairing, wt_reopens := wt_reopens t + 1\<rparr>) None)"
| "wf_step s (VerifyStarted taskId tier attempt) =
     withTask s taskId
       (advance taskId (VerifyStarted taskId tier attempt)
         (\<lambda>t. t\<lparr>wt_status := Verifying, wt_verifyAttempts := wt_verifyAttempts t + 1\<rparr>) None)"
| "wf_step s (VerifyResult taskId tier attempt outc exitCode) =
     withTask s taskId
       (advance taskId (VerifyResult taskId tier attempt outc exitCode) (\<lambda>t. t\<lparr>wt_status := Repairing\<rparr>) None)"
| "wf_step s (TaskSettled taskId outc verdict detail evidence cause) =
     settleTask s taskId outc verdict detail evidence cause"
| "wf_step s (NotifyDelivered taskId _) = Inr (withNotified s taskId)"
| "wf_step s (UnknownEvent ty) = Inl (UnknownEventError ty)"

fun wf_steps :: "snapshot \<Rightarrow> wf_event list \<Rightarrow> fold_error + snapshot" where
  "wf_steps s [] = Inr s"
| "wf_steps s (event # events) =
     (case wf_step s event of Inl e \<Rightarrow> Inl e | Inr s' \<Rightarrow> wf_steps s' events)"

fun fold_journal :: "wf_event list \<Rightarrow> fold_error + snapshot option" where
  "fold_journal [] = Inr None"
| "fold_journal (RunCreated runId parent cwd # events) =
     map_sum id Some (wf_steps (initialSnapshot runId parent cwd) events)"
| "fold_journal (event # events) = Inl (MustStartWithCreated (event_type event))"

definition task_values :: "snapshot \<Rightarrow> task_state list" where
  "task_values s = map snd (rs_tasks s)"

definition runReadyToSettle :: "snapshot \<Rightarrow> bool \<times> outcome" where
  "runReadyToSettle s =
     (let tasks = task_values s in
      if tasks = [] \<or> \<not> list_all (\<lambda>t. wt_status t = Settled) tasks then (False, Completed)
      else if list_ex (\<lambda>t. wt_outcome t \<noteq> Some Completed) tasks then
        (True, if list_ex (\<lambda>t. wt_outcome t = Some Failed) tasks then Failed else Cancelled)
      else (True, Completed))"

subsection \<open>Readiness\<close>

datatype dep_verdict = DepReady | DepWaiting | DepDoomed | DepOrphan

fun dependencyVerdict :: "string list \<Rightarrow> (string, task_state) jsmap \<Rightarrow> dep_verdict" where
  "dependencyVerdict [] tasks = DepReady"
| "dependencyVerdict (dep # deps) tasks =
     (case map_get tasks dep of
        None \<Rightarrow> if dep \<in> set object_prototype_members then DepWaiting else DepOrphan
      | Some target \<Rightarrow>
          if wt_status target \<noteq> Settled then DepWaiting
          else if wt_outcome target \<noteq> Some Completed then DepDoomed
          else dependencyVerdict deps tasks)"

record readiness_result =
  rr_dispatchable :: "string list"
  rr_dependencyDoomed :: "string list"
  rr_circuitDoomed :: "string list"

definition in_flight :: "task_state \<Rightarrow> bool" where
  "in_flight t \<longleftrightarrow> wt_status t = Dispatched \<or> wt_status t = Repairing \<or> wt_status t = Verifying"

definition task_verdict :: "snapshot \<Rightarrow> task_state \<Rightarrow> dep_verdict" where
  "task_verdict s t = dependencyVerdict (case sp_dependsOn (wt_spec t) of None \<Rightarrow> [] | Some deps \<Rightarrow> deps) (rs_tasks s)"

definition ready_task :: "snapshot \<Rightarrow> int \<Rightarrow> task_state \<Rightarrow> readiness_result \<Rightarrow> readiness_result" where
  "ready_task s window t r =
     (if wt_status t \<noteq> Submitted then r
      else
        let verdict = task_verdict s t in
        if verdict = DepDoomed \<or> verdict = DepOrphan
        then r\<lparr>rr_dependencyDoomed := rr_dependencyDoomed r @ [wt_taskId t]\<rparr>
        else if verdict = DepReady \<and> int (length (rr_dispatchable r)) < window
        then r\<lparr>rr_dispatchable := rr_dispatchable r @ [wt_taskId t]\<rparr>
        else r)"

definition readiness :: "snapshot \<Rightarrow> int \<Rightarrow> int \<Rightarrow> readiness_result" where
  "readiness s maxInFlight circuitBreak =
     (let tasks = task_values s;
          inFlight = filter in_flight tasks;
          circuitOpen = (circuitBreak > 0 \<and> int (rs_consecutiveFailures s) \<ge> circuitBreak);
          nonTerminal = filter (\<lambda>t. wt_status t \<noteq> Settled) tasks
      in if circuitOpen
         then \<lparr>rr_dispatchable = [], rr_dependencyDoomed = [], rr_circuitDoomed = map wt_taskId nonTerminal\<rparr>
         else fold (ready_task s (maxInFlight - int (length inFlight))) tasks
           \<lparr>rr_dispatchable = [], rr_dependencyDoomed = [], rr_circuitDoomed = []\<rparr>)"

end
