(* ===== verification/WorkFoldProps.thy ===== *)
theory WorkFoldProps
  imports WorkFold
begin

text \<open>
  The journal of a workflow: which journals fold, that a settled task is final, what the failure streak
  counts, and what \<open>readiness\<close> promises.
\<close>

subsection \<open>Tasks are kept under their own id\<close>

definition tasks_ok :: "snapshot \<Rightarrow> bool" where
  "tasks_ok s \<longleftrightarrow> map_ok (rs_tasks s) \<and> (\<forall>i t. map_get (rs_tasks s) i = Some t \<longrightarrow> wt_taskId t = i)"

lemma initial_ok [simp]: "tasks_ok (initialSnapshot r p c)"
  by (simp add: tasks_ok_def initialSnapshot_def map_ok_def map_get_def)

lemma put_task_ok: "tasks_ok s \<Longrightarrow> wt_taskId t = i \<Longrightarrow> tasks_ok (put_task s i t)"
  by (simp add: tasks_ok_def put_task_def js_map.ok_put js_map.get_put)

lemma put_task_get: "map_get (rs_tasks (put_task s i t)) j = (if j = i then Some t else map_get (rs_tasks s) j)"
  by (simp add: put_task_def js_map.get_put)

lemma put_task_keys:
  "set (map_keys (rs_tasks (put_task s i t))) = insert i (set (map_keys (rs_tasks s)))"
  by (auto simp: put_task_get map_keys_get split: if_splits)

lemma advance_cases:
  assumes "advance i ev tr fr task = Inr t'"
  obtains t where "task = Some t" "t' = t\<lparr>wt_trailing := wt_trailing t @ [ev]\<rparr>"
  | t where "task = Some t" "wt_status t \<noteq> Settled" "t' = tr t"
  using assms by (auto simp: advance_def split: option.splits if_splits)

lemma withTask_Inr:
  "withTask s i f = Inr s' \<longleftrightarrow> (\<exists>t. f (map_get (rs_tasks s) i) = Inr t \<and> s' = put_task s i t)"
  by (cases "f (map_get (rs_tasks s) i)") (auto simp: withTask_def)

fun task_event :: "wf_event \<Rightarrow> string option" where
  \<comment> \<open>the task an event other than the submission speaks about\<close>
  "task_event (TaskDispatched i _ _) = Some i"
| "task_event (RepairIssued i _ _ _ _) = Some i"
| "task_event (TaskReopened i _) = Some i"
| "task_event (VerifyStarted i _ _) = Some i"
| "task_event (VerifyResult i _ _ _ _) = Some i"
| "task_event (TaskSettled i _ _ _ _ _) = Some i"
| "task_event _ = None"

text \<open>Every event of a task goes through one of two doors.\<close>

lemma step_task:
  assumes "task_event ev = Some i" "wf_step s ev = Inr s'"
  obtains (late) t where "map_get (rs_tasks s) i = Some t" "s' = put_task s i (t\<lparr>wt_trailing := wt_trailing t @ [ev]\<rparr>)"
  | (same) t where "map_get (rs_tasks s) i = Some t" "wt_status t = Settled" "s' = s"
  | (moved) t t' where "map_get (rs_tasks s) i = Some t" "wt_status t \<noteq> Settled" "wt_taskId t' = wt_taskId t"
      "\<exists>n. s' = put_task (s\<lparr>rs_consecutiveFailures := n\<rparr>) i t'"
proof (cases "\<exists>outc v d e c. ev = TaskSettled i outc v d e c")
  case True
  then obtain outc v d e c where ev: "ev = TaskSettled i outc v d e c" by blast
  obtain t where t: "map_get (rs_tasks s) i = Some t"
    using assms(2) ev by (auto simp: settleTask_def split: option.splits)
  show ?thesis
  proof (cases "wt_status t = Settled")
    case True
    then show ?thesis using same t assms(2) ev by (simp add: settleTask_def)
  next
    case False
    let ?t' = "t\<lparr>wt_status := Settled, wt_outcome := Some outc, wt_cause := or_else c (wt_cause t),
      wt_verdict := or_else v (wt_verdict t), wt_detail := or_else d (wt_detail t), wt_evidence := or_else e (wt_evidence t)\<rparr>"
    have "s' = put_task (s\<lparr>rs_consecutiveFailures := (if outc = Failed then rs_consecutiveFailures s + 1 else 0)\<rparr>) i ?t'"
      using assms(2) ev t False by (simp add: settleTask_def Let_def)
    then show ?thesis by (intro moved [OF t False, of ?t']) auto
  qed
next
  case False
  obtain tr fr where w: "withTask s i (advance i ev tr fr) = Inr s'" and tr: "\<And>t. wt_taskId (tr t) = wt_taskId t"
    using assms False by (cases ev) auto
  obtain t' where t': "advance i ev tr fr (map_get (rs_tasks s) i) = Inr t'" "s' = put_task s i t'"
    using w by (auto simp: withTask_Inr)
  show ?thesis
    using advance_cases [OF t'(1)]
  proof cases
    case (1 t)
    then show ?thesis using late t'(2) by blast
  next
    case (2 t)
    have "s' = put_task (s\<lparr>rs_consecutiveFailures := rs_consecutiveFailures s\<rparr>) i t'" using t'(2) by simp
    then show ?thesis using moved [OF 2(1,2)] 2(3) tr by blast
  qed
qed

lemma step_other:
  assumes "task_event ev = None" "wf_step s ev = Inr s'"
  shows "(\<exists>r p c. ev = RunCreated r p c \<and> s' = initialSnapshot r p c) \<or>
    (\<exists>i spec. ev = TaskSubmitted i spec \<and>
       s' = put_task s i (case map_get (rs_tasks s) i of None \<Rightarrow> initialTask i spec | Some t \<Rightarrow> t)) \<or>
    rs_tasks s' = rs_tasks s \<and> rs_consecutiveFailures s' = rs_consecutiveFailures s"
  using assms by (cases ev) (auto simp: withTask_def withNotified_def split: if_splits)

lemma step_ok: "tasks_ok s \<Longrightarrow> wf_step s ev = Inr s' \<Longrightarrow> tasks_ok s'"
proof (cases "task_event ev")
  case None
  assume ok: "tasks_ok s" and st: "wf_step s ev = Inr s'"
  have "tasks_ok (put_task s i (case map_get (rs_tasks s) i of None \<Rightarrow> initialTask i spec | Some t \<Rightarrow> t))" for i spec
  proof (rule put_task_ok [OF ok])
    show "wt_taskId (case map_get (rs_tasks s) i of None \<Rightarrow> initialTask i spec | Some t \<Rightarrow> t) = i"
      using ok by (cases "map_get (rs_tasks s) i") (simp_all add: initialTask_def tasks_ok_def)
  qed
  note put = this
  from step_other [OF None st] show ?thesis
  proof (elim disjE exE conjE)
    fix i spec assume "s' = put_task s i (case map_get (rs_tasks s) i of None \<Rightarrow> initialTask i spec | Some t \<Rightarrow> t)"
    then show ?thesis using put by simp
  qed (use ok in \<open>simp_all add: tasks_ok_def initialSnapshot_def map_ok_def map_get_def\<close>)
next
  case (Some i)
  assume ok: "tasks_ok s" and st: "wf_step s ev = Inr s'"
  show ?thesis using Some st
  proof (cases rule: step_task)
    case (late t)
    have "wt_taskId t = i" using late(1) ok by (simp add: tasks_ok_def)
    then show ?thesis unfolding late(2) by (intro put_task_ok [OF ok]) simp
  next
    case (same t)
    then show ?thesis using ok by simp
  next
    case (moved t t')
    then obtain n where "s' = put_task (s\<lparr>rs_consecutiveFailures := n\<rparr>) i t'" by blast
    moreover have "wt_taskId t' = i" using moved ok by (simp add: tasks_ok_def)
    moreover have "tasks_ok (s\<lparr>rs_consecutiveFailures := n\<rparr>)" for n using ok by (simp add: tasks_ok_def)
    ultimately show ?thesis using put_task_ok by blast
  qed
qed

lemma steps_ok: "tasks_ok s \<Longrightarrow> wf_steps s evs = Inr s' \<Longrightarrow> tasks_ok s'"
  by (induction evs arbitrary: s) (auto dest: step_ok split: sum.splits)

lemma steps_append:
  "wf_steps s (xs @ ys) = (case wf_steps s xs of Inl e \<Rightarrow> Inl e | Inr s' \<Rightarrow> wf_steps s' ys)"
  by (induction xs arbitrary: s) (auto split: sum.splits)

subsection \<open>Which journals fold\<close>

definition task_ids :: "snapshot \<Rightarrow> string set" where
  "task_ids s = set (map_keys (rs_tasks s))"

fun journal_ok :: "string set \<Rightarrow> wf_event list \<Rightarrow> bool" where
  \<comment> \<open>every task was submitted, in the current run, before anything else is said of it\<close>
  "journal_ok known [] = True"
| "journal_ok known (RunCreated _ _ _ # evs) = journal_ok {} evs"
| "journal_ok known (TaskSubmitted i _ # evs) = journal_ok (insert i known) evs"
| "journal_ok known (UnknownEvent _ # evs) = False"
| "journal_ok known (ev # evs) = ((\<forall>i. task_event ev = Some i \<longrightarrow> i \<in> known) \<and> journal_ok known evs)"

lemma task_ids_put [simp]: "task_ids (put_task s i t) = insert i (task_ids s)"
  by (simp only: task_ids_def put_task_keys)

lemma known_task: "i \<in> task_ids s \<longleftrightarrow> (\<exists>t. map_get (rs_tasks s) i = Some t)"
  by (simp add: task_ids_def map_keys_get)

lemma advance_total: "(\<exists>t'. advance i ev tr fr task = Inr t') \<longleftrightarrow> task \<noteq> None"
  by (auto simp: advance_def split: option.splits)

lemma step_accepts:
  "task_event ev = Some i \<Longrightarrow> (\<exists>s'. wf_step s ev = Inr s') \<longleftrightarrow> i \<in> task_ids s"
proof -
  have w: "(\<exists>s'. withTask s j (advance j ev tr fr) = Inr s') \<longleftrightarrow> j \<in> task_ids s" for j tr fr
    using advance_total [of j ev tr fr "map_get (rs_tasks s) j"] by (auto simp: withTask_Inr known_task)
  show "task_event ev = Some i \<Longrightarrow> ?thesis"
    using w by (cases ev) (auto simp: settleTask_def known_task Let_def split: option.splits)
qed

lemma step_known: "task_event ev = Some i \<Longrightarrow> wf_step s ev = Inr s' \<Longrightarrow> task_ids s' = task_ids s"
proof -
  assume a: "task_event ev = Some i" "wf_step s ev = Inr s'"
  then have "i \<in> task_ids s" using step_accepts by blast
  note known = this
  from a show ?thesis
    by (cases rule: step_task) (use known in \<open>auto simp: task_ids_def put_task_keys\<close>)
qed

lemma steps_accept_iff: "(\<exists>s'. wf_steps s evs = Inr s') \<longleftrightarrow> journal_ok (task_ids s) evs"
proof (induction evs arbitrary: s)
  case (Cons ev evs)
  consider (created) r p c where "ev = RunCreated r p c" | (submitted) i spec where "ev = TaskSubmitted i spec"
    | (unknown) ty where "ev = UnknownEvent ty" | (task) i where "task_event ev = Some i"
    | (other) "task_event ev = None" "\<exists>s'. wf_step s ev = Inr s' \<and> task_ids s' = task_ids s"
        "journal_ok (task_ids s) (ev # evs) = journal_ok (task_ids s) evs"
    by (cases ev) (auto simp: task_ids_def withNotified_def)
  then show ?case
  proof cases
    case created
    then show ?thesis using Cons.IH [of "initialSnapshot r p c"] by (simp add: task_ids_def initialSnapshot_def map_keys_def)
  next
    case submitted
    then show ?thesis using Cons.IH by (auto simp: withTask_def)
  next
    case unknown
    then show ?thesis by simp
  next
    case task
    have j: "journal_ok (task_ids s) (ev # evs) \<longleftrightarrow> i \<in> task_ids s \<and> journal_ok (task_ids s) evs"
      using task by (cases ev) auto
    show ?thesis
    proof (cases "wf_step s ev")
      case (Inl e)
      then have "i \<notin> task_ids s" using step_accepts [OF task, of s] by simp
      then show ?thesis using Inl j by simp
    next
      case (Inr s1)
      then have "i \<in> task_ids s" "task_ids s1 = task_ids s"
        using step_accepts [OF task, of s] step_known [OF task Inr] by auto
      then show ?thesis using Inr j Cons.IH [of s1] by simp
    qed
  next
    case other
    then obtain s1 where "wf_step s ev = Inr s1" "task_ids s1 = task_ids s" by blast
    then show ?thesis using other(3) Cons.IH [of s1] by simp
  qed
qed simp


subsection \<open>A settled task is final\<close>

definition continues :: "task_state \<Rightarrow> task_state \<Rightarrow> bool" where
  \<comment> \<open>the same but for late events put on record\<close>
  "continues t t' \<longleftrightarrow> (\<exists>late. t' = t\<lparr>wt_trailing := wt_trailing t @ late\<rparr>)"

lemma continues_refl: "continues t t"
  unfolding continues_def by (rule exI [of _ "[]"]) simp

lemma continues_trans: "continues t u \<Longrightarrow> continues u v \<Longrightarrow> continues t v"
  by (auto simp: continues_def)

fun is_created :: "wf_event \<Rightarrow> bool" where
  "is_created (RunCreated _ _ _) = True"
| "is_created _ = False"

lemma step_settled:
  assumes "wf_step s ev = Inr s'" "\<not> is_created ev" "map_get (rs_tasks s) i = Some t" "wt_status t = Settled"
  shows "\<exists>t'. map_get (rs_tasks s') i = Some t' \<and> continues t t'"
proof (cases "task_event ev")
  case None
  then show ?thesis
    using step_other [OF None assms(1)] assms(2,3) continues_refl by (fastforce simp: put_task_get)
next
  case (Some j)
  from Some assms(1) show ?thesis
  proof (cases rule: step_task)
    case (late u)
    have "continues u (u\<lparr>wt_trailing := wt_trailing u @ [ev]\<rparr>)" by (auto simp: continues_def)
    then show ?thesis using late assms(3) continues_refl by (auto simp: put_task_get)
  next
    case (same u)
    then show ?thesis using assms(3) continues_refl by blast
  next
    case (moved u u')
    then have "i \<noteq> j" using assms(3,4) by auto
    then show ?thesis using moved assms(3) continues_refl by (auto simp: put_task_get)
  qed
qed

text \<open>C22: Once a task is settled, nothing the journal says later changes its outcome, its counters or any other
  part of it; late events are only put on record, until a new run is created.\<close>

theorem settled_task_is_final:
  assumes "wf_steps s evs = Inr s'" "list_all (\<lambda>ev. \<not> is_created ev) evs"
    and "map_get (rs_tasks s) i = Some t" "wt_status t = Settled"
  shows "\<exists>t'. map_get (rs_tasks s') i = Some t' \<and> (\<exists>late. t' = t\<lparr>wt_trailing := wt_trailing t @ late\<rparr>)"
proof -
  have "\<exists>t'. map_get (rs_tasks s') i = Some t' \<and> continues t t'"
    using assms
  proof (induction evs arbitrary: s t)
    case (Cons ev evs)
    obtain s1 where s1: "wf_step s ev = Inr s1" "wf_steps s1 evs = Inr s'"
      using Cons.prems(1) by (auto split: sum.splits)
    obtain t1 where t1: "map_get (rs_tasks s1) i = Some t1" "continues t t1"
      using step_settled [OF s1(1) _ Cons.prems(3,4)] Cons.prems(2) by auto
    have "wt_status t1 = Settled" using t1(2) Cons.prems(4) by (auto simp: continues_def)
    then obtain t2 where "map_get (rs_tasks s') i = Some t2" "continues t1 t2"
      using Cons.IH [OF s1(2) _ t1(1)] Cons.prems(2) by auto
    then show ?case using t1(2) continues_trans by blast
  qed (use continues_refl in auto)
  then show ?thesis unfolding continues_def .
qed

definition plain_spec :: task_spec where
  "plain_spec =
     \<lparr>sp_description = ''d'', sp_prompt = ''p'', sp_subagentType = None, sp_model = None, sp_isolation = None,
      sp_resultSchema = None, sp_acceptance = None, sp_critic = None, sp_maxAttempts = None, sp_dependsOn = None\<rparr>"

definition settled_run :: snapshot where
  "settled_run = put_task (initialSnapshot ''r'' ''p'' ''/'') ''t'' ((initialTask ''t'' plain_spec)\<lparr>wt_status := Settled, wt_outcome := Some Failed\<rparr>)"

lemma settled_task_is_final_witness:
  "\<exists>t'. map_get (rs_tasks (put_task settled_run ''t'' ((initialTask ''t'' plain_spec)\<lparr>wt_status := Settled,
      wt_outcome := Some Failed, wt_trailing := [TaskReopened ''t'' 1]\<rparr>))) ''t'' = Some t' \<and> wt_outcome t' = Some Failed"
proof -
  let ?s = "put_task settled_run ''t'' ((initialTask ''t'' plain_spec)\<lparr>wt_status := Settled,
      wt_outcome := Some Failed, wt_trailing := [TaskReopened ''t'' 1]\<rparr>)"
  have "wf_steps settled_run [TaskReopened ''t'' 1, TaskSettled ''t'' Completed None None None None] = Inr ?s" by code_simp
  from settled_task_is_final [OF this, of "''t''" "(initialTask ''t'' plain_spec)\<lparr>wt_status := Settled, wt_outcome := Some Failed\<rparr>"]
  have "\<exists>t'. map_get (rs_tasks ?s) ''t'' = Some t' \<and> (\<exists>late. t' = ((initialTask ''t'' plain_spec)\<lparr>wt_status := Settled,
      wt_outcome := Some Failed\<rparr>)\<lparr>wt_trailing := late\<rparr>)"
    by (simp add: settled_run_def put_task_get initialTask_def)
  then show ?thesis by auto
qed

subsection \<open>The failure streak\<close>

fun settlements :: "snapshot \<Rightarrow> wf_event list \<Rightarrow> outcome list" where
  \<comment> \<open>the outcomes that settled a task, in order\<close>
  "settlements s [] = []"
| "settlements s (ev # evs) =
     (case wf_step s ev of
        Inl e \<Rightarrow> []
      | Inr s' \<Rightarrow>
          (case ev of
             TaskSettled i outc _ _ _ _ \<Rightarrow>
               (if map_option wt_status (map_get (rs_tasks s) i) = Some Settled then [] else [outc])
           | _ \<Rightarrow> []) @ settlements s' evs)"

definition streak :: "nat \<Rightarrow> outcome list \<Rightarrow> nat" where
  "streak n outs = (if list_all (\<lambda>out. out = Failed) outs then n else 0) + length (takeWhile (\<lambda>out. out = Failed) (rev outs))"

lemma streak_step: "streak (if out = Failed then Suc n else 0) outs = streak n (out # outs)"
proof -
  have "takeWhile (\<lambda>out. out = Failed) (rev outs @ xs) = rev outs @ takeWhile (\<lambda>out. out = Failed) xs"
    if "list_all (\<lambda>out. out = Failed) outs" for xs
    using that by (intro takeWhile_append2) (simp add: list_all_iff)
  moreover have "takeWhile (\<lambda>out. out = Failed) (rev outs @ [out]) = takeWhile (\<lambda>out. out = Failed) (rev outs)"
    if "\<not> list_all (\<lambda>out. out = Failed) outs"
    using that by (auto simp: list_all_iff intro!: takeWhile_append1)
  ultimately show ?thesis
  proof (cases "list_all (\<lambda>out. out = Failed) outs")
    case True
    note all = \<open>\<And>xs. list_all (\<lambda>out. out = Failed) outs \<Longrightarrow>
      takeWhile (\<lambda>out. out = Failed) (rev outs @ xs) = rev outs @ takeWhile (\<lambda>out. out = Failed) xs\<close> [OF True]
    have "length (takeWhile (\<lambda>out. out = Failed) (rev outs)) = length outs"
      using arg_cong [OF all [of "[]"], of length] by simp
    then show ?thesis using all [of "[out]"] True by (simp add: streak_def)
  qed (simp add: streak_def)
qed

text \<open>The counter the circuit breaker reads is the number of failed tasks since the last task that ended
  otherwise: repeated settlements of the same task do not count, and a cancelled task ends the streak.\<close>

theorem failure_streak:
  assumes "wf_steps s evs = Inr s'" "list_all (\<lambda>ev. \<not> is_created ev) evs"
  shows "rs_consecutiveFailures s' =
    (if list_all (\<lambda>out. out = Failed) (settlements s evs) then rs_consecutiveFailures s else 0) +
    length (takeWhile (\<lambda>out. out = Failed) (rev (settlements s evs)))"
proof -
  have "rs_consecutiveFailures s' = streak (rs_consecutiveFailures s) (settlements s evs)"
    using assms
  proof (induction evs arbitrary: s)
    case (Cons ev evs)
    obtain s1 where s1: "wf_step s ev = Inr s1" "wf_steps s1 evs = Inr s'"
      using Cons.prems(1) by (auto split: sum.splits)
    have IH: "rs_consecutiveFailures s' = streak (rs_consecutiveFailures s1) (settlements s1 evs)"
      using Cons.IH [OF s1(2)] Cons.prems(2) by simp
    show ?case
    proof (cases "\<exists>i outc v d e c. ev = TaskSettled i outc v d e c")
      case True
      then obtain i outc v d e c where ev: "ev = TaskSettled i outc v d e c" by blast
      obtain t where t: "map_get (rs_tasks s) i = Some t"
        using s1(1) ev by (auto simp: settleTask_def split: option.splits)
      show ?thesis
      proof (cases "wt_status t = Settled")
        case True
        then show ?thesis using IH s1(1) ev t by (simp add: settleTask_def)
      next
        case False
        then have "rs_consecutiveFailures s1 = (if outc = Failed then Suc (rs_consecutiveFailures s) else 0)"
          using s1(1) ev t by (auto simp: settleTask_def Let_def put_task_def)
        then show ?thesis using IH s1(1) ev t False by (simp add: streak_step)
      qed
    next
      case False
      then have "settlements s (ev # evs) = settlements s1 evs" using s1(1) by (cases ev) auto
      moreover have "rs_consecutiveFailures s1 = rs_consecutiveFailures s"
        using s1(1) False Cons.prems(2)
        by (cases ev) (auto simp: withTask_Inr put_task_def withNotified_def split: if_splits)
      ultimately show ?thesis using IH by simp
    qed
  qed (simp add: streak_def)
  then show ?thesis by (simp add: streak_def)
qed

lemma failure_streak_witness:
  "rs_consecutiveFailures (put_task ((put_task (initialSnapshot ''r'' ''p'' ''/'') ''t'' (initialTask ''t'' plain_spec))\<lparr>rs_consecutiveFailures := 1\<rparr>)
     ''t'' ((initialTask ''t'' plain_spec)\<lparr>wt_status := Settled, wt_outcome := Some Failed\<rparr>)) = 1"
proof -
  let ?evs = "[TaskSubmitted ''t'' plain_spec, TaskSettled ''t'' Failed None None None None, TaskSettled ''t'' Failed None None None None]"
  let ?s = "put_task ((put_task (initialSnapshot ''r'' ''p'' ''/'') ''t'' (initialTask ''t'' plain_spec))\<lparr>rs_consecutiveFailures := 1\<rparr>)
     ''t'' ((initialTask ''t'' plain_spec)\<lparr>wt_status := Settled, wt_outcome := Some Failed\<rparr>)"
  have r: "wf_steps (initialSnapshot ''r'' ''p'' ''/'') ?evs = Inr ?s" by code_simp
  have "settlements (initialSnapshot ''r'' ''p'' ''/'') ?evs = [Failed]" by code_simp
  then show ?thesis using failure_streak [OF r] by (simp add: initialSnapshot_def)
qed

subsection \<open>Settling the run\<close>

text \<open>A run is ready to settle exactly when it has tasks and all of them are settled. It then counts as
  completed when all tasks completed, as failed when one failed, and as cancelled otherwise.\<close>

theorem run_settles_when_all_tasks_do:
  "(fst (runReadyToSettle s) \<longleftrightarrow> task_values s \<noteq> [] \<and> filter (\<lambda>t. wt_status t \<noteq> Settled) (task_values s) = []) \<and>
   snd (runReadyToSettle s) =
     (if fst (runReadyToSettle s) then
        (if filter (\<lambda>t. wt_outcome t \<noteq> Some Completed) (task_values s) = [] then Completed
         else if filter (\<lambda>t. wt_outcome t = Some Failed) (task_values s) \<noteq> [] then Failed else Cancelled)
      else Completed)"
  by (auto simp: runReadyToSettle_def Let_def list_all_iff list_ex_iff filter_empty_conv)

subsection \<open>Readiness\<close>

lemma dep_ready_iff:
  "dependencyVerdict deps tasks = DepReady \<longleftrightarrow>
     (\<forall>d\<in>set deps. \<exists>t. map_get tasks d = Some t \<and> wt_status t = Settled \<and> wt_outcome t = Some Completed)"
  by (induction deps) (auto split: option.splits)

lemma dep_doomed_some:
  "dependencyVerdict deps tasks \<in> {DepDoomed, DepOrphan} \<Longrightarrow>
     \<exists>d\<in>set deps. case map_get tasks d of None \<Rightarrow> True | Some t \<Rightarrow> wt_status t = Settled \<and> wt_outcome t \<noteq> Some Completed"
  by (induction deps) (auto split: option.splits if_splits)

definition waiting :: "snapshot \<Rightarrow> dep_verdict set \<Rightarrow> task_state list \<Rightarrow> string list" where
  \<comment> \<open>the submitted tasks of these verdicts, in order\<close>
  "waiting s vs ts = map wt_taskId (filter (\<lambda>t. wt_status t = Submitted \<and> task_verdict s t \<in> vs) ts)"

lemma ready_fold:
  assumes "int (length (rr_dispatchable r)) \<le> max 0 w"
  shows "rr_dependencyDoomed (fold (ready_task s w) ts r) = rr_dependencyDoomed r @ waiting s {DepDoomed, DepOrphan} ts \<and>
    rr_dispatchable (fold (ready_task s w) ts r) =
      rr_dispatchable r @ take (nat (max 0 w) - length (rr_dispatchable r)) (waiting s {DepReady} ts) \<and>
    rr_circuitDoomed (fold (ready_task s w) ts r) = rr_circuitDoomed r"
  using assms
proof (induction ts arbitrary: r)
  case (Cons t ts)
  let ?r = "ready_task s w t r"
  consider (skip) "wt_status t \<noteq> Submitted \<or> task_verdict s t = DepWaiting"
    | (doomed) "wt_status t = Submitted" "task_verdict s t \<in> {DepDoomed, DepOrphan}"
    | (full) "wt_status t = Submitted" "task_verdict s t = DepReady" "\<not> int (length (rr_dispatchable r)) < w"
    | (go) "wt_status t = Submitted" "task_verdict s t = DepReady" "int (length (rr_dispatchable r)) < w"
    by (cases "task_verdict s t") auto
  then show ?case
  proof cases
    case skip
    then have "?r = r" by (auto simp: ready_task_def Let_def)
    moreover have "waiting s vs (t # ts) = waiting s vs ts" if "DepWaiting \<notin> vs" for vs
      using skip that by (auto simp: waiting_def)
    ultimately show ?thesis using Cons by simp
  next
    case doomed
    then have "?r = r\<lparr>rr_dependencyDoomed := rr_dependencyDoomed r @ [wt_taskId t]\<rparr>" by (auto simp: ready_task_def Let_def)
    moreover have "waiting s {DepDoomed, DepOrphan} (t # ts) = wt_taskId t # waiting s {DepDoomed, DepOrphan} ts"
      "waiting s {DepReady} (t # ts) = waiting s {DepReady} ts"
      using doomed by (auto simp: waiting_def)
    ultimately show ?thesis using Cons.IH [of ?r] Cons.prems by simp
  next
    case full
    then have "?r = r" by (simp add: ready_task_def Let_def)
    moreover have "waiting s {DepDoomed, DepOrphan} (t # ts) = waiting s {DepDoomed, DepOrphan} ts"
      using full by (simp add: waiting_def)
    moreover have "nat (max 0 w) - length (rr_dispatchable r) = 0" using full(3) by linarith
    ultimately show ?thesis using Cons by simp
  next
    case go
    then have r: "?r = r\<lparr>rr_dispatchable := rr_dispatchable r @ [wt_taskId t]\<rparr>" by (simp add: ready_task_def Let_def)
    have w: "waiting s {DepDoomed, DepOrphan} (t # ts) = waiting s {DepDoomed, DepOrphan} ts"
      "waiting s {DepReady} (t # ts) = wt_taskId t # waiting s {DepReady} ts"
      using go by (simp_all add: waiting_def)
    have n: "nat (max 0 w) - length (rr_dispatchable r) = Suc (nat (max 0 w) - Suc (length (rr_dispatchable r)))"
      using go(3) by linarith
    have "int (length (rr_dispatchable ?r)) \<le> max 0 w" using go(3) r by simp
    from Cons.IH [OF this] show ?thesis by (simp add: r w n)
  qed
qed (simp add: waiting_def)


text \<open>A dependency named like a member of \<open>Object.prototype\<close> is found there: the task that names it is never
  given up as an orphan, it waits for ever.\<close>

lemma inherited_dependency_waits:
  assumes "d \<in> set object_prototype_members" "d \<notin> task_ids s"
  shows "dependencyVerdict [d] (rs_tasks s) = DepWaiting"
proof -
  have "map_get (rs_tasks s) d = None" using assms(2) known_task by fastforce
  then show ?thesis using assms(1) by simp
qed

end
