(* ===== verification/WorkVerdict.thy ===== *)
theory WorkVerdict
  imports WorkFold JsStrings
begin

text \<open>
  The verdicts of \<open>workflow-core/src/verdict.ts\<close>: what the evidence of a tier means within its budget, the JSON
  payload in the final text of an agent, and the check of a value against a schema. \<open>JSON.parse\<close> and
  \<open>JSON.stringify\<close> are the arguments \<open>parse\<close> (\<open>None\<close> when it throws) and \<open>stringify\<close>; a number is printed by the
  argument \<open>show_num\<close> where the text of a violation has one.
\<close>

subsection \<open>Verdicts\<close>

record budget =
  bg_repairs :: int
  bg_reopens :: int
  bg_verifyAttempts :: int

definition DEFAULT_BUDGET :: budget where
  "DEFAULT_BUDGET = \<lparr>bg_repairs = 3, bg_reopens = 3, bg_verifyAttempts = 3\<rparr>"

record used_budget =
  ub_repairs :: int
  ub_reopens :: int

datatype evidence =
    EvSchema "jsval option" "string list" \<comment> \<open>what was extracted; the violations\<close>
  | EvCommand "int option" string \<comment> \<open>exit code; output\<close>
  | EvCritic "bool option" "string list option" "string option"
      \<comment> \<open>the verdict (\<open>True\<close> is \<open>pass\<close>); the proposals; the summary\<close>

datatype verdict = Accept | Reject "string list" | Fail string

fun tier_of :: "evidence \<Rightarrow> tier" where
  "tier_of (EvSchema _ _) = TSchema"
| "tier_of (EvCommand _ _) = TCommand"
| "tier_of (EvCritic _ _ _) = TCritic"

fun tier_name :: "tier \<Rightarrow> string" where
  "tier_name TSchema = ''schema''"
| "tier_name TCommand = ''command''"
| "tier_name TCritic = ''critic''"

fun show_int :: "int \<Rightarrow> string" where
  "show_int i = (if i < 0 then CHR ''-'' # show_nat (nat (- i)) else show_nat (nat i))"

definition show_exit :: "int option \<Rightarrow> string" where
  "show_exit code = (case code of None \<Rightarrow> ''undefined'' | Some c \<Rightarrow> show_int c)"

fun evidenceOf :: "evidence \<Rightarrow> verdict" where
  "evidenceOf (EvSchema extracted violations) =
     (if extracted = None then Reject [''no extractable structured payload in the final message'']
      else if violations = [] then Accept
      else Reject violations)"
| "evidenceOf (EvCommand exitCode output) =
     (if exitCode = Some 0 then Accept else Reject [''command exited with code '' @ show_exit exitCode])"
| "evidenceOf (EvCritic v proposals summary) =
     (case v of
        None \<Rightarrow> Reject [''critic returned no verdict'']
      | Some True \<Rightarrow> Accept
      | Some False \<Rightarrow>
          (case proposals of
             None \<Rightarrow> Reject [''critic rejected without reopen proposals'']
           | Some ps \<Rightarrow> if ps = [] then Reject [''critic rejected without reopen proposals''] else Reject ps))"

fun fail_detail :: "evidence \<Rightarrow> string" where
  "fail_detail (EvSchema _ violations) =
     (if violations \<noteq> [] then join_with ''; '' violations else ''no structured payload'')"
| "fail_detail (EvCommand exitCode _) = ''command exited '' @ show_exit exitCode"
| "fail_detail (EvCritic _ _ summary) = (case summary of None \<Rightarrow> ''critic rejected'' | Some t \<Rightarrow> t)"

definition failReason :: "evidence \<Rightarrow> tier \<Rightarrow> string" where
  "failReason ev t = ''budget exhausted for tier '' @ [CHR 39] @ tier_name t @ [CHR 39] @ '': '' @ fail_detail ev"

definition budget_left :: "tier \<Rightarrow> budget \<Rightarrow> used_budget \<Rightarrow> int" where
  "budget_left t b used =
     (if t = TCritic then bg_reopens b - ub_reopens used else bg_repairs b - ub_repairs used)"

definition adjudicate :: "tier \<Rightarrow> evidence \<Rightarrow> budget \<Rightarrow> used_budget \<Rightarrow> verdict" where
  "adjudicate t ev b used =
     (if tier_of ev \<noteq> t
      then Fail (''evidence kind '' @ [CHR 39] @ tier_name (tier_of ev) @ [CHR 39] @ '' does not match tier '' @
                 [CHR 39] @ tier_name t @ [CHR 39])
      else
        (case evidenceOf ev of
           Accept \<Rightarrow> Accept
         | v \<Rightarrow> if budget_left (tier_of ev) b used \<le> 0 then Fail (failReason ev (tier_of ev)) else v))"

fun chain_loop :: "tier list \<Rightarrow> (tier \<Rightarrow> evidence option) \<Rightarrow> budget \<Rightarrow> used_budget \<Rightarrow> verdict" where
  "chain_loop [] evidenceOfTier b used = Accept"
| "chain_loop (t # tiers) evidenceOfTier b used =
     (case evidenceOfTier t of
        None \<Rightarrow> chain_loop tiers evidenceOfTier b used
      | Some ev \<Rightarrow>
          (case adjudicate t ev b used of
             Accept \<Rightarrow> chain_loop tiers evidenceOfTier b used
           | v \<Rightarrow> v))"

definition adjudicateChain ::
  "tier list \<Rightarrow> (tier \<Rightarrow> evidence option) \<Rightarrow> budget option \<Rightarrow> used_budget option \<Rightarrow> verdict" where
  "adjudicateChain tiers evidenceOfTier b used =
     chain_loop tiers evidenceOfTier (case b of None \<Rightarrow> DEFAULT_BUDGET | Some b \<Rightarrow> b)
       (case used of None \<Rightarrow> \<lparr>ub_repairs = 0, ub_reopens = 0\<rparr> | Some u \<Rightarrow> u)"

subsection \<open>The payload of a final text\<close>

definition parseJson :: "(string \<Rightarrow> jsval option) \<Rightarrow> string \<Rightarrow> jsval option" where
  "parseJson parse txt = (if txt = [] then None else parse txt)"

definition FENCE :: string where
  "FENCE = ''```''"

fun until_fence :: "string \<Rightarrow> string option" where
  \<comment> \<open>\<open>([\s\S]*?)\n```\<close>: the shortest text before a newline and the fence\<close>
  "until_fence [] = None"
| "until_fence (c # cs) =
     (if c = CHR 10 \<and> startsWith cs FENCE then Some []
      else map_option ((#) c) (until_fence cs))"

fun fence_line :: "string \<Rightarrow> string option" where
  \<comment> \<open>\<open>\s*\n\<close> and the rest: the blank run is greedy, and gives back when the rest does not match\<close>
  "fence_line [] = None"
| "fence_line (c # cs) =
     (if is_space c then
        (case fence_line cs of
           Some body \<Rightarrow> Some body
         | None \<Rightarrow> if c = CHR 10 then until_fence cs else None)
      else None)"

definition fence_at :: "string \<Rightarrow> string option" where
  \<comment> \<open>the whole pattern at the start of the text\<close>
  "fence_at s =
     (if startsWith s FENCE then
        let r = drop 3 s in
        (if startsWith r ''json'' then
           (case fence_line (drop 4 r) of Some body \<Rightarrow> Some body | None \<Rightarrow> fence_line r)
         else fence_line r)
      else None)"

fun stripCodeFence :: "string \<Rightarrow> string option" where
  "stripCodeFence [] = fence_at []"
| "stripCodeFence (c # cs) =
     (case fence_at (c # cs) of Some body \<Rightarrow> Some body | None \<Rightarrow> stripCodeFence cs)"

definition extractPayload :: "(string \<Rightarrow> jsval option) \<Rightarrow> string \<Rightarrow> jsval option" where
  "extractPayload parse finalText =
     (case parseJson parse (trim finalText) of
        Some v \<Rightarrow> Some v
      | None \<Rightarrow>
          (case stripCodeFence finalText of
             None \<Rightarrow> None
           | Some fenced \<Rightarrow> parseJson parse (trim fenced)))"

subsection \<open>The check of a schema\<close>

text \<open>The values are what \<open>JSON.parse\<close> makes: objects, arrays and scalars.\<close>

type_synonym violation = "string \<times> string" \<comment> \<open>path and what was expected\<close>

fun typeName :: "jsval \<Rightarrow> string" where
  "typeName JNull = ''null''"
| "typeName (JArr _) = ''array''"
| "typeName JSparse = ''array''"
| "typeName (JBool _) = ''boolean''"
| "typeName (JNum _) = ''number''"
| "typeName (JStr _) = ''string''"
| "typeName JUndef = ''undefined''"
| "typeName JFun = ''function''"
| "typeName JPrim = ''symbol''"
| "typeName (JObj _) = ''object''"
| "typeName (JInst _) = ''object''"

definition typeMatches :: "string \<Rightarrow> jsval \<Rightarrow> bool" where
  "typeMatches expected value =
     (if expected \<in> {''object'', ''array'', ''string'', ''number'', ''boolean'', ''null''}
      then typeName value = expected else True)"

definition shorter :: "nat \<Rightarrow> jsnum \<Rightarrow> bool" where
  \<comment> \<open>\<open>n < m\<close> for a length \<open>n\<close>\<close>
  "shorter n m =
     (case m of
        NInt i \<Rightarrow> int n < i
      | NFrac a k \<Rightarrow> int n * 2 ^ k < a
      | NInf pos \<Rightarrow> pos
      | _ \<Rightarrow> False)"

definition enumViolation :: "(jsval \<Rightarrow> string) \<Rightarrow> jsval list \<Rightarrow> jsval \<Rightarrow> string \<Rightarrow> violation option" where
  "enumViolation stringify enumValues value path =
     (if list_ex (\<lambda>candidate. stringify candidate = stringify value) enumValues then None
      else Some (path, ''one of '' @ stringify (JArr enumValues) @ '' (got '' @ stringify value @ '')''))"

definition scalarViolations ::
  "(jsval \<Rightarrow> string) \<Rightarrow> (jsnum \<Rightarrow> string) \<Rightarrow> jsval \<Rightarrow> jsval \<Rightarrow> string \<Rightarrow> violation list" where
  "scalarViolations stringify show_num s value path =
     (case field s ''type'' of
        JStr ty \<Rightarrow> if typeMatches ty value then [] else [(path, ty @ '' (got '' @ typeName value @ '')'')]
      | _ \<Rightarrow> []) @
     (case field s ''enum'' of
        JArr vs \<Rightarrow> (case enumViolation stringify vs value path of None \<Rightarrow> [] | Some v \<Rightarrow> [v])
      | _ \<Rightarrow> []) @
     (case field s ''minLength'' of
        JNum m \<Rightarrow>
          (case value of
             JStr t \<Rightarrow> if shorter (length t) m
                       then [(path, ''length >= '' @ show_num m @ '' (got '' @ show_nat (length t) @ '')'')] else []
           | _ \<Rightarrow> [])
      | _ \<Rightarrow> [])"

definition requiredViolations :: "jsval \<Rightarrow> jsval \<Rightarrow> string \<Rightarrow> violation list" where
  "requiredViolations s value path =
     (case field s ''required'' of
        JArr keys \<Rightarrow>
          concat (map (\<lambda>key. case key of
                         JStr k \<Rightarrow> if has_own value k then [] else [(path @ ''.'' @ k, ''required property present'')]
                       | _ \<Rightarrow> []) keys)
      | _ \<Rightarrow> [])"

definition value_at :: "jsval \<Rightarrow> string \<Rightarrow> jsval" where
  \<comment> \<open>\<open>value[key]\<close> on an object: a key that is not its own may be a member of \<open>Object.prototype\<close>, a function but
    for \<open>__proto__\<close>, which is an object\<close>
  "value_at value key =
     (if has_own value key then field value key
      else if key = ''__proto__'' then JInst []
      else if key \<in> set object_prototype_members then JFun
      else JUndef)"

lemma size_map_of: "map_of kvs k = Some v \<Longrightarrow> size v < Suc (size_list (size_prod (\<lambda>x. 0) size) kvs)"
  by (induction kvs) (auto split: if_splits)

lemma field_size: "field s k \<noteq> JUndef \<Longrightarrow> size (field s k) < size s"
  by (cases s) (auto simp: field_def dest!: size_map_of split: option.splits)

lemma list_size_elem: "x \<in> set xs \<Longrightarrow> size x < Suc (size_list size xs)"
  by (induction xs) auto

lemma pair_size: "(k, v) \<in> set kvs \<Longrightarrow> size v < Suc (size_list (size_prod (\<lambda>x. 0) size) kvs)"
  by (induction kvs) auto

definition property_list :: "jsval \<Rightarrow> (string \<times> jsval) list" where
  \<comment> \<open>\<open>Object.entries\<close> of the properties of a schema\<close>
  "property_list s = own_fields (field s ''properties'')"

lemma own_field_size: "(k, v) \<in> set (own_fields s) \<Longrightarrow> size v < size s"
  by (cases s) (auto dest: pair_size)

lemma property_size: "(k, sub) \<in> set (property_list s) \<Longrightarrow> size sub < size s"
proof -
  assume "(k, sub) \<in> set (property_list s)"
  then have sub: "size sub < size (field s ''properties'')" unfolding property_list_def by (rule own_field_size)
  then have "field s ''properties'' \<noteq> JUndef" by auto
  then show ?thesis using field_size [of s "''properties''"] sub by linarith
qed

fun indexed :: "nat \<Rightarrow> 'a list \<Rightarrow> (nat \<times> 'a) list" where
  "indexed n [] = []"
| "indexed n (x # xs) = (n, x) # indexed (Suc n) xs"

definition is_record :: "jsval \<Rightarrow> bool" where
  \<comment> \<open>an object that is no array\<close>
  "is_record v = (case v of JObj _ \<Rightarrow> True | JInst _ \<Rightarrow> True | _ \<Rightarrow> False)"

function validateSubset ::
  "(jsval \<Rightarrow> string) \<Rightarrow> (jsnum \<Rightarrow> string) \<Rightarrow> jsval \<Rightarrow> jsval \<Rightarrow> string \<Rightarrow> violation list" where
  "validateSubset stringify show_num s value path =
     (if \<not> is_record s then []
      else
        scalarViolations stringify show_num s value path @
        (if is_record value
         then requiredViolations s value path @
           concat (map (\<lambda>(key, sub).
             let child = value_at value key in
             if child = JUndef then [] else validateSubset stringify show_num sub child (path @ ''.'' @ key)) (property_list s))
         else []) @
        (case value of
           JArr vs \<Rightarrow>
             if field s ''items'' = JUndef then []
             else concat (map (\<lambda>(i, item).
               validateSubset stringify show_num (field s ''items'') item (path @ ''['' @ show_nat i @ '']'')) (indexed 0 vs))
         | _ \<Rightarrow> []))"
  by pat_completeness auto
termination
  by (relation "measure (\<lambda>(_, _, s, _, _). size s)") (auto intro: property_size field_size)

declare validateSubset.simps [simp del]

end
