(* ===== verification/WorkVerdictProps.thy ===== *)
theory WorkVerdictProps
  imports WorkVerdict
begin

text \<open>
  What the verdicts of \<open>verdict.ts\<close> mean: the chain of tiers, the budget, the payload of a fenced text, and the
  schemas a value conforms to.
\<close>

subsection \<open>The chain of tiers\<close>

lemma adjudicate_accept_iff:
  "adjudicate t ev b used = Accept \<longleftrightarrow> tier_of ev = t \<and> evidenceOf ev = Accept"
  by (auto simp: adjudicate_def split: verdict.split)

lemma chain_accept_iff:
  "chain_loop tiers f b used = Accept \<longleftrightarrow>
     (\<forall>t\<in>set tiers. case f t of None \<Rightarrow> True | Some ev \<Rightarrow> tier_of ev = t \<and> evidenceOf ev = Accept)"
proof (induction tiers)
  case (Cons t tiers)
  have "(case adjudicate t ev b used of Accept \<Rightarrow> w | Reject vs \<Rightarrow> Reject vs | Fail r \<Rightarrow> Fail r) = Accept \<longleftrightarrow>
      adjudicate t ev b used = Accept \<and> w = Accept" for ev w
    by (cases "adjudicate t ev b used") auto
  then show ?case using Cons by (cases "f t") (simp_all add: adjudicate_accept_iff)
qed simp

text \<open>The chain accepts exactly when the evidence of every tier that has any is accepted, whatever the
  budget. A rejection leaves budget in the tier that rejects, and a failure says that this budget is used up or
  that the evidence is of another kind.\<close>

theorem chain_verdict:
  "(adjudicateChain tiers f b used = Accept \<longleftrightarrow>
      filter (\<lambda>t. case f t of None \<Rightarrow> False | Some ev \<Rightarrow> adjudicate t ev DEFAULT_BUDGET \<lparr>ub_repairs = 0, ub_reopens = 0\<rparr> \<noteq> Accept) tiers = []) \<and>
   (case adjudicate t ev c u of
      Accept \<Rightarrow> tier_of ev = t
    | Reject vs \<Rightarrow> tier_of ev = t \<and> 0 < budget_left t c u \<and> evidenceOf ev = Reject vs
    | Fail reason \<Rightarrow> if tier_of ev = t then budget_left t c u \<le> 0 \<and> reason = failReason ev t else True)"
proof
  have "evidenceOf ev \<noteq> Fail r" for ev r
    by (cases ev) (auto split: option.splits bool.splits)
  then show "case adjudicate t ev c u of
      Accept \<Rightarrow> tier_of ev = t
    | Reject vs \<Rightarrow> tier_of ev = t \<and> 0 < budget_left t c u \<and> evidenceOf ev = Reject vs
    | Fail reason \<Rightarrow> if tier_of ev = t then budget_left t c u \<le> 0 \<and> reason = failReason ev t else True"
    by (cases "evidenceOf ev") (auto simp: adjudicate_def)
  show "(adjudicateChain tiers f b used = Accept \<longleftrightarrow>
      filter (\<lambda>t. case f t of None \<Rightarrow> False | Some ev \<Rightarrow> adjudicate t ev DEFAULT_BUDGET \<lparr>ub_repairs = 0, ub_reopens = 0\<rparr> \<noteq> Accept) tiers = [])"
    unfolding adjudicateChain_def chain_accept_iff filter_empty_conv
    by (auto simp: adjudicate_accept_iff split: option.split)
qed

subsection \<open>Fenced text\<close>

definition fenced :: "string \<Rightarrow> string \<Rightarrow> bool" where
  \<comment> \<open>the text holds this body between two fences\<close>
  "fenced s body \<longleftrightarrow>
     (\<exists>pre tag ws rest. s = pre @ FENCE @ tag @ ws @ [CHR 10] @ body @ [CHR 10] @ FENCE @ rest \<and>
        tag \<in> {[], ''json''} \<and> list_all is_space ws)"

lemma until_fence_sound: "until_fence s = Some body \<Longrightarrow> \<exists>rest. s = body @ [CHR 10] @ FENCE @ rest"
  by (induction s arbitrary: body) (auto simp: startsWith_iff split: if_splits)

lemma fence_line_sound:
  "fence_line s = Some body \<Longrightarrow>
     \<exists>ws rest. s = ws @ [CHR 10] @ body @ [CHR 10] @ FENCE @ rest \<and> list_all is_space ws"
proof (induction s arbitrary: body)
  case (Cons c cs)
  then have sp: "is_space c" by (auto split: if_splits)
  show ?case
  proof (cases "fence_line cs")
    case (Some b)
    then have "b = body" using Cons.prems sp by simp
    then obtain ws rest where "cs = ws @ [CHR 10] @ body @ [CHR 10] @ FENCE @ rest" "list_all is_space ws"
      using Cons.IH Some by blast
    then show ?thesis using sp by (intro exI [of _ "c # ws"] exI [of _ rest]) simp
  next
    case None
    then have "c = CHR 10" "until_fence cs = Some body" using Cons.prems sp by (auto split: if_splits)
    then obtain rest where "cs = body @ [CHR 10] @ FENCE @ rest" using until_fence_sound by blast
    then show ?thesis using \<open>c = CHR 10\<close> by (intro exI [of _ "[]"] exI [of _ rest]) simp
  qed
qed simp

lemma fence_at_sound: "fence_at s = Some body \<Longrightarrow> fenced s body"
proof -
  assume a: "fence_at s = Some body"
  then obtain r where s: "s = FENCE @ r" by (auto simp: fence_at_def startsWith_iff split: if_splits)
  have dr: "drop 3 s = r" by (simp add: s FENCE_def)
  have sw: "startsWith s FENCE" by (simp add: s)
  have "\<exists>tag t. r = tag @ t \<and> tag \<in> {[], ''json''} \<and> fence_line t = Some body"
  proof (cases "startsWith r ''json'' \<and> fence_line (drop 4 r) \<noteq> None")
    case True
    then obtain t where "r = ''json'' @ t" by (auto simp: startsWith_iff)
    then have "fence_line t = Some body" using a sw dr True by (auto simp: fence_at_def Let_def)
    then show ?thesis using \<open>r = ''json'' @ t\<close> by (intro exI [of _ "''json''"] exI [of _ t]) simp
  next
    case False
    then have "fence_line r = Some body"
      using a sw dr by (auto simp: fence_at_def Let_def split: if_splits option.splits)
    then show ?thesis by (intro exI [of _ "[]"] exI [of _ r]) simp
  qed
  then obtain tag t where t: "r = tag @ t" "tag \<in> {[], ''json''}" "fence_line t = Some body" by blast
  obtain ws rest where "t = ws @ [CHR 10] @ body @ [CHR 10] @ FENCE @ rest" "list_all is_space ws"
    using fence_line_sound [OF t(3)] by blast
  then show ?thesis unfolding fenced_def using t s
    by (intro exI [of _ "[]"] exI [of _ tag] exI [of _ ws] exI [of _ rest]) simp
qed

lemma fenced_Cons: "fenced cs body \<Longrightarrow> fenced (c # cs) body"
  unfolding fenced_def by (metis append_Cons)

lemma strip_sound: "stripCodeFence s = Some body \<Longrightarrow> fenced s body"
proof (induction s)
  case Nil
  then show ?case by (simp add: fence_at_sound)
next
  case (Cons c cs)
  then show ?case by (auto simp: fence_at_sound intro: fenced_Cons split: option.splits)
qed

lemma until_fence_complete:
  "\<not> str_includes body ([CHR 10] @ FENCE) \<Longrightarrow> until_fence (body @ [CHR 10] @ FENCE @ rest) = Some body"
proof (induction body)
  case (Cons c cs)
  have "\<not> (c = CHR 10 \<and> startsWith (cs @ [CHR 10] @ FENCE @ rest) FENCE)"
  proof
    assume a: "c = CHR 10 \<and> startsWith (cs @ [CHR 10] @ FENCE @ rest) FENCE"
    have "startsWith cs FENCE"
    proof (cases "3 \<le> length cs")
      case True
      then show ?thesis using a by (simp add: startsWith_take FENCE_def)
    next
      case False
      then have "(cs @ [CHR 10] @ FENCE @ rest) ! length cs = CHR 10" by (simp add: nth_append)
      moreover have "(cs @ [CHR 10] @ FENCE @ rest) ! length cs = CHR ''`''"
      proof -
        obtain t where t: "cs @ [CHR 10] @ FENCE @ rest = FENCE @ t" using a by (auto simp: startsWith_iff)
        have "(FENCE @ t) ! k = CHR ''`''" if "k < 3" for k
          using that by (auto simp: FENCE_def less_Suc_eq numeral_3_eq_3)
        then show ?thesis using False unfolding t by simp
      qed
      ultimately show ?thesis by simp
    qed
    then obtain t where "cs = FENCE @ t" by (auto simp: startsWith_iff)
    then have "c # cs = [] @ ([CHR 10] @ FENCE) @ t" using a by simp
    then show False using Cons.prems str_includes_iff by blast
  qed
  moreover have "\<not> str_includes cs ([CHR 10] @ FENCE)"
    using Cons.prems unfolding str_includes_iff by (metis append_Cons)
  ultimately show ?case using Cons.IH by auto
qed (simp add: FENCE_def)

text \<open>The text taken from a reply stands between two fences of it. A reply that starts with a fence, with or
  without the tag, gives back exactly the text in the fence, provided it does not start with a blank and
  holds no closing fence itself.\<close>

theorem code_fence_roundtrip:
  "(case stripCodeFence s of None \<Rightarrow> True | Some body \<Rightarrow> fenced s body) \<and>
   (if body \<noteq> [] \<and> list_all (\<lambda>c. \<not> is_space c) (take 1 body) \<and> str_includes body ([CHR 10] @ FENCE) = False
    then stripCodeFence (FENCE @ ''json'' @ [CHR 10] @ body @ [CHR 10] @ FENCE @ rest) = Some body \<and>
      stripCodeFence (FENCE @ [CHR 10] @ body @ [CHR 10] @ FENCE @ rest) = Some body
    else True)"
proof -
  have sound: "case stripCodeFence s of None \<Rightarrow> True | Some body \<Rightarrow> fenced s body"
    using strip_sound by (auto split: option.split)
  have "stripCodeFence (FENCE @ ''json'' @ [CHR 10] @ body @ [CHR 10] @ FENCE @ rest) = Some body \<and>
      stripCodeFence (FENCE @ [CHR 10] @ body @ [CHR 10] @ FENCE @ rest) = Some body"
    if b: "body \<noteq> []" "list_all (\<lambda>c. \<not> is_space c) (take 1 body)" "\<not> str_includes body ([CHR 10] @ FENCE)"
  proof -
    obtain c cs where body: "body = c # cs" "\<not> is_space c" using b(1,2) by (cases body) auto
    have u: "until_fence (body @ [CHR 10] @ FENCE @ rest) = Some body" by (rule until_fence_complete [OF b(3)])
    have "fence_line (body @ [CHR 10] @ FENCE @ rest) = None" using body by simp
    then have l: "fence_line ([CHR 10] @ body @ [CHR 10] @ FENCE @ rest) = Some body" using u by (simp add: is_space_def)
    have "stripCodeFence (FENCE @ t) = Some body" if "fence_at (FENCE @ t) = Some body" for t
      using that by (simp add: FENCE_def)
    moreover have "fence_at (FENCE @ ''json'' @ [CHR 10] @ body @ [CHR 10] @ FENCE @ rest) = Some body"
      using l by (simp add: fence_at_def FENCE_def Let_def)
    moreover have "fence_at (FENCE @ [CHR 10] @ body @ [CHR 10] @ FENCE @ rest) = Some body"
      using l by (simp add: fence_at_def FENCE_def Let_def)
    ultimately show ?thesis by simp
  qed
  then show ?thesis using sound by auto
qed

subsection \<open>Schemas\<close>

definition own_violations :: "jsval \<Rightarrow> jsval \<Rightarrow> bool" where
  \<comment> \<open>a schema and a value disagree themselves, whatever is below them\<close>
  "own_violations s v \<longleftrightarrow>
     (\<exists>ty. field s ''type'' = JStr ty \<and> \<not> typeMatches ty v) \<or>
     (\<exists>m t. field s ''minLength'' = JNum m \<and> v = JStr t \<and> shorter (length t) m) \<or>
     (\<exists>keys k. field s ''required'' = JArr keys \<and> JStr k \<in> set keys \<and> is_record v \<and> \<not> has_own v k)"

definition enum_misses :: "(jsval \<Rightarrow> string) \<Rightarrow> jsval \<Rightarrow> jsval \<Rightarrow> bool" where
  "enum_misses stringify s v \<longleftrightarrow>
     (\<exists>vs. field s ''enum'' = JArr vs \<and> stringify v \<notin> stringify ` set vs)"

inductive meets :: "jsval \<Rightarrow> jsval \<Rightarrow> jsval \<Rightarrow> jsval \<Rightarrow> bool" where
  \<comment> \<open>\<open>meets s v s' v'\<close>: checking \<open>v\<close> against \<open>s\<close> checks \<open>v'\<close> against \<open>s'\<close>\<close>
  meets_here: "is_record s \<Longrightarrow> meets s v s v"
| meets_property: "\<lbrakk>is_record s; is_record v; (key, sub) \<in> set (property_list s); value_at v key \<noteq> JUndef;
     meets sub (value_at v key) s' v'\<rbrakk> \<Longrightarrow> meets s v s' v'"
| meets_item: "\<lbrakk>is_record s; item \<in> set items; field s ''items'' \<noteq> JUndef; meets (field s ''items'') item s' v'\<rbrakk>
     \<Longrightarrow> meets s (JArr items) s' v'"

inductive_cases meetsE: "meets s v s' v'"

lemma type_clause:
  "(case x of JStr ty \<Rightarrow> if typeMatches ty v then [] else [(path, m ty)] | _ \<Rightarrow> []) = [] \<longleftrightarrow>
     \<not> (\<exists>ty. x = JStr ty \<and> \<not> typeMatches ty v)"
  by (cases x) simp_all

lemma enum_clause:
  "(case x of JArr vs \<Rightarrow> (case enumViolation st vs v path of None \<Rightarrow> [] | Some w \<Rightarrow> [w]) | _ \<Rightarrow> []) = [] \<longleftrightarrow>
     \<not> (\<exists>vs. x = JArr vs \<and> st v \<notin> st ` set vs)"
proof (cases x)
  case (JArr vs)
  have "list_ex (\<lambda>c. st c = st v) vs \<longleftrightarrow> st v \<in> st ` set vs" by (simp add: list_ex_iff image_iff) (metis)
  then show ?thesis using JArr by (simp add: enumViolation_def)
qed simp_all

lemma length_clause:
  "(case x of
      JNum m \<Rightarrow> (case v of JStr t \<Rightarrow> if shorter (length t) m then [w t m] else [] | _ \<Rightarrow> [])
    | _ \<Rightarrow> []) = [] \<longleftrightarrow> \<not> (\<exists>m t. x = JNum m \<and> v = JStr t \<and> shorter (length t) m)"
  by (cases x; cases v) simp_all

lemma required_clause:
  "requiredViolations s v path = [] \<longleftrightarrow>
     \<not> (\<exists>keys k. field s ''required'' = JArr keys \<and> JStr k \<in> set keys \<and> \<not> has_own v k)"
proof (cases "field s ''required''")
  case (JArr keys)
  have "(case key of JStr k \<Rightarrow> if has_own v k then [] else [(path @ ''.'' @ k, ''required property present'')] | _ \<Rightarrow> []) = [] \<longleftrightarrow>
      (\<forall>k. key = JStr k \<longrightarrow> has_own v k)" for key
    by (cases key) simp_all
  then show ?thesis using JArr by (auto simp: requiredViolations_def)
qed (simp_all add: requiredViolations_def)

lemma scalar_violations_empty:
  "(scalarViolations st sn s v path = [] \<and> (is_record v \<longrightarrow> requiredViolations s v path = [])) =
     (\<not> own_violations s v \<and> \<not> enum_misses st s v)"
  unfolding scalarViolations_def append_is_Nil_conv type_clause enum_clause length_clause required_clause
    own_violations_def enum_misses_def
  by blast

lemma indexed_set: "snd ` set (indexed n xs) = set xs"
  by (induction xs arbitrary: n) auto

lemma meets_iff:
  "meets s v s' v' \<longleftrightarrow> is_record s \<and>
     (s' = s \<and> v' = v \<or>
      is_record v \<and> (\<exists>(key, sub) \<in> set (property_list s). value_at v key \<noteq> JUndef \<and> meets sub (value_at v key) s' v') \<or>
      (\<exists>items. v = JArr items \<and> field s ''items'' \<noteq> JUndef \<and> (\<exists>item\<in>set items. meets (field s ''items'') item s' v')))"
    (is "?l \<longleftrightarrow> ?r")
proof
  show "?l \<Longrightarrow> ?r" by (erule meetsE) (simp, force, simp, blast)
  show "?r \<Longrightarrow> ?l" using meets_here meets_property meets_item by blast
qed

lemma concat_map_empty: "concat (map f xs) = [] \<longleftrightarrow> (\<forall>x\<in>set xs. f x = [])"
  by auto

definition clean :: "(jsval \<Rightarrow> string) \<Rightarrow> jsval \<Rightarrow> jsval \<Rightarrow> bool" where
  "clean st s v \<longleftrightarrow> (\<forall>s' v'. meets s v s' v' \<longrightarrow> \<not> own_violations s' v' \<and> \<not> enum_misses st s' v')"

lemma clean_iff:
  "clean st s v \<longleftrightarrow>
     (if is_record s then
        (\<not> own_violations s v \<and> \<not> enum_misses st s v) \<and>
        (is_record v \<longrightarrow> (\<forall>(key, sub)\<in>set (property_list s). value_at v key = JUndef \<or> clean st sub (value_at v key))) \<and>
        (case v of JArr items \<Rightarrow> field s ''items'' = JUndef \<or> (\<forall>item\<in>set items. clean st (field s ''items'') item) | _ \<Rightarrow> True)
      else True)"
proof (cases "is_record s")
  case True
  have "clean st s v \<longleftrightarrow>
     (\<not> own_violations s v \<and> \<not> enum_misses st s v) \<and>
     (is_record v \<longrightarrow> (\<forall>(key, sub)\<in>set (property_list s). value_at v key = JUndef \<or> clean st sub (value_at v key))) \<and>
     (\<forall>items. v = JArr items \<longrightarrow> field s ''items'' = JUndef \<or> (\<forall>item\<in>set items. clean st (field s ''items'') item))"
    unfolding clean_def by (subst meets_iff) (use True in blast)
  then show ?thesis using True by (auto split: jsval.split)
next
  case False
  then show ?thesis unfolding clean_def by (subst meets_iff) simp
qed

lemma validate_iff_clean: "validateSubset st sn s v path = [] \<longleftrightarrow> clean st s v"
proof (induction st sn s v path rule: validateSubset.induct)
  case (1 st sn s v path)
  show ?case
  proof (cases "is_record s")
    case True
    have props: "is_record v \<Longrightarrow>
        concat (map (\<lambda>(key, sub). let child = value_at v key in
          if child = JUndef then [] else validateSubset st sn sub child (path @ ''.'' @ key)) (property_list s)) = [] \<longleftrightarrow>
        (\<forall>(key, sub)\<in>set (property_list s). value_at v key = JUndef \<or> clean st sub (value_at v key))"
    proof -
      assume v: "is_record v"
      have "(let child = value_at v (fst x) in
          if child = JUndef then [] else validateSubset st sn (snd x) child (path @ ''.'' @ fst x)) = [] \<longleftrightarrow>
          value_at v (fst x) = JUndef \<or> clean st (snd x) (value_at v (fst x))" if "x \<in> set (property_list s)" for x
        using "1.IH"(1) True v that by (simp add: Let_def)
      then show ?thesis unfolding concat_map_empty by (simp add: case_prod_unfold)
    qed
    have items: "v = JArr items \<Longrightarrow> field s ''items'' \<noteq> JUndef \<Longrightarrow>
        concat (map (\<lambda>(i, item). validateSubset st sn (field s ''items'') item (path @ ''['' @ show_nat i @ '']''))
          (indexed 0 items)) = [] \<longleftrightarrow>
        (\<forall>item\<in>set items. clean st (field s ''items'') item)" for items
    proof -
      assume v: "v = JArr items" "field s ''items'' \<noteq> JUndef"
      have "(case x of (i, item) \<Rightarrow> validateSubset st sn (field s ''items'') item (path @ ''['' @ show_nat i @ '']'')) = [] \<longleftrightarrow>
          clean st (field s ''items'') (snd x)" if "x \<in> set (indexed 0 items)" for x
        using "1.IH"(2) True v that by (cases x) auto
      then have "concat (map (\<lambda>(i, item). validateSubset st sn (field s ''items'') item (path @ ''['' @ show_nat i @ '']''))
          (indexed 0 items)) = [] \<longleftrightarrow> (\<forall>x\<in>set (indexed 0 items). clean st (field s ''items'') (snd x))"
        unfolding concat_map_empty by (rule ball_cong [OF refl])
      then show ?thesis unfolding indexed_set [of 0 items, symmetric] by (simp add: ball_simps)
    qed
    show ?thesis
      using True props items scalar_violations_empty [of st sn s v path]
      apply (simp add: validateSubset.simps [of st sn s v path] clean_iff [of st s v] del: concat_eq_Nil_conv)
      apply (cases v)
      apply (auto simp: is_record_def)
      done
  next
    case False
    then show ?thesis by (simp add: clean_iff [of st s v] validateSubset.simps [of st sn s v path])
  qed
qed


text \<open>A property that a schema names after a member of \<open>Object.prototype\<close> is looked up on the prototype when the
  value has none of its own: the empty object is refused although the property is not required.\<close>

lemma inherited_property_rejected:
  "validateSubset (\<lambda>v. []) (\<lambda>n. [])
     (JObj [(''properties'', JObj [(''constructor'', JObj [(''type'', JStr ''string'')])])]) (JObj []) ''$'' =
   [(''$.constructor'', ''string (got function)'')]"
  by code_simp

end
