(* ===== verification/WorkTexts.thy ===== *)
theory WorkTexts
  imports WorkVerdict
begin

text \<open>
  The texts of \<open>agent-workflow\<close>: what a child is asked and told (\<open>feedback.ts\<close>, \<open>acceptor-critic.ts\<close>,
  \<open>dispatchPrompt\<close>), what a critic answers, and the notification of the parent (\<open>notify.ts\<close>). The runtime
  recognises one of them, the marker of a feedback, in the log of a child.
\<close>

definition NL :: string where
  "NL = [CHR 10]"

definition lines_text :: "string list \<Rightarrow> string" where
  \<comment> \<open>\<open>join("\n")\<close>\<close>
  "lines_text ls = join_with NL ls"

definition last_chars :: "nat \<Rightarrow> string \<Rightarrow> string" where
  \<comment> \<open>\<open>slice(-n)\<close>\<close>
  "last_chars n s = drop (length s - n) s"

subsection \<open>Input of a submission\<close>

record submit_input =
  si_description :: string
  si_prompt :: string
  si_subagent_type :: "string option"
  si_model :: "string option"
  si_isolation :: "string option"
  si_result_schema :: "jsval option"
  si_acceptance :: "(string \<times> string option) option"
  si_critic :: "(string \<times> string option) option"
  si_max_attempts :: "int option"
  si_depends_on :: "string list option"

definition specOf :: "submit_input \<Rightarrow> task_spec" where
  "specOf input =
     \<lparr>sp_description = si_description input, sp_prompt = si_prompt input,
      sp_subagentType = si_subagent_type input, sp_model = si_model input, sp_isolation = si_isolation input,
      sp_resultSchema = si_result_schema input, sp_acceptance = si_acceptance input, sp_critic = si_critic input,
      sp_maxAttempts = si_max_attempts input,
      sp_dependsOn = (case si_depends_on input of Some (d # ds) \<Rightarrow> Some (d # ds) | _ \<Rightarrow> None)\<rparr>"

definition dispatchPrompt :: "(jsval \<Rightarrow> string) \<Rightarrow> string \<Rightarrow> jsval option \<Rightarrow> string" where
  "dispatchPrompt stringify prompt result_schema =
     (case result_schema of
        None \<Rightarrow> prompt
      | Some schema \<Rightarrow>
          let full = stringify schema;
              schemaText = take 2000 full;
              note = NL @ NL @ ''[workflow acceptance] Your final message must be a single JSON value matching this schema (no prose around it):'' @ NL @
                schemaText @
                (if length full > 2000
                 then NL @ ''(schema truncated '' @ [CHR 226, CHR 128, CHR 148] @ '' the full schema is repeated in repair feedback if validation fails)''
                 else [])
          in prompt @ note)"

fun dup_dependency :: "string list \<Rightarrow> string list \<Rightarrow> string option" where
  "dup_dependency seen [] = None"
| "dup_dependency seen (dep # deps) =
     (if dep = [] then Some ''invalid-args:depends_on entries must be non-empty task IDs''
      else if dep \<in> set seen then Some (''invalid-args:depends_on has duplicate entry '' @ [CHR 39] @ dep @ [CHR 39])
      else dup_dependency (dep # seen) deps)"

definition validateDependencies :: "string list \<Rightarrow> string option" where
  "validateDependencies deps = (if deps = [] then None else dup_dependency [] deps)"

subsection \<open>Feedback\<close>

definition marker :: "string \<Rightarrow> nat \<Rightarrow> string" where
  "marker taskId attempt = ''[wf task '' @ taskId @ '' attempt '' @ show_nat attempt @ '']''"

definition feedbackText :: "(jsval \<Rightarrow> string) \<Rightarrow> string \<Rightarrow> nat \<Rightarrow> string list \<Rightarrow> jsval \<Rightarrow> string" where
  "feedbackText stringify taskId attempt violations schema =
     lines_text
       [marker taskId attempt,
        ''Acceptance check failed ('' @ show_nat attempt @ '' of your repair budget). Fix the deliverable and finish again with the corrected JSON.'',
        ''Violations (what to fix):'',
        (if violations \<noteq> [] then lines_text (map (\<lambda>v. ''- '' @ v) violations)
         else ''- the final message had no extractable JSON payload''),
        ''Required shape:'',
        take 2000 (stringify schema)]"

definition continueKickText :: "string \<Rightarrow> string" where
  "continueKickText taskId =
     ''[wf task '' @ taskId @ '' resume] Continue the task '' @ [CHR 226, CHR 128, CHR 148] @ '' your context has been restored after a restart.''"

definition commandFeedbackText :: "string \<Rightarrow> nat \<Rightarrow> string list \<Rightarrow> string" where
  "commandFeedbackText taskId attempt outputLines =
     lines_text
       [marker taskId attempt,
        ''Acceptance command failed ('' @ show_nat attempt @ '' of your repair budget). Fix the issue the command reports and finish again.'',
        ''Command output (tail):'',
        last_chars 2000 (lines_text outputLines)]"

definition criticFeedbackText :: "string \<Rightarrow> nat \<Rightarrow> string list \<Rightarrow> string" where
  "criticFeedbackText taskId attempt proposals =
     lines_text
       [marker taskId attempt,
        ''Independent review rejected the deliverable ('' @ show_nat attempt @ '' of your repair budget). Fix the issues below and finish again.'',
        (if proposals \<noteq> [] then lines_text (map (\<lambda>p. ''- '' @ p) proposals)
         else ''- reviewer rejected the deliverable without specific proposals'')]"

definition feedbackTextOf :: "(jsval \<Rightarrow> string) \<Rightarrow> tier \<Rightarrow> string \<Rightarrow> nat \<Rightarrow> string list \<Rightarrow> jsval \<Rightarrow> string" where
  "feedbackTextOf stringify t taskId attempt violations schema =
     (case t of
        TCommand \<Rightarrow> commandFeedbackText taskId attempt violations
      | TCritic \<Rightarrow> criticFeedbackText taskId attempt violations
      | TSchema \<Rightarrow> feedbackText stringify taskId attempt violations schema)"

subsection \<open>The critic\<close>

definition CRITIC_PROPOSAL_SCHEMA :: jsval where
  "CRITIC_PROPOSAL_SCHEMA =
     JObj [(''type'', JStr ''object''),
           (''required'', JArr [JStr ''verdict'']),
           (''properties'', JObj
             [(''verdict'', JObj [(''enum'', JArr [JStr ''pass'', JStr ''fail''])]),
              (''reopenProposals'', JObj
                [(''type'', JStr ''array''),
                 (''items'', JObj [(''type'', JStr ''string''), (''minLength'', JNum (NInt 1))])]),
              (''summary'', JObj [(''type'', JStr ''string'')])])]"

record critic_proposal =
  cp_pass :: bool
  cp_reopenProposals :: "string list"
  cp_summary :: "string option"

definition criticDispatchPrompt :: "(jsval \<Rightarrow> string) \<Rightarrow> string \<Rightarrow> string option \<Rightarrow> string \<Rightarrow> string" where
  "criticDispatchPrompt stringify deliverable focus originalTask =
     lines_text
       [''You are an independent reviewer. Review the following deliverable against the task it was produced for.'',
        ''Be adversarial: your job is to find real defects, not to approve.'',
        (case focus of None \<Rightarrow> [] | Some f \<Rightarrow> NL @ ''Review focus: '' @ f),
        NL @ ''## Original task'',
        originalTask,
        NL @ ''## Deliverable'',
        deliverable,
        NL @ ''## Required output'',
        ''Your final message must be a single JSON object matching:'',
        stringify CRITIC_PROPOSAL_SCHEMA,
        ''verdict '' @ [CHR 34] @ ''pass'' @ [CHR 34] @ '' only if the deliverable satisfies the task; otherwise '' @ [CHR 34] @ ''fail'' @ [CHR 34] @
          '' with reopenProposals describing exactly what to fix.'']"

definition violation_line :: "string \<times> string \<Rightarrow> string" where
  "violation_line v = fst v @ '': '' @ snd v"

definition nonempty_strings :: "jsval \<Rightarrow> string list" where
  "nonempty_strings v =
     (case v of
        JArr vs \<Rightarrow> concat (map (\<lambda>x. case x of JStr s \<Rightarrow> if s = [] then [] else [s] | _ \<Rightarrow> []) vs)
      | _ \<Rightarrow> [])"

definition parseCriticProposal ::
  "(string \<Rightarrow> jsval option) \<Rightarrow> (jsval \<Rightarrow> string) \<Rightarrow> (jsnum \<Rightarrow> string) \<Rightarrow> string \<Rightarrow> string list + critic_proposal" where
  "parseCriticProposal parse stringify show_num finalText =
     (case extractPayload parse finalText of
        None \<Rightarrow> Inl [''critic returned no extractable JSON payload'']
      | Some payload \<Rightarrow>
          let violations = map violation_line (validateSubset stringify show_num CRITIC_PROPOSAL_SCHEMA payload ''$'') in
          if violations \<noteq> [] then Inl violations
          else Inr
            \<lparr>cp_pass = (field payload ''verdict'' = JStr ''pass''),
             cp_reopenProposals = nonempty_strings (field payload ''reopenProposals''),
             cp_summary = (case field payload ''summary'' of JStr s \<Rightarrow> if s = [] then None else Some s | _ \<Rightarrow> None)\<rparr>)"

definition criticEvidence :: "critic_proposal \<Rightarrow> evidence" where
  "criticEvidence p =
     EvCritic (Some (cp_pass p)) (if cp_reopenProposals p \<noteq> [] then Some (cp_reopenProposals p) else None) (cp_summary p)"

definition criticViolationsOf :: "evidence \<Rightarrow> verdict \<Rightarrow> string list" where
  "criticViolationsOf ev v =
     (case v of
        Reject _ \<Rightarrow>
          (case ev of
             EvCritic _ (Some (p # ps)) _ \<Rightarrow> p # ps
           | _ \<Rightarrow> [''critic rejected without reopen proposals''])
      | _ \<Rightarrow> [])"

subsection \<open>The notification of the parent\<close>

fun cause_name :: "task_cause \<Rightarrow> string" where
  "cause_name DispatchFailed = ''dispatch-failed''"
| "cause_name DependencyFailed = ''dependency-failed''"
| "cause_name CircuitBreak = ''circuit-break''"
| "cause_name ChildFailed = ''child-failed''"
| "cause_name SettleFailed = ''settle-failed''"
| "cause_name TypeDefMissing = ''type-def-missing''"
| "cause_name VerifyUnknown = ''verify-unknown''"
| "cause_name TaskStop = ''task-stop''"
| "cause_name TaskDeadline = ''task-deadline''"

fun outcome_name :: "outcome \<Rightarrow> string" where
  "outcome_name Completed = ''completed''"
| "outcome_name Failed = ''failed''"
| "outcome_name Cancelled = ''cancelled''"

definition summaryLines :: "string \<Rightarrow> nat \<Rightarrow> string list" where
  "summaryLines summary cap =
     (if length summary \<le> cap then [summary]
      else [take cap summary, ''[report truncated at '' @ show_nat cap @ '' chars]''])"

definition or_text :: "string option \<Rightarrow> string \<Rightarrow> string" where
  "or_text t d = (case t of None \<Rightarrow> d | Some s \<Rightarrow> s)"

definition taskNotificationLines :: "string \<Rightarrow> snapshot \<Rightarrow> task_state \<Rightarrow> string list" where
  "taskNotificationLines runId s t =
     (let outcomeTag = (case rs_outcome s of None \<Rightarrow> ''settled'' | Some outc \<Rightarrow> outcome_name outc);
          run_tag = '' (run '' @ runId @ '': '' @ outcomeTag @ '')'';
          head =
            (if wt_outcome t = Some Completed
             then ''[workflow-notification] task '' @ wt_taskId t @ '' finished: passed'' @ run_tag
             else ''[workflow-notification] task '' @ wt_taskId t @ '' failed: '' @
               or_text (wt_detail t) (or_text (map_option cause_name (wt_cause t)) ''verification failed'') @ run_tag);
          attempts = max (wt_repairs t) (max (wt_reopens t) (wt_verifyAttempts t))
      in [head, ''agent: '' @ or_text (wt_agentId t) ''?'', ''session: '' @ or_text (wt_sessionId t) ''unknown''] @
         (case wt_verdict t of None \<Rightarrow> [] | Some v \<Rightarrow> [''verdict: '' @ v]) @
         (if attempts > 0 then [''attempts: '' @ show_nat (attempts + 1)] else []) @
         (case wt_evidence t of
            Some ev \<Rightarrow> if wt_outcome t = Some Completed then ''deliverable:'' # summaryLines ev 8000 else []
          | None \<Rightarrow> []) @
         (case wt_detail t of
            Some d \<Rightarrow> if wt_outcome t \<noteq> Some Completed then [''detail: '' @ d] else []
          | None \<Rightarrow> []))"

definition to_notify :: "snapshot \<Rightarrow> task_state \<Rightarrow> bool" where
  "to_notify s t \<longleftrightarrow> wt_status t = Settled \<and> wt_taskId t \<notin> set (rs_notified s)"

definition notificationText :: "string \<Rightarrow> snapshot \<Rightarrow> string" where
  "notificationText runId s =
     lines_text (concat (map (taskNotificationLines runId s) (filter (to_notify s) (task_values s))))"

definition REPORT_CAP :: nat where
  "REPORT_CAP = 34000"

definition notification :: "string \<Rightarrow> snapshot \<Rightarrow> string" where
  "notification runId s = lines_text (summaryLines (notificationText runId s) REPORT_CAP)"

end
