(* ===== verification/WorkRuntime.thy ===== *)
theory WorkRuntime
  imports WorkTexts SessionSurface
begin

text \<open>
  The runtime of managed tasks (\<open>agent-workflow\<close>: \<open>runtime.ts\<close>, \<open>acceptor-command.ts\<close>, \<open>notify.ts\<close>,
  \<open>task-deadline.ts\<close>, \<open>resume.ts\<close>) as concurrent handlers. A handler runs from one \<open>await\<close> to the next without
  interruption; where it waits is a value of the type \<open>pc\<close>, and the function of each such place does what the
  code does up to the next one. What a handler waits for (a command, a critic, a delivery, the disk) is the
  argument \<open>answer\<close>. Several handlers share the state \<open>rt\<close>.

  A run is driven through an object, \<open>ActiveRun\<close>, that handlers keep while it is taken out of the table \<open>runs\<close>:
  objects are numbered and never removed. An append is one step: the writer of the journal is serial, and
  the snapshot follows in the same order. Polling and pauses are left out.
\<close>

subsection \<open>State\<close>

record disk_run =
  dk_parent :: string \<comment> \<open>the header\<close>
  dk_version :: string
  dk_events :: "wf_event list" \<comment> \<open>the journal\<close>
  dk_locked :: bool

record active_run =
  ar_runId :: string
  ar_parent :: string
  ar_closed :: bool \<comment> \<open>the writer\<close>
  ar_snapshot :: snapshot

type_synonym task_ref = "string \<times> string" \<comment> \<open>run and task\<close>

datatype report_outcome = RoCompleted | RoStopped | RoFailed

record managed_report =
  mr_agentId :: string
  mr_sessionId :: string
  mr_outcome :: report_outcome
  mr_detail :: string
  mr_summary :: "string option"

datatype world_call =
    CallSpawn string string string \<comment> \<open>caller, description, prompt\<close>
  | CallMessage string string string \<comment> \<open>caller, agent, text\<close>
  | CallSettle string string \<comment> \<open>agent, reason\<close>
  | CallNotify string string \<comment> \<open>session, text\<close>
  | CallRevive string string

record rt =
  rt_disk :: "(string, disk_run) jsmap"
  rt_objs :: "active_run list"
  rt_runs :: "(string, nat) jsmap"
  rt_agents :: "(string, task_ref) jsmap"
  rt_cold :: "(string, string) jsmap"
  rt_main :: string
  rt_timers :: "task_ref list"
  rt_calls :: "world_call list"

record wf_env =
  we_budget :: budget
  we_view :: bool \<comment> \<open>the delegation plugin is there\<close>
  we_archive :: bool
  we_windowMs :: nat
  we_cwd :: string
  we_main :: string \<comment> \<open>\<open>mainSession\<close> of the options\<close>
  we_parse :: "string \<Rightarrow> jsval option"
  we_stringify :: "jsval \<Rightarrow> string"
  we_show_num :: "jsnum \<Rightarrow> string"

definition workflowPluginVersion :: string where
  "workflowPluginVersion = ''16.0.0''"

datatype proc_result =
    PrNoSandbox
  | PrSpawnFailed string
  | PrTimedOut
  | PrExited "int option" bool string \<comment> \<open>code; a signal; output\<close>
  | PrThrew string

datatype critic_result =
    CrNone \<comment> \<open>not started\<close>
  | CrAbnormal string \<comment> \<open>this agent ended otherwise\<close>
  | CrDone string string \<comment> \<open>agent and final text\<close>

record answer =
  an_disk :: bool \<comment> \<open>the append reaches the disk\<close>
  an_proc :: proc_result
  an_error :: string \<comment> \<open>the message of the error when an append throws\<close>
  an_critic :: critic_result
  an_sent :: "string option" \<comment> \<open>why a message was not delivered\<close>
  an_handle :: bool \<comment> \<open>the parent session has an agent\<close>
  an_notify :: bool \<comment> \<open>its \<open>notify\<close> returns\<close>
  an_spawn :: "string + string \<times> string \<times> string" \<comment> \<open>reason; or agent, session and text\<close>
  an_runId :: string \<comment> \<open>minted\<close>
  an_frozen :: "string option" \<comment> \<open>the journal cannot be opened\<close>
  an_child :: "sevent list option" \<comment> \<open>the log of a child, from the archive\<close>
  an_revived :: bool

subsection \<open>Append\<close>

definition obj :: "rt \<Rightarrow> nat \<Rightarrow> active_run" where
  "obj s i = rt_objs s ! i"

definition set_obj :: "nat \<Rightarrow> (active_run \<Rightarrow> active_run) \<Rightarrow> rt \<Rightarrow> rt" where
  "set_obj i f s = s\<lparr>rt_objs := (rt_objs s)[i := f (rt_objs s ! i)]\<rparr>"

definition set_disk :: "string \<Rightarrow> (disk_run \<Rightarrow> disk_run) \<Rightarrow> rt \<Rightarrow> rt" where
  "set_disk runId f s =
     (case map_get (rt_disk s) runId of
        None \<Rightarrow> s
      | Some d \<Rightarrow> s\<lparr>rt_disk := map_set (rt_disk s) runId (f d)\<rparr>)"

definition write_events :: "string \<Rightarrow> wf_event list \<Rightarrow> rt \<Rightarrow> rt" where
  "write_events runId evs = set_disk runId (\<lambda>d. d\<lparr>dk_events := dk_events d @ evs\<rparr>)"

definition append :: "bool \<Rightarrow> nat \<Rightarrow> wf_event \<Rightarrow> rt \<Rightarrow> rt \<times> bool" where
  \<comment> \<open>false when it throws: the writer is closed, the disk refuses and the journal is cut back, or \<open>step\<close> throws\<close>
  "append disk i ev s =
     (if ar_closed (obj s i) \<or> \<not> disk then (s, False)
      else
        let s' = write_events (ar_runId (obj s i)) [ev] s in
        (case wf_step (ar_snapshot (obj s i)) ev of
           Inl _ \<Rightarrow> (s', False)
         | Inr sn \<Rightarrow> (set_obj i (\<lambda>r. r\<lparr>ar_snapshot := sn\<rparr>) s', True)))"

definition close_writer :: "nat \<Rightarrow> rt \<Rightarrow> rt" where
  "close_writer i s =
     (if ar_closed (obj s i) then s
      else set_disk (ar_runId (obj s i)) (\<lambda>d. d\<lparr>dk_locked := False\<rparr>) (set_obj i (\<lambda>r. r\<lparr>ar_closed := True\<rparr>) s))"

definition call :: "world_call \<Rightarrow> rt \<Rightarrow> rt" where
  "call c s = s\<lparr>rt_calls := rt_calls s @ [c]\<rparr>"

definition tasks_of :: "rt \<Rightarrow> nat \<Rightarrow> task_state list" where
  "tasks_of s i = task_values (ar_snapshot (obj s i))"

definition task_of :: "rt \<Rightarrow> nat \<Rightarrow> string \<Rightarrow> task_state option" where
  "task_of s i taskId = map_get (rs_tasks (ar_snapshot (obj s i))) taskId"

definition all_notified :: "snapshot \<Rightarrow> bool" where
  "all_notified sn = list_all (\<lambda>t. wt_status t \<noteq> Settled \<or> wt_taskId t \<in> set (rs_notified sn)) (task_values sn)"

definition settled_event :: "string \<Rightarrow> outcome \<Rightarrow> task_cause \<Rightarrow> string option \<Rightarrow> wf_event" where
  "settled_event taskId outc cause detail = TaskSettled taskId outc None detail None (Some cause)"

definition armDeadline :: "task_ref \<Rightarrow> rt \<Rightarrow> rt" where
  "armDeadline ref s = s\<lparr>rt_timers := filter (\<lambda>r. r \<noteq> ref) (rt_timers s) @ [ref]\<rparr>"

definition clearDeadline :: "task_ref \<Rightarrow> rt \<Rightarrow> rt" where
  "clearDeadline ref s = s\<lparr>rt_timers := filter (\<lambda>r. r \<noteq> ref) (rt_timers s)\<rparr>"

definition deadlineClearAll :: "rt \<Rightarrow> rt" where
  "deadlineClearAll s = s\<lparr>rt_timers := []\<rparr>"

subsection \<open>The verdicts of the tiers\<close>

definition tierChain :: "task_spec \<Rightarrow> tier list" where
  "tierChain spec =
     (if sp_resultSchema spec \<noteq> None then [TSchema] else []) @
     (if sp_acceptance spec \<noteq> None then [TCommand] else []) @
     (if sp_critic spec \<noteq> None then [TCritic] else [])"

definition limit_of :: "task_spec \<Rightarrow> int \<Rightarrow> int" where
  \<comment> \<open>\<open>maxAttempts\<close> overrides the budget\<close>
  "limit_of spec b = (case sp_maxAttempts spec of None \<Rightarrow> b | Some m \<Rightarrow> m)"

definition schemaTierVerdict ::
  "wf_env \<Rightarrow> task_state \<Rightarrow> managed_report \<Rightarrow> jsval \<Rightarrow> verdict \<times> string list" where
  "schemaTierVerdict e t report schema =
     (let payload = extractPayload (we_parse e) (case mr_summary report of None \<Rightarrow> [] | Some x \<Rightarrow> x);
          violations = (case payload of
             None \<Rightarrow> []
           | Some p \<Rightarrow> map violation_line (validateSubset (we_stringify e) (we_show_num e) schema p ''$''));
          b = (we_budget e)\<lparr>bg_repairs := limit_of (wt_spec t) (bg_repairs (we_budget e))\<rparr>
      in (adjudicate TSchema (EvSchema payload violations) b
            \<lparr>ub_repairs = int (wt_repairs t), ub_reopens = int (wt_reopens t)\<rparr>, violations))"

definition commandVerdictOf :: "verify_outcome \<Rightarrow> int option \<Rightarrow> int \<Rightarrow> int \<Rightarrow> verdict" where
  "commandVerdictOf outc exitCode used mx =
     (if outc = VPassed then Accept
      else if used + 1 \<ge> mx then Fail (''command tier budget exhausted (exit '' @ show_exit exitCode @ '')'')
      else Reject [''command exited with code '' @ show_exit exitCode])"

record verify_result =
  vr_outcome :: verify_outcome
  vr_exitCode :: "int option"
  vr_outputTail :: string

fun verifyResult :: "proc_result \<Rightarrow> verify_result" where
  "verifyResult PrNoSandbox = \<lparr>vr_outcome = VUnknown, vr_exitCode = None,
     vr_outputTail = ''sandbox exec-env unavailable (acceptance commands require a sandboxed exec env)''\<rparr>"
| "verifyResult (PrSpawnFailed why) = \<lparr>vr_outcome = VUnknown, vr_exitCode = None, vr_outputTail = ''verify spawn failed: '' @ why\<rparr>"
| "verifyResult PrTimedOut = \<lparr>vr_outcome = VFailed, vr_exitCode = None, vr_outputTail = ''verify command timed out after 120s''\<rparr>"
| "verifyResult (PrExited code signal output) =
     \<lparr>vr_outcome = (if code = Some 0 then VPassed else VFailed),
      vr_exitCode = Some (case code of Some c \<Rightarrow> c | None \<Rightarrow> if signal then 128 else 1),
      vr_outputTail = last_chars 4000 output\<rparr>"
| "verifyResult (PrThrew message) = \<lparr>vr_outcome = VUnknown, vr_exitCode = None, vr_outputTail = message\<rparr>"

fun in_try :: "proc_result \<Rightarrow> bool" where
  \<comment> \<open>the append of the result stands inside the \<open>try\<close>, so that the \<open>catch\<close> appends once more when it throws\<close>
  "in_try PrNoSandbox = False"
| "in_try (PrThrew _) = False"
| "in_try _ = True"

definition commandTierVerdict :: "wf_env \<Rightarrow> task_state \<Rightarrow> verify_result \<Rightarrow> verdict \<times> string list" where
  "commandTierVerdict e t v =
     (commandVerdictOf (vr_outcome v) (vr_exitCode v) (int (wt_verifyAttempts t))
        (limit_of (wt_spec t) (bg_verifyAttempts (we_budget e))),
      [''command exited '' @ show_exit (vr_exitCode v) @ '':'', vr_outputTail v])"

definition critic_budget :: "wf_env \<Rightarrow> task_state \<Rightarrow> budget" where
  "critic_budget e t = (we_budget e)\<lparr>bg_reopens := limit_of (wt_spec t) (bg_reopens (we_budget e))\<rparr>"

definition criticTierVerdict :: "wf_env \<Rightarrow> task_state \<Rightarrow> critic_proposal option \<Rightarrow> verdict \<times> string list" where
  "criticTierVerdict e t proposal =
     (let b = critic_budget e t; used = \<lparr>ub_repairs = 0, ub_reopens = int (wt_reopens t)\<rparr> in
      case proposal of
        None \<Rightarrow>
          (case adjudicate TCritic (EvCritic None None None) b used of
             Fail reason \<Rightarrow> (Fail reason, [''critic produced no valid proposal''])
           | _ \<Rightarrow> (Reject [''critic produced no valid proposal (spawn failed, abnormal end, or output failed schema validation)''],
                   [''critic produced no valid proposal'']))
      | Some p \<Rightarrow>
          let ev = criticEvidence p; v = adjudicate TCritic ev b used in
          (v, criticViolationsOf ev v))"

definition proposal_of :: "wf_env \<Rightarrow> critic_result \<Rightarrow> critic_proposal option" where
  "proposal_of e r =
     (if \<not> we_view e then None
      else case r of
        CrDone agent finalText \<Rightarrow>
          (case parseCriticProposal (we_parse e) (we_stringify e) (we_show_num e) finalText of
             Inr p \<Rightarrow> Some p
           | Inl _ \<Rightarrow> None)
      | _ \<Rightarrow> None)"

fun critic_agent :: "critic_result \<Rightarrow> string option" where
  "critic_agent CrNone = None"
| "critic_agent (CrAbnormal agent) = Some agent"
| "critic_agent (CrDone agent _) = Some agent"

definition attemptOf :: "tier \<Rightarrow> task_state option \<Rightarrow> nat" where
  "attemptOf t task =
     (case task of
        None \<Rightarrow> 0
      | Some w \<Rightarrow> (case t of TCommand \<Rightarrow> wt_verifyAttempts w | TCritic \<Rightarrow> wt_reopens w | TSchema \<Rightarrow> wt_repairs w))"

subsection \<open>Places where a handler waits\<close>

type_synonym scan = "string list \<times> nat \<times> nat" \<comment> \<open>the runs left to scan, \<open>claimed\<close>, \<open>skipped\<close>\<close>

datatype result = ROk | RText string | RRefused string | RScan nat nat

datatype kont =
    KCycle string \<comment> \<open>\<open>onCycleEnd\<close>, called by the sink of this agent, whose \<open>catch\<close> settles the agent\<close>
  | KStop string \<comment> \<open>\<open>stopTask\<close>\<close>
  | KFire \<comment> \<open>a deadline\<close>
  | KDispatchFailed string \<comment> \<open>\<open>managedSubmit\<close> after a spawn that failed\<close>
  | KRec nat "task_state list" scan \<comment> \<open>\<open>recoverRun\<close>, with the tasks left\<close>

datatype after_notice =
    NSettle outcome kont \<comment> \<open>in \<open>settleRun\<close>\<close>
  | NAlive "string list" \<comment> \<open>in \<open>onSessionAlive\<close>, with the runs seen\<close>
  | NRecTask "task_state list" scan \<comment> \<open>in \<open>recoverRun\<close>\<close>
  | NRecEnd "task_state list" scan \<comment> \<open>in \<open>finalizeAfterRecovery\<close>\<close>

datatype closer =
    ClSettle outcome kont
  | ClAlive "string list"
  | ClRec "task_state list" scan

datatype cycle_at = \<comment> \<open>in onCycleEnd\<close>
    AtCStart task_ref managed_report kont
  | AtCTiers nat task_ref managed_report task_state "tier list" string kont
  | AtCVerify nat task_ref managed_report task_state "tier list" nat kont
  | AtCVerifyCatch nat task_ref managed_report task_state "tier list" nat kont
  | AtCCritic nat task_ref managed_report task_state "tier list" kont
  | AtCConsume nat task_ref managed_report task_state tier verdict "string list" "tier list" kont
  | AtCSend nat task_ref managed_report string kont
  | AtCSent nat task_ref bool kont

datatype settle_at = \<comment> \<open>in finalizeRun, settleRun, deliverNotification\<close>
    AtFStart nat kont
  | AtFDoomed nat "string list" kont
  | AtNSend nat after_notice
  | AtNMark nat string "task_state list" after_notice
  | AtNAfter nat after_notice
  | AtSClose nat "task_state list" closer
  | AtSDelete nat closer

datatype stop_at = \<comment> \<open>in stopTask and the deadline\<close>
    AtTStart string "string option"
  | AtTSettle nat string
  | AtTRun nat string
  | AtTCold string "string option"
  | AtDFire task_ref
  | AtDSettle nat "string option"

datatype submit_at = \<comment> \<open>in submit\<close>
    AtUStart "string option" submit_input
  | AtUSpawnPlain
  | AtUOpen string string submit_input
  | AtUSubmit nat string submit_input
  | AtUSpawn nat string submit_input
  | AtUSpawned nat string string
  | AtUFailed nat string
  | AtUDispatched nat string string

datatype session_at = \<comment> \<open>in onSessionAlive, rebind, dispose\<close>
    AtAStart
  | AtALoop "string list"
  | AtBStart string
  | AtBRuns string "string list"
  | AtBHeader nat string "string list"
  | AtBDisk string "string list"
  | AtVStart
  | AtVClose "string list"

datatype recover_at = \<comment> \<open>in scanAndRecover\<close>
    AtXStart
  | AtXScan scan
  | AtRDispatch nat "task_state list" scan
  | AtRSpawned nat task_state "task_state list" scan
  | AtRDispatched nat string scan
  | AtRTasks nat "task_state list" scan
  | AtRVerify nat string "task_state list" scan
  | AtRFinal nat "task_state list" scan
  | AtRTask nat task_state string string "task_state list" scan
  | AtRKick nat task_state string "task_state list" scan

datatype pc =
    PDone result
  | PThrown
  | PSettleFailed string
  | PCycle cycle_at
  | PSettle settle_at
  | PStop stop_at
  | PSubmit submit_at
  | PSession session_at
  | PRecover recover_at

abbreviation CStart :: "task_ref \<Rightarrow> managed_report \<Rightarrow> kont \<Rightarrow> pc" where
  "CStart x0 x1 x2 \<equiv> PCycle (AtCStart x0 x1 x2)"

abbreviation CTiers :: "nat \<Rightarrow> task_ref \<Rightarrow> managed_report \<Rightarrow> task_state \<Rightarrow> tier list \<Rightarrow> string \<Rightarrow> kont \<Rightarrow> pc" where
  "CTiers x0 x1 x2 x3 x4 x5 x6 \<equiv> PCycle (AtCTiers x0 x1 x2 x3 x4 x5 x6)"

abbreviation CVerify :: "nat \<Rightarrow> task_ref \<Rightarrow> managed_report \<Rightarrow> task_state \<Rightarrow> tier list \<Rightarrow> nat \<Rightarrow> kont \<Rightarrow> pc" where
  "CVerify x0 x1 x2 x3 x4 x5 x6 \<equiv> PCycle (AtCVerify x0 x1 x2 x3 x4 x5 x6)"

abbreviation CVerifyCatch :: "nat \<Rightarrow> task_ref \<Rightarrow> managed_report \<Rightarrow> task_state \<Rightarrow> tier list \<Rightarrow> nat \<Rightarrow> kont \<Rightarrow> pc" where
  "CVerifyCatch x0 x1 x2 x3 x4 x5 x6 \<equiv> PCycle (AtCVerifyCatch x0 x1 x2 x3 x4 x5 x6)"

abbreviation CCritic :: "nat \<Rightarrow> task_ref \<Rightarrow> managed_report \<Rightarrow> task_state \<Rightarrow> tier list \<Rightarrow> kont \<Rightarrow> pc" where
  "CCritic x0 x1 x2 x3 x4 x5 \<equiv> PCycle (AtCCritic x0 x1 x2 x3 x4 x5)"

abbreviation CConsume :: "nat \<Rightarrow> task_ref \<Rightarrow> managed_report \<Rightarrow> task_state \<Rightarrow> tier \<Rightarrow> verdict \<Rightarrow> string list \<Rightarrow> tier list \<Rightarrow> kont \<Rightarrow> pc" where
  "CConsume x0 x1 x2 x3 x4 x5 x6 x7 x8 \<equiv> PCycle (AtCConsume x0 x1 x2 x3 x4 x5 x6 x7 x8)"

abbreviation CSend :: "nat \<Rightarrow> task_ref \<Rightarrow> managed_report \<Rightarrow> string \<Rightarrow> kont \<Rightarrow> pc" where
  "CSend x0 x1 x2 x3 x4 \<equiv> PCycle (AtCSend x0 x1 x2 x3 x4)"

abbreviation CSent :: "nat \<Rightarrow> task_ref \<Rightarrow> bool \<Rightarrow> kont \<Rightarrow> pc" where
  "CSent x0 x1 x2 x3 \<equiv> PCycle (AtCSent x0 x1 x2 x3)"

abbreviation FStart :: "nat \<Rightarrow> kont \<Rightarrow> pc" where
  "FStart x0 x1 \<equiv> PSettle (AtFStart x0 x1)"

abbreviation FDoomed :: "nat \<Rightarrow> string list \<Rightarrow> kont \<Rightarrow> pc" where
  "FDoomed x0 x1 x2 \<equiv> PSettle (AtFDoomed x0 x1 x2)"

abbreviation NSend :: "nat \<Rightarrow> after_notice \<Rightarrow> pc" where
  "NSend x0 x1 \<equiv> PSettle (AtNSend x0 x1)"

abbreviation NMark :: "nat \<Rightarrow> string \<Rightarrow> task_state list \<Rightarrow> after_notice \<Rightarrow> pc" where
  "NMark x0 x1 x2 x3 \<equiv> PSettle (AtNMark x0 x1 x2 x3)"

abbreviation NAfter :: "nat \<Rightarrow> after_notice \<Rightarrow> pc" where
  "NAfter x0 x1 \<equiv> PSettle (AtNAfter x0 x1)"

abbreviation SClose :: "nat \<Rightarrow> task_state list \<Rightarrow> closer \<Rightarrow> pc" where
  "SClose x0 x1 x2 \<equiv> PSettle (AtSClose x0 x1 x2)"

abbreviation SDelete :: "nat \<Rightarrow> closer \<Rightarrow> pc" where
  "SDelete x0 x1 \<equiv> PSettle (AtSDelete x0 x1)"

abbreviation TStart :: "string \<Rightarrow> string option \<Rightarrow> pc" where
  "TStart x0 x1 \<equiv> PStop (AtTStart x0 x1)"

abbreviation TSettle :: "nat \<Rightarrow> string \<Rightarrow> pc" where
  "TSettle x0 x1 \<equiv> PStop (AtTSettle x0 x1)"

abbreviation TRun :: "nat \<Rightarrow> string \<Rightarrow> pc" where
  "TRun x0 x1 \<equiv> PStop (AtTRun x0 x1)"

abbreviation TCold :: "string \<Rightarrow> string option \<Rightarrow> pc" where
  "TCold x0 x1 \<equiv> PStop (AtTCold x0 x1)"

abbreviation DFire :: "task_ref \<Rightarrow> pc" where
  "DFire x0 \<equiv> PStop (AtDFire x0)"

abbreviation DSettle :: "nat \<Rightarrow> string option \<Rightarrow> pc" where
  "DSettle x0 x1 \<equiv> PStop (AtDSettle x0 x1)"

abbreviation UStart :: "string option \<Rightarrow> submit_input \<Rightarrow> pc" where
  "UStart x0 x1 \<equiv> PSubmit (AtUStart x0 x1)"

abbreviation USpawnPlain :: "pc" where
  "USpawnPlain \<equiv> PSubmit (AtUSpawnPlain)"

abbreviation UOpen :: "string \<Rightarrow> string \<Rightarrow> submit_input \<Rightarrow> pc" where
  "UOpen x0 x1 x2 \<equiv> PSubmit (AtUOpen x0 x1 x2)"

abbreviation USubmit :: "nat \<Rightarrow> string \<Rightarrow> submit_input \<Rightarrow> pc" where
  "USubmit x0 x1 x2 \<equiv> PSubmit (AtUSubmit x0 x1 x2)"

abbreviation USpawn :: "nat \<Rightarrow> string \<Rightarrow> submit_input \<Rightarrow> pc" where
  "USpawn x0 x1 x2 \<equiv> PSubmit (AtUSpawn x0 x1 x2)"

abbreviation USpawned :: "nat \<Rightarrow> string \<Rightarrow> string \<Rightarrow> pc" where
  "USpawned x0 x1 x2 \<equiv> PSubmit (AtUSpawned x0 x1 x2)"

abbreviation UFailed :: "nat \<Rightarrow> string \<Rightarrow> pc" where
  "UFailed x0 x1 \<equiv> PSubmit (AtUFailed x0 x1)"

abbreviation UDispatched :: "nat \<Rightarrow> string \<Rightarrow> string \<Rightarrow> pc" where
  "UDispatched x0 x1 x2 \<equiv> PSubmit (AtUDispatched x0 x1 x2)"

abbreviation AStart :: "pc" where
  "AStart \<equiv> PSession (AtAStart)"

abbreviation ALoop :: "string list \<Rightarrow> pc" where
  "ALoop x0 \<equiv> PSession (AtALoop x0)"

abbreviation BStart :: "string \<Rightarrow> pc" where
  "BStart x0 \<equiv> PSession (AtBStart x0)"

abbreviation BRuns :: "string \<Rightarrow> string list \<Rightarrow> pc" where
  "BRuns x0 x1 \<equiv> PSession (AtBRuns x0 x1)"

abbreviation BHeader :: "nat \<Rightarrow> string \<Rightarrow> string list \<Rightarrow> pc" where
  "BHeader x0 x1 x2 \<equiv> PSession (AtBHeader x0 x1 x2)"

abbreviation BDisk :: "string \<Rightarrow> string list \<Rightarrow> pc" where
  "BDisk x0 x1 \<equiv> PSession (AtBDisk x0 x1)"

abbreviation VStart :: "pc" where
  "VStart \<equiv> PSession (AtVStart)"

abbreviation VClose :: "string list \<Rightarrow> pc" where
  "VClose x0 \<equiv> PSession (AtVClose x0)"

abbreviation XStart :: "pc" where
  "XStart \<equiv> PRecover (AtXStart)"

abbreviation XScan :: "scan \<Rightarrow> pc" where
  "XScan x0 \<equiv> PRecover (AtXScan x0)"

abbreviation RDispatch :: "nat \<Rightarrow> task_state list \<Rightarrow> scan \<Rightarrow> pc" where
  "RDispatch x0 x1 x2 \<equiv> PRecover (AtRDispatch x0 x1 x2)"

abbreviation RSpawned :: "nat \<Rightarrow> task_state \<Rightarrow> task_state list \<Rightarrow> scan \<Rightarrow> pc" where
  "RSpawned x0 x1 x2 x3 \<equiv> PRecover (AtRSpawned x0 x1 x2 x3)"

abbreviation RDispatched :: "nat \<Rightarrow> string \<Rightarrow> scan \<Rightarrow> pc" where
  "RDispatched x0 x1 x2 \<equiv> PRecover (AtRDispatched x0 x1 x2)"

abbreviation RTasks :: "nat \<Rightarrow> task_state list \<Rightarrow> scan \<Rightarrow> pc" where
  "RTasks x0 x1 x2 \<equiv> PRecover (AtRTasks x0 x1 x2)"

abbreviation RVerify :: "nat \<Rightarrow> string \<Rightarrow> task_state list \<Rightarrow> scan \<Rightarrow> pc" where
  "RVerify x0 x1 x2 x3 \<equiv> PRecover (AtRVerify x0 x1 x2 x3)"

abbreviation RFinal :: "nat \<Rightarrow> task_state list \<Rightarrow> scan \<Rightarrow> pc" where
  "RFinal x0 x1 x2 \<equiv> PRecover (AtRFinal x0 x1 x2)"

abbreviation RTask :: "nat \<Rightarrow> task_state \<Rightarrow> string \<Rightarrow> string \<Rightarrow> task_state list \<Rightarrow> scan \<Rightarrow> pc" where
  "RTask x0 x1 x2 x3 x4 x5 \<equiv> PRecover (AtRTask x0 x1 x2 x3 x4 x5)"

abbreviation RKick :: "nat \<Rightarrow> task_state \<Rightarrow> string \<Rightarrow> task_state list \<Rightarrow> scan \<Rightarrow> pc" where
  "RKick x0 x1 x2 x3 x4 \<equiv> PRecover (AtRKick x0 x1 x2 x3 x4)"

fun on_throw :: "kont \<Rightarrow> pc" where
  "on_throw (KCycle agentId) = PSettleFailed agentId"
| "on_throw _ = PThrown"

fun on_return :: "kont \<Rightarrow> pc" where
  "on_return (KCycle _) = PDone ROk"
| "on_return (KStop taskId) = PDone (RText (''stopped '' @ taskId @ '' (run settled: cancelled)''))"
| "on_return KFire = PDone ROk"
| "on_return (KDispatchFailed reason) = PDone (RRefused reason)"
| "on_return (KRec i rest sc) = RTasks i rest sc"

fun notice_throw :: "after_notice \<Rightarrow> pc" where
  "notice_throw (NSettle _ k) = on_throw k"
| "notice_throw _ = PThrown"

definition go :: "rt \<times> bool \<Rightarrow> pc \<Rightarrow> pc \<Rightarrow> rt \<times> pc" where
  \<comment> \<open>after an append\<close>
  "go r next thrown = (fst r, if snd r then next else thrown)"

subsection \<open>\<open>onCycleEnd\<close> and \<open>consumeVerdict\<close>\<close>

definition cycle_start :: "task_ref \<Rightarrow> managed_report \<Rightarrow> kont \<Rightarrow> answer \<Rightarrow> rt \<Rightarrow> rt \<times> pc" where
  "cycle_start ref report k a s =
     (case map_get (rt_runs s) (fst ref) of
        None \<Rightarrow> (s, on_return k)
      | Some i \<Rightarrow>
          (case task_of s i (snd ref) of
             None \<Rightarrow> (s, on_return k)
           | Some t \<Rightarrow>
               if wt_status t = Settled then (s, on_return k)
               else if mr_outcome report \<noteq> RoCompleted
               then go (append (an_disk a) i (settled_event (snd ref) Failed ChildFailed (Some (mr_detail report))) s)
                      (FStart i k) (on_throw k)
               else (s, CTiers i ref report t (tierChain (wt_spec t)) [] k)))"

definition evidence_tail :: "managed_report \<Rightarrow> string option" where
  "evidence_tail report = map_option (take 34000) (mr_summary report)"

definition passed_event :: "task_ref \<Rightarrow> managed_report \<Rightarrow> string \<Rightarrow> wf_event" where
  "passed_event ref report label =
     TaskSettled (snd ref) Completed (Some (label @ '':accept'')) None (evidence_tail report) None"

fun cycle_tiers ::
  "wf_env \<Rightarrow> nat \<Rightarrow> task_ref \<Rightarrow> managed_report \<Rightarrow> task_state \<Rightarrow> tier list \<Rightarrow> string \<Rightarrow> kont \<Rightarrow> answer \<Rightarrow> rt \<Rightarrow> rt \<times> pc" where
  "cycle_tiers e i ref report t [] label k a s =
     go (append (an_disk a) i (passed_event ref report label) s) (FStart i k) (on_throw k)"
| "cycle_tiers e i ref report t (TSchema # rest) label k a s =
     (case sp_resultSchema (wt_spec t) of
        None \<Rightarrow> (s, CTiers i ref report t rest label k)
      | Some schema \<Rightarrow>
          let r = schemaTierVerdict e t report schema in
          (s, CConsume i ref report t TSchema (fst r) (snd r) rest k))"
| "cycle_tiers e i ref report t (TCommand # rest) label k a s =
     (case sp_acceptance (wt_spec t) of
        None \<Rightarrow> (s, CTiers i ref report t rest label k)
      | Some _ \<Rightarrow>
          let attempt = wt_verifyAttempts t + 1 in
          go (append (an_disk a) i (VerifyStarted (snd ref) TCommand attempt) s)
             (CVerify i ref report t rest attempt k) (on_throw k))"
| "cycle_tiers e i ref report t (TCritic # rest) label k a s =
     (case sp_critic (wt_spec t) of
        None \<Rightarrow> (s, CTiers i ref report t rest label k)
      | Some (ty, focus) \<Rightarrow>
          ((if we_view e
            then call (CallSpawn (rt_main s) (''critic: '' @ snd ref)
              (criticDispatchPrompt (we_stringify e)
                (case mr_summary report of None \<Rightarrow> ''(no deliverable text)'' | Some d \<Rightarrow> d) focus (sp_prompt (wt_spec t)))) s
            else s),
           CCritic i ref report t rest k))"

definition cycle_verify ::
  "wf_env \<Rightarrow> nat \<Rightarrow> task_ref \<Rightarrow> managed_report \<Rightarrow> task_state \<Rightarrow> tier list \<Rightarrow> nat \<Rightarrow> kont \<Rightarrow> answer \<Rightarrow> rt \<Rightarrow> rt \<times> pc" where
  "cycle_verify e i ref report t rest attempt k a s =
     (let v = verifyResult (an_proc a); r = commandTierVerdict e t v in
      go (append (an_disk a) i (VerifyResult (snd ref) TCommand attempt (vr_outcome v) (vr_exitCode v)) s)
         (CConsume i ref report t TCommand (fst r) (snd r) rest k)
         (if in_try (an_proc a) then CVerifyCatch i ref report t rest attempt k else on_throw k))"

definition cycle_verify_catch ::
  "wf_env \<Rightarrow> nat \<Rightarrow> task_ref \<Rightarrow> managed_report \<Rightarrow> task_state \<Rightarrow> tier list \<Rightarrow> nat \<Rightarrow> kont \<Rightarrow> answer \<Rightarrow> rt \<Rightarrow> rt \<times> pc" where
  "cycle_verify_catch e i ref report t rest attempt k a s =
     (let v = verifyResult (PrThrew (an_error a)); r = commandTierVerdict e t v in
      go (append (an_disk a) i (VerifyResult (snd ref) TCommand attempt VUnknown None) s)
         (CConsume i ref report t TCommand (fst r) (snd r) rest k) (on_throw k))"

definition cycle_critic ::
  "wf_env \<Rightarrow> nat \<Rightarrow> task_ref \<Rightarrow> managed_report \<Rightarrow> task_state \<Rightarrow> tier list \<Rightarrow> kont \<Rightarrow> answer \<Rightarrow> rt \<Rightarrow> rt \<times> pc" where
  "cycle_critic e i ref report t rest k a s =
     (let r = criticTierVerdict e t (proposal_of e (an_critic a)) in
      ((case critic_agent (an_critic a) of
          Some agent \<Rightarrow> if we_view e then call (CallSettle agent ''critic-done'') s else s
        | None \<Rightarrow> s),
       CConsume i ref report t TCritic (fst r) (snd r) rest k))"

definition cycle_consume ::
  "wf_env \<Rightarrow> nat \<Rightarrow> task_ref \<Rightarrow> managed_report \<Rightarrow> task_state \<Rightarrow> tier \<Rightarrow> verdict \<Rightarrow> string list \<Rightarrow> tier list \<Rightarrow> kont \<Rightarrow>
     answer \<Rightarrow> rt \<Rightarrow> rt \<times> pc" where
  "cycle_consume e i ref report t tier v violations rest k a s =
     (case v of
        Accept \<Rightarrow> (s, CTiers i ref report t rest (tier_name tier) k)
      | Fail reason \<Rightarrow>
          go (append (an_disk a) i
                (TaskSettled (snd ref) Failed (Some (tier_name tier @ '':budget-exhausted'')) (Some reason) None None) s)
             (FStart i k) (on_throw k)
      | Reject _ \<Rightarrow>
          let attempt = attemptOf tier (task_of s i (snd ref)) + 1;
              ev = (if tier = TCritic then TaskReopened (snd ref) attempt
                    else RepairIssued (snd ref) tier attempt (Some violations) None);
              schema = (case sp_resultSchema (wt_spec t) of None \<Rightarrow> JUndef | Some x \<Rightarrow> x)
          in go (append (an_disk a) i ev s)
               (CSend i ref report (feedbackTextOf (we_stringify e) tier (snd ref) attempt violations schema) k) (on_throw k))"

definition cycle_send :: "wf_env \<Rightarrow> nat \<Rightarrow> task_ref \<Rightarrow> managed_report \<Rightarrow> string \<Rightarrow> kont \<Rightarrow> rt \<Rightarrow> rt \<times> pc" where
  \<comment> \<open>\<open>steerChild\<close>\<close>
  "cycle_send e i ref report txt k s =
     (if map_get (rt_runs s) (fst ref) = None \<or> \<not> we_view e then (s, CSent i ref False k)
      else (call (CallMessage (rt_main s) (mr_agentId report) txt) s, CSent i ref True k))"

definition cycle_sent :: "nat \<Rightarrow> task_ref \<Rightarrow> bool \<Rightarrow> kont \<Rightarrow> answer \<Rightarrow> rt \<Rightarrow> rt \<times> pc" where
  "cycle_sent i ref driven k a s =
     (case (if driven then an_sent a else Some ''run not driven here'') of
        None \<Rightarrow> (s, on_return k)
      | Some reason \<Rightarrow>
          go (append (an_disk a) i (settled_event (snd ref) Failed SettleFailed (Some (''repair feedback undeliverable: '' @ reason))) s)
             (FStart i k) (on_throw k))"

subsection \<open>\<open>finalizeRun\<close>, \<open>settleRun\<close> and \<open>deliverNotification\<close>\<close>

definition settle_run :: "nat \<Rightarrow> outcome \<Rightarrow> string \<Rightarrow> kont \<Rightarrow> answer \<Rightarrow> rt \<Rightarrow> rt \<times> pc" where
  "settle_run i outc detail k a s =
     go (append (an_disk a) i (RunSettled outc detail) s) (NSend i (NSettle outc k)) (on_throw k)"

definition finalize_ready :: "nat \<Rightarrow> kont \<Rightarrow> answer \<Rightarrow> rt \<Rightarrow> rt \<times> pc" where
  "finalize_ready i k a s =
     (let ready = runReadyToSettle (ar_snapshot (obj s i)) in
      if fst ready
      then settle_run i (snd ready) (if snd ready = Completed then ''all tasks settled'' else ''task failed'') k a s
      else (s, on_return k))"

fun finalize_doomed :: "nat \<Rightarrow> string list \<Rightarrow> kont \<Rightarrow> answer \<Rightarrow> rt \<Rightarrow> rt \<times> pc" where
  "finalize_doomed i [] k a s = finalize_ready i k a s"
| "finalize_doomed i (taskId # ids) k a s =
     (case task_of s i taskId of
        None \<Rightarrow> finalize_doomed i ids k a s
      | Some t \<Rightarrow>
          if wt_status t = Settled then finalize_doomed i ids k a s
          else go (append (an_disk a) i (settled_event taskId Cancelled DependencyFailed (Some ''a dependency did not complete'')) s)
                 (FDoomed i ids k) (on_throw k))"

definition readinessOf :: "snapshot \<Rightarrow> string list" where
  "readinessOf sn = rr_dependencyDoomed (readiness sn 10000 0)"

definition finalize_run :: "nat \<Rightarrow> kont \<Rightarrow> answer \<Rightarrow> rt \<Rightarrow> rt \<times> pc" where
  "finalize_run i k a s = finalize_doomed i (readinessOf (ar_snapshot (obj s i))) k a s"

fun mark_notified :: "nat \<Rightarrow> string \<Rightarrow> task_state list \<Rightarrow> after_notice \<Rightarrow> answer \<Rightarrow> rt \<Rightarrow> rt \<times> pc" where
  "mark_notified i parent [] n a s = (s, NAfter i n)"
| "mark_notified i parent (t # ts) n a s =
     (if to_notify (ar_snapshot (obj s i)) t
      then go (append (an_disk a) i (NotifyDelivered (wt_taskId t) parent) s) (NMark i parent ts n) (notice_throw n)
      else mark_notified i parent ts n a s)"

definition deliver :: "nat \<Rightarrow> after_notice \<Rightarrow> answer \<Rightarrow> rt \<Rightarrow> rt \<times> pc" where
  "deliver i n a s =
     (let parent = ar_parent (obj s i); runId = ar_runId (obj s i); sn = ar_snapshot (obj s i) in
      if \<not> an_handle a then (s, NAfter i n)
      else if notificationText runId sn = [] then (s, NAfter i n)
      else if \<not> an_notify a then (s, NAfter i n)
      else mark_notified i parent (tasks_of s i) n a (call (CallNotify parent (notification runId sn)) s))"

subsection \<open>Closing a run\<close>

fun closing_reason :: "closer \<Rightarrow> string" where
  "closing_reason (ClSettle outc _) = ''run-'' @ outcome_name outc"
| "closing_reason _ = ''run-recovered''"

definition drop_agent :: "task_state \<Rightarrow> closer \<Rightarrow> rt \<Rightarrow> rt" where
  \<comment> \<open>\<open>tasks.delete\<close> after a child is settled; the recovery leaves this to \<open>detach\<close>\<close>
  "drop_agent t c s =
     (case c of ClRec _ _ \<Rightarrow> s | _ \<Rightarrow> s\<lparr>rt_agents := map_delete (rt_agents s) (or_text (wt_agentId t) [])\<rparr>)"

fun close_loop :: "wf_env \<Rightarrow> nat \<Rightarrow> task_state list \<Rightarrow> closer \<Rightarrow> rt \<Rightarrow> rt \<times> pc" where
  \<comment> \<open>settles the children one by one, then closes the writer\<close>
  "close_loop e i [] c s = (close_writer i s, SDelete i c)"
| "close_loop e i (t # ts) c s =
     (let s' = (case c of ClSettle _ _ \<Rightarrow> clearDeadline (ar_runId (obj s i), wt_taskId t) s | _ \<Rightarrow> s) in
      case wt_agentId t of
        Some agent \<Rightarrow>
          if we_view e then (call (CallSettle agent (closing_reason c)) s', SClose i (t # ts) c)
          else close_loop e i ts c (drop_agent t c s')
      | None \<Rightarrow> close_loop e i ts c (drop_agent t c s'))"

definition detach :: "string \<Rightarrow> rt \<Rightarrow> rt" where
  "detach runId s =
     (case map_get (rt_runs s) runId of
        None \<Rightarrow> s
      | Some i \<Rightarrow>
          s\<lparr>rt_agents := filter (\<lambda>p. fst p \<notin> set (concat (map (\<lambda>t. case wt_agentId t of None \<Rightarrow> [] | Some g \<Rightarrow> [g]) (tasks_of s i))))
              (rt_agents s),
            rt_runs := map_delete (rt_runs s) runId\<rparr>)"

definition closed_run :: "nat \<Rightarrow> closer \<Rightarrow> rt \<Rightarrow> rt \<times> pc" where
  "closed_run i c s =
     (let runId = ar_runId (obj s i); s' = s\<lparr>rt_runs := map_delete (rt_runs s) runId\<rparr> in
      case c of
        ClSettle _ k \<Rightarrow> (s', on_return k)
      | ClAlive seen \<Rightarrow> (s', ALoop seen)
      | ClRec rest sc \<Rightarrow> (detach runId s, RTasks i rest sc))"

subsection \<open>Recovery\<close>

datatype child_terminal = ChCompleted | ChInterrupted | ChNeverStarted | ChAbnormal string

definition str_field :: "jsval \<Rightarrow> string \<Rightarrow> string option" where
  \<comment> \<open>these fields of a reason are strings where they are present\<close>
  "str_field v k = (case field v k of JStr x \<Rightarrow> Some x | _ \<Rightarrow> None)"

record child_scan =
  ch_end :: "jsval option"
  ch_open :: bool
  ch_user :: bool

definition child_event :: "sevent \<Rightarrow> child_scan \<Rightarrow> child_scan" where
  "child_event ev c =
     (if ev_type ev = ''turn/start'' then c\<lparr>ch_open := True\<rparr>
      else if ev_type ev = ''turn/end'' then
        let reason = field (ev_data ev) ''reason'' in
        c\<lparr>ch_open := False,
          ch_end := Some (if reason = JUndef \<or> reason = JNull then JObj [(''kind'', JStr ''error'')] else reason)\<rparr>
      else if ev_type ev = ''user/message'' then c\<lparr>ch_user := True\<rparr>
      else c)"

definition classifyChildTerminal :: "sevent list \<Rightarrow> child_terminal" where
  "classifyChildTerminal evs =
     (let c = fold child_event evs \<lparr>ch_end = None, ch_open = False, ch_user = False\<rparr> in
      if ch_open c then ChInterrupted
      else if \<not> ch_user c then ChNeverStarted
      else case ch_end c of
        None \<Rightarrow> ChNeverStarted
      | Some r \<Rightarrow>
          let kind = or_text (str_field r ''kind'') ''error'' in
          if kind = ''completed'' then ChCompleted
          else ChAbnormal (or_text (str_field r ''message'') (or_text (str_field r ''reason'') (or_text (str_field r ''code'') kind))))"

definition markerMaterialized :: "(jsval \<Rightarrow> string) \<Rightarrow> sevent list \<Rightarrow> string \<Rightarrow> bool" where
  "markerMaterialized stringify evs m =
     list_ex (\<lambda>ev. ev_type ev = ''user/message'' \<and> str_includes (stringify (ev_data ev)) m) evs"

definition text_blocks :: "jsval \<Rightarrow> string" where
  "text_blocks content =
     (case content of
        JArr blocks \<Rightarrow>
          concat (map (\<lambda>b. if field b ''type'' = JStr ''text'' then or_text (str_field b ''text'') [] else []) blocks)
      | _ \<Rightarrow> [])"

definition lastAssistantText :: "sevent list \<Rightarrow> string option" where
  "lastAssistantText evs =
     (case filter (\<lambda>ev. ev_type ev = ''assistant/message'') (rev evs) of
        [] \<Rightarrow> None
      | ev # _ \<Rightarrow>
          let txt = text_blocks (field (ev_data ev) ''content'') in
          if txt = [] then None else Some txt)"

fun recover_tasks :: "wf_env \<Rightarrow> nat \<Rightarrow> task_state list \<Rightarrow> scan \<Rightarrow> answer \<Rightarrow> rt \<Rightarrow> rt \<times> pc" where
  "recover_tasks e i [] sc a s = (s, XScan (fst sc, fst (snd sc) + 1, snd (snd sc)))"
| "recover_tasks e i (t # ts) sc a s =
     (if wt_status t = Settled then
        (if wt_taskId t \<notin> set (rs_notified (ar_snapshot (obj s i)))
         then deliver i (NRecTask ts sc) a s
         else if all_notified (ar_snapshot (obj s i)) \<and> rs_status (ar_snapshot (obj s i)) = RunDone
         then (close_writer i s, SDelete i (ClRec ts sc))
         else recover_tasks e i ts sc a s)
      else
        (case (wt_agentId t, wt_sessionId t) of
           (Some agent, Some session) \<Rightarrow>
             if wt_status t = Verifying
             then go (append (an_disk a) i (VerifyResult (wt_taskId t) TCommand (wt_verifyAttempts t) VUnknown None) s)
                    (RVerify i (wt_taskId t) ts sc) PThrown
             else if \<not> we_archive e then (s, PThrown)
             else (s, RTask i t agent session ts sc)
         | _ \<Rightarrow> recover_tasks e i ts sc a s))"

definition recover_verify :: "nat \<Rightarrow> string \<Rightarrow> task_state list \<Rightarrow> scan \<Rightarrow> answer \<Rightarrow> rt \<Rightarrow> rt \<times> pc" where
  "recover_verify i taskId ts sc a s =
     go (append (an_disk a) i
           (settled_event taskId Failed VerifyUnknown
             (Some (''verification interrupted by crash (command may have run '' @ [CHR 226, CHR 128, CHR 148] @ '' not retried)''))) s)
        (RFinal i ts sc) PThrown"

definition finalizeAfterRecovery :: "wf_env \<Rightarrow> nat \<Rightarrow> task_state list \<Rightarrow> scan \<Rightarrow> answer \<Rightarrow> rt \<Rightarrow> rt \<times> pc" where
  "finalizeAfterRecovery e i ts sc a s =
     (let ready = runReadyToSettle (ar_snapshot (obj s i)) in
      if fst ready
      then go (append (an_disk a) i (RunSettled (snd ready) ''recovered'') s) (NSend i (NRecEnd ts sc)) PThrown
      else recover_tasks e i ts sc a s)"

definition deliverToAcceptance ::
  "nat \<Rightarrow> string \<Rightarrow> string \<Rightarrow> sevent list \<Rightarrow> task_state list \<Rightarrow> scan \<Rightarrow> answer \<Rightarrow> rt \<Rightarrow> rt \<times> pc" where
  "deliverToAcceptance i agent session evs ts sc a s =
     cycle_start
       (ar_runId (obj s i), case map_get (rt_agents s) agent of Some ref \<Rightarrow> snd ref | None \<Rightarrow> ''t1'')
       \<lparr>mr_agentId = agent, mr_sessionId = session, mr_outcome = RoCompleted,
        mr_detail = ''recovered: deliverable already in child transcript'', mr_summary = lastAssistantText evs\<rparr>
       (KRec i ts sc) a s"

definition reviveAndKick :: "wf_env \<Rightarrow> nat \<Rightarrow> task_state \<Rightarrow> string \<Rightarrow> task_state list \<Rightarrow> scan \<Rightarrow> rt \<Rightarrow> rt \<times> pc" where
  "reviveAndKick e i t agent ts sc s =
     (if \<not> we_view e then (s, RTasks i ts sc)
      else (call (CallRevive (rt_main s) agent) s, RKick i t agent ts sc))"

definition recoverTask ::
  "wf_env \<Rightarrow> nat \<Rightarrow> task_state \<Rightarrow> string \<Rightarrow> string \<Rightarrow> sevent list \<Rightarrow> task_state list \<Rightarrow> scan \<Rightarrow> answer \<Rightarrow> rt \<Rightarrow> rt \<times> pc" where
  "recoverTask e i t agent session evs ts sc a s =
     (case classifyChildTerminal evs of
        ChAbnormal detail \<Rightarrow>
          go (append (an_disk a) i (settled_event (wt_taskId t) Failed ChildFailed (Some detail)) s) (RFinal i ts sc) PThrown
      | terminal \<Rightarrow>
          if wt_status t = Repairing then
            (if terminal = ChCompleted \<or> markerMaterialized (we_stringify e) evs (marker (wt_taskId t) (wt_repairs t))
             then deliverToAcceptance i agent session evs ts sc a s
             else reviveAndKick e i t agent ts sc s)
          else if terminal = ChCompleted then deliverToAcceptance i agent session evs ts sc a s
          else reviveAndKick e i t agent ts sc s)"

definition recover_kick :: "wf_env \<Rightarrow> nat \<Rightarrow> task_state \<Rightarrow> string \<Rightarrow> task_state list \<Rightarrow> scan \<Rightarrow> answer \<Rightarrow> rt \<Rightarrow> rt \<times> pc" where
  "recover_kick e i t agent ts sc a s =
     (if an_revived a
      then (call (CallMessage (rt_main s) agent (continueKickText (wt_taskId t))) s, RTasks i ts sc)
      else recover_tasks e i ts sc a s)"

fun redispatch_loop :: "wf_env \<Rightarrow> nat \<Rightarrow> task_state list \<Rightarrow> scan \<Rightarrow> answer \<Rightarrow> rt \<Rightarrow> rt \<times> pc" where
  "redispatch_loop e i [] sc a s = (s, RTasks i (tasks_of s i) sc)"
| "redispatch_loop e i (t # ts) sc a s =
     (if wt_status t \<noteq> Submitted \<or> task_verdict (ar_snapshot (obj s i)) t \<noteq> DepReady
      then redispatch_loop e i ts sc a s
      else (call (CallSpawn (ar_parent (obj s i)) (sp_description (wt_spec t))
              (dispatchPrompt (we_stringify e) (sp_prompt (wt_spec t)) (sp_resultSchema (wt_spec t)))) s,
            RSpawned i t ts sc))"

definition redispatch_spawned :: "nat \<Rightarrow> task_state \<Rightarrow> task_state list \<Rightarrow> scan \<Rightarrow> answer \<Rightarrow> rt \<Rightarrow> rt \<times> pc" where
  "redispatch_spawned i t ts sc a s =
     (case an_spawn a of
        Inl reason \<Rightarrow>
          go (append (an_disk a) i (settled_event (wt_taskId t) Failed DispatchFailed (Some reason)) s) (RDispatch i ts sc) PThrown
      | Inr (agent, session, _) \<Rightarrow>
          go (append (an_disk a) i (TaskDispatched (wt_taskId t) agent session)
                (s\<lparr>rt_agents := map_set (rt_agents s) agent (ar_runId (obj s i), wt_taskId t)\<rparr>))
             (RDispatched i (wt_taskId t) sc) PThrown)"

definition fold_disk :: "disk_run \<Rightarrow> snapshot option" where
  \<comment> \<open>\<open>readRun\<close>: \<open>None\<close> when the journal is frozen or empty\<close>
  "fold_disk d = (case fold_journal (dk_events d) of Inr (Some sn) \<Rightarrow> Some sn | _ \<Rightarrow> None)"

definition warmColdIndex :: "snapshot \<Rightarrow> rt \<Rightarrow> rt" where
  "warmColdIndex sn s = s\<lparr>rt_cold := fold (\<lambda>taskId m. map_set m taskId (rs_parentSession sn)) (map_keys (rs_tasks sn)) (rt_cold s)\<rparr>"

definition attach_task :: "string \<Rightarrow> task_state \<Rightarrow> rt \<Rightarrow> rt" where
  "attach_task runId t s =
     (let s' = (case wt_agentId t of
          None \<Rightarrow> s
        | Some agent \<Rightarrow> s\<lparr>rt_agents := map_set (rt_agents s) agent (runId, wt_taskId t)\<rparr>)
      in if wt_status t = Settled then s' else armDeadline (runId, wt_taskId t) s')"

definition attach :: "nat \<Rightarrow> rt \<Rightarrow> rt" where
  "attach i s =
     fold (attach_task (ar_runId (obj s i))) (tasks_of s i)
       (s\<lparr>rt_runs := map_set (rt_runs s) (ar_runId (obj s i)) i\<rparr>)"

definition open_run :: "string \<Rightarrow> string \<Rightarrow> snapshot \<Rightarrow> rt \<Rightarrow> rt" where
  \<comment> \<open>the lock, the writer and the object\<close>
  "open_run runId parent sn s =
     set_disk runId (\<lambda>d. d\<lparr>dk_locked := True\<rparr>)
       (s\<lparr>rt_objs := rt_objs s @ [\<lparr>ar_runId = runId, ar_parent = parent, ar_closed = False, ar_snapshot = sn\<rparr>]\<rparr>)"

definition recoverRun :: "wf_env \<Rightarrow> nat \<Rightarrow> scan \<Rightarrow> answer \<Rightarrow> rt \<Rightarrow> rt \<times> pc" where
  "recoverRun e i sc a s =
     (if list_ex (\<lambda>t. wt_status t = Submitted) (tasks_of s i) \<and> we_view e \<and> an_handle a
      then redispatch_loop e i (tasks_of s i) sc a s
      else recover_tasks e i (tasks_of s i) sc a s)"

fun scanAndRecover :: "wf_env \<Rightarrow> scan \<Rightarrow> answer \<Rightarrow> rt \<Rightarrow> rt \<times> pc" where
  "scanAndRecover e ([], claimed, skipped) a s = (s, PDone (RScan claimed skipped))"
| "scanAndRecover e (runId # entries, claimed, skipped) a s =
     (let skip = XScan (entries, claimed, skipped + 1) in
      case map_get (rt_disk s) runId of
        None \<Rightarrow> (s, skip)
      | Some d \<Rightarrow>
          (case fold_disk d of
             None \<Rightarrow> (s, skip)
           | Some sn \<Rightarrow>
               let s = warmColdIndex sn s in
               if dk_parent d \<noteq> we_main e \<or> dk_version d \<noteq> workflowPluginVersion then (s, skip)
               else if rs_status sn = RunDone \<and> \<not> list_ex (to_notify sn) (task_values sn) then (s, skip)
               else if \<not> we_archive e \<and> rs_status sn \<noteq> RunDone then (s, skip)
               else if dk_locked d \<or> an_frozen a \<noteq> None then (s, skip)
               else
                 let i = length (rt_objs s) in
                 recoverRun e i (entries, claimed, skipped) a (attach i (open_run runId (dk_parent d) sn s))))"

end
