(* ===== verification/WorkSystem.thy ===== *)
theory WorkSystem
  imports WorkRuntime
begin

text \<open>
  The entries of the runtime (\<open>submit\<close>, \<open>stopTask\<close>, \<open>rebind\<close>, \<open>onSessionAlive\<close>, \<open>dispose\<close>, the deadlines), the step
  from one place to the next, and the system of all handlers as a relation.
\<close>

subsection \<open>After a notification\<close>

fun alive_scan :: "(string \<times> nat) list \<Rightarrow> string list \<Rightarrow> answer \<Rightarrow> rt \<Rightarrow> rt \<times> pc" where
  "alive_scan [] seen a s = (s, PDone ROk)"
| "alive_scan ((r, i) # rest) seen a s =
     (let sn = ar_snapshot (obj s i) in
      if rs_status sn = RunDone \<and> list_ex (to_notify sn) (task_values sn)
      then deliver i (NAlive (seen @ [r])) a s
      else alive_scan rest (seen @ [r]) a s)"

definition onSessionAlive :: "string list \<Rightarrow> answer \<Rightarrow> rt \<Rightarrow> rt \<times> pc" where
  \<comment> \<open>the loop goes on with the runs it has not seen\<close>
  "onSessionAlive seen a s = alive_scan (filter (\<lambda>p. fst p \<notin> set seen) (rt_runs s)) seen a s"

definition after_notice_step :: "wf_env \<Rightarrow> nat \<Rightarrow> after_notice \<Rightarrow> answer \<Rightarrow> rt \<Rightarrow> rt \<times> pc" where
  "after_notice_step e i n a s =
     (let sn = ar_snapshot (obj s i) in
      case n of
        NSettle outc k \<Rightarrow>
          if all_notified sn then close_loop e i (tasks_of s i) (ClSettle outc k) s
          else (fold (\<lambda>t. clearDeadline (ar_runId (obj s i), wt_taskId t)) (tasks_of s i) s, on_return k)
      | NAlive seen \<Rightarrow>
          if all_notified sn then close_loop e i (tasks_of s i) (ClAlive seen) s
          else onSessionAlive seen a s
      | NRecTask ts sc \<Rightarrow>
          if all_notified sn \<and> rs_status sn = RunDone then (close_writer i s, SDelete i (ClRec ts sc))
          else recover_tasks e i ts sc a s
      | NRecEnd ts sc \<Rightarrow> close_loop e i (if we_view e then tasks_of s i else []) (ClRec ts sc) s)"

subsection \<open>\<open>stopTask\<close> and the deadline\<close>

definition owner_refusal :: "string \<Rightarrow> result" where
  "owner_refusal taskId = RRefused (''not-owner:'' @ taskId @ ''; this workflow task belongs to another session'')"

definition run_with_task :: "rt \<Rightarrow> string \<Rightarrow> nat option" where
  \<comment> \<open>the first driven run that has the task\<close>
  "run_with_task s taskId =
     (case filter (\<lambda>p. task_of s (snd p) taskId \<noteq> None) (rt_runs s) of
        [] \<Rightarrow> None
      | p # _ \<Rightarrow> Some (snd p))"

definition stop_settle :: "nat \<Rightarrow> string \<Rightarrow> answer \<Rightarrow> rt \<Rightarrow> rt \<times> pc" where
  "stop_settle i taskId a s =
     go (append (an_disk a) i (settled_event taskId Cancelled TaskStop None) s) (TRun i taskId) PThrown"

definition stopTask :: "string \<Rightarrow> string option \<Rightarrow> answer \<Rightarrow> rt \<Rightarrow> rt \<times> pc" where
  "stopTask taskId caller a s =
     (case run_with_task s taskId of
        None \<Rightarrow> (s, TCold taskId caller)
      | Some i \<Rightarrow>
          (case task_of s i taskId of
             None \<Rightarrow> (s, TCold taskId caller)
           | Some t \<Rightarrow>
               if caller \<noteq> None \<and> caller \<noteq> Some (ar_parent (obj s i)) then (s, PDone (owner_refusal taskId))
               else if wt_status t = Verifying
               then go (append (an_disk a) i (VerifyResult taskId TCommand (wt_verifyAttempts t) VUnknown None) s)
                      (TSettle i taskId) PThrown
               else stop_settle i taskId a s))"

definition cold_events :: "snapshot \<Rightarrow> string \<Rightarrow> wf_event list" where
  "cold_events sn taskId =
     (let ev = settled_event taskId Cancelled TaskStop None in
      case wf_step sn ev of
        Inl _ \<Rightarrow> [ev]
      | Inr before \<Rightarrow>
          if fst (runReadyToSettle before) then [ev, RunSettled Cancelled ''stopped by task_stop (cold)''] else [ev])"

fun cold_scan :: "wf_env \<Rightarrow> (string \<times> disk_run) list \<Rightarrow> string \<Rightarrow> string option \<Rightarrow> answer \<Rightarrow> rt \<Rightarrow> rt \<times> pc" where
  "cold_scan e [] taskId caller a s =
     (s, PDone (RRefused (''not-found:'' @ taskId @ ''; no in-flight workflow task matches'')))"
| "cold_scan e ((runId, d) # rest) taskId caller a s =
     (case fold_disk d of
        None \<Rightarrow> cold_scan e rest taskId caller a s
      | Some sn \<Rightarrow>
          (case map_get (rs_tasks sn) taskId of
             None \<Rightarrow> cold_scan e rest taskId caller a s
           | Some t \<Rightarrow>
               if wt_status t = Settled then cold_scan e rest taskId caller a s
               else if caller \<noteq> None \<and> caller \<noteq> Some (rs_parentSession sn) then (s, PDone (owner_refusal taskId))
               else if dk_locked d \<or> an_frozen a \<noteq> None
               then (s, PDone (RRefused (''busy:run '' @ runId @ '' is driven by another process'')))
               else if \<not> an_disk a then (s, PThrown)
               else
                 let s1 = write_events runId (cold_events sn taskId) s;
                     s2 = (case wt_agentId t of
                       Some agent \<Rightarrow> if we_view e then call (CallSettle agent ''task-stop-cold'') s1 else s1
                     | None \<Rightarrow> s1)
                 in (s2, PDone (RText (''stopped '' @ taskId @ '' (run settled: cancelled '' @ [CHR 226, CHR 128, CHR 148] @
                      '' journal-only, owning process converges)'')))))"

definition deadline_fire :: "wf_env \<Rightarrow> task_ref \<Rightarrow> answer \<Rightarrow> rt \<Rightarrow> rt \<times> pc" where
  "deadline_fire e ref a s =
     (case map_get (rt_runs s) (fst ref) of
        None \<Rightarrow> (s, PDone ROk)
      | Some i \<Rightarrow>
          (case task_of s i (snd ref) of
             None \<Rightarrow> (s, PDone ROk)
           | Some t \<Rightarrow>
               if wt_status t = Settled then (s, PDone ROk)
               else go (append (an_disk a) i
                      (settled_event (snd ref) Failed TaskDeadline
                        (Some (''task exceeded wall-clock deadline ('' @ show_nat (we_windowMs e) @ ''ms)''))) s)
                    (DSettle i (wt_agentId t)) PThrown))"

definition deadline_settle :: "wf_env \<Rightarrow> nat \<Rightarrow> string option \<Rightarrow> answer \<Rightarrow> rt \<Rightarrow> rt \<times> pc" where
  "deadline_settle e i agent a s =
     (case agent of
        Some g \<Rightarrow> if we_view e then (call (CallSettle g ''task-deadline'') s, FStart i KFire) else finalize_run i KFire a s
      | None \<Rightarrow> finalize_run i KFire a s)"

definition probeTask :: "rt \<Rightarrow> string \<Rightarrow> string option \<Rightarrow> string option + bool" where
  \<comment> \<open>\<open>Inl reason\<close> denied; \<open>Inr True\<close> a hit, \<open>Inr False\<close> a miss\<close>
  "probeTask s taskId caller =
     (if taskId = [] then Inl (Some ''invalid-args:task_id must be a non-empty string'')
      else case caller of
        None \<Rightarrow> Inl (Some ''invalid-args:workflow tasks are only available inside an agent session'')
      | Some c \<Rightarrow>
          (case run_with_task s taskId of
             Some i \<Rightarrow>
               if ar_parent (obj s i) \<noteq> c then Inl (Some (''not-owner:'' @ taskId @ ''; this workflow task belongs to another session''))
               else Inr True
           | None \<Rightarrow>
               (case map_get (rt_cold s) taskId of
                  None \<Rightarrow> Inr False
                | Some parent \<Rightarrow>
                    if parent \<noteq> c then Inl (Some (''not-owner:'' @ taskId @ ''; this workflow task belongs to another session''))
                    else Inr True)))"

subsection \<open>\<open>submit\<close>\<close>

definition gated :: "submit_input \<Rightarrow> bool" where
  "gated input \<longleftrightarrow>
     si_result_schema input \<noteq> None \<or> si_acceptance input \<noteq> None \<or> si_critic input \<noteq> None \<or>
     (case si_depends_on input of Some ds \<Rightarrow> ds \<noteq> [] | None \<Rightarrow> False)"

definition managedSubmit :: "string \<Rightarrow> submit_input \<Rightarrow> answer \<Rightarrow> rt \<Rightarrow> rt \<times> pc" where
  "managedSubmit caller input a s =
     (let deps = (case sp_dependsOn (specOf input) of None \<Rightarrow> [] | Some ds \<Rightarrow> ds) in
      case validateDependencies deps of
        Some reason \<Rightarrow> (s, PDone (RRefused reason))
      | None \<Rightarrow>
          if deps \<noteq> []
          then (s, PDone (RRefused (''invalid-args:depends_on entries not resolvable in this run (period 2 single-task runs '' @
                 [CHR 226, CHR 128, CHR 148] @ '' cross-task references land with multi-task runs): '' @ join_with '', '' deps)))
          else (s, UOpen (an_runId a) caller input))"

definition submit :: "wf_env \<Rightarrow> string option \<Rightarrow> submit_input \<Rightarrow> answer \<Rightarrow> rt \<Rightarrow> rt \<times> pc" where
  "submit e caller input a s =
     (case caller of
        None \<Rightarrow> (s, PDone (RRefused ''invalid-args:workflow tools are only available inside the main conversation''))
      | Some c \<Rightarrow>
          if \<not> we_view e
          then (s, PDone (RRefused ''invalid-args:no agent-delegation plugin is assembled (workflow requires it)''))
          else if \<not> gated input
          then (call (CallSpawn c (si_description input) (si_prompt input)) s, USpawnPlain)
          else if c \<noteq> rt_main s
          then (s, PDone (RRefused ''invalid-args:workflow_submit is only available from the main conversation (sub-agent submission lands in period 2)''))
          else managedSubmit c input a s)"

definition spawn_plain :: "answer \<Rightarrow> rt \<Rightarrow> rt \<times> pc" where
  "spawn_plain a s = (s, PDone (case an_spawn a of Inl reason \<Rightarrow> RRefused reason | Inr (_, _, txt) \<Rightarrow> RText txt))"

definition submit_open :: "wf_env \<Rightarrow> string \<Rightarrow> string \<Rightarrow> submit_input \<Rightarrow> answer \<Rightarrow> rt \<Rightarrow> rt \<times> pc" where
  "submit_open e runId caller input a s =
     (case an_frozen a of
        Some reason \<Rightarrow> (s, PDone (RRefused (''spawn-failed:journal '' @ reason)))
      | None \<Rightarrow>
          let i = length (rt_objs s);
              s1 = s\<lparr>rt_disk := map_set (rt_disk s) runId
                \<lparr>dk_parent = caller, dk_version = workflowPluginVersion, dk_events = [], dk_locked = False\<rparr>\<rparr>;
              s2 = open_run runId caller (initialSnapshot runId caller (we_cwd e)) s1;
              s3 = s2\<lparr>rt_runs := map_set (rt_runs s2) runId i\<rparr>
          in go (append (an_disk a) i (RunCreated runId caller (we_cwd e)) s3) (USubmit i caller input) PThrown)"

definition task_name :: "string \<Rightarrow> string" where
  "task_name runId = ''t-'' @ runId"

definition submit_task :: "nat \<Rightarrow> string \<Rightarrow> submit_input \<Rightarrow> answer \<Rightarrow> rt \<Rightarrow> rt \<times> pc" where
  "submit_task i caller input a s =
     go (append (an_disk a) i (TaskSubmitted (task_name (ar_runId (obj s i))) (specOf input)) s) (USpawn i caller input) PThrown"

definition submit_spawn :: "wf_env \<Rightarrow> nat \<Rightarrow> string \<Rightarrow> submit_input \<Rightarrow> rt \<Rightarrow> rt \<times> pc" where
  "submit_spawn e i caller input s =
     (call (CallSpawn caller (si_description input)
        (dispatchPrompt (we_stringify e) (si_prompt input) (si_result_schema input))) s,
      USpawned i (task_name (ar_runId (obj s i))) caller)"

definition submit_spawned :: "nat \<Rightarrow> string \<Rightarrow> string \<Rightarrow> answer \<Rightarrow> rt \<Rightarrow> rt \<times> pc" where
  "submit_spawned i taskId caller a s =
     (case an_spawn a of
        Inl reason \<Rightarrow>
          go (append (an_disk a) i (settled_event taskId Failed DispatchFailed (Some reason)) s) (UFailed i reason) PThrown
      | Inr (agent, session, txt) \<Rightarrow>
          let s' = s\<lparr>rt_cold := map_set (rt_cold s) taskId caller,
                rt_agents := map_set (rt_agents s) agent (ar_runId (obj s i), taskId)\<rparr>
          in go (append (an_disk a) i (TaskDispatched taskId agent session) s') (UDispatched i taskId txt) PThrown)"

definition submit_dispatched :: "nat \<Rightarrow> string \<Rightarrow> string \<Rightarrow> rt \<Rightarrow> rt \<times> pc" where
  "submit_dispatched i taskId txt s =
     (armDeadline (ar_runId (obj s i), taskId) s,
      PDone (RText (txt @ NL @ ''[workflow] taskId: '' @ taskId @ '' (run '' @ ar_runId (obj s i) @ '') '' @ [CHR 226, CHR 128, CHR 148] @
        '' reference it with task_stop; the [workflow-notification] will cite it.'')))"

subsection \<open>\<open>rebind\<close> and \<open>dispose\<close>\<close>

fun rebind_scan :: "string \<Rightarrow> (string \<times> nat) list \<Rightarrow> string list \<Rightarrow> answer \<Rightarrow> rt \<Rightarrow> rt \<times> pc" where
  "rebind_scan nextS [] seen a s = (s, BDisk nextS (map_keys (rt_disk s)))"
| "rebind_scan nextS ((r, i) # rest) seen a s =
     (if ar_parent (obj s i) = nextS then rebind_scan nextS rest (seen @ [r]) a s
      else go (append (an_disk a) i (RunRebound (ar_parent (obj s i)) nextS) s) (BHeader i nextS (seen @ [r])) PThrown)"

definition rebind_runs :: "string \<Rightarrow> string list \<Rightarrow> answer \<Rightarrow> rt \<Rightarrow> rt \<times> pc" where
  "rebind_runs nextS seen a s = rebind_scan nextS (filter (\<lambda>p. fst p \<notin> set seen) (rt_runs s)) seen a s"

definition rebind :: "string \<Rightarrow> answer \<Rightarrow> rt \<Rightarrow> rt \<times> pc" where
  "rebind nextS a s =
     (if nextS = rt_main s then (s, PDone ROk)
      else rebind_runs nextS [] a (s\<lparr>rt_main := nextS\<rparr>))"

definition rebind_header :: "nat \<Rightarrow> string \<Rightarrow> string list \<Rightarrow> rt \<Rightarrow> rt \<times> pc" where
  \<comment> \<open>the header in memory; \<open>rewriteHeaderParent\<close> replaces the one on disk\<close>
  "rebind_header i nextS seen s =
     (set_disk (ar_runId (obj s i)) (\<lambda>d. d\<lparr>dk_parent := nextS\<rparr>) (set_obj i (\<lambda>r. r\<lparr>ar_parent := nextS\<rparr>) s),
      BRuns nextS seen)"

definition rebind_cold :: "string \<Rightarrow> rt \<Rightarrow> rt" where
  "rebind_cold nextS s = s\<lparr>rt_cold := map (\<lambda>p. (fst p, nextS)) (rt_cold s)\<rparr>"

fun rebind_disk :: "string \<Rightarrow> string list \<Rightarrow> answer \<Rightarrow> rt \<Rightarrow> rt \<times> pc" where
  "rebind_disk nextS [] a s = (rebind_cold nextS s, ALoop [])"
| "rebind_disk nextS (runId # entries) a s =
     (let after = BDisk nextS entries in
      if map_get (rt_runs s) runId \<noteq> None then (s, after)
      else case map_get (rt_disk s) runId of
        None \<Rightarrow> (s, after)
      | Some d \<Rightarrow>
          (case fold_disk d of
             None \<Rightarrow> (s, after)
           | Some sn \<Rightarrow>
               if rs_parentSession sn = nextS \<or> dk_locked d \<or> an_frozen a \<noteq> None then (s, after)
               else
                 (set_disk runId (\<lambda>d. d\<lparr>dk_parent := nextS\<rparr>)
                    (if an_disk a then write_events runId [RunRebound (rs_parentSession sn) nextS] s else s),
                  after)))"

fun dispose_scan :: "(string \<times> nat) list \<Rightarrow> string list \<Rightarrow> rt \<Rightarrow> rt \<times> pc" where
  "dispose_scan [] seen s = (s\<lparr>rt_runs := [], rt_agents := []\<rparr>, PDone ROk)"
| "dispose_scan ((r, i) # rest) seen s = (close_writer i s, VClose (seen @ [r]))"

definition dispose_runtime :: "string list \<Rightarrow> rt \<Rightarrow> rt \<times> pc" where
  "dispose_runtime seen s = dispose_scan (filter (\<lambda>p. fst p \<notin> set seen) (rt_runs s)) seen s"

subsection \<open>One step of a handler\<close>

fun seg :: "wf_env \<Rightarrow> answer \<Rightarrow> pc \<Rightarrow> rt \<Rightarrow> rt \<times> pc" where
  "seg e a (PDone r) s = (s, PDone r)"
| "seg e a PThrown s = (s, PThrown)"
| "seg e a (PSettleFailed agent) s =
     ((if we_view e then call (CallSettle agent ''settle-failed'') s else s), PDone ROk)"
| "seg e a (CStart ref report k) s = cycle_start ref report k a s"
| "seg e a (CTiers i ref report t tiers label k) s = cycle_tiers e i ref report t tiers label k a s"
| "seg e a (CVerify i ref report t rest attempt k) s = cycle_verify e i ref report t rest attempt k a s"
| "seg e a (CVerifyCatch i ref report t rest attempt k) s = cycle_verify_catch e i ref report t rest attempt k a s"
| "seg e a (CCritic i ref report t rest k) s = cycle_critic e i ref report t rest k a s"
| "seg e a (CConsume i ref report t tier v violations rest k) s = cycle_consume e i ref report t tier v violations rest k a s"
| "seg e a (CSend i ref report txt k) s = cycle_send e i ref report txt k s"
| "seg e a (CSent i ref driven k) s = cycle_sent i ref driven k a s"
| "seg e a (FStart i k) s = finalize_run i k a s"
| "seg e a (FDoomed i ids k) s = finalize_doomed i ids k a s"
| "seg e a (NSend i n) s = deliver i n a s"
| "seg e a (NMark i parent ts n) s = mark_notified i parent ts n a s"
| "seg e a (NAfter i n) s = after_notice_step e i n a s"
| "seg e a (SClose i ts c) s =
     (case ts of [] \<Rightarrow> close_loop e i [] c s | t # ts' \<Rightarrow> close_loop e i ts' c (drop_agent t c s))"
| "seg e a (SDelete i c) s = closed_run i c s"
| "seg e a (TStart taskId caller) s = stopTask taskId caller a s"
| "seg e a (TSettle i taskId) s = stop_settle i taskId a s"
| "seg e a (TRun i taskId) s = settle_run i Cancelled ''stopped by task_stop'' (KStop taskId) a s"
| "seg e a (TCold taskId caller) s = cold_scan e (rt_disk s) taskId caller a s"
| "seg e a (DFire ref) s = deadline_fire e ref a s"
| "seg e a (DSettle i agent) s = deadline_settle e i agent a s"
| "seg e a AStart s = onSessionAlive [] a s"
| "seg e a (ALoop seen) s = onSessionAlive seen a s"
| "seg e a (UStart caller input) s = submit e caller input a s"
| "seg e a USpawnPlain s = spawn_plain a s"
| "seg e a (UOpen runId caller input) s = submit_open e runId caller input a s"
| "seg e a (USubmit i caller input) s = submit_task i caller input a s"
| "seg e a (USpawn i caller input) s = submit_spawn e i caller input s"
| "seg e a (USpawned i taskId caller) s = submit_spawned i taskId caller a s"
| "seg e a (UFailed i reason) s = settle_run i Failed (''dispatch failed: '' @ reason) (KDispatchFailed reason) a s"
| "seg e a (UDispatched i taskId txt) s = submit_dispatched i taskId txt s"
| "seg e a (BStart nextS) s = rebind nextS a s"
| "seg e a (BRuns nextS seen) s = rebind_runs nextS seen a s"
| "seg e a (BHeader i nextS seen) s = rebind_header i nextS seen s"
| "seg e a (BDisk nextS entries) s = rebind_disk nextS entries a s"
| "seg e a VStart s = dispose_runtime [] (deadlineClearAll s)"
| "seg e a (VClose seen) s = dispose_runtime seen s"
| "seg e a XStart s = (s, XScan (map_keys (rt_disk s), 0, 0))"
| "seg e a (XScan sc) s = scanAndRecover e sc a s"
| "seg e a (RDispatch i ts sc) s = redispatch_loop e i ts sc a s"
| "seg e a (RSpawned i t ts sc) s = redispatch_spawned i t ts sc a s"
| "seg e a (RDispatched i taskId sc) s = recover_tasks e i (tasks_of s i) sc a (armDeadline (ar_runId (obj s i), taskId) s)"
| "seg e a (RTasks i ts sc) s = recover_tasks e i ts sc a s"
| "seg e a (RVerify i taskId ts sc) s = recover_verify i taskId ts sc a s"
| "seg e a (RFinal i ts sc) s = finalizeAfterRecovery e i ts sc a s"
| "seg e a (RTask i t agent session ts sc) s =
     (case an_child a of None \<Rightarrow> recover_tasks e i ts sc a s | Some evs \<Rightarrow> recoverTask e i t agent session evs ts sc a s)"
| "seg e a (RKick i t agent ts sc) s = recover_kick e i t agent ts sc a s"

subsection \<open>The system\<close>

type_synonym system = "rt \<times> pc list"

fun entry :: "pc \<Rightarrow> bool" where
  \<comment> \<open>what may be called from outside: the end of a cycle, the tools, a session event, the view, the plugin\<close>
  "entry (CStart _ report (KCycle agentId)) = (mr_agentId report = agentId)"
| "entry (TStart _ _) = True"
| "entry AStart = True"
| "entry (UStart _ _) = True"
| "entry (BStart _) = True"
| "entry VStart = True"
| "entry XStart = True"
| "entry _ = False"

inductive sys_step :: "wf_env \<Rightarrow> system \<Rightarrow> system \<Rightarrow> bool" for e where
  sys_call: "entry p \<Longrightarrow> sys_step e (s, ps) (s, ps @ [p])"
| sys_timer: "ref \<in> set (rt_timers s) \<Longrightarrow> sys_step e (s, ps) (clearDeadline ref s, ps @ [DFire ref])"
| sys_run: "\<lbrakk>j < length ps; seg e a (ps ! j) s = (s', p');
     \<forall>r c inp. ps ! j = UOpen r c inp \<longrightarrow> map_get (rt_disk s) r = None\<rbrakk> \<Longrightarrow>
     sys_step e (s, ps) (s', ps[j := p'])"

text \<open>A minted id is new: no run has it.\<close>

inductive sys_reach :: "wf_env \<Rightarrow> system \<Rightarrow> system \<Rightarrow> bool" for e where
  sys_refl: "sys_reach e c c"
| sys_more: "\<lbrakk>sys_reach e c c'; sys_step e c' c''\<rbrakk> \<Longrightarrow> sys_reach e c c''"

end
