(* ===== verification/WorkCore.thy ===== *)
theory WorkCore
  imports WorkSystem WorkFoldProps
begin

text \<open>
  What any handler of the runtime may do to the journals and the runs, as a relation \<open>core\<close> on the state with a
  handful of cases, the invariant of the state it keeps, and how the state grows under it.
\<close>

named_theorems core_intros

subsection \<open>Objects and journals\<close>

definition known :: "rt \<Rightarrow> nat \<Rightarrow> string \<Rightarrow> bool" where
  "known s i taskId \<longleftrightarrow> i < length (rt_objs s) \<and> task_of s i taskId \<noteq> None"

definition journal_matches :: "wf_event list \<Rightarrow> snapshot \<Rightarrow> bool" where
  \<comment> \<open>a journal that begins with the creation of its run folds to the snapshot\<close>
  "journal_matches evs sn \<longleftrightarrow>
     (case evs of RunCreated _ _ _ # _ \<Rightarrow> fold_journal evs = Inr (Some sn) | _ \<Rightarrow> True)"

definition obj_ok :: "rt \<Rightarrow> active_run \<Rightarrow> bool" where
  "obj_ok s r \<longleftrightarrow> tasks_ok (ar_snapshot r) \<and>
     (\<exists>d. map_get (rt_disk s) (ar_runId r) = Some d \<and>
       (ar_closed r \<or> dk_locked d \<and> journal_matches (dk_events d) (ar_snapshot r)))"

definition objs_ok :: "rt \<Rightarrow> bool" where
  "objs_ok s \<longleftrightarrow> (\<forall>i < length (rt_objs s). obj_ok s (rt_objs s ! i)) \<and>
     (\<forall>i < length (rt_objs s). \<forall>j < length (rt_objs s). i \<noteq> j \<longrightarrow> ar_runId (rt_objs s ! i) = ar_runId (rt_objs s ! j) \<longrightarrow>
        ar_closed (rt_objs s ! i) \<or> ar_closed (rt_objs s ! j))"

definition runs_ok :: "rt \<Rightarrow> bool" where
  "runs_ok s \<longleftrightarrow> (\<forall>(r, i) \<in> set (rt_runs s). i < length (rt_objs s) \<and> ar_runId (rt_objs s ! i) = r)"

subsection \<open>Acceptance\<close>

definition payload_ok :: "wf_env \<Rightarrow> jsval \<Rightarrow> string \<Rightarrow> bool" where
  "payload_ok e schema summary \<longleftrightarrow>
     (\<exists>p. extractPayload (we_parse e) summary = Some p \<and>
       validateSubset (we_stringify e) (we_show_num e) schema p ''$'' = [])"

definition command_passed :: "wf_event list \<Rightarrow> string \<Rightarrow> bool" where
  "command_passed evs taskId \<longleftrightarrow> (\<exists>attempt code. VerifyResult taskId TCommand attempt VPassed code \<in> set evs)"

definition gate_ok :: "wf_env \<Rightarrow> wf_event list \<Rightarrow> task_spec \<Rightarrow> string \<Rightarrow> string option \<Rightarrow> bool" where
  \<comment> \<open>what a completed task has behind it\<close>
  "gate_ok e evs spec taskId evid \<longleftrightarrow>
     (\<forall>schema. sp_resultSchema spec = Some schema \<longrightarrow>
        (\<exists>summary. evid = Some (take 34000 summary) \<and> payload_ok e schema summary)) \<and>
     (sp_acceptance spec \<noteq> None \<longrightarrow> command_passed evs taskId)"

definition snap_gated :: "wf_env \<Rightarrow> wf_event list \<Rightarrow> snapshot \<Rightarrow> bool" where
  "snap_gated e evs sn \<longleftrightarrow>
     (\<forall>taskId t. map_get (rs_tasks sn) taskId = Some t \<and> wt_status t = Settled \<and> wt_outcome t = Some Completed \<longrightarrow>
        gate_ok e evs (wt_spec t) taskId (wt_evidence t))"

definition disk_gated :: "wf_env \<Rightarrow> rt \<Rightarrow> bool" where
  "disk_gated e s \<longleftrightarrow>
     (\<forall>r d sn. map_get (rt_disk s) r = Some d \<and> fold_disk d = Some sn \<longrightarrow> snap_gated e (dk_events d) sn)"

definition rt_inv :: "wf_env \<Rightarrow> rt \<Rightarrow> bool" where
  "rt_inv e s \<longleftrightarrow> objs_ok s \<and> runs_ok s \<and> disk_gated e s"

subsection \<open>The fold of a journal that grows\<close>

lemma fold_created: "fold_journal evs = Inr (Some sn) \<Longrightarrow>
    \<exists>r p c rest. evs = RunCreated r p c # rest \<and> wf_steps (initialSnapshot r p c) rest = Inr sn"
proof (cases evs rule: fold_journal.cases)
  case (2 r p c events)
  assume "fold_journal evs = Inr (Some sn)"
  then show ?thesis using 2 by (cases "wf_steps (initialSnapshot r p c) events") simp_all
qed simp_all

lemma fold_append:
  assumes "fold_journal evs = Inr (Some sn)"
  shows "fold_journal (evs @ [ev]) = map_sum id Some (wf_step sn ev)"
proof -
  obtain r p c rest where "evs = RunCreated r p c # rest" "wf_steps (initialSnapshot r p c) rest = Inr sn"
    using fold_created [OF assms] by blast
  then show ?thesis by (cases "wf_step sn ev") (simp_all add: steps_append)
qed

lemma fold_ok: "fold_journal evs = Inr (Some sn) \<Longrightarrow> tasks_ok sn"
  using fold_created steps_ok [OF initial_ok] by blast

lemma matches_append:
  assumes "journal_matches evs sn" "wf_step sn ev = Inr sn'" "evs = [] \<Longrightarrow> \<not> is_created ev"
  shows "journal_matches (evs @ [ev]) sn'"
proof (cases evs)
  case Nil
  then show ?thesis using assms(3) by (cases ev) (auto simp: journal_matches_def)
next
  case (Cons x xs)
  show ?thesis
  proof (cases "is_created x")
    case True
    then obtain r p c where x: "x = RunCreated r p c" by (cases x) auto
    then have "fold_journal evs = Inr (Some sn)" using assms(1) Cons by (simp add: journal_matches_def)
    then have "fold_journal (evs @ [ev]) = Inr (Some sn')" using fold_append assms(2) by fastforce
    then show ?thesis using Cons x by (simp add: journal_matches_def)
  next
    case False
    then show ?thesis using Cons by (cases x) (auto simp: journal_matches_def)
  qed
qed

text \<open>A task completed after an event was completed before, or is completed by it.\<close>

lemma step_completed:
  assumes "wf_step sn ev = Inr sn'" "map_get (rs_tasks sn') i = Some t'" "wt_status t' = Settled" "wt_outcome t' = Some Completed"
    and cl: "\<not> is_created ev"
  shows "(\<exists>t. map_get (rs_tasks sn) i = Some t \<and> wt_status t = Settled \<and> wt_outcome t = Some Completed \<and>
      wt_spec t' = wt_spec t \<and> wt_evidence t' = wt_evidence t) \<or>
    (\<exists>v d evid c t. ev = TaskSettled i Completed v d evid c \<and> map_get (rs_tasks sn) i = Some t \<and>
      wt_spec t' = wt_spec t \<and> wt_evidence t' = or_else evid (wt_evidence t))"
proof -
  have adv: ?thesis if w: "withTask sn j (advance j ev tr fr) = Inr sn'" and ns: "\<And>t. wt_status (tr t) \<noteq> Settled" for j tr fr
  proof -
    obtain u where u: "advance j ev tr fr (map_get (rs_tasks sn) j) = Inr u" "sn' = put_task sn j u"
      using w unfolding withTask_Inr by blast
    show ?thesis
    proof (cases "i = j")
      case False
      then show ?thesis using assms(2-4) u(2) by (auto simp: put_task_get)
    next
      case True
      then have "t' = u" using assms(2) u(2) by (simp add: put_task_get)
      from u(1) show ?thesis
        by (cases rule: advance_cases) (use \<open>t' = u\<close> ns assms(3,4) True in auto)
    qed
  qed
  show ?thesis
  proof (cases ev)
    case (TaskSubmitted j spec)
    then have "sn' = put_task sn j (case map_get (rs_tasks sn) j of None \<Rightarrow> initialTask j spec | Some t \<Rightarrow> t)"
      using assms(1) by (auto simp: withTask_def split: option.splits)
    then show ?thesis using assms(2-4)
      by (auto simp: put_task_get initialTask_def split: if_splits option.splits)
  next
    case (TaskSettled j outc v d evid c)
    then show ?thesis using assms(1-4)
      by (auto simp: settleTask_def Let_def put_task_get split: option.splits if_splits)
  qed (use assms cl adv in \<open>auto simp: withNotified_def split: if_splits\<close>)
qed

lemma command_passed_more: "command_passed evs i \<Longrightarrow> command_passed (evs @ late) i"
  by (auto simp: command_passed_def)

lemma gate_ok_more: "gate_ok e evs spec i evid \<Longrightarrow> gate_ok e (evs @ late) spec i evid"
  by (auto simp: gate_ok_def command_passed_more)

definition passes :: "wf_env \<Rightarrow> wf_event list \<Rightarrow> snapshot \<Rightarrow> wf_event \<Rightarrow> bool" where
  \<comment> \<open>an event that completes a task comes after its acceptance\<close>
  "passes e evs sn ev \<longleftrightarrow>
     (\<forall>i v d evid c t. ev = TaskSettled i Completed v d evid c \<and> map_get (rs_tasks sn) i = Some t \<longrightarrow>
        (\<forall>old. gate_ok e evs (wt_spec t) i (or_else evid old)))"

lemma snap_gated_step:
  assumes "snap_gated e evs sn" "wf_step sn ev = Inr sn'" "passes e evs sn ev"
  shows "snap_gated e (evs @ [ev]) sn'"
  unfolding snap_gated_def
proof (intro allI impI, elim conjE)
  fix i t' assume t': "map_get (rs_tasks sn') i = Some t'" "wt_status t' = Settled" "wt_outcome t' = Some Completed"
  show "gate_ok e (evs @ [ev]) (wt_spec t') i (wt_evidence t')"
  proof (cases "is_created ev")
    case True
    then have False using assms(2) t'(1) by (cases ev) (auto simp: initialSnapshot_def map_get_def)
    then show ?thesis ..
  next
    case False
    from step_completed [OF assms(2) t' False] show ?thesis
      using assms(1,3) by (auto simp: snap_gated_def passes_def intro: gate_ok_more)
  qed
qed

subsection \<open>What a handler may do to the journals and the runs\<close>

definition harmless :: "rt \<Rightarrow> nat \<Rightarrow> wf_event \<Rightarrow> bool" where
  \<comment> \<open>an event the fold of the run accepts\<close>
  "harmless s i ev \<longleftrightarrow>
     (case ev of
        RunCreated _ _ _ \<Rightarrow> False
      | UnknownEvent _ \<Rightarrow> False
      | _ \<Rightarrow> (case task_event ev of None \<Rightarrow> True | Some taskId \<Rightarrow> task_of s i taskId \<noteq> None))"

definition events_of :: "rt \<Rightarrow> nat \<Rightarrow> wf_event list" where
  "events_of s i = (case map_get (rt_disk s) (ar_runId (obj s i)) of None \<Rightarrow> [] | Some d \<Rightarrow> dk_events d)"

inductive core :: "wf_env \<Rightarrow> rt \<Rightarrow> rt \<Rightarrow> bool" for e where
  core_plain: "\<lbrakk>rt_disk s' = rt_disk s; rt_objs s' = rt_objs s;
     \<forall>(r, i) \<in> set (rt_runs s'). (r, i) \<in> set (rt_runs s) \<or> i < length (rt_objs s) \<and> ar_runId (obj s i) = r\<rbrakk> \<Longrightarrow> core e s s'"
| core_append: "\<lbrakk>i < length (rt_objs s); harmless s i ev; passes e (events_of s i) (ar_snapshot (obj s i)) ev\<rbrakk> \<Longrightarrow>
     core e s (fst (append disk i ev s))"
| core_close: "i < length (rt_objs s) \<Longrightarrow> core e s (close_writer i s)"
| core_parent: "i < length (rt_objs s) \<Longrightarrow> core e s (set_obj i (\<lambda>r. r\<lparr>ar_parent := parent\<rparr>) s)"
| core_header: "core e s (set_disk runId (\<lambda>d. d\<lparr>dk_parent := parent\<rparr>) s)"
| core_rebound: "\<lbrakk>map_get (rt_disk s) runId = Some d; \<not> dk_locked d\<rbrakk> \<Longrightarrow>
     core e s (write_events runId [RunRebound a b] s)"
| core_cold: "\<lbrakk>map_get (rt_disk s) runId = Some d; \<not> dk_locked d; fold_disk d = Some sn;
     map_get (rs_tasks sn) taskId \<noteq> None\<rbrakk> \<Longrightarrow> core e s (write_events runId (cold_events sn taskId) s)"
| core_open: "\<lbrakk>map_get (rt_disk s) runId = Some d; \<not> dk_locked d; fold_disk d = Some sn\<rbrakk> \<Longrightarrow>
     core e s (open_run runId parent sn s)"

inductive cores :: "wf_env \<Rightarrow> rt \<Rightarrow> rt \<Rightarrow> bool" for e where
  cores_refl: "cores e s s"
| cores_more: "\<lbrakk>cores e s s'; core e s' s''\<rbrakk> \<Longrightarrow> cores e s s''"

lemma cores_one: "core e s s' \<Longrightarrow> cores e s s'"
  using cores_refl cores_more by blast

lemma cores_trans: "cores e s' s'' \<Longrightarrow> cores e s s' \<Longrightarrow> cores e s s''"
  by (induction rule: cores.induct) (auto intro: cores_more)

subsection \<open>How the state grows\<close>

definition task_grows :: "task_state \<Rightarrow> task_state \<Rightarrow> bool" where
  "task_grows t t' \<longleftrightarrow> wt_spec t' = wt_spec t \<and> (wt_status t = Settled \<longrightarrow> continues t t')"

definition grows :: "rt \<Rightarrow> rt \<Rightarrow> bool" where
  "grows s s' \<longleftrightarrow>
     length (rt_objs s) \<le> length (rt_objs s') \<and>
     (\<forall>i < length (rt_objs s). ar_runId (obj s' i) = ar_runId (obj s i) \<and>
        (\<forall>taskId t. task_of s i taskId = Some t \<longrightarrow> (\<exists>t'. task_of s' i taskId = Some t' \<and> task_grows t t'))) \<and>
     (\<forall>r d. map_get (rt_disk s) r = Some d \<longrightarrow>
        (\<exists>d' late. map_get (rt_disk s') r = Some d' \<and> dk_events d' = dk_events d @ late))"

lemma task_grows_refl: "task_grows t t"
  by (simp add: task_grows_def continues_refl)

lemma task_grows_trans: "task_grows t u \<Longrightarrow> task_grows u v \<Longrightarrow> task_grows t v"
proof -
  assume a: "task_grows t u" "task_grows u v"
  have "wt_status u = Settled" if "wt_status t = Settled" using a(1) that by (auto simp: task_grows_def continues_def)
  then show ?thesis using a continues_trans by (auto simp: task_grows_def)
qed

lemma grows_refl: "grows s s"
proof -
  have "dk_events d = dk_events d @ []" for d by simp
  then show ?thesis unfolding grows_def using task_grows_refl by blast
qed

lemma grows_trans:
  assumes a: "grows s s'" and b: "grows s' s''"
  shows "grows s s''"
  unfolding grows_def
proof (intro conjI allI impI)
  show "length (rt_objs s) \<le> length (rt_objs s'')" using a b by (simp add: grows_def)
next
  fix i assume i: "i < length (rt_objs s)"
  then have i': "i < length (rt_objs s')" using a by (simp add: grows_def)
  show "ar_runId (obj s'' i) = ar_runId (obj s i)" using a b i i' by (simp add: grows_def)
  fix taskId t assume "task_of s i taskId = Some t"
  then obtain t' where t': "task_of s' i taskId = Some t'" "task_grows t t'" using a i unfolding grows_def by blast
  then obtain t'' where "task_of s'' i taskId = Some t''" "task_grows t' t''" using b i' unfolding grows_def by blast
  then show "\<exists>t'. task_of s'' i taskId = Some t' \<and> task_grows t t'" using t'(2) task_grows_trans by blast
next
  fix r d assume "map_get (rt_disk s) r = Some d"
  then obtain d' l where d': "map_get (rt_disk s') r = Some d'" "dk_events d' = dk_events d @ l"
    using a unfolding grows_def by blast
  then obtain d'' l' where "map_get (rt_disk s'') r = Some d''" "dk_events d'' = dk_events d' @ l'"
    using b unfolding grows_def by blast
  then show "\<exists>d' late. map_get (rt_disk s'') r = Some d' \<and> dk_events d' = dk_events d @ late" using d'(2) by auto
qed

lemma step_grows:
  assumes "wf_step sn ev = Inr sn'" "\<not> is_created ev" "map_get (rs_tasks sn) i = Some t"
  shows "\<exists>t'. map_get (rs_tasks sn') i = Some t' \<and> task_grows t t'"
proof (cases "wt_status t = Settled")
  case True
  then obtain t' where "map_get (rs_tasks sn') i = Some t'" "continues t t'" using step_settled [OF assms] by blast
  then show ?thesis by (auto simp: task_grows_def continues_def)
next
  case False
  have put: "\<exists>t'. map_get (rs_tasks (put_task sn1 j u)) i = Some t' \<and> task_grows t t'"
    if "rs_tasks sn1 = rs_tasks sn" "i = j \<Longrightarrow> wt_spec u = wt_spec t" for sn1 j u
    using that assms(3) False task_grows_refl by (auto simp: put_task_get task_grows_def)
  have adv: ?thesis if w: "withTask sn j (advance j ev tr fr) = Inr sn'" and sp: "\<And>t. wt_spec (tr t) = wt_spec t" for j tr fr
  proof -
    obtain u where u: "advance j ev tr fr (map_get (rs_tasks sn) j) = Inr u" "sn' = put_task sn j u"
      using w unfolding withTask_Inr by blast
    have "wt_spec u = wt_spec t" if "i = j"
      using u(1) assms(3) that sp by (auto simp: advance_def split: if_splits)
    then show ?thesis unfolding u(2) by (intro put) auto
  qed
  show ?thesis
  proof (cases ev)
    case (TaskSubmitted j spec)
    then have "sn' = put_task sn j (case map_get (rs_tasks sn) j of None \<Rightarrow> initialTask j spec | Some t \<Rightarrow> t)"
      using assms(1) by (auto simp: withTask_def split: option.splits)
    then show ?thesis using assms(3) by (simp only:, intro put) auto
  next
    case (TaskSettled j outc v d evid c)
    then obtain u where u: "map_get (rs_tasks sn) j = Some u" using assms(1) by (auto simp: settleTask_def split: option.splits)
    show ?thesis
    proof (cases "wt_status u = Settled")
      case True
      then have "sn' = sn" using assms(1) TaskSettled u by (simp add: settleTask_def)
      then show ?thesis using assms(3) task_grows_refl by blast
    next
      case ns: False
      have "\<exists>sn1 u'. sn' = put_task sn1 j u' \<and> rs_tasks sn1 = rs_tasks sn \<and> wt_spec u' = wt_spec u"
        using assms(1) TaskSettled u ns by (fastforce simp: settleTask_def Let_def)
      then obtain sn1 u' where "sn' = put_task sn1 j u'" "rs_tasks sn1 = rs_tasks sn" "wt_spec u' = wt_spec u" by blast
      then show ?thesis using put u assms(3) by (metis option.inject)
    qed
  qed (use assms adv task_grows_refl in \<open>auto simp: withNotified_def split: if_splits\<close>)
qed

end
