(* ===== verification/WorkInv.thy ===== *)
theory WorkInv
  imports WorkCore
begin

text \<open>The invariant of the runtime is kept by every change, and every change lets the state grow.\<close>

subsection \<open>The parts of the state after a change\<close>

lemma obj_set_obj:
  "i < length (rt_objs s) \<Longrightarrow> obj (set_obj i f s) j = (if j = i then f (obj s i) else obj s j)"
  by (auto simp: obj_def set_obj_def nth_list_update)

lemma set_obj_simps [simp]:
  "length (rt_objs (set_obj i f s)) = length (rt_objs s)" "rt_disk (set_obj i f s) = rt_disk s"
  "rt_runs (set_obj i f s) = rt_runs s"
  by (simp_all add: set_obj_def)

lemma set_disk_simps [simp]:
  "rt_objs (set_disk r f s) = rt_objs s" "rt_runs (set_disk r f s) = rt_runs s" "obj (set_disk r f s) = obj s"
  by (auto simp: set_disk_def obj_def fun_eq_iff split: option.split)

lemma get_set_disk:
  "map_get (rt_disk (set_disk r f s)) r' = (if r' = r then map_option f (map_get (rt_disk s) r) else map_get (rt_disk s) r')"
  by (auto simp: set_disk_def js_map.get_put split: option.split)

lemma keys_set_disk [simp]: "map_keys (rt_disk (set_disk r f s)) = map_keys (rt_disk s)"
  by (auto simp: set_disk_def js_map.keys_put_old split: option.split)

lemma write_simps [simp]:
  "rt_objs (write_events r evs s) = rt_objs s" "rt_runs (write_events r evs s) = rt_runs s" "obj (write_events r evs s) = obj s"
  by (simp_all add: write_events_def)

lemma get_write:
  "map_get (rt_disk (write_events r evs s)) r' =
     (if r' = r then map_option (\<lambda>d. d\<lparr>dk_events := dk_events d @ evs\<rparr>) (map_get (rt_disk s) r) else map_get (rt_disk s) r')"
  by (simp add: write_events_def get_set_disk)

lemma task_of_obj: "obj s' i = obj s i \<Longrightarrow> task_of s' i = task_of s i"
  by (simp add: task_of_def fun_eq_iff)

lemma harmless_step: "harmless s i ev \<Longrightarrow> \<exists>sn. wf_step (ar_snapshot (obj s i)) ev = Inr sn"
proof (cases "task_event ev")
  case None
  assume "harmless s i ev"
  then show ?thesis using None by (cases ev) (auto simp: harmless_def withTask_def withNotified_def)
next
  case (Some taskId)
  assume "harmless s i ev"
  then have "taskId \<in> task_ids (ar_snapshot (obj s i))"
    using Some by (cases ev) (auto simp: harmless_def known_task task_of_def)
  then show ?thesis using step_accepts [OF Some] by blast
qed

lemma harmless_not_created: "harmless s i ev \<Longrightarrow> \<not> is_created ev"
  by (cases ev) (auto simp: harmless_def)

lemma append_harmless:
  assumes "harmless s i ev"
  obtains (refused) "append disk i ev s = (s, False)"
  | (written) sn where "\<not> ar_closed (obj s i)" "disk" "wf_step (ar_snapshot (obj s i)) ev = Inr sn"
      "append disk i ev s = (set_obj i (\<lambda>r. r\<lparr>ar_snapshot := sn\<rparr>) (write_events (ar_runId (obj s i)) [ev] s), True)"
proof -
  obtain sn where "wf_step (ar_snapshot (obj s i)) ev = Inr sn" using harmless_step [OF assms] by blast
  then show ?thesis using refused written by (cases "ar_closed (obj s i) \<or> \<not> disk") (auto simp: append_def Let_def)
qed

subsection \<open>Growth\<close>

lemma grows_disk:
  assumes "rt_objs s' = rt_objs s"
    and "\<And>r d. map_get (rt_disk s) r = Some d \<Longrightarrow> \<exists>d' late. map_get (rt_disk s') r = Some d' \<and> dk_events d' = dk_events d @ late"
  shows "grows s s'"
  using assms task_grows_refl by (auto simp: grows_def obj_def task_of_def)

lemma same_events: "\<exists>late. dk_events d = dk_events d @ late"
  by (rule exI [of _ "[]"]) simp

lemma grows_set_obj:
  assumes "i < length (rt_objs s)" "ar_runId (f (obj s i)) = ar_runId (obj s i)"
    and "\<And>taskId t. map_get (rs_tasks (ar_snapshot (obj s i))) taskId = Some t \<Longrightarrow>
      \<exists>t'. map_get (rs_tasks (ar_snapshot (f (obj s i)))) taskId = Some t' \<and> task_grows t t'"
  shows "grows s (set_obj i f s)"
  unfolding grows_def using assms task_grows_refl same_events
  by (auto simp: obj_set_obj task_of_def)

lemma grows_set_disk:
  assumes "\<And>d. map_get (rt_disk s) r = Some d \<Longrightarrow> \<exists>late. dk_events (f d) = dk_events d @ late"
  shows "grows s (set_disk r f s)"
  by (rule grows_disk) (use assms same_events in \<open>auto simp: get_set_disk\<close>)

lemma grows_write: "grows s (write_events r evs s)"
  unfolding write_events_def by (rule grows_set_disk) auto

lemma grows_append: "i < length (rt_objs s) \<Longrightarrow> harmless s i ev \<Longrightarrow> grows s (fst (append disk i ev s))"
proof -
  assume i: "i < length (rt_objs s)" and h: "harmless s i ev"
  from h show ?thesis
  proof (cases rule: append_harmless [where disk = disk])
    case refused
    then show ?thesis by (simp add: grows_refl)
  next
    case (written sn)
    let ?s1 = "write_events (ar_runId (obj s i)) [ev] s"
    have "grows ?s1 (set_obj i (\<lambda>r. r\<lparr>ar_snapshot := sn\<rparr>) ?s1)"
      by (rule grows_set_obj) (use i step_grows [OF written(3) harmless_not_created [OF h]] in auto)
    then show ?thesis using grows_trans [OF grows_write] written(4) by simp
  qed
qed

lemma grows_open: "grows s (open_run runId parent sn s)"
proof -
  let ?s1 = "s\<lparr>rt_objs := rt_objs s @ [\<lparr>ar_runId = runId, ar_parent = parent, ar_closed = False, ar_snapshot = sn\<rparr>]\<rparr>"
  have "grows s ?s1"
    unfolding grows_def using task_grows_refl same_events by (auto simp: obj_def task_of_def nth_append)
  moreover have "grows ?s1 (open_run runId parent sn s)"
    unfolding open_run_def by (rule grows_set_disk) (use same_events in auto)
  ultimately show ?thesis using grows_trans by blast
qed

lemma grows_close: "i < length (rt_objs s) \<Longrightarrow> grows s (close_writer i s)"
proof -
  assume i: "i < length (rt_objs s)"
  let ?s1 = "set_obj i (\<lambda>r. r\<lparr>ar_closed := True\<rparr>) s"
  have "grows s ?s1" by (rule grows_set_obj) (use i task_grows_refl in auto)
  moreover have "grows ?s1 (set_disk (ar_runId (obj s i)) (\<lambda>d. d\<lparr>dk_locked := False\<rparr>) ?s1)"
    by (rule grows_set_disk) (use same_events in auto)
  ultimately show ?thesis using grows_trans grows_refl by (auto simp: close_writer_def)
qed

lemma core_grows: "core e s s' \<Longrightarrow> grows s s'"
proof (induction rule: core.cases)
  case (core_plain s' s)
  then show ?case using same_events by (auto intro!: grows_disk)
next
  case (core_append i s ev disk)
  then show ?case using grows_append by simp
next
  case (core_parent i s parent)
  then show ?case using task_grows_refl by (auto intro!: grows_set_obj)
next
  case (core_header s r p)
  then show ?case using same_events by (auto intro!: grows_set_disk)
qed (auto intro: grows_write grows_open grows_close)

lemma cores_grow: "cores e s s' \<Longrightarrow> grows s s'"
  by (induction rule: cores.induct) (auto intro: grows_refl grows_trans core_grows)

subsection \<open>The invariant\<close>

lemma fold_snoc:
  assumes "fold_journal (evs @ [ev]) = Inr (Some sn')" "evs \<noteq> []"
  shows "\<exists>sn. fold_journal evs = Inr (Some sn) \<and> wf_step sn ev = Inr sn'"
proof -
  obtain r p c rest where r: "evs @ [ev] = RunCreated r p c # rest" "wf_steps (initialSnapshot r p c) rest = Inr sn'"
    using fold_created [OF assms(1)] by blast
  then obtain rest' where evs: "evs = RunCreated r p c # rest'" "rest = rest' @ [ev]"
    using assms(2) by (cases evs) auto
  then show ?thesis
    using r(2) by (cases "wf_steps (initialSnapshot r p c) rest'") (auto simp: steps_append split: sum.splits)
qed

lemma fold_disk_Some: "fold_disk d = Some sn \<longleftrightarrow> fold_journal (dk_events d) = Inr (Some sn)"
  by (auto simp: fold_disk_def split: sum.splits option.splits)

lemma open_journal:
  assumes "objs_ok s" "i < length (rt_objs s)" "\<not> ar_closed (obj s i)"
  shows "\<exists>d. map_get (rt_disk s) (ar_runId (obj s i)) = Some d \<and> dk_locked d \<and> journal_matches (dk_events d) (ar_snapshot (obj s i))"
  using assms by (auto simp: objs_ok_def obj_ok_def obj_def)

lemma gated_append:
  assumes "snap_gated e evs sn \<or> fold_journal evs \<noteq> Inr (Some sn)" "journal_matches evs sn" "\<not> is_created ev" "passes e evs sn ev"
    and "fold_journal (evs @ [ev]) = Inr (Some sn')"
  shows "snap_gated e (evs @ [ev]) sn'"
proof (cases "evs = []")
  case True
  then show ?thesis using assms(3,5) by (cases ev) auto
next
  case False
  obtain sn0 where sn0: "fold_journal evs = Inr (Some sn0)" "wf_step sn0 ev = Inr sn'" using fold_snoc [OF assms(5) False] by blast
  then obtain r p c rest where "evs = RunCreated r p c # rest" using fold_created by blast
  then have "sn0 = sn" using assms(2) sn0(1) by (simp add: journal_matches_def)
  then show ?thesis using snap_gated_step sn0 assms(1,4) by blast
qed

lemma other_obj_ok:
  \<comment> \<open>an object keeps being sound when the disk of another run changes, or it is closed\<close>
  assumes "obj_ok s r" "map_get (rt_disk s') (ar_runId r) = map_get (rt_disk s) (ar_runId r) \<or>
      ar_closed r \<and> map_get (rt_disk s') (ar_runId r) \<noteq> None"
  shows "obj_ok s' r"
  using assms by (auto simp: obj_ok_def)

lemma objs_ok_disk:
  assumes "objs_ok s" "rt_objs s' = rt_objs s"
    and "\<And>r. r \<in> set (rt_objs s) \<Longrightarrow> map_get (rt_disk s') (ar_runId r) = map_get (rt_disk s) (ar_runId r) \<or>
      ar_closed r \<and> map_get (rt_disk s') (ar_runId r) \<noteq> None"
  shows "objs_ok s'"
  using assms(1,2) other_obj_ok [OF _ assms(3)] unfolding objs_ok_def by (metis nth_mem)

lemma unlocked_closed:
  assumes "objs_ok s" "map_get (rt_disk s) runId = Some d" "\<not> dk_locked d" "r \<in> set (rt_objs s)" "ar_runId r = runId"
  shows "ar_closed r"
  using assms by (auto simp: objs_ok_def obj_ok_def in_set_conv_nth)

lemma unlocked_write_ok:
  assumes "objs_ok s" "map_get (rt_disk s) runId = Some d" "\<not> dk_locked d"
  shows "objs_ok (write_events runId evs s)"
proof (rule objs_ok_disk [OF assms(1)])
  fix r assume r: "r \<in> set (rt_objs s)"
  show "map_get (rt_disk (write_events runId evs s)) (ar_runId r) = map_get (rt_disk s) (ar_runId r) \<or>
      ar_closed r \<and> map_get (rt_disk (write_events runId evs s)) (ar_runId r) \<noteq> None"
    using unlocked_closed [OF assms r] assms(2) by (auto simp: get_write)
qed simp

lemma gated_write:
  assumes "disk_gated e s"
    and "\<And>d sn'. map_get (rt_disk s) runId = Some d \<Longrightarrow> fold_journal (dk_events d @ evs) = Inr (Some sn') \<Longrightarrow>
      snap_gated e (dk_events d @ evs) sn'"
  shows "disk_gated e (write_events runId evs s)"
  using assms by (auto simp: disk_gated_def get_write fold_disk_Some split: if_splits)

lemma passes_other:
  "(\<And>i v d evid c. ev \<noteq> TaskSettled i Completed v d evid c) \<Longrightarrow> passes e evs sn ev"
  by (auto simp: passes_def)

lemma gated_harmless_event:
  assumes g: "disk_gated e s" and d: "map_get (rt_disk s) runId = Some d"
    and ev: "\<not> is_created ev" "\<And>i v de evid c. ev \<noteq> TaskSettled i Completed v de evid c"
    and f: "fold_journal (dk_events d @ [ev]) = Inr (Some sn')"
  shows "snap_gated e (dk_events d @ [ev]) sn'"
proof (cases "dk_events d = []")
  case True
  then show ?thesis using f ev(1) by (cases ev) auto
next
  case False
  obtain sn where sn: "fold_journal (dk_events d) = Inr (Some sn)" "wf_step sn ev = Inr sn'" using fold_snoc [OF f False] by blast
  have "snap_gated e (dk_events d) sn" using g d sn(1) by (auto simp: disk_gated_def fold_disk_Some)
  then show ?thesis using snap_gated_step sn(2) passes_other [OF ev(2)] by blast
qed

lemma inv_append:
  assumes inv: "rt_inv e s" and i: "i < length (rt_objs s)" and h: "harmless s i ev"
    and p: "passes e (events_of s i) (ar_snapshot (obj s i)) ev"
  shows "rt_inv e (fst (append disk i ev s))"
  using h
proof (cases rule: append_harmless [where disk = disk])
  case refused
  then show ?thesis using inv by simp
next
  case (written sn)
  let ?run = "ar_runId (obj s i)"
  let ?s' = "set_obj i (\<lambda>r. r\<lparr>ar_snapshot := sn\<rparr>) (write_events ?run [ev] s)"
  have ok: "objs_ok s" "runs_ok s" "disk_gated e s" using inv by (simp_all add: rt_inv_def)
  obtain d where d: "map_get (rt_disk s) ?run = Some d" "dk_locked d" "journal_matches (dk_events d) (ar_snapshot (obj s i))"
    using open_journal [OF ok(1) i written(1)] by blast
  have evs: "events_of s i = dk_events d" using d(1) by (simp add: events_of_def)
  have nc: "\<not> is_created ev" by (rule harmless_not_created [OF h])
  have "obj_ok ?s' (rt_objs ?s' ! j)" if j: "j < length (rt_objs s)" for j
  proof (cases "j = i")
    case True
    have "tasks_ok sn" using ok(1) i step_ok [OF _ written(3)] by (auto simp: objs_ok_def obj_ok_def obj_def)
    then show ?thesis
      using True i d matches_append [OF d(3) written(3)] nc
      by (auto simp: obj_ok_def set_obj_def get_write obj_def)
  next
    case False
    have "obj_ok s (rt_objs s ! j)" using ok(1) j by (simp add: objs_ok_def)
    moreover have "ar_closed (rt_objs s ! j)" if "ar_runId (rt_objs s ! j) = ?run"
      using ok(1) i j False that written(1) unfolding objs_ok_def obj_def by metis
    ultimately show ?thesis using False d(1)
      by (auto simp: obj_ok_def set_obj_def get_write)
  qed
  then have "objs_ok ?s'"
    using ok(1) i by (auto simp: objs_ok_def set_obj_def nth_list_update obj_def)
  moreover have "runs_ok ?s'" using ok(2) i by (auto simp: runs_ok_def set_obj_def nth_list_update obj_def)
  moreover have "disk_gated e (write_events ?run [ev] s)"
  proof (rule gated_write [OF ok(3)])
    fix d' sn' assume "map_get (rt_disk s) ?run = Some d'" and f: "fold_journal (dk_events d' @ [ev]) = Inr (Some sn')"
    then have d': "d' = d" using d(1) by simp
    have "snap_gated e (dk_events d) (ar_snapshot (obj s i)) \<or> fold_journal (dk_events d) \<noteq> Inr (Some (ar_snapshot (obj s i)))"
      using ok(3) d(1) by (auto simp: disk_gated_def fold_disk_Some)
    then show "snap_gated e (dk_events d' @ [ev]) sn'"
      using gated_append d(3) nc p f unfolding evs d' by blast
  qed
  then have "disk_gated e ?s'" by (simp add: disk_gated_def)
  ultimately show ?thesis using written(4) by (simp add: rt_inv_def)
qed

lemma inv_close: "rt_inv e s \<Longrightarrow> i < length (rt_objs s) \<Longrightarrow> rt_inv e (close_writer i s)"
proof (cases "ar_closed (obj s i)")
  case False
  assume inv: "rt_inv e s" and i: "i < length (rt_objs s)"
  let ?run = "ar_runId (obj s i)"
  let ?s1 = "set_obj i (\<lambda>r. r\<lparr>ar_closed := True\<rparr>) s"
  let ?s' = "set_disk ?run (\<lambda>d. d\<lparr>dk_locked := False\<rparr>) ?s1"
  have ok: "objs_ok s" "runs_ok s" "disk_gated e s" using inv by (simp_all add: rt_inv_def)
  have "obj_ok ?s' (rt_objs ?s' ! j)" if j: "j < length (rt_objs s)" for j
  proof (cases "j = i")
    case True
    then show ?thesis using ok(1) i
      by (auto simp: objs_ok_def obj_ok_def set_obj_def get_set_disk obj_def)
  next
    case jn: False
    have "obj_ok s (rt_objs s ! j)" using ok(1) j by (simp add: objs_ok_def)
    moreover have "ar_closed (rt_objs s ! j)" if "ar_runId (rt_objs s ! j) = ?run"
      using ok(1) i j jn that False unfolding objs_ok_def obj_def by metis
    ultimately show ?thesis using jn by (auto simp: obj_ok_def set_obj_def get_set_disk)
  qed
  then have "objs_ok ?s'" using ok(1) i by (auto simp: objs_ok_def set_obj_def nth_list_update)
  moreover have "runs_ok ?s'" using ok(2) i by (auto simp: runs_ok_def set_obj_def nth_list_update)
  moreover have "disk_gated e ?s'" using ok(3) by (auto simp: disk_gated_def get_set_disk fold_disk_def split: if_splits)
  ultimately show ?thesis using False by (simp add: close_writer_def rt_inv_def)
qed (simp add: close_writer_def)

lemma inv_open:
  assumes inv: "rt_inv e s" and d: "map_get (rt_disk s) runId = Some d" "\<not> dk_locked d"
    and m: "journal_matches (dk_events d) sn" "tasks_ok sn"
  shows "rt_inv e (open_run runId parent sn s)"
proof -
  let ?r = "\<lparr>ar_runId = runId, ar_parent = parent, ar_closed = False, ar_snapshot = sn\<rparr>"
  let ?s' = "open_run runId parent sn s"
  have ok: "objs_ok s" "runs_ok s" "disk_gated e s" using inv by (simp_all add: rt_inv_def)
  have objs: "rt_objs ?s' = rt_objs s @ [?r]" by (simp add: open_run_def)
  have disk: "map_get (rt_disk ?s') r = (if r = runId then Some (d\<lparr>dk_locked := True\<rparr>) else map_get (rt_disk s) r)" for r
    using d(1) by (simp add: open_run_def get_set_disk)
  have closed: "ar_closed (rt_objs s ! j)" if "j < length (rt_objs s)" "ar_runId (rt_objs s ! j) = runId" for j
    using unlocked_closed [OF ok(1) d] that by simp
  have "obj_ok ?s' (rt_objs ?s' ! j)" if j: "j < length (rt_objs ?s')" for j
  proof (cases "j < length (rt_objs s)")
    case True
    then have "obj_ok s (rt_objs s ! j)" using ok(1) by (simp add: objs_ok_def)
    then show ?thesis using True closed by (auto simp: objs nth_append obj_ok_def disk)
  next
    case False
    then show ?thesis using j m by (auto simp: objs obj_ok_def disk nth_append)
  qed
  moreover have "ar_closed (rt_objs ?s' ! j) \<or> ar_closed (rt_objs ?s' ! k)"
    if "j < length (rt_objs ?s')" "k < length (rt_objs ?s')" "j \<noteq> k" "ar_runId (rt_objs ?s' ! j) = ar_runId (rt_objs ?s' ! k)" for j k
    using that ok(1) closed by (auto simp: objs nth_append objs_ok_def less_Suc_eq split: if_splits)
  ultimately have "objs_ok ?s'" unfolding objs_ok_def by blast
  moreover have "runs_ok ?s'" using ok(2) by (auto simp: runs_ok_def objs nth_append) (simp add: open_run_def, fastforce)+
  moreover have "disk_gated e ?s'" using ok(3) d(1) by (auto simp: disk_gated_def disk fold_disk_def split: if_splits)
  ultimately show ?thesis by (simp add: rt_inv_def)
qed

lemma runs_write: "runs_ok (write_events r evs s) = runs_ok s"
  by (simp add: runs_ok_def)

lemma cold_gated:
  assumes g: "disk_gated e s" and d: "map_get (rt_disk s) runId = Some d"
    and f: "fold_journal (dk_events d @ cold_events sn taskId) = Inr (Some sn')"
  shows "snap_gated e (dk_events d @ cold_events sn taskId) sn'"
proof -
  let ?ev = "settled_event taskId Cancelled TaskStop None" and ?done = "RunSettled Cancelled ''stopped by task_stop (cold)''"
  have one: "snap_gated e (dk_events d @ [?ev]) sn1" if "fold_journal (dk_events d @ [?ev]) = Inr (Some sn1)" for sn1
    using gated_harmless_event [OF g d _ _ that] by (simp add: settled_event_def)
  have "cold_events sn taskId = [?ev] \<or> cold_events sn taskId = [?ev, ?done]"
    by (simp add: cold_events_def Let_def split: sum.split)
  then show ?thesis
  proof
    assume 1: "cold_events sn taskId = [?ev]"
    then show ?thesis using f one by simp
  next
    assume 2: "cold_events sn taskId = [?ev, ?done]"
    have f2: "fold_journal ((dk_events d @ [?ev]) @ [?done]) = Inr (Some sn')" using f 2 by simp
    obtain sn1 where sn1: "fold_journal (dk_events d @ [?ev]) = Inr (Some sn1)" "wf_step sn1 ?done = Inr sn'"
      using fold_snoc [OF f2] by blast
    have "snap_gated e ((dk_events d @ [?ev]) @ [?done]) sn'"
      by (rule snap_gated_step [OF one [OF sn1(1)] sn1(2)]) (simp add: passes_other)
    then show ?thesis using 2 by simp
  qed
qed

lemma core_inv: "core e s s' \<Longrightarrow> rt_inv e s \<Longrightarrow> rt_inv e s'"
proof (induction rule: core.cases)
  case (core_plain s' s)
  then show ?case
    by (auto simp: rt_inv_def objs_ok_def obj_ok_def runs_ok_def disk_gated_def obj_def)
next
  case (core_append i s ev disk)
  then show ?case using inv_append by simp
next
  case (core_close i s)
  then show ?case using inv_close by simp
next
  case (core_parent i s parent)
  then show ?case
    by (auto simp: rt_inv_def objs_ok_def obj_ok_def runs_ok_def disk_gated_def set_obj_def nth_list_update)
next
  case (core_header s r p)
  then show ?case
    by (auto simp: rt_inv_def objs_ok_def obj_ok_def runs_ok_def disk_gated_def get_set_disk fold_disk_def split: if_splits)
next
  case (core_rebound s runId d a b)
  have g: "disk_gated e s" using core_rebound by (simp add: rt_inv_def)
  have "snap_gated e (dk_events d' @ [RunRebound a b]) sn'"
    if "map_get (rt_disk s) runId = Some d'" "fold_journal (dk_events d' @ [RunRebound a b]) = Inr (Some sn')" for d' sn'
    using gated_harmless_event [OF g that(1) _ _ that(2)] by simp
  then have "disk_gated e (write_events runId [RunRebound a b] s)" by (rule gated_write [OF g])
  then show ?case using core_rebound unlocked_write_ok runs_write by (simp add: rt_inv_def)
next
  case (core_cold s runId d sn taskId)
  have g: "disk_gated e s" using core_cold by (simp add: rt_inv_def)
  have "disk_gated e (write_events runId (cold_events sn taskId) s)"
    by (rule gated_write [OF g cold_gated [OF g]])
  then show ?case using core_cold unlocked_write_ok runs_write by (simp add: rt_inv_def)
next
  case (core_open s runId d sn parent)
  have "fold_journal (dk_events d) = Inr (Some sn)" using core_open by (simp add: fold_disk_Some)
  moreover from this have "journal_matches (dk_events d) sn" using fold_created by (fastforce simp: journal_matches_def)
  ultimately show ?case using inv_open core_open fold_ok by simp
qed

lemma cores_inv: "cores e s s' \<Longrightarrow> rt_inv e s \<Longrightarrow> rt_inv e s'"
  by (induction rule: cores.induct) (auto intro: core_inv)

text \<open>No handler but a new submission adds a run to the disk.\<close>

lemma core_keys: "core e s s' \<Longrightarrow> map_keys (rt_disk s') = map_keys (rt_disk s)"
proof (induction rule: core.cases)
  case (core_append i s ev disk)
  from core_append(4) show ?case
    by (cases rule: append_harmless [where disk = disk]) (use core_append in \<open>simp_all add: write_events_def\<close>)
qed (simp_all add: close_writer_def write_events_def open_run_def)

lemma cores_keys: "cores e s s' \<Longrightarrow> map_keys (rt_disk s') = map_keys (rt_disk s)"
  by (induction rule: cores.induct) (auto dest: core_keys)

end
