(* ===== verification/WorkHandlers.thy ===== *)
theory WorkHandlers
  imports WorkInv
begin

text \<open>
  Every step of a handler, whatever it gets as an answer, changes the journals and runs by \<open>core\<close> alone, provided
  that what the handler remembers is sound (\<open>pc_ok\<close>); and what it remembers stays sound while others run.
\<close>

subsection \<open>What a handler remembers\<close>

definition named :: "rt \<Rightarrow> nat \<Rightarrow> task_state list \<Rightarrow> bool" where
  "named s i ts \<longleftrightarrow> i < length (rt_objs s) \<and> (\<forall>t\<in>set ts. known s i (wt_taskId t))"

definition judged :: "rt \<Rightarrow> nat \<Rightarrow> task_ref \<Rightarrow> task_state \<Rightarrow> bool" where
  "judged s i ref t \<longleftrightarrow> i < length (rt_objs s) \<and> (\<exists>t'. task_of s i (snd ref) = Some t' \<and> wt_spec t' = wt_spec t)"

definition tiers_done :: "wf_env \<Rightarrow> rt \<Rightarrow> nat \<Rightarrow> task_ref \<Rightarrow> managed_report \<Rightarrow> task_spec \<Rightarrow> tier list \<Rightarrow> bool" where
  \<comment> \<open>the tiers that are not left were passed\<close>
  "tiers_done e s i ref report spec rest \<longleftrightarrow>
     (\<forall>schema. TSchema \<notin> set rest \<and> sp_resultSchema spec = Some schema \<longrightarrow>
        (\<exists>summary. mr_summary report = Some summary \<and> payload_ok e schema summary)) \<and>
     (TCommand \<notin> set rest \<and> sp_acceptance spec \<noteq> None \<longrightarrow> command_passed (events_of s i) (snd ref))"

fun kont_ok :: "rt \<Rightarrow> kont \<Rightarrow> bool" where
  "kont_ok s (KRec i ts sc) = named s i ts"
| "kont_ok s _ = True"

fun notice_ok :: "rt \<Rightarrow> nat \<Rightarrow> after_notice \<Rightarrow> bool" where
  "notice_ok s i (NSettle _ k) = kont_ok s k"
| "notice_ok s i (NAlive _) = True"
| "notice_ok s i (NRecTask ts _) = named s i ts"
| "notice_ok s i (NRecEnd ts _) = named s i ts"

fun closer_ok :: "rt \<Rightarrow> nat \<Rightarrow> closer \<Rightarrow> bool" where
  "closer_ok s i (ClSettle _ k) = kont_ok s k"
| "closer_ok s i (ClAlive _) = True"
| "closer_ok s i (ClRec ts _) = named s i ts"

fun cycle_ok :: "wf_env \<Rightarrow> rt \<Rightarrow> cycle_at \<Rightarrow> bool" where
  "cycle_ok e s (AtCStart ref report k) = kont_ok s k"
| "cycle_ok e s (AtCTiers i ref report t tiers label k) =
     (judged s i ref t \<and> tiers_done e s i ref report (wt_spec t) tiers \<and> kont_ok s k)"
| "cycle_ok e s (AtCVerify i ref report t rest attempt k) =
     (judged s i ref t \<and> tiers_done e s i ref report (wt_spec t) (TCommand # rest) \<and> kont_ok s k)"
| "cycle_ok e s (AtCVerifyCatch i ref report t rest attempt k) =
     (judged s i ref t \<and> tiers_done e s i ref report (wt_spec t) (TCommand # rest) \<and> kont_ok s k)"
| "cycle_ok e s (AtCCritic i ref report t rest k) =
     (judged s i ref t \<and> tiers_done e s i ref report (wt_spec t) rest \<and> kont_ok s k)"
| "cycle_ok e s (AtCConsume i ref report t tier v violations rest k) =
     (judged s i ref t \<and> (v = Accept \<longrightarrow> tiers_done e s i ref report (wt_spec t) rest) \<and> kont_ok s k)"
| "cycle_ok e s (AtCSend i ref report txt k) = (known s i (snd ref) \<and> kont_ok s k)"
| "cycle_ok e s (AtCSent i ref driven k) = (known s i (snd ref) \<and> kont_ok s k)"

fun settle_ok :: "rt \<Rightarrow> settle_at \<Rightarrow> bool" where
  "settle_ok s (AtFStart i k) = (i < length (rt_objs s) \<and> kont_ok s k)"
| "settle_ok s (AtFDoomed i ids k) = (i < length (rt_objs s) \<and> kont_ok s k)"
| "settle_ok s (AtNSend i n) = (i < length (rt_objs s) \<and> notice_ok s i n)"
| "settle_ok s (AtNMark i parent ts n) = (i < length (rt_objs s) \<and> notice_ok s i n)"
| "settle_ok s (AtNAfter i n) = (i < length (rt_objs s) \<and> notice_ok s i n)"
| "settle_ok s (AtSClose i ts c) = (i < length (rt_objs s) \<and> closer_ok s i c)"
| "settle_ok s (AtSDelete i c) = (i < length (rt_objs s) \<and> closer_ok s i c)"

fun stop_ok :: "rt \<Rightarrow> stop_at \<Rightarrow> bool" where
  "stop_ok s (AtTSettle i taskId) = known s i taskId"
| "stop_ok s (AtTRun i taskId) = (i < length (rt_objs s))"
| "stop_ok s (AtDSettle i agent) = (i < length (rt_objs s))"
| "stop_ok s _ = True"

fun submit_ok :: "rt \<Rightarrow> submit_at \<Rightarrow> bool" where
  "submit_ok s (AtUSubmit i caller input) = (i < length (rt_objs s))"
| "submit_ok s (AtUSpawn i caller input) = known s i (task_name (ar_runId (obj s i)))"
| "submit_ok s (AtUSpawned i taskId caller) = known s i taskId"
| "submit_ok s (AtUFailed i reason) = (i < length (rt_objs s))"
| "submit_ok s (AtUDispatched i taskId txt) = (i < length (rt_objs s))"
| "submit_ok s _ = True"

fun session_ok :: "rt \<Rightarrow> session_at \<Rightarrow> bool" where
  "session_ok s (AtBHeader i nextS seen) = (i < length (rt_objs s))"
| "session_ok s _ = True"

fun recover_ok :: "rt \<Rightarrow> recover_at \<Rightarrow> bool" where
  "recover_ok s AtXStart = True"
| "recover_ok s (AtXScan sc) = True"
| "recover_ok s (AtRDispatch i ts sc) = named s i ts"
| "recover_ok s (AtRSpawned i t ts sc) = named s i (t # ts)"
| "recover_ok s (AtRDispatched i taskId sc) = (i < length (rt_objs s))"
| "recover_ok s (AtRTasks i ts sc) = named s i ts"
| "recover_ok s (AtRVerify i taskId ts sc) = (known s i taskId \<and> named s i ts)"
| "recover_ok s (AtRFinal i ts sc) = named s i ts"
| "recover_ok s (AtRTask i t agent session ts sc) = named s i (t # ts)"
| "recover_ok s (AtRKick i t agent ts sc) = named s i ts"

fun pc_ok :: "wf_env \<Rightarrow> rt \<Rightarrow> pc \<Rightarrow> bool" where
  "pc_ok e s (PCycle p) = cycle_ok e s p"
| "pc_ok e s (PSettle p) = settle_ok s p"
| "pc_ok e s (PStop p) = stop_ok s p"
| "pc_ok e s (PSubmit p) = submit_ok s p"
| "pc_ok e s (PSession p) = session_ok s p"
| "pc_ok e s (PRecover p) = recover_ok s p"
| "pc_ok e s _ = True"

subsection \<open>It stays sound while the state grows\<close>

lemma len_mono: "grows s s' \<Longrightarrow> i < length (rt_objs s) \<Longrightarrow> i < length (rt_objs s')"
  by (simp add: grows_def)

lemma known_mono: "grows s s' \<Longrightarrow> known s i taskId \<Longrightarrow> known s' i taskId"
  by (fastforce simp: grows_def known_def)

lemma named_mono: "grows s s' \<Longrightarrow> named s i ts \<Longrightarrow> named s' i ts"
  using known_mono len_mono unfolding named_def by blast

lemma judged_mono: "grows s s' \<Longrightarrow> judged s i ref t \<Longrightarrow> judged s' i ref t"
proof -
  assume g: "grows s s'" and j: "judged s i ref t"
  then obtain u where u: "task_of s i (snd ref) = Some u" "wt_spec u = wt_spec t" by (auto simp: judged_def)
  have "i < length (rt_objs s)" using j by (simp add: judged_def)
  then obtain u' where "task_of s' i (snd ref) = Some u'" "task_grows u u'" using g u(1) unfolding grows_def by blast
  then show ?thesis using len_mono [OF g] j u(2) by (auto simp: judged_def task_grows_def)
qed

lemma events_mono: "grows s s' \<Longrightarrow> i < length (rt_objs s) \<Longrightarrow> \<exists>late. events_of s' i = events_of s i @ late"
  by (fastforce simp: grows_def events_of_def split: option.split)

lemma tiers_mono:
  assumes "grows s s'" "i < length (rt_objs s)" "tiers_done e s i ref report spec rest"
  shows "tiers_done e s' i ref report spec rest"
proof -
  obtain late where "events_of s' i = events_of s i @ late" using events_mono assms(1,2) by blast
  then show ?thesis using assms(3) command_passed_more by (simp add: tiers_done_def)
qed

lemma kont_mono: "grows s s' \<Longrightarrow> kont_ok s k \<Longrightarrow> kont_ok s' k"
  using named_mono by (cases k) simp_all

lemma notice_mono: "grows s s' \<Longrightarrow> notice_ok s i n \<Longrightarrow> notice_ok s' i n"
  using named_mono kont_mono by (cases n) simp_all

lemma closer_mono: "grows s s' \<Longrightarrow> closer_ok s i c \<Longrightarrow> closer_ok s' i c"
  using named_mono kont_mono by (cases c) simp_all

lemma judged_len: "judged s i ref t \<Longrightarrow> i < length (rt_objs s)"
  by (simp add: judged_def)

lemmas mono = len_mono known_mono named_mono judged_mono kont_mono notice_mono closer_mono

lemma cycle_mono: "grows s s' \<Longrightarrow> cycle_ok e s p \<Longrightarrow> cycle_ok e s' p"
proof -
  assume g: "grows s s'" and ok: "cycle_ok e s p"
  note m = mono [OF g] tiers_mono [OF g]
  show ?thesis using ok by (cases p) (auto intro: m judged_len)
qed

lemma submit_mono: "grows s s' \<Longrightarrow> submit_ok s p \<Longrightarrow> submit_ok s' p"
proof (cases p)
  case (AtUSpawn i caller input)
  assume g: "grows s s'" and "submit_ok s p"
  then have k: "known s i (task_name (ar_runId (obj s i)))" using AtUSpawn by simp
  then have "ar_runId (obj s' i) = ar_runId (obj s i)" using g by (simp add: known_def grows_def)
  then show ?thesis using AtUSpawn known_mono [OF g k] by simp
qed (use mono in auto)

lemma pc_mono: "grows s s' \<Longrightarrow> pc_ok e s p \<Longrightarrow> pc_ok e s' p"
proof -
  assume g: "grows s s'" and ok: "pc_ok e s p"
  note m = mono [OF g]
  show ?thesis
  proof (cases p)
    case (PCycle q)
    then show ?thesis using cycle_mono [OF g] ok by simp
  next
    case (PSettle q)
    then show ?thesis using ok by (cases q) (auto intro: m)
  next
    case (PStop q)
    then show ?thesis using ok by (cases q) (auto intro: m)
  next
    case (PSubmit q)
    then show ?thesis using submit_mono [OF g] ok by simp
  next
    case (PSession q)
    then show ?thesis using ok by (cases q) (auto intro: m)
  next
    case (PRecover q)
    then show ?thesis using ok by (cases q) (auto intro: m)
  qed simp_all
qed

subsection \<open>Steps\<close>

definition okstep :: "wf_env \<Rightarrow> rt \<Rightarrow> rt \<times> pc \<Rightarrow> bool" where
  "okstep e s r \<longleftrightarrow> cores e s (fst r) \<and> pc_ok e (fst r) (snd r)"

lemma okstep_cores: "cores e s s1 \<Longrightarrow> okstep e s1 r \<Longrightarrow> okstep e s r"
  by (auto simp: okstep_def intro: cores_trans)

lemma ok_stay: "pc_ok e s p \<Longrightarrow> okstep e s (s, p)"
  by (simp add: okstep_def cores_refl)

lemma ok_core: "core e s s' \<Longrightarrow> pc_ok e s' p \<Longrightarrow> okstep e s (s', p)"
  by (simp add: okstep_def cores_one)

lemma plain_ok: "rt_disk s' = rt_disk s \<Longrightarrow> rt_objs s' = rt_objs s \<Longrightarrow> rt_runs s' = rt_runs s \<Longrightarrow> core e s s'"
  by (rule core_plain) auto

lemma ok_plain:
  assumes "rt_disk s' = rt_disk s" "rt_objs s' = rt_objs s" "rt_runs s' = rt_runs s" "pc_ok e s p"
  shows "okstep e s (s', p)"
  using ok_core [OF plain_ok] pc_mono core_grows [OF plain_ok] assms by metis

lemma ok_go:
  assumes "i < length (rt_objs s)" "harmless s i ev" "passes e (events_of s i) (ar_snapshot (obj s i)) ev"
    and "pc_ok e s next_pc" "pc_ok e s thrown"
  shows "okstep e s (go (append disk i ev s) next_pc thrown)"
proof -
  have c: "core e s (fst (append disk i ev s))" by (rule core_append [OF assms(1-3)])
  then show ?thesis
    using cores_one [OF c] pc_mono [OF core_grows [OF c]] assms(4,5) by (simp add: okstep_def go_def)
qed

lemma call_simps [simp]:
  "rt_disk (call c s) = rt_disk s" "rt_objs (call c s) = rt_objs s" "rt_runs (call c s) = rt_runs s"
  "obj (call c s) = obj s" "task_of (call c s) = task_of s" "tasks_of (call c s) = tasks_of s"
  by (simp_all add: call_def obj_def fun_eq_iff task_of_def tasks_of_def)

lemma timer_simps [simp]:
  "rt_disk (clearDeadline r s) = rt_disk s" "rt_objs (clearDeadline r s) = rt_objs s" "rt_runs (clearDeadline r s) = rt_runs s"
  "rt_disk (armDeadline r s) = rt_disk s" "rt_objs (armDeadline r s) = rt_objs s" "rt_runs (armDeadline r s) = rt_runs s"
  "rt_disk (deadlineClearAll s) = rt_disk s" "rt_objs (deadlineClearAll s) = rt_objs s" "rt_runs (deadlineClearAll s) = rt_runs s"
  by (simp_all add: clearDeadline_def armDeadline_def deadlineClearAll_def)

lemma harmless_simps [simp]:
  "harmless s i (RunSettled outc detail)" "harmless s i (RunRebound a b)" "harmless s i (NotifyDelivered taskId parent)"
  "harmless s i (TaskSubmitted taskId spec)"
  "harmless s i (settled_event taskId outc cause why) = (task_of s i taskId \<noteq> None)"
  "harmless s i (TaskSettled taskId outc v d evid c) = (task_of s i taskId \<noteq> None)"
  "harmless s i (VerifyStarted taskId t n) = (task_of s i taskId \<noteq> None)"
  "harmless s i (VerifyResult taskId t n vo code) = (task_of s i taskId \<noteq> None)"
  "harmless s i (RepairIssued taskId t n vs out) = (task_of s i taskId \<noteq> None)"
  "harmless s i (TaskReopened taskId n) = (task_of s i taskId \<noteq> None)"
  "harmless s i (TaskDispatched taskId a b) = (task_of s i taskId \<noteq> None)"
  by (auto simp: harmless_def settled_event_def)

lemma passes_simps [simp]:
  "passes e evs sn (RunSettled outc detail)" "passes e evs sn (RunRebound a b)" "passes e evs sn (NotifyDelivered taskId parent)"
  "passes e evs sn (TaskSubmitted taskId spec)" "passes e evs sn (VerifyStarted taskId t n)"
  "passes e evs sn (VerifyResult taskId t n vo code)" "passes e evs sn (RepairIssued taskId t n vs out)"
  "passes e evs sn (TaskReopened taskId n)" "passes e evs sn (TaskDispatched taskId a b)"
  by (auto simp: passes_def)

lemma passes_settled [simp]: "outc \<noteq> Completed \<Longrightarrow> passes e evs sn (TaskSettled taskId outc v d evid c)"
  "outc \<noteq> Completed \<Longrightarrow> passes e evs sn (settled_event taskId outc cause why)"
  by (auto simp: passes_def settled_event_def)

lemma on_return_ok: "kont_ok s k \<Longrightarrow> pc_ok e s (on_return k)"
  by (cases k) simp_all

lemma on_throw_ok [simp]: "pc_ok e s (on_throw k)"
  by (cases k) simp_all

lemma notice_throw_ok [simp]: "pc_ok e s (notice_throw n)"
  by (cases n) simp_all

lemma known_len: "known s i taskId \<Longrightarrow> i < length (rt_objs s)"
  by (simp add: known_def)

lemma known_task_of: "known s i taskId \<Longrightarrow> task_of s i taskId \<noteq> None"
  by (simp add: known_def)

lemma inv_run: "rt_inv e s \<Longrightarrow> map_get (rt_runs s) r = Some i \<Longrightarrow> i < length (rt_objs s)"
  by (auto simp: rt_inv_def runs_ok_def map_get_def dest!: map_of_SomeD)

lemma inv_run_id: "rt_inv e s \<Longrightarrow> map_get (rt_runs s) r = Some i \<Longrightarrow> ar_runId (obj s i) = r"
  by (auto simp: rt_inv_def runs_ok_def map_get_def obj_def dest!: map_of_SomeD)

lemma inv_tasks: "rt_inv e s \<Longrightarrow> i < length (rt_objs s) \<Longrightarrow> named s i (tasks_of s i)"
proof -
  assume inv: "rt_inv e s" and i: "i < length (rt_objs s)"
  have ok: "tasks_ok (ar_snapshot (obj s i))" using inv i by (simp add: rt_inv_def objs_ok_def obj_ok_def obj_def)
  have "known s i (wt_taskId t)" if el: "t \<in> set (tasks_of s i)" for t
  proof -
    obtain k where "(k, t) \<in> set (rs_tasks (ar_snapshot (obj s i)))"
      using el unfolding tasks_of_def task_values_def by (metis (no_types, lifting) image_iff list.set_map prod.collapse)
    then have "map_get (rs_tasks (ar_snapshot (obj s i))) k = Some t"
      using ok by (simp add: tasks_ok_def map_ok_def map_get_def)
    then show ?thesis using ok i by (auto simp: tasks_ok_def known_def task_of_def)
  qed
  then show ?thesis using i by (simp add: named_def)
qed

end
