(* ===== verification/WorkSteps.thy ===== *)
theory WorkSteps
  imports WorkHandlers WorkVerdictProps
begin

text \<open>The steps of all handlers keep within \<open>core\<close>, one lemma for each function of the code.\<close>

subsection \<open>\<open>onCycleEnd\<close>\<close>

lemma judgedI: "i < length (rt_objs s) \<Longrightarrow> task_of s i (snd ref) = Some t \<Longrightarrow> judged s i ref t"
  by (auto simp: judged_def)

lemma judged_known: "judged s i ref t \<Longrightarrow> known s i (snd ref)"
  by (auto simp: judged_def known_def)

lemma start_tiers: "tiers_done e s i ref report spec (tierChain spec)"
  by (auto simp: tiers_done_def tierChain_def)

lemma cycle_start_ok:
  assumes inv: "rt_inv e s" and k: "kont_ok s k"
  shows "okstep e s (cycle_start ref report k a s)"
proof (cases "map_get (rt_runs s) (fst ref)")
  case None
  then show ?thesis using k on_return_ok by (simp add: cycle_start_def ok_stay)
next
  case (Some i)
  have i: "i < length (rt_objs s)" by (rule inv_run [OF inv Some])
  show ?thesis
  proof (cases "task_of s i (snd ref)")
    case None
    then show ?thesis using k on_return_ok Some by (simp add: cycle_start_def ok_stay)
  next
    case t: (Some t)
    have "okstep e s (go (append (an_disk a) i (settled_event (snd ref) Failed ChildFailed (Some (mr_detail report))) s)
        (FStart i k) (on_throw k))"
      by (rule ok_go) (use i k t in simp_all)
    moreover have "pc_ok e s (CTiers i ref report t (tierChain (wt_spec t)) [] k)"
      using judgedI [OF i t] start_tiers k by simp
    ultimately show ?thesis using Some t k on_return_ok by (simp add: cycle_start_def ok_stay)
  qed
qed

lemma schema_accepts:
  assumes "fst (schemaTierVerdict e t report schema) = Accept"
  shows "\<exists>summary. mr_summary report = Some summary \<and> payload_ok e schema summary"
proof -
  let ?txt = "case mr_summary report of None \<Rightarrow> [] | Some x \<Rightarrow> x"
  have a: "evidenceOf (EvSchema (extractPayload (we_parse e) ?txt)
      (case extractPayload (we_parse e) ?txt of None \<Rightarrow> [] | Some p \<Rightarrow>
        map violation_line (validateSubset (we_stringify e) (we_show_num e) schema p ''$''))) = Accept"
    using assms by (auto simp: schemaTierVerdict_def Let_def adjudicate_accept_iff)
  then obtain p where p: "extractPayload (we_parse e) ?txt = Some p"
      "validateSubset (we_stringify e) (we_show_num e) schema p ''$'' = []"
    by (auto split: if_splits option.splits)
  have "extractPayload (we_parse e) [] = None"
    by (simp add: extractPayload_def parseJson_def trim_def trim_start_def fence_at_def FENCE_def)
  then have "mr_summary report \<noteq> None" using p(1) by (auto split: option.splits)
  then show ?thesis using p by (auto simp: payload_ok_def)
qed

lemma completed_gate:
  assumes "judged s i ref t" "tiers_done e s i ref report (wt_spec t) []"
  shows "passes e (events_of s i) (ar_snapshot (obj s i)) (passed_event ref report label)"
proof -
  obtain t' where t': "task_of s i (snd ref) = Some t'" "wt_spec t' = wt_spec t" using assms(1) by (auto simp: judged_def)
  have "gate_ok e (events_of s i) (wt_spec t) (snd ref) (or_else (evidence_tail report) old)" for old
    using assms(2) by (auto simp: tiers_done_def gate_ok_def evidence_tail_def or_else_def)
  then show ?thesis using t' by (auto simp: passes_def passed_event_def task_of_def)
qed

lemma tiers_skip:
  "tiers_done e s i ref report spec (t # rest) \<Longrightarrow>
   (t = TSchema \<Longrightarrow> sp_resultSchema spec = None) \<Longrightarrow> (t = TCommand \<Longrightarrow> sp_acceptance spec = None) \<Longrightarrow>
   tiers_done e s i ref report spec rest"
  by (cases t) (auto simp: tiers_done_def)

lemma cycle_tiers_ok:
  assumes j: "judged s i ref t" and td: "tiers_done e s i ref report (wt_spec t) tiers" and k: "kont_ok s k"
  shows "okstep e s (cycle_tiers e i ref report t tiers label k a s)"
proof -
  have i: "i < length (rt_objs s)" and kn: "task_of s i (snd ref) \<noteq> None" using j by (auto simp: judged_def)
  show ?thesis
  proof (cases tiers)
    case Nil
    have "harmless s i (passed_event ref report label)" using kn by (simp add: passed_event_def)
    then have "okstep e s (go (append (an_disk a) i (passed_event ref report label) s) (FStart i k) (on_throw k))"
      by (intro ok_go) (use i k completed_gate [OF j] td Nil in simp_all)
    then show ?thesis using Nil by simp
  next
    case (Cons tier rest)
    show ?thesis
    proof (cases tier)
      case TSchema
      show ?thesis
      proof (cases "sp_resultSchema (wt_spec t)")
        case None
        then show ?thesis using Cons TSchema j k tiers_skip [of e s i ref report "wt_spec t" tier rest] td by (simp add: ok_stay)
      next
        case (Some schema)
        let ?r = "schemaTierVerdict e t report schema"
        have "tiers_done e s i ref report (wt_spec t) rest" if "fst ?r = Accept"
          using schema_accepts [OF that] td Some Cons TSchema by (auto simp: tiers_done_def)
        then show ?thesis using Cons TSchema Some j k by (simp add: ok_stay Let_def)
      qed
    next
      case TCommand
      show ?thesis
      proof (cases "sp_acceptance (wt_spec t)")
        case None
        then show ?thesis using Cons TCommand j k tiers_skip [of e s i ref report "wt_spec t" tier rest] td by (simp add: ok_stay)
      next
        case (Some c)
        have "okstep e s (go (append (an_disk a) i (VerifyStarted (snd ref) TCommand (wt_verifyAttempts t + 1)) s)
            (CVerify i ref report t rest (wt_verifyAttempts t + 1) k) (on_throw k))"
          by (rule ok_go) (use i kn j k td Cons TCommand in simp_all)
        then show ?thesis using Cons TCommand Some by simp
      qed
    next
      case TCritic
      have "tiers_done e s i ref report (wt_spec t) rest" using tiers_skip [of e s i ref report "wt_spec t" tier rest] td Cons TCritic by simp
      then show ?thesis using Cons TCritic j k by (auto intro!: ok_plain ok_stay split: option.split)
    qed
  qed
qed

lemma append_passed_command:
  assumes i: "i < length (rt_objs s)" and kn: "task_of s i taskId \<noteq> None" and d: "rt_inv e s"
    and r: "append disk i (VerifyResult taskId TCommand n VPassed code) s = (s', True)"
  shows "command_passed (events_of s' i) taskId"
proof -
  have h: "harmless s i (VerifyResult taskId TCommand n VPassed code)" using kn by simp
  from h show ?thesis
  proof (cases rule: append_harmless [where disk = disk])
    case refused
    then show ?thesis using r by simp
  next
    case (written sn)
    have "objs_ok s" using d by (simp add: rt_inv_def)
    then obtain dr where "map_get (rt_disk s) (ar_runId (obj s i)) = Some dr"
      using open_journal [OF _ i written(1)] by blast
    then have "VerifyResult taskId TCommand n VPassed code \<in> set (events_of s' i)"
      using r written(4) i by (auto simp: events_of_def obj_set_obj get_write)
    then show ?thesis by (auto simp: command_passed_def)
  qed
qed

lemma verify_consume_ok:
  assumes inv: "rt_inv e s" and j: "judged s i ref t" and k: "kont_ok s k"
    and td: "tiers_done e s i ref report (wt_spec t) (TCommand # rest)"
    and thr: "pc_ok e s thrown" and v: "v = Accept \<Longrightarrow> outc = VPassed"
  shows "okstep e s (go (append disk i (VerifyResult (snd ref) TCommand n outc code) s)
      (CConsume i ref report t TCommand v violations rest k) thrown)"
proof -
  let ?ev = "VerifyResult (snd ref) TCommand n outc code"
  have i: "i < length (rt_objs s)" and kn: "task_of s i (snd ref) \<noteq> None" using j by (auto simp: judged_def)
  have c: "core e s (fst (append disk i ?ev s))" by (rule core_append) (use i kn in simp_all)
  have g: "grows s (fst (append disk i ?ev s))" by (rule core_grows [OF c])
  have "tiers_done e (fst (append disk i ?ev s)) i ref report (wt_spec t) rest"
    if ok: "snd (append disk i ?ev s)" and acc: "v = Accept"
  proof -
    have "command_passed (events_of (fst (append disk i ?ev s)) i) (snd ref)"
      using append_passed_command [OF i kn inv, of disk n code] v [OF acc] ok
      by (cases "append disk i ?ev s") auto
    then show ?thesis using td by (auto simp: tiers_done_def)
  qed
  then show ?thesis
    using cores_one [OF c] judged_mono [OF g j] kont_mono [OF g k] pc_mono [OF g thr]
    by (auto simp: okstep_def go_def)
qed

lemma command_accepts: "commandVerdictOf outc code used mx = Accept \<longleftrightarrow> outc = VPassed"
  by (auto simp: commandVerdictOf_def)

lemma cycle_verify_ok:
  assumes "rt_inv e s" "judged s i ref t" "kont_ok s k" "tiers_done e s i ref report (wt_spec t) (TCommand # rest)"
  shows "okstep e s (cycle_verify e i ref report t rest attempt k a s)"
    and "okstep e s (cycle_verify_catch e i ref report t rest attempt k a s)"
proof -
  have th: "pc_ok e s (if in_try (an_proc a) then CVerifyCatch i ref report t rest attempt k else on_throw k)"
    using assms by simp
  show "okstep e s (cycle_verify e i ref report t rest attempt k a s)"
    unfolding cycle_verify_def Let_def
    by (rule verify_consume_ok [OF assms th]) (simp add: commandTierVerdict_def command_accepts)
  show "okstep e s (cycle_verify_catch e i ref report t rest attempt k a s)"
    unfolding cycle_verify_catch_def Let_def
    by (rule verify_consume_ok [OF assms on_throw_ok]) (simp add: commandTierVerdict_def command_accepts)
qed

lemma cycle_critic_ok:
  assumes "judged s i ref t" "kont_ok s k" "tiers_done e s i ref report (wt_spec t) rest"
  shows "okstep e s (cycle_critic e i ref report t rest k a s)"
  using assms unfolding cycle_critic_def Let_def by (auto intro!: ok_plain split: option.split)

lemma cycle_consume_ok:
  assumes j: "judged s i ref t" and k: "kont_ok s k" and td: "v = Accept \<Longrightarrow> tiers_done e s i ref report (wt_spec t) rest"
  shows "okstep e s (cycle_consume e i ref report t tier v violations rest k a s)"
proof -
  have i: "i < length (rt_objs s)" and kn: "task_of s i (snd ref) \<noteq> None" using j by (auto simp: judged_def)
  have kk: "known s i (snd ref)" using i kn by (simp add: known_def)
  show ?thesis
  proof (cases v)
    case Accept
    then show ?thesis using j k td by (simp add: cycle_consume_def ok_stay)
  next
    case (Reject vs)
    have h: "harmless s i (if tier = TCritic then TaskReopened (snd ref) n else RepairIssued (snd ref) tier n (Some violations) None)" for n
      using kn by simp
    have p: "passes e evs sn (if tier = TCritic then TaskReopened (snd ref) n else RepairIssued (snd ref) tier n (Some violations) None)" for evs sn n
      by simp
    show ?thesis unfolding cycle_consume_def Let_def Reject
      by (simp only: verdict.case, rule ok_go [OF i h p]) (use kk k in simp_all)
  next
    case (Fail reason)
    show ?thesis unfolding cycle_consume_def Fail
      by (simp only: verdict.case, rule ok_go [OF i]) (use i k kn in simp_all)
  qed
qed

lemma cycle_send_ok: "known s i (snd ref) \<Longrightarrow> kont_ok s k \<Longrightarrow> okstep e s (cycle_send e i ref report txt k s)"
  by (auto simp: cycle_send_def intro!: ok_plain)

lemma cycle_sent_ok: "known s i (snd ref) \<Longrightarrow> kont_ok s k \<Longrightarrow> okstep e s (cycle_sent i ref driven k a s)"
  unfolding cycle_sent_def
  by (auto simp: known_def on_return_ok split: option.split intro!: ok_stay ok_go)

subsection \<open>The end of a run\<close>

lemma settle_run_ok: "i < length (rt_objs s) \<Longrightarrow> kont_ok s k \<Longrightarrow> okstep e s (settle_run i outc why k a s)"
  unfolding settle_run_def by (rule ok_go) simp_all

lemma finalize_ready_ok: "i < length (rt_objs s) \<Longrightarrow> kont_ok s k \<Longrightarrow> okstep e s (finalize_ready i k a s)"
  by (auto simp: finalize_ready_def Let_def settle_run_ok on_return_ok intro!: ok_stay)

lemma finalize_doomed_ok: "i < length (rt_objs s) \<Longrightarrow> kont_ok s k \<Longrightarrow> okstep e s (finalize_doomed i ids k a s)"
  by (induction ids) (auto simp: finalize_ready_ok split: option.split intro!: ok_go)

lemma finalize_run_ok: "i < length (rt_objs s) \<Longrightarrow> kont_ok s k \<Longrightarrow> okstep e s (finalize_run i k a s)"
  by (simp add: finalize_run_def finalize_doomed_ok)

lemma mark_ok: "i < length (rt_objs s) \<Longrightarrow> notice_ok s i n \<Longrightarrow> okstep e s (mark_notified i parent ts n a s)"
  by (induction ts) (auto intro!: ok_stay ok_go)

lemma notice_call: "notice_ok s i n \<Longrightarrow> notice_ok (call c s) i n"
  by (rule notice_mono [OF core_grows [OF plain_ok]]) simp_all

lemma deliver_ok: "i < length (rt_objs s) \<Longrightarrow> notice_ok s i n \<Longrightarrow> okstep e s (deliver i n a s)"
proof -
  assume i: "i < length (rt_objs s)" and n: "notice_ok s i n"
  have "okstep e s (mark_notified i parent ts n a (call c s))" for parent ts c
    by (rule okstep_cores [OF cores_one [OF plain_ok [of "call c s" s]] mark_ok]) (use i n notice_call in simp_all)
  then show ?thesis using i n by (auto simp: deliver_def Let_def intro!: ok_stay)
qed

lemma drop_simps [simp]:
  "rt_disk (drop_agent t c s) = rt_disk s" "rt_objs (drop_agent t c s) = rt_objs s" "rt_runs (drop_agent t c s) = rt_runs s"
  by (simp_all add: drop_agent_def split: closer.split)

lemma plain_closer:
  "rt_disk s' = rt_disk s \<Longrightarrow> rt_objs s' = rt_objs s \<Longrightarrow> rt_runs s' = rt_runs s \<Longrightarrow> closer_ok s i c \<Longrightarrow> closer_ok s' i c"
  by (rule closer_mono [OF core_grows [OF plain_ok]])

lemma close_then: "i < length (rt_objs s) \<Longrightarrow> closer_ok s i c \<Longrightarrow> okstep e s (close_writer i s, SDelete i c)"
proof (rule ok_core)
  assume i: "i < length (rt_objs s)" and c: "closer_ok s i c"
  show k: "core e s (close_writer i s)" by (rule core_close [OF i])
  show "pc_ok e (close_writer i s) (SDelete i c)"
    using len_mono [OF core_grows [OF k] i] closer_mono [OF core_grows [OF k] c] by simp
qed

lemma close_loop_ok: "i < length (rt_objs s) \<Longrightarrow> closer_ok s i c \<Longrightarrow> okstep e s (close_loop e i ts c s)"
proof (induction ts arbitrary: s)
  case (Cons t ts)
  let ?s1 = "case c of ClSettle _ _ \<Rightarrow> clearDeadline (ar_runId (obj s i), wt_taskId t) s | _ \<Rightarrow> s"
  have same: "rt_disk ?s1 = rt_disk s" "rt_objs ?s1 = rt_objs s" "rt_runs ?s1 = rt_runs s"
    by (simp_all split: closer.split)
  have rest: "okstep e s (close_loop e i ts c (drop_agent t c ?s1))"
    by (rule okstep_cores [OF cores_one [OF plain_ok] Cons.IH]) (use same Cons.prems plain_closer [of "drop_agent t c ?s1" s] in simp_all)
  have "okstep e s (call x ?s1, SClose i (t # ts) c)" for x
    by (rule ok_plain) (use same Cons.prems in simp_all)
  then show ?case using rest by (simp add: Let_def split: option.split)
qed (simp add: close_then)

lemma detach_core: "core e s (detach runId s)"
  by (rule core_plain) (auto simp: detach_def map_delete_def split: option.split)

lemma closed_run_ok: "i < length (rt_objs s) \<Longrightarrow> closer_ok s i c \<Longrightarrow> okstep e s (closed_run i c s)"
proof -
  assume i: "i < length (rt_objs s)" and c: "closer_ok s i c"
  let ?s1 = "s\<lparr>rt_runs := map_delete (rt_runs s) (ar_runId (obj s i))\<rparr>"
  have d: "core e s ?s1" by (rule core_plain) (auto simp: map_delete_def)
  note g = core_grows [OF d]
  show ?thesis
  proof (cases c)
    case (ClSettle outc k)
    then show ?thesis using c ok_core [OF d, where p = "on_return k"] on_return_ok [OF kont_mono [OF g]]
      by (simp add: closed_run_def)
  next
    case (ClAlive seen)
    then show ?thesis using ok_core [OF d, where p = "ALoop seen"] by (simp add: closed_run_def)
  next
    case (ClRec ts sc)
    have "named (detach (ar_runId (obj s i)) s) i ts"
      using named_mono [OF core_grows [OF detach_core]] c ClRec by simp
    then show ?thesis using ClRec ok_core [OF detach_core, where p = "RTasks i ts sc"] by (simp add: closed_run_def)
  qed
qed

subsection \<open>Recovery\<close>

lemma named_Cons: "named s i (t # ts) \<longleftrightarrow> known s i (wt_taskId t) \<and> named s i ts"
  by (auto simp: named_def known_def)

lemma named_len: "named s i ts \<Longrightarrow> i < length (rt_objs s)"
  by (simp add: named_def)

lemma recover_tasks_ok: "named s i ts \<Longrightarrow> okstep e s (recover_tasks e i ts sc a s)"
proof (induction ts)
  case (Cons t ts)
  have i: "i < length (rt_objs s)" and kn: "task_of s i (wt_taskId t) \<noteq> None" and n: "named s i ts"
    using Cons.prems by (auto simp: named_Cons known_def)
  have v: "okstep e s (go (append (an_disk a) i (VerifyResult (wt_taskId t) TCommand (wt_verifyAttempts t) VUnknown None) s)
      (RVerify i (wt_taskId t) ts sc) PThrown)"
    by (rule ok_go) (use i kn n in \<open>simp_all add: known_def\<close>)
  have d: "okstep e s (deliver i (NRecTask ts sc) a s)" by (rule deliver_ok) (use i n in simp_all)
  have c: "okstep e s (close_writer i s, SDelete i (ClRec ts sc))" by (rule close_then) (use i n in simp_all)
  show ?case
    using v d c Cons.IH [OF n] Cons.prems by (auto simp: ok_stay split: option.split)
qed (simp add: ok_stay)

lemma recover_verify_ok: "known s i taskId \<Longrightarrow> named s i ts \<Longrightarrow> okstep e s (recover_verify i taskId ts sc a s)"
  unfolding recover_verify_def by (rule ok_go) (simp_all add: known_def)

lemma after_recovery_ok: "named s i ts \<Longrightarrow> okstep e s (finalizeAfterRecovery e i ts sc a s)"
proof -
  assume n: "named s i ts"
  have "okstep e s (go (append (an_disk a) i (RunSettled outc ''recovered'') s) (NSend i (NRecEnd ts sc)) PThrown)" for outc
    by (rule ok_go) (use n named_len in simp_all)
  then show ?thesis using recover_tasks_ok [OF n] by (simp add: finalizeAfterRecovery_def Let_def)
qed

lemma recoverTask_ok:
  assumes inv: "rt_inv e s" and n: "named s i (t # ts)"
  shows "okstep e s (recoverTask e i t agent session evs ts sc a s)"
proof -
  have i: "i < length (rt_objs s)" and kn: "task_of s i (wt_taskId t) \<noteq> None" and nt: "named s i ts"
    using n by (auto simp: named_Cons known_def)
  have d: "okstep e s (deliverToAcceptance i agent session evs ts sc a s)"
    unfolding deliverToAcceptance_def by (rule cycle_start_ok [OF inv]) (simp add: nt)
  have r: "okstep e s (reviveAndKick e i t agent ts sc s)"
    unfolding reviveAndKick_def using nt by (auto intro!: ok_stay ok_plain)
  have f: "okstep e s (go (append (an_disk a) i (settled_event (wt_taskId t) Failed ChildFailed (Some why)) s) (RFinal i ts sc) PThrown)" for why
    by (rule ok_go) (use i kn nt in simp_all)
  show ?thesis using d r f by (simp add: recoverTask_def split: child_terminal.split)
qed

lemma recover_kick_ok: "named s i ts \<Longrightarrow> okstep e s (recover_kick e i t agent ts sc a s)"
  unfolding recover_kick_def using recover_tasks_ok by (auto intro!: ok_plain)

lemma redispatch_loop_ok: "rt_inv e s \<Longrightarrow> named s i ts \<Longrightarrow> okstep e s (redispatch_loop e i ts sc a s)"
proof (induction ts)
  case Nil
  then show ?case using inv_tasks named_len by (auto intro!: ok_stay)
next
  case (Cons t ts)
  then have "named s i ts" by (simp add: named_Cons)
  then show ?case using Cons by (auto intro!: ok_plain)
qed

lemma redispatch_spawned_ok: "named s i (t # ts) \<Longrightarrow> okstep e s (redispatch_spawned i t ts sc a s)"
proof -
  assume n: "named s i (t # ts)"
  have i: "i < length (rt_objs s)" and kn: "task_of s i (wt_taskId t) \<noteq> None" and nt: "named s i ts"
    using n by (auto simp: named_Cons known_def)
  have f: "okstep e s (go (append (an_disk a) i (settled_event (wt_taskId t) Failed DispatchFailed (Some why)) s) (RDispatch i ts sc) PThrown)" for why
    by (rule ok_go) (use i kn nt in simp_all)
  have "okstep e s (go (append (an_disk a) i (TaskDispatched (wt_taskId t) agent session) (s\<lparr>rt_agents := ag\<rparr>))
      (RDispatched i (wt_taskId t) sc) PThrown)" for agent session ag
  proof (rule okstep_cores [OF cores_one [OF plain_ok]])
    show "okstep e (s\<lparr>rt_agents := ag\<rparr>) (go (append (an_disk a) i (TaskDispatched (wt_taskId t) agent session) (s\<lparr>rt_agents := ag\<rparr>))
      (RDispatched i (wt_taskId t) sc) PThrown)"
      by (rule ok_go) (use i kn in \<open>simp_all add: task_of_def obj_def\<close>)
  qed simp_all
  then show ?thesis using f by (auto simp: redispatch_spawned_def split: sum.split)
qed

lemma attach_same: "rt_disk (fold (attach_task r) ts s) = rt_disk s \<and> rt_objs (fold (attach_task r) ts s) = rt_objs s \<and>
    rt_runs (fold (attach_task r) ts s) = rt_runs s"
  by (induction ts arbitrary: s) (auto simp: attach_task_def Let_def split: option.split)

lemma attach_core: "i < length (rt_objs s) \<Longrightarrow> core e s (attach i s)"
proof (rule core_plain)
  assume i: "i < length (rt_objs s)"
  have "set (map_set m k v) \<subseteq> insert (k, v) (set m)" for m :: "(string, nat) jsmap" and k v
    by (induction m k v rule: map_set.induct) auto
  note sub = this
  show "\<forall>(r, j)\<in>set (rt_runs (attach i s)). (r, j) \<in> set (rt_runs s) \<or> j < length (rt_objs s) \<and> ar_runId (obj s j) = r"
    using sub i attach_same by (fastforce simp: attach_def)
qed (simp_all add: attach_def attach_same)

lemma recoverRun_ok: "rt_inv e s \<Longrightarrow> i < length (rt_objs s) \<Longrightarrow> okstep e s (recoverRun e i sc a s)"
  unfolding recoverRun_def using inv_tasks recover_tasks_ok redispatch_loop_ok by auto

lemma warm_simps [simp]:
  "rt_disk (warmColdIndex sn s) = rt_disk s" "rt_objs (warmColdIndex sn s) = rt_objs s" "rt_runs (warmColdIndex sn s) = rt_runs s"
  by (simp_all add: warmColdIndex_def)

lemma scan_ok:
  assumes inv: "rt_inv e s"
  shows "okstep e s (scanAndRecover e sc a s)"
proof -
  obtain entries claimed skipped where sc: "sc = (entries, claimed, skipped)" by (cases sc) auto
  show ?thesis
  proof (cases entries)
    case Nil
    then show ?thesis using sc by (simp add: ok_stay)
  next
    case (Cons runId rest)
    have skip: "okstep e s (s, XScan (rest, claimed, skipped + 1))" by (simp add: ok_stay)
    have warm: "okstep e s (warmColdIndex sn s, XScan (rest, claimed, skipped + 1))" for sn by (rule ok_plain) simp_all
    have claim: "okstep e s (recoverRun e (length (rt_objs s)) (rest, claimed, skipped) a
        (attach (length (rt_objs s)) (open_run runId parent sn (warmColdIndex sn s))))"
      if d: "map_get (rt_disk s) runId = Some d" "\<not> dk_locked d" "fold_disk d = Some sn" for d sn parent
    proof -
      let ?s1 = "warmColdIndex sn s" and ?i = "length (rt_objs s)"
      let ?s2 = "open_run runId parent sn ?s1"
      have c1: "core e s ?s1" by (rule plain_ok) simp_all
      have c2: "core e ?s1 ?s2" by (rule core_open) (use d in simp_all)
      have len: "?i < length (rt_objs ?s2)" by (simp add: open_run_def)
      have c3: "core e ?s2 (attach ?i ?s2)" by (rule attach_core [OF len])
      have cs: "cores e s (attach ?i ?s2)" using cores_more [OF cores_more [OF cores_one [OF c1] c2] c3] .
      show ?thesis
        by (rule okstep_cores [OF cs recoverRun_ok [OF cores_inv [OF cs inv]]]) (rule len_mono [OF core_grows [OF c3] len])
    qed
    show ?thesis unfolding sc Cons scanAndRecover.simps Let_def using skip warm
      by (auto split: option.split intro!: claim)
  qed
qed

subsection \<open>The other entries\<close>

lemma alive_ok:
  assumes "rt_inv e s"
  shows "(\<forall>(r, i)\<in>set runs. i < length (rt_objs s)) \<Longrightarrow> okstep e s (alive_scan runs seen a s)"
  by (induction runs seen a s rule: alive_scan.induct) (auto simp: Let_def intro!: ok_stay deliver_ok)

lemma onSessionAlive_ok: "rt_inv e s \<Longrightarrow> okstep e s (onSessionAlive seen a s)"
  unfolding onSessionAlive_def by (rule alive_ok) (auto simp: rt_inv_def runs_ok_def)

lemma fold_clear: "rt_disk (fold (\<lambda>t. clearDeadline (f t)) ts s) = rt_disk s \<and> rt_objs (fold (\<lambda>t. clearDeadline (f t)) ts s) = rt_objs s \<and>
    rt_runs (fold (\<lambda>t. clearDeadline (f t)) ts s) = rt_runs s"
  by (induction ts arbitrary: s) auto

lemma after_notice_ok: "rt_inv e s \<Longrightarrow> i < length (rt_objs s) \<Longrightarrow> notice_ok s i n \<Longrightarrow> okstep e s (after_notice_step e i n a s)"
proof (cases n)
  case (NSettle outc k)
  assume "i < length (rt_objs s)" "notice_ok s i n"
  then show ?thesis using NSettle close_loop_ok on_return_ok
    by (auto simp: after_notice_step_def Let_def fold_clear intro!: ok_plain)
next
  case (NAlive seen)
  assume "i < length (rt_objs s)" "notice_ok s i n" "rt_inv e s"
  then show ?thesis using NAlive close_loop_ok onSessionAlive_ok by (simp add: after_notice_step_def Let_def)
next
  case (NRecTask ts sc)
  assume "i < length (rt_objs s)" "notice_ok s i n"
  then show ?thesis using NRecTask close_then recover_tasks_ok by (simp add: after_notice_step_def Let_def)
next
  case (NRecEnd ts sc)
  assume "i < length (rt_objs s)" "notice_ok s i n"
  then show ?thesis using NRecEnd close_loop_ok by (simp add: after_notice_step_def Let_def)
qed

lemma run_with_task_len: "rt_inv e s \<Longrightarrow> run_with_task s taskId = Some i \<Longrightarrow> i < length (rt_objs s)"
proof -
  assume inv: "rt_inv e s" and r: "run_with_task s taskId = Some i"
  then obtain p ps where f: "filter (\<lambda>p. task_of s (snd p) taskId \<noteq> None) (rt_runs s) = p # ps" "snd p = i"
    by (auto simp: run_with_task_def split: list.splits)
  have "p \<in> set (filter (\<lambda>p. task_of s (snd p) taskId \<noteq> None) (rt_runs s))" unfolding f(1) by simp
  then have "p \<in> set (rt_runs s)" "snd p = i" using f(2) by auto
  then show ?thesis using inv by (auto simp: rt_inv_def runs_ok_def)
qed

lemma stop_settle_ok: "known s i taskId \<Longrightarrow> okstep e s (stop_settle i taskId a s)"
  unfolding stop_settle_def by (rule ok_go) (simp_all add: known_def)

lemma stopTask_ok: "rt_inv e s \<Longrightarrow> okstep e s (stopTask taskId caller a s)"
proof (cases "run_with_task s taskId")
  case (Some i)
  assume inv: "rt_inv e s"
  have i: "i < length (rt_objs s)" by (rule run_with_task_len [OF inv Some])
  show ?thesis
  proof (cases "task_of s i taskId")
    case t: (Some t)
    have "okstep e s (go (append (an_disk a) i (VerifyResult taskId TCommand (wt_verifyAttempts t) VUnknown None) s) (TSettle i taskId) PThrown)"
      by (rule ok_go) (use i t in \<open>simp_all add: known_def\<close>)
    then show ?thesis using Some t i stop_settle_ok by (simp add: stopTask_def ok_stay known_def)
  qed (use Some in \<open>simp add: stopTask_def ok_stay\<close>)
qed (simp add: stopTask_def ok_stay)

lemma cold_scan_ok:
  "(\<forall>(r, d)\<in>set entries. map_get (rt_disk s) r = Some d) \<Longrightarrow> okstep e s (cold_scan e entries taskId caller a s)"
proof (induction entries)
  case (Cons x rest)
  obtain r d where x: "x = (r, d)" by (cases x)
  have d: "map_get (rt_disk s) r = Some d" using Cons.prems x by simp
  have "okstep e s (let s1 = write_events r (cold_events sn taskId) s;
         s2 = (case wt_agentId t of Some agent \<Rightarrow> if we_view e then call (CallSettle agent ''task-stop-cold'') s1 else s1 | None \<Rightarrow> s1)
       in (s2, PDone res))"
    if "fold_disk d = Some sn" "map_get (rs_tasks sn) taskId = Some t" "\<not> dk_locked d" for sn t res
  proof -
    have c: "core e s (write_events r (cold_events sn taskId) s)" by (rule core_cold [OF d]) (use that in simp_all)
    show ?thesis unfolding Let_def
      by (rule okstep_cores [OF cores_one [OF c]], rule ok_plain) (auto split: option.split)
  qed
  then show ?case using Cons x by (auto simp: ok_stay split: option.split)
qed (simp add: ok_stay)

lemma deadline_fire_ok: "rt_inv e s \<Longrightarrow> okstep e s (deadline_fire e ref a s)"
proof (cases "map_get (rt_runs s) (fst ref)")
  case (Some i)
  assume inv: "rt_inv e s"
  have i: "i < length (rt_objs s)" by (rule inv_run [OF inv Some])
  have "okstep e s (go (append (an_disk a) i (settled_event (snd ref) Failed TaskDeadline why) s) (DSettle i agent) PThrown)"
    if "task_of s i (snd ref) \<noteq> None" for why agent
    by (rule ok_go) (use i that in simp_all)
  then show ?thesis using Some by (auto simp: deadline_fire_def ok_stay split: option.split)
qed (simp add: deadline_fire_def ok_stay)

lemma deadline_settle_ok: "i < length (rt_objs s) \<Longrightarrow> okstep e s (deadline_settle e i agent a s)"
  unfolding deadline_settle_def using finalize_run_ok by (auto intro!: ok_plain split: option.split)

lemma submit_start_ok: "okstep e s (submit e caller input a s)"
  by (auto simp: submit_def managedSubmit_def Let_def intro!: ok_stay ok_plain split: option.split)

lemma submit_task_ok:
  assumes inv: "rt_inv e s" and i: "i < length (rt_objs s)"
  shows "okstep e s (submit_task i caller input a s)"
proof -
  let ?id = "task_name (ar_runId (obj s i))"
  let ?ev = "TaskSubmitted ?id (specOf input)"
  have h: "harmless s i ?ev" by simp
  have c: "core e s (fst (append (an_disk a) i ?ev s))" by (rule core_append [OF i h]) simp
  have "known (fst (append (an_disk a) i ?ev s)) i (task_name (ar_runId (obj (fst (append (an_disk a) i ?ev s)) i)))"
    if "snd (append (an_disk a) i ?ev s)"
    using h
  proof (cases rule: append_harmless [where disk = "an_disk a"])
    case refused
    then show ?thesis using that by simp
  next
    case (written sn)
    have "map_get (rs_tasks sn) ?id \<noteq> None" using written(3) by (auto simp: withTask_def put_task_get)
    then show ?thesis using written(4) i by (simp add: known_def task_of_def obj_set_obj)
  qed
  then show ?thesis unfolding submit_task_def using cores_one [OF c] by (auto simp: okstep_def go_def)
qed

lemma submit_spawned_ok: "known s i taskId \<Longrightarrow> okstep e s (submit_spawned i taskId caller a s)"
proof -
  assume k: "known s i taskId"
  have i: "i < length (rt_objs s)" and kn: "task_of s i taskId \<noteq> None" using k by (auto simp: known_def)
  have f: "okstep e s (go (append (an_disk a) i (settled_event taskId Failed DispatchFailed (Some why)) s) (UFailed i why) PThrown)" for why
    by (rule ok_go) (use i kn in simp_all)
  have "okstep e s (go (append (an_disk a) i (TaskDispatched taskId agent session) (s\<lparr>rt_cold := c, rt_agents := ag\<rparr>)) (UDispatched i taskId reply) PThrown)"
    for agent session reply c ag
  proof (rule okstep_cores [OF cores_one [OF plain_ok]])
    show "okstep e (s\<lparr>rt_cold := c, rt_agents := ag\<rparr>)
        (go (append (an_disk a) i (TaskDispatched taskId agent session) (s\<lparr>rt_cold := c, rt_agents := ag\<rparr>)) (UDispatched i taskId reply) PThrown)"
      by (rule ok_go) (use i kn in \<open>simp_all add: task_of_def obj_def\<close>)
  qed simp_all
  then show ?thesis using f by (auto simp: submit_spawned_def Let_def split: sum.split)
qed

lemma rebind_scan_ok:
  "(\<forall>(r, i)\<in>set runs. i < length (rt_objs s)) \<Longrightarrow> okstep e s (rebind_scan nextS runs seen a s)"
  by (induction nextS runs seen a s rule: rebind_scan.induct) (auto intro!: ok_stay ok_go)

lemma rebind_runs_ok: "rt_inv e s \<Longrightarrow> okstep e s (rebind_runs nextS seen a s)"
  unfolding rebind_runs_def by (rule rebind_scan_ok) (auto simp: rt_inv_def runs_ok_def)

lemma rebind_ok: "rt_inv e s \<Longrightarrow> okstep e s (rebind nextS a s)"
proof -
  assume inv: "rt_inv e s"
  let ?s1 = "s\<lparr>rt_main := nextS\<rparr>"
  have c: "core e s ?s1" by (rule plain_ok) simp_all
  show ?thesis unfolding rebind_def
    using okstep_cores [OF cores_one [OF c] rebind_runs_ok [OF core_inv [OF c inv]]] by (simp add: ok_stay)
qed

lemma rebind_header_ok: "i < length (rt_objs s) \<Longrightarrow> okstep e s (rebind_header i nextS seen s)"
proof -
  assume i: "i < length (rt_objs s)"
  let ?s1 = "set_obj i (\<lambda>r. r\<lparr>ar_parent := nextS\<rparr>) s"
  have "core e s ?s1" by (rule core_parent [OF i])
  moreover have "core e ?s1 (set_disk (ar_runId (obj s i)) (\<lambda>d. d\<lparr>dk_parent := nextS\<rparr>) ?s1)" by (rule core_header)
  ultimately show ?thesis unfolding rebind_header_def using cores_more [OF cores_one] by (simp add: okstep_def)
qed

lemma rebind_disk_ok: "okstep e s (rebind_disk nextS entries a s)"
proof (cases entries)
  case Nil
  then show ?thesis by (auto simp: rebind_cold_def intro!: ok_plain)
next
  case (Cons runId rest)
  have upd: "okstep e s (set_disk runId (\<lambda>d. d\<lparr>dk_parent := nextS\<rparr>)
      (if an_disk a then write_events runId [RunRebound (rs_parentSession sn) nextS] s else s), BDisk nextS rest)"
    if "map_get (rt_disk s) runId = Some d" "\<not> dk_locked d" for d sn
  proof -
    have "cores e s (if an_disk a then write_events runId [RunRebound (rs_parentSession sn) nextS] s else s)"
      using core_rebound [OF that] cores_one cores_refl by simp
    then have "cores e s (set_disk runId (\<lambda>d. d\<lparr>dk_parent := nextS\<rparr>)
      (if an_disk a then write_events runId [RunRebound (rs_parentSession sn) nextS] s else s))"
      by (rule cores_more) (rule core_header)
    then show ?thesis by (simp add: okstep_def)
  qed
  have stay: "okstep e s (s, BDisk nextS rest)" by (simp add: ok_stay)
  show ?thesis
  proof (cases "map_get (rt_disk s) runId")
    case (Some d)
    show ?thesis using stay upd [OF Some] Some Cons by (cases "fold_disk d") (auto simp: Let_def)
  qed (use stay Cons in \<open>auto simp: Let_def\<close>)
qed

lemma dispose_ok: "rt_inv e s \<Longrightarrow> okstep e s (dispose_runtime seen s)"
proof -
  assume inv: "rt_inv e s"
  have scan: "okstep e s (dispose_scan runs seen s)" if "\<forall>(r, i)\<in>set runs. i < length (rt_objs s)" for runs
  proof (cases runs)
    case Nil
    have "core e s (s\<lparr>rt_runs := [], rt_agents := []\<rparr>)" by (rule core_plain) simp_all
    then show ?thesis using Nil ok_core by (auto intro!: ok_core)
  next
    case (Cons x rest)
    then show ?thesis using that by (cases x) (auto intro!: ok_core core_close)
  qed
  show ?thesis unfolding dispose_runtime_def by (rule scan) (use inv in \<open>auto simp: rt_inv_def runs_ok_def\<close>)
qed

subsection \<open>All steps\<close>

end
