(* ===== verification/WorkPlay.thy ===== *)
theory WorkPlay
  imports WorkSystem
begin

text \<open>
  Scripts: a list of the calls, timers and answers that happen, played one after the other, and one script that
  submits a task with a schema and a command and lets its first cycle pass both.
\<close>

datatype act =
    ActCall pc
  | ActTimer task_ref
  | ActRun nat answer

definition id_is_new :: "pc \<Rightarrow> rt \<Rightarrow> bool" where
  "id_is_new p s = (case p of PSubmit (AtUOpen r c inp) \<Rightarrow> map_get (rt_disk s) r = None | _ \<Rightarrow> True)"

fun play_act :: "wf_env \<Rightarrow> act \<Rightarrow> system \<Rightarrow> system option" where
  "play_act e (ActCall p) (s, ps) = (if entry p then Some (s, ps @ [p]) else None)"
| "play_act e (ActTimer ref) (s, ps) =
     (if ref \<in> set (rt_timers s) then Some (clearDeadline ref s, ps @ [DFire ref]) else None)"
| "play_act e (ActRun j a) (s, ps) =
     (if j < length ps \<and> id_is_new (ps ! j) s
      then let r = seg e a (ps ! j) s in Some (fst r, ps[j := snd r])
      else None)"

fun play :: "wf_env \<Rightarrow> act list \<Rightarrow> system \<Rightarrow> system option" where
  "play e [] c = Some c"
| "play e (x # xs) c = (case play_act e x c of None \<Rightarrow> None | Some c' \<Rightarrow> play e xs c')"

lemma play_act_step: "play_act e x c = Some c' \<Longrightarrow> sys_step e c c'"
proof (induction e x c rule: play_act.induct)
  case (3 e j a s ps)
  then have j: "j < length ps" and new: "id_is_new (ps ! j) s" and c': "c' = (fst (seg e a (ps ! j) s), ps[j := snd (seg e a (ps ! j) s)])"
    by (simp_all add: Let_def split: if_splits)
  have "\<forall>r c inp. ps ! j = UOpen r c inp \<longrightarrow> map_get (rt_disk s) r = None"
    using new by (auto simp: id_is_new_def)
  then show ?case unfolding c' by (intro sys_run [OF j]) simp_all
qed (auto split: if_splits intro: sys_call sys_timer)

lemma sys_reach_trans: "sys_reach e c' c'' \<Longrightarrow> sys_reach e c c' \<Longrightarrow> sys_reach e c c''"
  by (induction rule: sys_reach.induct) (blast intro: sys_more)+

lemma play_reach: "play e xs c = Some c' \<Longrightarrow> sys_reach e c c'"
proof (induction xs arbitrary: c)
  case Nil
  then show ?case by (simp add: sys_refl)
next
  case (Cons x xs)
  then obtain d where d: "play_act e x c = Some d" "play e xs d = Some c'" by (simp split: option.splits)
  have "sys_reach e c d" by (rule sys_more [OF sys_refl play_act_step [OF d(1)]])
  then show ?case using sys_reach_trans Cons.IH [OF d(2)] by blast
qed

lemma play_append: "play e (xs @ ys) c = (case play e xs c of None \<Rightarrow> None | Some c' \<Rightarrow> play e ys c')"
  by (induction xs arbitrary: c) (simp_all split: option.split)

lemma evidence_tail_code [code]:
  "evidence_tail report = map_option (\<lambda>t. if int (length t) \<le> 34000 then t else take 34000 t) (mr_summary report)"
  by (cases "mr_summary report") (simp_all add: evidence_tail_def)

definition short_summary :: "string \<Rightarrow> int \<Rightarrow> string list" where
  \<comment> \<open>\<open>summaryLines\<close> with a comparison of binary numbers, for the evaluation of scripts\<close>
  "short_summary summary cap =
     (if int (length summary) \<le> cap then [summary] else summaryLines summary (nat cap))"

lemma summary_unfold [code_unfold]:
  "summaryLines summary 8000 = short_summary summary 8000"
  "summaryLines summary REPORT_CAP = short_summary summary 34000"
  by (simp_all add: short_summary_def summaryLines_def REPORT_CAP_def)

subsection \<open>A script\<close>

definition demo_parse :: "string \<Rightarrow> jsval option" where
  "demo_parse x = (if x = ''{}'' then Some (JObj []) else None)"

definition demo_env :: wf_env where
  "demo_env =
     \<lparr>we_budget = DEFAULT_BUDGET, we_view = True, we_archive = True, we_windowMs = 2, we_cwd = ''/w'', we_main = ''m'',
      we_parse = demo_parse, we_stringify = (\<lambda>_. ''{}''), we_show_num = (\<lambda>_. ''0'')\<rparr>"

definition demo_start :: rt where
  "demo_start =
     \<lparr>rt_disk = [], rt_objs = [], rt_runs = [], rt_agents = [], rt_cold = [], rt_main = ''m'', rt_timers = [], rt_calls = []\<rparr>"

definition demo_answer :: answer where
  "demo_answer =
     \<lparr>an_disk = True, an_proc = PrExited (Some 0) False ''ok'', an_error = [], an_critic = CrNone, an_sent = None,
      an_handle = True, an_notify = True, an_spawn = Inr (''a1'', ''s1'', ''spawned''), an_runId = ''r1'', an_frozen = None,
      an_child = None, an_revived = True\<rparr>"

definition demo_input :: submit_input where
  "demo_input =
     \<lparr>si_description = ''d'', si_prompt = ''p'', si_subagent_type = None, si_model = None, si_isolation = None,
      si_result_schema = Some (JObj [(''type'', JStr ''object'')]), si_acceptance = Some (''make'', None), si_critic = None,
      si_max_attempts = None, si_depends_on = None\<rparr>"

definition demo_report :: managed_report where
  "demo_report =
     \<lparr>mr_agentId = ''a1'', mr_sessionId = ''s1'', mr_outcome = RoCompleted, mr_detail = [], mr_summary = Some ''{}''\<rparr>"

definition demo_submit :: "act list" where
  "demo_submit = ActCall (UStart (Some ''m'') demo_input) # replicate 6 (ActRun 0 demo_answer)"

definition demo_cycle :: "act list" where
  \<comment> \<open>up to the settlement of the task\<close>
  "demo_cycle = ActCall (CStart (''r1'', ''t-r1'') demo_report (KCycle ''a1'')) # replicate 7 (ActRun 1 demo_answer)"

definition demo_stop :: "act list" where
  \<comment> \<open>\<open>task_stop\<close> for the settled task\<close>
  "demo_stop = [ActCall (TStart ''t-r1'' None), ActRun 2 demo_answer]"

definition demo_run :: "nat \<Rightarrow> system option" where
  "demo_run n = play demo_env (demo_submit @ take n demo_cycle) (demo_start, [])"

definition demo_at :: "nat \<Rightarrow> system" where
  "demo_at n = (case demo_run n of Some c \<Rightarrow> c | None \<Rightarrow> (demo_start, []))"

lemma demo_reach: "sys_reach demo_env (demo_start, []) (demo_at n)"
  unfolding demo_at_def demo_run_def by (auto split: option.split intro: play_reach sys_refl)

definition demo_late :: system where
  "demo_late = (case play demo_env demo_stop (demo_at 8) of Some c \<Rightarrow> c | None \<Rightarrow> demo_at 8)"

lemma demo_late_reach: "sys_reach demo_env (demo_at 8) demo_late"
  unfolding demo_late_def by (auto split: option.split intro: play_reach sys_refl)

end
