(* ===== verification/WorkSystemProps.thy ===== *)
theory WorkSystemProps
  imports WorkSteps WorkPlay
begin

text \<open>
  The system of all handlers of the runtime: what holds in every state that calls, deadlines and steps in any order
  and with any answers can reach.
\<close>

subsection \<open>All steps\<close>

lemma seg_ok:
  assumes inv: "rt_inv e s" and m: "map_ok (rt_disk s)" and ok: "pc_ok e s p" and new: "\<And>r c inp. p \<noteq> UOpen r c inp"
  shows "okstep e s (seg e a p s)"
proof (cases p)
  case (PSettleFailed agent)
  then show ?thesis by (auto intro!: ok_plain ok_stay)
next
  case (PCycle q)
  then show ?thesis using ok inv
    by (cases q) (simp_all add: cycle_start_ok cycle_tiers_ok cycle_verify_ok cycle_critic_ok cycle_consume_ok cycle_send_ok cycle_sent_ok)
next
  case (PSettle q)
  show ?thesis
  proof (cases q)
    case (AtSClose i ts c)
    have i: "i < length (rt_objs s)" and c: "closer_ok s i c" using ok PSettle AtSClose by simp_all
    have "okstep e s (close_loop e i ts' c (drop_agent t c s))" for t ts'
      by (rule okstep_cores [OF cores_one [OF plain_ok] close_loop_ok]) (use i c plain_closer [of "drop_agent t c s" s] in simp_all)
    then show ?thesis using PSettle AtSClose close_then [OF i c] by (cases ts) simp_all
  qed (use ok inv PSettle in \<open>simp_all add: finalize_run_ok finalize_doomed_ok deliver_ok mark_ok after_notice_ok closed_run_ok\<close>)
next
  case (PStop q)
  have disk: "\<forall>(r, d)\<in>set (rt_disk s). map_get (rt_disk s) r = Some d"
    using m by (auto simp: map_ok_def map_get_def)
  show ?thesis using ok inv disk PStop
    by (cases q) (simp_all add: stopTask_ok stop_settle_ok settle_run_ok cold_scan_ok deadline_fire_ok deadline_settle_ok)
next
  case (PSubmit q)
  have disp: "okstep e s (submit_dispatched i taskId reply s)" for i taskId reply
    unfolding submit_dispatched_def by (rule ok_plain) simp_all
  have spawn: "okstep e s (submit_spawn e i caller input s)" if "known s i (task_name (ar_runId (obj s i)))" for i caller input
    unfolding submit_spawn_def by (rule ok_plain) (use that in simp_all)
  show ?thesis
  proof (cases q)
    case (AtUOpen r c inp)
    then show ?thesis using new [of r c inp] PSubmit by simp
  qed (use ok inv PSubmit in
    \<open>simp_all add: submit_start_ok submit_task_ok submit_spawned_ok settle_run_ok disp spawn spawn_plain_def ok_stay\<close>)
next
  case (PSession q)
  have disp: "okstep e s (dispose_runtime seen (deadlineClearAll s))" for seen
  proof -
    have c: "core e s (deadlineClearAll s)" by (rule plain_ok) simp_all
    show ?thesis by (rule okstep_cores [OF cores_one [OF c] dispose_ok [OF core_inv [OF c inv]]])
  qed
  show ?thesis using ok inv PSession
    by (cases q) (simp_all add: onSessionAlive_ok rebind_ok rebind_runs_ok rebind_header_ok rebind_disk_ok dispose_ok disp)
next
  case (PRecover q)
  have disp: "okstep e s (recover_tasks e i (tasks_of s i) sc a (armDeadline ref s))" if i: "i < length (rt_objs s)" for i sc ref
  proof -
    have c: "core e s (armDeadline ref s)" by (rule plain_ok) simp_all
    have n: "named (armDeadline ref s) i (tasks_of s i)"
      by (rule named_mono [OF core_grows [OF c] inv_tasks [OF inv i]])
    show ?thesis by (rule okstep_cores [OF cores_one [OF c] recover_tasks_ok [OF n]])
  qed
  have task: "okstep e s (case an_child a of None \<Rightarrow> recover_tasks e i ts sc a s | Some evs \<Rightarrow> recoverTask e i t agent session evs ts sc a s)"
    if "named s i (t # ts)" for i t agent session ts sc
    using that recoverTask_ok [OF inv that] recover_tasks_ok by (auto simp: named_Cons split: option.split)
  show ?thesis using ok inv PRecover
    by (cases q) (simp_all add: scan_ok redispatch_loop_ok redispatch_spawned_ok recover_tasks_ok recover_verify_ok
      after_recovery_ok recover_kick_ok disp task ok_stay)
qed (simp_all add: ok_stay)

subsection \<open>A new run\<close>

lemma new_run:
  assumes inv: "rt_inv e s" and new: "map_get (rt_disk s) r = None" and m: "map_ok (rt_disk s)"
    and q0: "q = seg e a (UOpen r caller input) s"
  shows "rt_inv e (fst q)" "grows s (fst q)" "pc_ok e (fst q) (snd q)" "map_ok (rt_disk (fst q))"
    "set (map_keys (rt_disk (fst q))) \<subseteq> insert r (set (map_keys (rt_disk s)))"
proof -
  let ?sn = "initialSnapshot r caller (we_cwd e)" and ?i = "length (rt_objs s)"
  let ?d = "\<lparr>dk_parent = caller, dk_version = workflowPluginVersion, dk_events = [], dk_locked = False\<rparr>"
  let ?s1 = "s\<lparr>rt_disk := map_set (rt_disk s) r ?d\<rparr>"
  let ?s2 = "open_run r caller ?sn ?s1"
  let ?s3 = "?s2\<lparr>rt_runs := map_set (rt_runs ?s2) r ?i\<rparr>"
  let ?ev = "RunCreated r caller (we_cwd e)"
  have others: "ar_runId o' \<noteq> r" if "o' \<in> set (rt_objs s)" for o'
    using inv that new by (auto simp: rt_inv_def objs_ok_def obj_ok_def in_set_conv_nth)
  have "objs_ok ?s1"
    by (rule objs_ok_disk [of s]) (use inv others in \<open>auto simp: rt_inv_def js_map.get_put\<close>)
  moreover have "runs_ok ?s1" using inv by (simp add: rt_inv_def runs_ok_def)
  moreover have "disk_gated e ?s1" using inv by (auto simp: rt_inv_def disk_gated_def js_map.get_put fold_disk_def)
  ultimately have inv1: "rt_inv e ?s1" by (simp add: rt_inv_def)
  have g1: "grows s ?s1" by (rule grows_disk) (use new same_events in \<open>auto simp: js_map.get_put\<close>)
  have inv2: "rt_inv e ?s2"
    by (rule inv_open [OF inv1, of _ ?d]) (simp_all add: js_map.get_put journal_matches_def)
  have i: "?i < length (rt_objs ?s2)" by (simp add: open_run_def)
  have run: "ar_runId (obj ?s2 ?i) = r" "\<not> ar_closed (obj ?s2 ?i)" "ar_snapshot (obj ?s2 ?i) = ?sn"
    by (simp_all add: open_run_def obj_def)
  have c3: "core e ?s2 ?s3"
  proof (rule core_plain)
    have "set (map_set m k v) \<subseteq> insert (k, v) (set m)" for m :: "(string, nat) jsmap" and k v
      by (induction m k v rule: map_set.induct) auto
    then show "\<forall>(r', j)\<in>set (rt_runs ?s3). (r', j) \<in> set (rt_runs ?s2) \<or> j < length (rt_objs ?s2) \<and> ar_runId (obj ?s2 j) = r'"
      using i run(1) by fastforce
  qed simp_all
  have inv3: "rt_inv e ?s3" by (rule core_inv [OF c3 inv2])
  have g3: "grows s ?s3" using grows_trans [OF grows_trans [OF g1 grows_open] core_grows [OF c3]] .
  have d3: "map_get (rt_disk ?s3) r = Some (?d\<lparr>dk_locked := True\<rparr>)" by (simp add: open_run_def get_set_disk js_map.get_put)
  define s3 where "s3 = ?s3"
  define s4 where "s4 = set_obj ?i (\<lambda>o'. o'\<lparr>ar_snapshot := ?sn\<rparr>) (write_events r [?ev] s3)"
  have objs3: "rt_objs s3 = rt_objs s @ [\<lparr>ar_runId = r, ar_parent = caller, ar_closed = False, ar_snapshot = ?sn\<rparr>]"
    by (simp add: s3_def open_run_def)
  have inv3: "rt_inv e s3" and g3: "grows s s3" using inv3 g3 by (simp_all add: s3_def)
  have d3: "map_get (rt_disk s3) r = Some (?d\<lparr>dk_locked := True\<rparr>)" using d3 by (simp add: s3_def)
  have same: "rt_objs s4 = rt_objs s3"
    by (simp add: s4_def set_obj_def objs3 list_update_append)
  have runs4: "rt_runs s4 = rt_runs s3" by (simp add: s4_def)
  have disk4: "rt_disk s4 = rt_disk (write_events r [?ev] s3)" by (simp add: s4_def)
  have get4: "map_get (rt_disk s4) r' = (if r' = r then Some (?d\<lparr>dk_locked := True, dk_events := [?ev]\<rparr>) else map_get (rt_disk s3) r')" for r'
    unfolding disk4 get_write d3 by simp
  have "obj_ok s4 o'" if el: "o' \<in> set (rt_objs s3)" for o'
  proof -
    have ok: "obj_ok s3 o'" using inv3 el by (auto simp: rt_inv_def objs_ok_def in_set_conv_nth)
    show ?thesis
    proof (cases "o' \<in> set (rt_objs s)")
      case True
      then show ?thesis using ok others by (auto simp: obj_ok_def get4)
    next
      case False
      then have "o' = \<lparr>ar_runId = r, ar_parent = caller, ar_closed = False, ar_snapshot = ?sn\<rparr>"
        using el by (auto simp: objs3)
      then show ?thesis by (simp add: obj_ok_def get4 journal_matches_def)
    qed
  qed
  then have "objs_ok s4" using inv3 unfolding rt_inv_def objs_ok_def same by simp
  moreover have "runs_ok s4" using inv3 unfolding rt_inv_def runs_ok_def same runs4 by simp
  moreover have "snap_gated e evs ?sn" for evs by (simp add: snap_gated_def initialSnapshot_def map_get_def)
  then have "disk_gated e s4"
    using inv3 by (auto simp: rt_inv_def disk_gated_def get4 fold_disk_Some split: if_splits)
  ultimately have inv4: "rt_inv e s4" by (simp add: rt_inv_def)
  have g4: "grows s3 s4"
    by (rule grows_disk [OF same]) (auto simp: get4 d3 intro: same_events)
  have obj3: "obj s3 ?i = \<lparr>ar_runId = r, ar_parent = caller, ar_closed = False, ar_snapshot = ?sn\<rparr>" by (simp add: obj_def objs3)
  have app: "append (an_disk a) ?i ?ev s3 = (if an_disk a then (s4, True) else (s3, False))"
    by (simp add: append_def Let_def obj3 s4_def)
  have q: "q = (case an_frozen a of
        Some reason \<Rightarrow> (s, PDone (RRefused (''spawn-failed:journal '' @ reason)))
      | None \<Rightarrow> if an_disk a then (s4, USubmit ?i caller input) else (s3, PThrown))"
  proof -
    have "q = (case an_frozen a of
        Some reason \<Rightarrow> (s, PDone (RRefused (''spawn-failed:journal '' @ reason)))
      | None \<Rightarrow> go (append (an_disk a) ?i ?ev s3) (USubmit ?i caller input) PThrown)"
      unfolding q0 s3_def seg.simps submit_open_def Let_def by (rule refl)
    then show ?thesis unfolding app by (simp add: go_def split: option.split)
  qed
  have keys3: "map_keys (rt_disk s3) = map_keys (rt_disk s) @ [r]"
    using new by (simp add: s3_def open_run_def js_map.keys_put)
  have keys4: "map_keys (rt_disk s4) = map_keys (rt_disk s) @ [r]"
    unfolding disk4 write_events_def keys_set_disk by (rule keys3)
  have fresh: "r \<notin> set (map_keys (rt_disk s))" using new by (simp add: js_map.keys_get)
  have len4: "?i < length (rt_objs s4)" unfolding same by (simp add: objs3)
  consider (frozen) reason where "an_frozen a = Some reason" | (written) "an_frozen a = None" "an_disk a"
    | (lost) "an_frozen a = None" "\<not> an_disk a" by blast
  note c = this
  show "rt_inv e (fst q)" using c by cases (use q inv inv3 inv4 in simp_all)
  show "grows s (fst q)" using c by cases (use q g3 grows_trans [OF g3 g4] grows_refl in simp_all)
  show "pc_ok e (fst q) (snd q)" using c by cases (use q len4 in simp_all)
  show "map_ok (rt_disk (fst q))"
    using c by cases (use q m keys3 keys4 fresh in \<open>simp_all add: js_map.ok_keys\<close>)
  show "set (map_keys (rt_disk (fst q))) \<subseteq> insert r (set (map_keys (rt_disk s)))"
    using c by cases (use q keys3 keys4 in auto)
qed

subsection \<open>The invariant of the system\<close>

fun sys_ok :: "wf_env \<Rightarrow> system \<Rightarrow> bool" where
  "sys_ok e (s, ps) \<longleftrightarrow> rt_inv e s \<and> map_ok (rt_disk s) \<and> (\<forall>p\<in>set ps. pc_ok e s p)"

fun sys_grows :: "system \<Rightarrow> system \<Rightarrow> bool" where
  "sys_grows (s, ps) (s', ps') = grows s s'"

lemma entry_ok: "entry p \<Longrightarrow> pc_ok e s p"
  by (induction p rule: entry.induct) auto

lemma seg_keeps:
  assumes "rt_inv e s" "map_ok (rt_disk s)" "pc_ok e s p" "\<forall>r c inp. p = UOpen r c inp \<longrightarrow> map_get (rt_disk s) r = None"
    and r: "seg e a p s = (s', p')"
  shows "rt_inv e s' \<and> map_ok (rt_disk s') \<and> pc_ok e s' p' \<and> grows s s'"
proof (cases "\<exists>r c inp. p = UOpen r c inp")
  case True
  then obtain r c inp where p: "p = UOpen r c inp" by blast
  have n: "map_get (rt_disk s) r = None" using assms(4) p by blast
  show ?thesis using new_run [OF assms(1) n assms(2) r [unfolded p, symmetric]] by simp
next
  case False
  then have "okstep e s (s', p')" using seg_ok [OF assms(1-3), of a] r by simp
  then show ?thesis using cores_inv cores_grow assms(1,2) cores_keys by (auto simp: okstep_def js_map.ok_keys)
qed

lemma sys_step_ok: "sys_step e c c' \<Longrightarrow> sys_ok e c \<Longrightarrow> sys_ok e c' \<and> sys_grows c c'"
proof (induction rule: sys_step.induct)
  case (sys_call p s ps)
  then show ?case using entry_ok by (auto intro: grows_refl)
next
  case (sys_timer ref s ps)
  have c: "core e s (clearDeadline ref s)" by (rule plain_ok) simp_all
  show ?case using sys_timer core_inv [OF c] core_grows [OF c] pc_mono [OF core_grows [OF c]] by auto
next
  case (sys_run j ps a s s' p')
  have k: "rt_inv e s' \<and> map_ok (rt_disk s') \<and> pc_ok e s' p' \<and> grows s s'"
    by (rule seg_keeps [of e s "ps ! j" a]) (use sys_run in auto)
  then have "pc_ok e s' p" if "p \<in> set (ps[j := p'])" for p
    using that sys_run.prems pc_mono set_update_subset_insert [of ps j p'] by fastforce
  then show ?case using k by simp
qed

lemma sys_reach_ok: "sys_reach e c c' \<Longrightarrow> sys_ok e c \<Longrightarrow> sys_ok e c' \<and> sys_grows c c'"
proof (induction rule: sys_reach.induct)
  case (sys_refl c)
  then show ?case by (cases c) (simp add: grows_refl)
next
  case (sys_more c c' c'')
  then have "sys_ok e c'" "sys_grows c c'" "sys_ok e c''" "sys_grows c' c''" using sys_step_ok by blast+
  then show ?case by (cases c; cases c'; cases c'') (auto intro: grows_trans)
qed

definition sys_initial :: "wf_env \<Rightarrow> rt \<Rightarrow> bool" where
  \<comment> \<open>nothing is driven; the journals on the disk come from earlier sessions\<close>
  "sys_initial e s \<longleftrightarrow> rt_objs s = [] \<and> rt_runs s = [] \<and> map_ok (rt_disk s) \<and> disk_gated e s"

lemma initial_sys_ok: "sys_initial e s \<Longrightarrow> sys_ok e (s, [])"
  by (simp add: sys_initial_def rt_inv_def objs_ok_def runs_ok_def)

lemma sys_inv: "sys_initial e s0 \<Longrightarrow> sys_reach e (s0, []) (s, ps) \<Longrightarrow> sys_ok e (s, ps)"
  using sys_reach_ok initial_sys_ok by blast

lemma demo_initial: "sys_initial demo_env demo_start"
  by (simp add: sys_initial_def demo_start_def disk_gated_def map_get_def map_ok_def)

lemma demo_objs: "0 < length (rt_objs (fst (demo_at 8)))"
proof -
  have "case rt_objs (fst (demo_at 8)) of [] \<Rightarrow> False | x # xs \<Rightarrow> True" by code_simp
  then show ?thesis by (simp split: list.splits)
qed

subsection \<open>What holds however the handlers interleave\<close>







end
