(* ===== verification/WorkEnds.thy ===== *)
theory WorkEnds
  imports WorkSystem
begin

text \<open>
  Every handler but the loops over all runs comes to its end: a rank of the place where it waits falls with every
  step, whatever the answers are and whatever other handlers do to the state in between.
\<close>

fun simple :: "kont \<Rightarrow> bool" where
  "simple (KRec _ _ _) = False"
| "simple _ = True"

fun simple_notice :: "after_notice \<Rightarrow> bool" where
  "simple_notice (NSettle _ k) = simple k"
| "simple_notice _ = False"

fun simple_closer :: "closer \<Rightarrow> bool" where
  "simple_closer (ClSettle _ k) = simple k"
| "simple_closer _ = False"

fun plain_pc :: "pc \<Rightarrow> bool" where
  \<comment> \<open>the handlers of a cycle, a stop, a deadline and a submission\<close>
  "plain_pc (PCycle (AtCStart _ _ k)) = simple k"
| "plain_pc (PCycle (AtCTiers _ _ _ _ _ _ k)) = simple k"
| "plain_pc (PCycle (AtCVerify _ _ _ _ _ _ k)) = simple k"
| "plain_pc (PCycle (AtCVerifyCatch _ _ _ _ _ _ k)) = simple k"
| "plain_pc (PCycle (AtCCritic _ _ _ _ _ k)) = simple k"
| "plain_pc (PCycle (AtCConsume _ _ _ _ _ _ _ _ k)) = simple k"
| "plain_pc (PCycle (AtCSend _ _ _ _ k)) = simple k"
| "plain_pc (PCycle (AtCSent _ _ _ k)) = simple k"
| "plain_pc (PSettle (AtFStart _ k)) = simple k"
| "plain_pc (PSettle (AtFDoomed _ _ k)) = simple k"
| "plain_pc (PSettle (AtNSend _ n)) = simple_notice n"
| "plain_pc (PSettle (AtNMark _ _ _ n)) = simple_notice n"
| "plain_pc (PSettle (AtNAfter _ n)) = simple_notice n"
| "plain_pc (PSettle (AtSClose _ _ c)) = simple_closer c"
| "plain_pc (PSettle (AtSDelete _ c)) = simple_closer c"
| "plain_pc (PStop _) = True"
| "plain_pc (PSubmit _) = True"
| "plain_pc (PSession _) = False"
| "plain_pc (PRecover _) = False"
| "plain_pc _ = True"

fun rank :: "pc \<Rightarrow> nat \<times> nat" where
  "rank (PDone _) = (0, 0)"
| "rank PThrown = (0, 0)"
| "rank (PSettleFailed _) = (1, 0)"
| "rank (PCycle (AtCStart _ _ _)) = (20, 0)"
| "rank (PCycle (AtCTiers _ _ _ _ tiers _ _)) = (15, 4 * length tiers)"
| "rank (PCycle (AtCVerify _ _ _ _ rest _ _)) = (15, 4 * length rest + 3)"
| "rank (PCycle (AtCVerifyCatch _ _ _ _ rest _ _)) = (15, 4 * length rest + 2)"
| "rank (PCycle (AtCCritic _ _ _ _ rest _)) = (15, 4 * length rest + 2)"
| "rank (PCycle (AtCConsume _ _ _ _ _ _ _ rest _)) = (15, 4 * length rest + 1)"
| "rank (PCycle (AtCSend _ _ _ _ _)) = (14, 1)"
| "rank (PCycle (AtCSent _ _ _ _)) = (14, 0)"
| "rank (PSettle (AtFStart _ _)) = (13, 0)"
| "rank (PSettle (AtFDoomed _ ids _)) = (12, length ids)"
| "rank (PSettle (AtNSend _ _)) = (11, 0)"
| "rank (PSettle (AtNMark _ _ ts _)) = (10, length ts)"
| "rank (PSettle (AtNAfter _ _)) = (9, 0)"
| "rank (PSettle (AtSClose _ ts _)) = (8, length ts)"
| "rank (PSettle (AtSDelete _ _)) = (7, 0)"
| "rank (PStop (AtTStart _ _)) = (22, 0)"
| "rank (PStop (AtTSettle _ _)) = (21, 0)"
| "rank (PStop (AtTRun _ _)) = (20, 0)"
| "rank (PStop (AtTCold _ _)) = (20, 0)"
| "rank (PStop (AtDFire _)) = (22, 0)"
| "rank (PStop (AtDSettle _ _)) = (21, 0)"
| "rank (PSubmit (AtUStart _ _)) = (30, 0)"
| "rank (PSubmit AtUSpawnPlain) = (25, 0)"
| "rank (PSubmit (AtUOpen _ _ _)) = (29, 0)"
| "rank (PSubmit (AtUSubmit _ _ _)) = (28, 0)"
| "rank (PSubmit (AtUSpawn _ _ _)) = (27, 0)"
| "rank (PSubmit (AtUSpawned _ _ _)) = (26, 0)"
| "rank (PSubmit (AtUFailed _ _)) = (25, 0)"
| "rank (PSubmit (AtUDispatched _ _ _)) = (25, 0)"
| "rank _ = (0, 0)"

fun finished :: "pc \<Rightarrow> bool" where
  "finished (PDone _) = True"
| "finished PThrown = True"
| "finished _ = False"

definition below :: "pc \<Rightarrow> pc \<Rightarrow> bool" where
  "below p' p \<longleftrightarrow> plain_pc p' \<and> (rank p', rank p) \<in> less_than <*lex*> less_than"

lemma on_return_plain: "simple k \<Longrightarrow> plain_pc (on_return k) \<and> rank (on_return k) = (0, 0)"
  by (cases k) simp_all

lemma on_throw_plain: "simple k \<Longrightarrow> plain_pc (on_throw k) \<and> fst (rank (on_throw k)) \<le> 1"
  by (cases k) simp_all

lemma notice_throw_plain: "simple_notice n \<Longrightarrow> plain_pc (notice_throw n) \<and> fst (rank (notice_throw n)) \<le> 1"
  using on_throw_plain by (cases n) simp_all

lemma go_snd: "snd (go r next_pc thrown) = next_pc \<or> snd (go r next_pc thrown) = thrown"
  by (simp add: go_def)

lemma below_go:
  assumes "below next_pc p" "below thrown p"
  shows "below (snd (go r next_pc thrown)) p"
  using go_snd [of r next_pc thrown] assms by auto

lemma below_throw: "simple k \<Longrightarrow> 1 < fst (rank p) \<Longrightarrow> below (on_throw k) p"
  using on_throw_plain [of k] by (cases "rank p"; cases "rank (on_throw k)") (auto simp: below_def)

lemma below_notice_throw: "simple_notice n \<Longrightarrow> 1 < fst (rank p) \<Longrightarrow> below (notice_throw n) p"
  using notice_throw_plain [of n] by (cases "rank p"; cases "rank (notice_throw n)") (auto simp: below_def)

lemma below_return: "simple k \<Longrightarrow> 0 < fst (rank p) \<Longrightarrow> below (on_return k) p"
  using on_return_plain [of k] by (cases "rank p") (auto simp: below_def)

lemma below_thrown: "0 < fst (rank p) \<Longrightarrow> below PThrown p"
  by (cases "rank p") (auto simp: below_def)

lemma below_done: "0 < fst (rank p) \<Longrightarrow> below (PDone r) p"
  by (cases "rank p") (auto simp: below_def)

lemmas below_ends = below_go below_throw below_notice_throw below_return below_thrown below_done

lemma below_first: "plain_pc p' \<Longrightarrow> fst (rank p') < fst (rank p) \<Longrightarrow> below p' p"
  by (cases "rank p"; cases "rank p'") (auto simp: below_def)

lemma below_second: "plain_pc p' \<Longrightarrow> fst (rank p') = fst (rank p) \<Longrightarrow> snd (rank p') < snd (rank p) \<Longrightarrow> below p' p"
  by (cases "rank p"; cases "rank p'") (auto simp: below_def)

subsection \<open>The end of a run\<close>

lemma settle_run_below: "simple k \<Longrightarrow> 11 < fst (rank p) \<Longrightarrow> below (snd (settle_run i outc why k a s)) p"
  unfolding settle_run_def by (intro below_ends below_first) auto

lemma finalize_ready_below: "simple k \<Longrightarrow> 11 < fst (rank p) \<Longrightarrow> below (snd (finalize_ready i k a s)) p"
  by (auto simp: finalize_ready_def Let_def intro: settle_run_below below_return)

lemma finalize_doomed_below:
  "simple k \<Longrightarrow> 12 < fst (rank p) \<or> fst (rank p) = 12 \<and> length ids \<le> snd (rank p) \<Longrightarrow> below (snd (finalize_doomed i ids k a s)) p"
proof (induction ids)
  case Nil
  then show ?case by (auto intro!: finalize_ready_below)
next
  case (Cons x ids)
  have "below (snd (finalize_doomed i ids k a s)) p" using Cons by auto
  moreover have "below (FDoomed i ids k) p" using Cons.prems by (cases "rank p") (auto simp: below_def)
  then have "below (snd (go r (FDoomed i ids k) (on_throw k))) p" for r
    using Cons.prems by (intro below_go below_throw) auto
  ultimately show ?case by (auto split: option.split)
qed

lemma mark_below:
  "simple_notice n \<Longrightarrow> 10 < fst (rank p) \<or> fst (rank p) = 10 \<and> length ts \<le> snd (rank p) \<Longrightarrow> below (snd (mark_notified i parent ts n a s)) p"
proof (induction ts)
  case Nil
  then show ?case by (auto intro!: below_first)
next
  case (Cons t ts)
  have "below (NMark i parent ts n) p" using Cons.prems by (cases "rank p") (auto simp: below_def)
  then have "below (snd (go r (NMark i parent ts n) (notice_throw n))) p" for r
    using Cons.prems by (intro below_go below_notice_throw) auto
  then show ?case using Cons by auto
qed

lemma close_loop_below:
  "simple_closer c \<Longrightarrow> 8 < fst (rank p) \<or> fst (rank p) = 8 \<and> length ts < snd (rank p) \<or> fst (rank p) = 8 \<and> ts = [] \<Longrightarrow>
   below (snd (close_loop e i ts c s)) p"
proof (induction ts arbitrary: s)
  case Nil
  then show ?case by (auto intro!: below_first)
next
  case (Cons t ts)
  have "below (SClose i (t # ts) c) p" using Cons.prems by (cases "rank p") (auto simp: below_def)
  moreover have "below (snd (close_loop e i ts c s')) p" for s' using Cons.prems by (intro Cons.IH) auto
  ultimately show ?case by (auto simp: Let_def split: option.split)
qed

lemma after_notice_below: "simple_notice n \<Longrightarrow> 8 < fst (rank p) \<Longrightarrow> below (snd (after_notice_step e i n a s)) p"
  by (cases n) (auto simp: after_notice_step_def Let_def intro: close_loop_below below_return)

lemma closed_below: "simple_closer c \<Longrightarrow> 0 < fst (rank p) \<Longrightarrow> below (snd (closed_run i c s)) p"
  by (cases c) (auto simp: closed_run_def intro: below_return)

subsection \<open>All steps\<close>

lemma cycle_below: "simple k \<Longrightarrow> fst (rank p) = 15 \<Longrightarrow> 4 * length tiers \<le> snd (rank p) \<Longrightarrow>
    below (snd (cycle_tiers e i ref report t tiers label k a s)) p"
proof (cases tiers)
  case Nil
  assume "simple k" "fst (rank p) = 15"
  then have "below (snd (go r (FStart i k) (on_throw k))) p" for r by (intro below_go below_throw below_first) auto
  then show ?thesis using Nil by simp
next
  case (Cons tier rest)
  assume k: "simple k" and p: "fst (rank p) = 15" "4 * length tiers \<le> snd (rank p)"
  have b: "below (CTiers i ref report t rest label k) p" "below (CConsume i ref report t tr v vs rest k) p"
    "below (CVerify i ref report t rest n k) p" "below (CCritic i ref report t rest k) p" for tr v vs n
    using k p Cons by (auto intro!: below_second)
  have "below (snd (go r (CVerify i ref report t rest n k) (on_throw k))) p" for r n
    using b k p by (intro below_go below_throw) auto
  then show ?thesis using Cons b by (cases tier) (auto simp: Let_def split: option.split)
qed

lemma seg_below: "plain_pc p \<Longrightarrow> \<not> finished p \<Longrightarrow> below (snd (seg e a p s)) p"
proof (cases p)
  case (PCycle q)
  assume pl: "plain_pc p"
  show ?thesis
  proof (cases q)
    case (AtCStart ref report k)
    then have k: "simple k" using pl PCycle by simp
    have "below (snd (go r (FStart i k) (on_throw k))) p" for r i
      using PCycle AtCStart k by (intro below_ends below_first) auto
    moreover have "below (CTiers i ref report t tiers [] k) p" "below (on_return k) p" for i t tiers
      using PCycle AtCStart k by (auto intro!: below_first below_return)
    ultimately show ?thesis using PCycle AtCStart by (auto simp: cycle_start_def split: option.split)
  next
    case (AtCTiers i ref report t tiers label k)
    then show ?thesis using pl PCycle by (auto intro!: cycle_below)
  next
    case (AtCVerify i ref report t rest n k)
    have "below (if in_try (an_proc a) then CVerifyCatch i ref report t rest n k else on_throw k) p"
      using pl PCycle AtCVerify by (auto intro!: below_second below_throw)
    moreover have "below (CConsume i ref report t tr v vs rest k) p" for tr v vs
      using pl PCycle AtCVerify by (auto intro!: below_second)
    ultimately show ?thesis using PCycle AtCVerify by (auto simp: cycle_verify_def Let_def intro!: below_go)
  next
    case (AtCVerifyCatch i ref report t rest n k)
    then show ?thesis using pl PCycle
      by (auto simp: cycle_verify_catch_def Let_def intro!: below_go below_second below_throw)
  next
    case (AtCCritic i ref report t rest k)
    then show ?thesis using pl PCycle by (auto simp: cycle_critic_def Let_def intro!: below_second)
  next
    case (AtCConsume i ref report t tier v vs rest k)
    have "below (snd (go r (FStart i k) (on_throw k))) p" for r
      using pl PCycle AtCConsume by (intro below_go below_throw below_first) auto
    moreover have "below (snd (go r (CSend i ref report reply k) (on_throw k))) p" for r reply
      using pl PCycle AtCConsume by (intro below_go below_throw below_first) auto
    moreover have "below (CTiers i ref report t rest label k) p" for label
      using pl PCycle AtCConsume by (auto intro!: below_second)
    ultimately show ?thesis using PCycle AtCConsume by (cases v) (simp_all add: cycle_consume_def Let_def)
  next
    case (AtCSend i ref report reply k)
    then show ?thesis using pl PCycle by (auto simp: cycle_send_def intro!: below_second)
  next
    case (AtCSent i ref driven k)
    have "below (snd (go r (FStart i k) (on_throw k))) p" for r
      using pl PCycle AtCSent by (intro below_go below_throw below_first) auto
    moreover have "below (on_return k) p" using pl PCycle AtCSent by (auto intro!: below_return)
    ultimately have "below (snd (cycle_sent i ref driven k a s)) p" by (simp add: cycle_sent_def split: option.split)
    then show ?thesis using PCycle AtCSent by simp
  qed
next
  case (PSettle q)
  assume pl: "plain_pc p"
  show ?thesis
  proof (cases q)
    case (AtSClose i ts c)
    show ?thesis
    proof (cases ts)
      case Nil
      then show ?thesis using pl PSettle AtSClose by (auto intro!: below_first)
    next
      case (Cons t ts')
      then show ?thesis using pl PSettle AtSClose by (auto intro!: close_loop_below)
    qed
  next
    case (AtNSend i n)
    have "below (snd (mark_notified i parent ts n a s')) p" for parent ts s'
      using pl PSettle AtNSend by (intro mark_below) auto
    moreover have "below (NAfter i n) p" using pl PSettle AtNSend by (auto intro!: below_first)
    ultimately show ?thesis using PSettle AtNSend by (simp add: deliver_def Let_def)
  qed (use pl PSettle in \<open>auto simp: finalize_run_def intro!: finalize_doomed_below mark_below after_notice_below closed_below\<close>)
next
  case (PStop q)
  have cold: "below (snd (cold_scan e entries taskId caller a s)) p" if "0 < fst (rank p)" for entries taskId caller
    using that by (induction entries) (auto simp: Let_def split: option.split intro!: below_done below_thrown)
  have stop: "below (snd (stop_settle i taskId a s)) p" if "20 < fst (rank p)" for i taskId
    using that unfolding stop_settle_def by (intro below_go below_thrown below_first) auto
  have ts: "below (snd (go r (TSettle i taskId) PThrown)) p" if "21 < fst (rank p)" for r i taskId
    using that by (intro below_go below_thrown below_first) auto
  have ds: "below (snd (go r (DSettle i g) PThrown)) p" if "21 < fst (rank p)" for r i g
    using that by (intro below_go below_thrown below_first) auto
  show ?thesis
  proof (cases q)
    case (AtTStart taskId caller)
    then have "21 < fst (rank p)" "20 < fst (rank p)" "below (TCold taskId caller) p" "below (PDone r) p" for r
      using PStop by (simp_all add: below_first below_done)
    then have "below (snd (stopTask taskId caller a s)) p"
      using stop ts by (simp add: stopTask_def split: option.split)
    then show ?thesis using PStop AtTStart by simp
  next
    case (AtDFire ref)
    then have "21 < fst (rank p)" "below (PDone r) p" for r using PStop by (simp_all add: below_done)
    then have "below (snd (deadline_fire e ref a s)) p"
      using ds by (simp add: deadline_fire_def split: option.split)
    then show ?thesis using PStop AtDFire by simp
  next
    case (AtDSettle i agent)
    then show ?thesis using PStop
      by (auto simp: deadline_settle_def finalize_run_def split: option.split intro!: below_first finalize_doomed_below)
  qed (use PStop cold stop in \<open>auto intro!: settle_run_below\<close>)
next
  case (PSubmit q)
  have s1: "below (snd (submit e caller input a s)) p" if "29 < fst (rank p)" for caller input
    using that by (auto simp: submit_def managedSubmit_def Let_def below_first below_done split: option.split)
  have s2: "below (snd (submit_open e r caller input a s)) p" if "28 < fst (rank p)" for r caller input
  proof -
    have "below (snd (go x (USubmit i caller input) PThrown)) p" for x i
      using that by (intro below_go below_thrown below_first) auto
    then show ?thesis using that by (simp add: submit_open_def Let_def below_done split: option.split)
  qed
  have s3: "below (snd (submit_spawned i taskId caller a s)) p" if "25 < fst (rank p)" for i taskId caller
  proof -
    have "below (snd (go x (UFailed i r) PThrown)) p" "below (snd (go x (UDispatched i taskId r) PThrown)) p" for x i r
      using that by (intro below_go below_thrown below_first; simp)+
    then show ?thesis by (simp add: submit_spawned_def Let_def split: sum.split)
  qed
  have s4: "below (snd (submit_task i caller input a s)) p" if "27 < fst (rank p)" for i caller input
    using that unfolding submit_task_def by (intro below_go below_thrown below_first) auto
  show ?thesis
    by (cases q) (use PSubmit s1 s2 s3 s4 in \<open>simp_all add: submit_spawn_def submit_dispatched_def spawn_plain_def
      below_first below_done settle_run_below\<close>)
next
  case (PSettleFailed agent)
  then show ?thesis by (auto intro!: below_done)
qed auto

fun drive :: "wf_env \<Rightarrow> (nat \<Rightarrow> answer) \<Rightarrow> (nat \<Rightarrow> rt) \<Rightarrow> pc \<Rightarrow> nat \<Rightarrow> pc" where
  \<comment> \<open>where a handler is after so many steps, when it gets these answers and finds these states\<close>
  "drive e a st p 0 = p"
| "drive e a st p (Suc n) = snd (seg e (a n) (drive e a st p n) (st n))"

lemma drive_plain: "plain_pc p \<Longrightarrow> plain_pc (drive e a st p n)"
proof (induction n)
  case (Suc n)
  then show ?case
  proof (cases "finished (drive e a st p n)")
    case True
    then show ?thesis by (cases "drive e a st p n") auto
  next
    case False
    then show ?thesis using seg_below [of "drive e a st p n"] Suc by (auto simp: below_def)
  qed
qed simp

lemma drive_ends: "plain_pc p \<Longrightarrow> \<exists>n. finished (drive e a st p n)"
proof (rule ccontr)
  assume p: "plain_pc p" and n: "\<not> (\<exists>n. finished (drive e a st p n))"
  have "(rank (drive e a st p (Suc n)), rank (drive e a st p n)) \<in> less_than <*lex*> less_than" for n
    using seg_below [OF drive_plain [OF p]] \<open>\<not> (\<exists>n. finished (drive e a st p n))\<close> by (auto simp: below_def)
  then have "\<exists>f. \<forall>n. (f (Suc n), f n) \<in> less_than <*lex*> (less_than :: (nat \<times> nat) set)"
    by (intro exI [of _ "\<lambda>n. rank (drive e a st p n)"]) blast
  moreover have "wf (less_than <*lex*> (less_than :: (nat \<times> nat) set))" by (intro wf_lex_prod wf_less_than)
  ultimately show False unfolding wf_iff_no_infinite_down_chain by blast
qed

text \<open>C20: The end of a cycle, a stop, a deadline and a submission are each handled to the end in finitely many steps,
  whatever commands, critics, deliveries and the disk answer, and whatever other handlers do to the state
  between two steps.\<close>

theorem handlers_end:
  "(\<exists>n. finished (drive e a st (CStart ref report (KCycle agent)) n)) \<and>
   (\<exists>n. finished (drive e a st (TStart taskId stopper) n)) \<and>
   (\<exists>n. finished (drive e a st (DFire ref) n)) \<and>
   (\<exists>n. finished (drive e a st (UStart caller input) n))"
  by (intro conjI drive_ends) simp_all

end
