(* ===== verification/WorkFindings.thy ===== *)
theory WorkFindings
  imports WorkPlay WorkCore
begin

text \<open>What the model of the runtime shows where the code, its comments and its tests do not agree.\<close>

subsection \<open>Budgets and markers\<close>

text \<open>The command tier gives up one attempt before the library's own rule does.\<close>

lemma command_tier_gives_up_early:
  assumes "outc \<noteq> VPassed" "code \<noteq> Some 0" "used + 1 = bg_repairs b"
  shows "commandVerdictOf outc code used (bg_repairs b) = Fail (''command tier budget exhausted (exit '' @ show_exit code @ '')'')"
    "adjudicate TCommand (EvCommand code output) b \<lparr>ub_repairs = used, ub_reopens = r\<rparr> =
       Reject [''command exited with code '' @ show_exit code]"
  using assms by (auto simp: commandVerdictOf_def adjudicate_def budget_left_def)

text \<open>After a first failed command the feedback carries the marker of attempt 2, and the recovery looks for attempt 1.\<close>

lemma command_marker_is_not_found:
  assumes t: "map_get (rs_tasks sn) x = Some t" and n: "wt_status t \<noteq> Settled" "wt_repairs t = 0" "wt_verifyAttempts t = 1"
    and st: "wf_step sn (RepairIssued x TCommand (attemptOf TCommand (Some t) + 1) v d) = Inr sn'"
    and t': "map_get (rs_tasks sn') x = Some t'"
  shows "marker x (attemptOf TCommand (Some t) + 1) \<noteq> marker x (wt_repairs t')"
proof -
  have "wt_repairs t' = 1" using t n st t' by (auto simp: withTask_def advance_def put_task_def js_map.get_put)
  moreover have "show_nat (Suc 0) \<noteq> show_nat (Suc (Suc 0))" by code_simp
  ultimately show ?thesis using n by (simp add: marker_def attemptOf_def)
qed

subsection \<open>A run whose creation was not written\<close>

definition demo_no_disk :: answer where
  "demo_no_disk = demo_answer\<lparr>an_disk := False\<rparr>"

definition demo_failed_create :: "act list" where
  \<comment> \<open>the creation is refused by the disk; then the session is rebound\<close>
  "demo_failed_create =
     [ActCall (UStart (Some ''m'') demo_input), ActRun 0 demo_answer, ActRun 0 demo_no_disk,
      ActCall (BStart ''n''), ActRun 1 demo_answer]"

text \<open>The run stays in the table of driven runs, so that a rebind writes to its empty journal, which is frozen after that.\<close>

lemma failed_create_freezes:
  "case play demo_env demo_failed_create (demo_start, []) of
     None \<Rightarrow> False
   | Some (s, ps) \<Rightarrow> ps ! 0 = PThrown \<and> events_of s 0 = [RunRebound ''m'' ''n''] \<and>
       (case map_get (rt_disk s) ''r1'' of None \<Rightarrow> False | Some d \<Rightarrow> (case fold_disk d of None \<Rightarrow> True | Some _ \<Rightarrow> False))"
  by code_simp

subsection \<open>A run that stopped between its task's settlement and its own\<close>

definition demo_restart :: system where
  \<comment> \<open>the process ends after the settlement of the task; another one starts on the same disk\<close>
  "demo_restart =
     (demo_start\<lparr>rt_disk := map (\<lambda>p. (fst p, (snd p)\<lparr>dk_locked := False\<rparr>)) (rt_disk (fst (demo_at 8)))\<rparr>, [])"

definition demo_recover :: "act list" where
  "demo_recover = ActCall XStart # replicate 5 (ActRun 0 demo_answer)"

text \<open>The recovery delivers the notification, but nothing settles the run: it stays open, driven and on disk.\<close>

lemma recovered_run_stays_open:
  "case play demo_env demo_recover demo_restart of
     None \<Rightarrow> False
   | Some (s, ps) \<Rightarrow> ps = [PDone (RScan 1 0)] \<and> rs_notified (ar_snapshot (obj s 0)) = [''t-r1''] \<and>
       rs_status (ar_snapshot (obj s 0)) = RunOpen \<and> \<not> ar_closed (obj s 0) \<and> map_get (rt_runs s) ''r1'' = Some 0"
  by code_simp

subsection \<open>A stop that comes too late\<close>

text \<open>The answer says the run was settled as cancelled; the task and the run are completed.\<close>

lemma late_stop_claims_cancelled:
  "case play demo_env (demo_stop @ replicate 7 (ActRun 2 demo_answer)) (demo_at 8) of
     None \<Rightarrow> False
   | Some (s, ps) \<Rightarrow> ps ! 2 = PDone (RText ''stopped t-r1 (run settled: cancelled)'') \<and>
       (case task_of s 0 ''t-r1'' of None \<Rightarrow> False | Some t \<Rightarrow> wt_outcome t = Some Completed)"
  by code_simp

end
